(* ===== verification/Prelude.thy ===== *)
theory Prelude
  imports Main "HOL-Library.Word" "HOL-Library.Sublist"
begin

text \<open>
  Shared vocabulary of the development.

  The C++ code works on byte strings (\<^verbatim>\<open>std::string\<close>, \<^verbatim>\<open>std::string_view\<close>): a byte is a
  \<^typ>\<open>char\<close>, a string a list of them. A function that reports failure through an
  \<^verbatim>\<open>std::string& error\<close> argument and a \<^verbatim>\<open>bool\<close> result, or by an exception, returns a value of
  \<open>'a res\<close>, with the error message on the left. The theory also holds the standard library
  functions on strings that several components call (\<^verbatim>\<open>find\<close>, \<^verbatim>\<open>to_string\<close>,
  \<^verbatim>\<open>from_chars\<close>, \<^verbatim>\<open>tolower\<close> and the \<^verbatim>\<open>is...\<close> classes in the C locale) and generic lemmas
  about lists, results and words.
\<close>

named_theorems byte_simps \<open>classification of characters by their code\<close>
named_theorems res_simps \<open>case analysis on results\<close>

type_synonym 'a res = "string + 'a"
type_synonym u8 = "8 word"
type_synonym u16 = "16 word"
type_synonym u32 = "32 word"
type_synonym u64 = "64 word"

section \<open>Results\<close>

fun res_map :: "('a \<Rightarrow> 'b) \<Rightarrow> 'e + 'a \<Rightarrow> 'e + 'b" where
  "res_map f (Inl e) = Inl e"
| "res_map f (Inr x) = Inr (f x)"

fun res_bind :: "'e + 'a \<Rightarrow> ('a \<Rightarrow> 'e + 'b) \<Rightarrow> 'e + 'b" where
  "res_bind (Inl e) f = Inl e"
| "res_bind (Inr x) f = f x"

text \<open>The operations hold for any type of errors.\<close>

text \<open>A prefix in front of the message of an error (\<^verbatim>\<open>error = label + ": " + error\<close>).\<close>

fun res_label :: "string \<Rightarrow> 'a res \<Rightarrow> 'a res" where
  "res_label l (Inl e) = Inl (l @ e)"
| "res_label l (Inr x) = Inr x"

text \<open>A loop over a list that stops at the first failing element.\<close>

fun res_traverse :: "('a \<Rightarrow> 'e + 'b) \<Rightarrow> 'a list \<Rightarrow> 'e + 'b list" where
  "res_traverse f [] = Inr []"
| "res_traverse f (x # xs) =
     res_bind (f x) (\<lambda>y. res_map ((#) y) (res_traverse f xs))"

definition is_ok :: "'e + 'a \<Rightarrow> bool" where
  "is_ok r \<longleftrightarrow> (case r of Inl _ \<Rightarrow> False | Inr _ \<Rightarrow> True)"

lemma is_ok_simps [simp]: "is_ok (Inr x)" "\<not> is_ok (Inl e)"
  by (simp_all add: is_ok_def)

lemma res_map_Inr [simp]: "res_map f r = Inr y \<longleftrightarrow> (\<exists>x. r = Inr x \<and> y = f x)"
  by (cases r) auto

lemma res_map_Inl [simp]: "res_map f r = Inl e \<longleftrightarrow> r = Inl e"
  by (cases r) auto

lemma res_bind_Inr [simp]: "res_bind r f = Inr y \<longleftrightarrow> (\<exists>x. r = Inr x \<and> f x = Inr y)"
  by (cases r) auto

lemma res_label_Inr [simp]: "res_label l r = Inr y \<longleftrightarrow> r = Inr y"
  by (cases r) auto

lemma res_bind_cong [fundef_cong]:
  "r = r' \<Longrightarrow> (\<And>x. r' = Inr x \<Longrightarrow> f x = g x) \<Longrightarrow> res_bind r f = res_bind r' g"
  by (cases r') auto

lemma res_traverse_cong [fundef_cong]:
  "xs = ys \<Longrightarrow> (\<And>x. x \<in> set ys \<Longrightarrow> f x = g x) \<Longrightarrow> res_traverse f xs = res_traverse g ys"
  by (induction ys arbitrary: xs) auto

lemma res_traverse_length: "res_traverse f xs = Inr ys \<Longrightarrow> length ys = length xs"
  by (induction xs arbitrary: ys) auto

lemma res_traverse_list_all2:
  "res_traverse f xs = Inr ys \<longleftrightarrow> list_all2 (\<lambda>x y. f x = Inr y) xs ys"
proof (induction xs arbitrary: ys)
  case Nil
  then show ?case by auto
next
  case (Cons x xs)
  then show ?case by (cases ys) auto
qed

lemma res_traverse_map_Inr:
  "(\<And>x. x \<in> set xs \<Longrightarrow> f (g x) = Inr (h x)) \<Longrightarrow> res_traverse f (map g xs) = Inr (map h xs)"
  by (induction xs) auto

section \<open>Bytes and character classes\<close>

text \<open>The value of a byte as \<^verbatim>\<open>unsigned char\<close>.\<close>

abbreviation code :: "char \<Rightarrow> nat" where
  "code c \<equiv> of_char c"

definition in_range :: "char \<Rightarrow> char \<Rightarrow> char \<Rightarrow> bool" where
  "in_range lo hi c \<longleftrightarrow> code lo \<le> code c \<and> code c \<le> code hi"

definition is_digit :: "char \<Rightarrow> bool" where
  "is_digit c \<longleftrightarrow> in_range CHR ''0'' CHR ''9'' c"

definition is_lower :: "char \<Rightarrow> bool" where
  "is_lower c \<longleftrightarrow> in_range CHR ''a'' CHR ''z'' c"

definition is_upper :: "char \<Rightarrow> bool" where
  "is_upper c \<longleftrightarrow> in_range CHR ''A'' CHR ''Z'' c"

definition is_alnum :: "char \<Rightarrow> bool" where
  "is_alnum c \<longleftrightarrow> is_digit c \<or> is_lower c \<or> is_upper c"

text \<open>\<^verbatim>\<open>std::isspace\<close>: tab, newline, vertical tab, form feed, carriage return, blank.\<close>

definition is_space :: "char \<Rightarrow> bool" where
  "is_space c \<longleftrightarrow> code c = 32 \<or> (9 \<le> code c \<and> code c \<le> 13)"

definition is_control :: "char \<Rightarrow> bool" where
  "is_control c \<longleftrightarrow> code c < 32 \<or> code c = 127"

definition to_lower :: "char \<Rightarrow> char" where
  "to_lower c = (if is_upper c then char_of (code c + 32) else c)"

definition lower_copy :: "string \<Rightarrow> string" where
  "lower_copy s = map to_lower s"

definition contains_control :: "string \<Rightarrow> bool" where
  "contains_control s \<longleftrightarrow> list_ex is_control s"

lemmas char_class_defs [byte_simps] =
  in_range_def is_digit_def is_lower_def is_upper_def is_alnum_def is_space_def is_control_def

lemma code_less [simp]: "code c < 256"
  by (metis of_char_of range_eqI range_nat_of_char UNIV_I atLeastLessThan_iff imageI)

lemma char_eq_code: "c = d \<longleftrightarrow> code c = code d"
  by simp

lemma code_char_of [simp]: "n < 256 \<Longrightarrow> code (char_of n) = n"
  by simp

lemma to_lower_code:
  "code (to_lower c) = (if is_upper c then code c + 32 else code c)"
  by (auto simp: to_lower_def byte_simps)

lemma to_lower_not_upper [simp]: "\<not> is_upper (to_lower c)"
  unfolding is_upper_def in_range_def to_lower_code by (auto simp: byte_simps)

lemma to_lower_idem [simp]: "to_lower (to_lower c) = to_lower c"
  by (simp add: to_lower_def [of "to_lower c"])

lemma lower_copy_idem [simp]: "lower_copy (lower_copy s) = lower_copy s"
  by (simp add: lower_copy_def)

lemma lower_copy_simps [simp]:
  "lower_copy [] = []" "lower_copy (c # s) = to_lower c # lower_copy s"
  "lower_copy (s @ t) = lower_copy s @ lower_copy t" "length (lower_copy s) = length s"
  "lower_copy s = [] \<longleftrightarrow> s = []"
  by (simp_all add: lower_copy_def)

lemma set_lower_copy_not_upper: "c \<in> set (lower_copy s) \<Longrightarrow> \<not> is_upper c"
  by (auto simp: lower_copy_def)

lemma lower_copy_id: "(\<And>c. c \<in> set s \<Longrightarrow> \<not> is_upper c) \<Longrightarrow> lower_copy s = s"
  by (auto simp: lower_copy_def to_lower_def intro: map_idI)

section \<open>Searching and splitting strings\<close>

text \<open>\<^verbatim>\<open>std::string::find\<close> of a character and of a string; \<^term>\<open>None\<close> is \<^verbatim>\<open>npos\<close>.\<close>

fun find_char :: "char \<Rightarrow> string \<Rightarrow> nat option" where
  "find_char c [] = None"
| "find_char c (x # xs) = (if x = c then Some 0 else map_option Suc (find_char c xs))"

fun find_str :: "string \<Rightarrow> string \<Rightarrow> nat option" where
  "find_str n [] = (if n = [] then Some 0 else None)"
| "find_str n (x # xs) =
     (if take (length n) (x # xs) = n then Some 0 else map_option Suc (find_str n xs))"

definition rfind_char :: "char \<Rightarrow> string \<Rightarrow> nat option" where
  "rfind_char c s = map_option (\<lambda>i. length s - Suc i) (find_char c (rev s))"

definition starts_with :: "string \<Rightarrow> string \<Rightarrow> bool" where
  "starts_with p s \<longleftrightarrow> take (length p) s = p"

text \<open>
  The loop \<^verbatim>\<open>while (true) { end = s.find(c, start); ...; if (end == npos) break; start = end + 1; }\<close>:
  the pieces of a string between the occurrences of a separator.
\<close>

fun split_on :: "char \<Rightarrow> string \<Rightarrow> string list" where
  "split_on c [] = [[]]"
| "split_on c (x # xs) =
     (if x = c then [] # split_on c xs
      else (case split_on c xs of [] \<Rightarrow> [[x]] | y # ys \<Rightarrow> (x # y) # ys))"

fun join_on :: "char \<Rightarrow> string list \<Rightarrow> string" where
  "join_on c [] = []"
| "join_on c [s] = s"
| "join_on c (s # t # ts) = s @ c # join_on c (t # ts)"

lemma find_char_None: "find_char c s = None \<longleftrightarrow> c \<notin> set s"
  by (induction s) auto

lemma find_char_Some:
  "find_char c s = Some i \<longleftrightarrow> i < length s \<and> s ! i = c \<and> c \<notin> set (take i s)"
proof (induction s arbitrary: i)
  case Nil
  then show ?case by simp
next
  case (Cons x xs)
  then show ?case by (cases i) auto
qed

lemma find_char_append: "c \<notin> set s \<Longrightarrow> find_char c (s @ c # t) = Some (length s)"
  by (induction s) auto

lemma find_char_append_notin: "c \<notin> set s \<Longrightarrow> find_char c (s @ t) = map_option ((+) (length s)) (find_char c t)"
  by (induction s; cases "find_char c t") auto

lemma starts_with_append [simp]: "starts_with p (p @ s)"
  by (simp add: starts_with_def)

lemma starts_with_prefix: "starts_with p s \<longleftrightarrow> prefix p s"
  by (metis append_eq_conv_conj prefix_def starts_with_def append_take_drop_id)

lemma find_str_None: "find_str n s = None \<longleftrightarrow> \<not> sublist n s"
proof (induction s)
  case Nil
  then show ?case by auto
next
  case (Cons x xs)
  have "take (length n) (x # xs) = n \<longleftrightarrow> prefix n (x # xs)"
    using starts_with_prefix [of n "x # xs"] by (simp add: starts_with_def)
  with Cons show ?case
    by (auto simp: sublist_Cons_right)
qed

lemma split_on_ne [simp]: "split_on c s \<noteq> []"
  by (induction s) (auto split: list.splits)

lemma join_split [simp]: "join_on c (split_on c s) = s"
proof (induction s)
  case Nil
  then show ?case by simp
next
  case (Cons x xs)
  obtain y ys where eq: "split_on c xs = y # ys"
    by (cases "split_on c xs") auto
  with Cons show ?case by (cases ys) auto
qed

lemma split_on_sep_free: "t \<in> set (split_on c s) \<Longrightarrow> c \<notin> set t"
  by (induction s arbitrary: t) (auto split: list.splits if_splits)

lemma split_on_free: "c \<notin> set s \<Longrightarrow> split_on c s = [s]"
  by (induction s) auto

lemma split_on_append: "c \<notin> set s \<Longrightarrow> split_on c (s @ c # t) = s # split_on c t"
  by (induction s) auto

lemma split_join:
  "ss \<noteq> [] \<Longrightarrow> (\<And>s. s \<in> set ss \<Longrightarrow> c \<notin> set s) \<Longrightarrow> split_on c (join_on c ss) = ss"
  by (induction c ss rule: join_on.induct) (auto simp: split_on_free split_on_append)

lemma split_on_chars: "t \<in> set (split_on c s) \<Longrightarrow> set t \<subseteq> set s"
  by (induction s arbitrary: t) (fastforce split: list.splits if_splits)+

section \<open>Decimal numbers\<close>

definition digit_char :: "nat \<Rightarrow> char" where
  "digit_char d = char_of (48 + d)"

definition digit_value :: "char \<Rightarrow> nat" where
  "digit_value c = code c - 48"

text \<open>\<^verbatim>\<open>std::to_string\<close> of an unsigned number.\<close>

fun string_of_nat :: "nat \<Rightarrow> string" where
  "string_of_nat n = (if n < 10 then [digit_char n] else string_of_nat (n div 10) @ [digit_char (n mod 10)])"

declare string_of_nat.simps [simp del]

definition string_of_int :: "int \<Rightarrow> string" where
  "string_of_int i = (if i < 0 then CHR ''-'' # string_of_nat (nat (- i)) else string_of_nat (nat i))"

definition digits_value :: "nat \<Rightarrow> string \<Rightarrow> nat" where
  "digits_value = foldl (\<lambda>v c. v * 10 + digit_value c)"

text \<open>
  \<^verbatim>\<open>std::from_chars\<close> into an unsigned type with maximum \<open>m\<close>, followed by the check that the
  whole text was consumed: at least one digit, nothing but digits, no overflow.
\<close>

definition from_chars_all :: "nat \<Rightarrow> string \<Rightarrow> nat option" where
  "from_chars_all m s =
     (if s \<noteq> [] \<and> list_all is_digit s \<and> digits_value 0 s \<le> m
      then Some (digits_value 0 s) else None)"

lemma is_digit_digit_char [simp]: "d < 10 \<Longrightarrow> is_digit (digit_char d)"
  by (simp add: digit_char_def byte_simps)

lemma digit_value_digit_char [simp]: "d < 10 \<Longrightarrow> digit_value (digit_char d) = d"
  by (simp add: digit_char_def digit_value_def)

lemma string_of_nat_ne [simp]: "string_of_nat n \<noteq> []"
  by (subst string_of_nat.simps) simp

lemma string_of_nat_digits: "list_all is_digit (string_of_nat n)"
proof (induction n rule: string_of_nat.induct)
  case (1 n)
  then show ?case by (subst string_of_nat.simps) simp
qed

lemma digits_value_string_of_nat [simp]: "digits_value 0 (string_of_nat n) = n"
proof (induction n rule: string_of_nat.induct)
  case (1 n)
  then show ?case
    by (subst string_of_nat.simps) (auto simp: digits_value_def)
qed

lemma from_chars_all_string_of_nat [simp]: "n \<le> m \<Longrightarrow> from_chars_all m (string_of_nat n) = Some n"
  by (simp add: from_chars_all_def string_of_nat_digits)

lemma string_of_nat_inj: "string_of_nat a = string_of_nat b \<Longrightarrow> a = b"
  by (metis digits_value_string_of_nat)

lemma from_chars_all_Some:
  "from_chars_all m s = Some v \<Longrightarrow> v \<le> m \<and> s \<noteq> [] \<and> list_all is_digit s \<and> v = digits_value 0 s"
  by (auto simp: from_chars_all_def split: if_splits)

lemma digits_value_append: "digits_value v (s @ [c]) = digits_value v s * 10 + digit_value c"
  by (simp add: digits_value_def)

lemma digits_value_ge: "v \<le> digits_value v s"
proof (induction s arbitrary: v)
  case (Cons c s)
  have "v \<le> v * 10 + digit_value c" by simp
  also have "\<dots> \<le> digits_value (v * 10 + digit_value c) s" by (rule Cons)
  finally show ?case by (simp add: digits_value_def)
qed (simp add: digits_value_def)

lemma digit_value_le: "is_digit c \<Longrightarrow> digit_value c \<le> 9"
  by (auto simp: digit_value_def byte_simps)

section \<open>Casts between words\<close>

lemma unat_ucast_up:
  fixes w :: "'a::len word"
  assumes "LENGTH('a) \<le> LENGTH('b::len)"
  shows "unat (ucast w :: 'b word) = unat w"
proof -
  have "unat w < 2 ^ LENGTH('a)" by (rule unsigned_less)
  also have "\<dots> \<le> 2 ^ LENGTH('b)" using assms by (simp add: power_increasing)
  finally show ?thesis by (simp add: unsigned_ucast_eq take_bit_nat_eq_self)
qed

lemma ucast_ucast_up:
  fixes w :: "'a::len word"
  assumes "LENGTH('a) \<le> LENGTH('b::len)"
  shows "ucast (ucast w :: 'b word) = w"
  by (rule bit_word_eqI) (use assms in \<open>auto simp: bit_simps\<close>)

lemma ucast_up_eq_0:
  fixes w :: "'a::len word"
  assumes "LENGTH('a) \<le> LENGTH('b::len)"
  shows "(ucast w :: 'b word) = 0 \<longleftrightarrow> w = 0"
  by (metis assms ucast_0 ucast_ucast_up)

lemma ucast_scast_up:
  fixes w :: "'a::len word"
  assumes "LENGTH('a) \<le> LENGTH('b::len)"
  shows "ucast (scast w :: 'b word) = w"
  by (rule bit_word_eqI) (use assms in \<open>auto simp: bit_simps\<close>)

lemma sint_scast_32: "sint (scast (w::32 word) :: u64) = sint w" by (simp add: sint_up_scast is_up)

lemma uint_nonneg_sint: 
  fixes w :: "'a::len word"
  assumes "0 \<le> sint w" shows "uint w = sint w"
proof -
  have "sint w < 2 ^ (LENGTH('a) - 1)" using sint_less [of w] by simp
  also have "\<dots> \<le> 2 ^ LENGTH('a)" by (simp add: power_increasing)
  finally show ?thesis using assms by (simp add: uint_sint take_bit_int_eq_self)
qed

lemma unat_scast_32: "0 \<le> sint (w :: 32 word) \<Longrightarrow> unat (scast w :: u64) \<le> 2147483647"
  using sint_less [of w] uint_nonneg_sint [of "scast w :: u64"] by (simp add: sint_scast_32 unat_eq_nat_uint)
end
