(* ===== verification/Url.thy ===== *)
theory Url
  imports Prelude
begin

text \<open>
  The URL component, \<^verbatim>\<open>src/core/url.cpp\<close>: parsing an upstream URL into scheme, host, port and
  base path, canonicalising a request path, and joining a base path with a route path. The
  exceptions of \<^verbatim>\<open>parse_http_url\<close> and the \<^verbatim>\<open>error\<close> argument of \<^verbatim>\<open>canonicalize_http_path\<close> are the
  left values of a result. Shown here: a canonical path is a fixed point of the
  canonicalisation and has no dot segment, no empty segment, no raw control byte and no
  escape of an unreserved byte; printing and parsing a URL round-trip.
\<close>

section \<open>Definitions\<close>

record parsed_url =
  url_secure :: bool
  url_host :: string
  url_port :: nat
  url_base_path :: string

definition parse_port :: "string \<Rightarrow> nat res" where
  "parse_port text =
     (case from_chars_all 4294967295 text of
        None \<Rightarrow> Inl ''invalid upstream port''
      | Some value \<Rightarrow>
          if value = 0 \<or> value > 65535 then Inl ''invalid upstream port''
          else Inr (value mod 2 ^ 16))"

definition is_hex :: "char \<Rightarrow> bool" where
  "is_hex ch \<longleftrightarrow> in_range CHR ''0'' CHR ''9'' ch
     \<or> in_range CHR ''a'' CHR ''f'' ch \<or> in_range CHR ''A'' CHR ''F'' ch"

definition hex_value :: "char \<Rightarrow> nat" where
  "hex_value ch =
     (if in_range CHR ''0'' CHR ''9'' ch then code ch - code CHR ''0''
      else if in_range CHR ''a'' CHR ''f'' ch then code ch - code CHR ''a'' + 10
      else code ch - code CHR ''A'' + 10)"

definition upper_hex :: "nat \<Rightarrow> char" where
  "upper_hex value =
     (if value < 10 then char_of (code CHR ''0'' + value) else char_of (code CHR ''A'' + value - 10))"

definition is_unreserved :: "char \<Rightarrow> bool" where
  "is_unreserved ch \<longleftrightarrow> in_range CHR ''a'' CHR ''z'' ch \<or> in_range CHR ''A'' CHR ''Z'' ch
     \<or> in_range CHR ''0'' CHR ''9'' ch
     \<or> ch = CHR ''-'' \<or> ch = CHR ''.'' \<or> ch = CHR ''_'' \<or> ch = CHR ''~''"

text \<open>Dropping the trailing dots of a host (the \<^verbatim>\<open>pop_back\<close> loop).\<close>

definition strip_trailing_dots :: "string \<Rightarrow> string" where
  "strip_trailing_dots s = rev (dropWhile (\<lambda>c. c = CHR ''.'') (rev s))"

text \<open>The host and port part of \<^verbatim>\<open>parse_http_url\<close>, given the scheme's default port.\<close>

definition parse_authority :: "nat \<Rightarrow> string \<Rightarrow> (string \<times> nat) res" where
  "parse_authority default_port authority =
     (if hd authority = CHR ''['' then
        (case find_char CHR '']'' authority of
           None \<Rightarrow> Inl ''invalid IPv6 upstream host''
         | Some closing \<Rightarrow>
             let host = take (closing - 1) (drop 1 authority) in
             if closing + 1 < length authority then
               if authority ! (closing + 1) \<noteq> CHR '':'' then Inl ''invalid upstream authority''
               else res_map (Pair host) (parse_port (drop (closing + 2) authority))
             else Inr (host, default_port))
      else
        (case (find_char CHR '':'' authority, rfind_char CHR '':'' authority) of
           (Some first_colon, Some last_colon) \<Rightarrow>
             if first_colon \<noteq> last_colon then Inl ''IPv6 upstream hosts must use brackets''
             else res_map (Pair (take last_colon authority))
                    (parse_port (drop (last_colon + 1) authority))
         | _ \<Rightarrow> Inr (authority, default_port)))"

definition parse_http_url :: "string \<Rightarrow> parsed_url res" where
  "parse_http_url raw_url =
     (case find_str ''://'' raw_url of
        None \<Rightarrow> Inl ''upstream URL must start with http:// or https://''
      | Some scheme_end \<Rightarrow>
          let scheme = lower_copy (take scheme_end raw_url) in
          if scheme \<noteq> ''http'' \<and> scheme \<noteq> ''https''
          then Inl ''upstream URL must start with http:// or https://''
          else
            let secure = (scheme = ''https'');
                default_port = (if secure then 443 else 80);
                rest = drop (scheme_end + 3) raw_url;
                slash = find_char CHR ''/'' rest;
                authority = (case slash of None \<Rightarrow> rest | Some i \<Rightarrow> take i rest);
                base_path = (case slash of None \<Rightarrow> ''/'' | Some i \<Rightarrow> drop i rest)
            in if authority = [] \<or> find_char CHR ''@'' authority \<noteq> None
               then Inl ''invalid upstream authority''
               else res_bind (parse_authority default_port authority) (\<lambda>(raw_host, port).
                 let host = strip_trailing_dots (lower_copy raw_host) in
                 if host = [] then Inl ''upstream host is empty''
                 else Inr \<lparr>url_secure = secure, url_host = host, url_port = port,
                           url_base_path = (if base_path = [] then ''/'' else base_path)\<rparr>))"

definition forbidden_path_char :: "char \<Rightarrow> bool" where
  "forbidden_path_char ch \<longleftrightarrow> code ch < 32 \<or> code ch = 127
     \<or> ch = CHR ''?'' \<or> ch = CHR ''#'' \<or> ch = CHR 0x5C"

text \<open>What the decoding loop of \<^verbatim>\<open>canonicalize_http_path\<close> emits for an escape \<open>%hl\<close>.\<close>

definition canon_escape :: "char \<Rightarrow> char \<Rightarrow> string res" where
  "canon_escape h l =
     (if \<not> is_hex h \<or> \<not> is_hex l then Inl ''path contains an invalid percent escape''
      else
        let decoded = char_of (hex_value h * 16 + hex_value l) in
        if code decoded < 32 \<or> code decoded = 127
        then Inl ''path must not encode control characters''
        else if decoded = CHR ''.'' \<or> decoded = CHR ''/'' \<or> decoded = CHR 0x5C
        then Inl ''path must not encode dot or path separators''
        else if is_unreserved decoded then Inr [decoded]
        else Inr [CHR ''%'', upper_hex (code decoded div 16), upper_hex (code decoded mod 16)])"

text \<open>The decoding loop, on the rest of the path.\<close>

fun canon_loop :: "string \<Rightarrow> string res" where
  "canon_loop [] = Inr []"
| "canon_loop (ch # rest) =
     (if forbidden_path_char ch
      then Inl ''path must not contain control characters, query, fragment, or backslash''
      else if ch \<noteq> CHR ''%'' then res_map ((#) ch) (canon_loop rest)
      else (case rest of
              h # l # rest' \<Rightarrow>
                res_bind (canon_escape h l) (\<lambda>out. res_map ((@) out) (canon_loop rest'))
            | _ \<Rightarrow> Inl ''path contains an invalid percent escape''))"

definition is_dot_segment :: "string \<Rightarrow> bool" where
  "is_dot_segment segment \<longleftrightarrow> segment = ''.'' \<or> segment = ''..''"

definition canonicalize_http_path :: "string \<Rightarrow> string res" where
  "canonicalize_http_path raw_path =
     (if raw_path = [] \<or> hd raw_path \<noteq> CHR ''/'' then Inl ''path must start with /''
      else if length raw_path > 2048 then Inl ''path exceeds the maximum length of 2048 bytes''
      else res_bind (canon_loop raw_path) (\<lambda>candidate.
        if find_str ''//'' candidate \<noteq> None then Inl ''path must not contain duplicate separators''
        else if list_ex is_dot_segment (split_on CHR ''/'' (drop 1 candidate))
        then Inl ''path must not contain dot segments''
        else Inr (if length candidate > 1 \<and> last candidate = CHR ''/''
                  then butlast candidate else candidate)))"

definition join_url_path :: "string \<Rightarrow> string \<Rightarrow> string \<Rightarrow> string" where
  "join_url_path base_path route_path query =
     (let path = (if base_path = [] then ''/'' else base_path);
          path = (if last path = CHR ''/'' \<and> route_path \<noteq> [] \<and> hd route_path = CHR ''/''
                  then butlast path
                  else if last path \<noteq> CHR ''/'' \<and> (route_path = [] \<or> hd route_path \<noteq> CHR ''/'')
                  then path @ ''/''
                  else path);
          path = path @ route_path
      in if query \<noteq> [] then path @ ''?'' @ query else path)"

text \<open>The reserved management namespace, tested on canonical paths by the route table and
  the configuration validation.\<close>

definition in_management_namespace :: "string \<Rightarrow> bool" where
  "in_management_namespace canonical \<longleftrightarrow>
     canonical = ''/_ccs-trans'' \<or> starts_with ''/_ccs-trans/'' canonical"

section \<open>Canonical strings\<close>

text \<open>The strings the decoding loop leaves unchanged.\<close>

fun canon_ok :: "string \<Rightarrow> bool" where
  "canon_ok [] \<longleftrightarrow> True"
| "canon_ok (ch # rest) \<longleftrightarrow>
     (if ch \<noteq> CHR ''%'' then \<not> forbidden_path_char ch \<and> canon_ok rest
      else (case rest of
              h # l # rest' \<Rightarrow> canon_escape h l = Inr [CHR ''%'', h, l] \<and> canon_ok rest'
            | _ \<Rightarrow> False))"

lemma hex_value_less [simp]: "is_hex h \<Longrightarrow> hex_value h < 16"
  by (auto simp: is_hex_def hex_value_def in_range_def)

lemma upper_hex_code: "v < 16 \<Longrightarrow> code (upper_hex v) = (if v < 10 then 48 + v else 55 + v)"
  by (simp add: upper_hex_def)

lemma upper_hex_props [simp]:
  assumes "v < 16"
  shows "is_hex (upper_hex v)" "hex_value (upper_hex v) = v"
  using assms by (auto simp: is_hex_def hex_value_def in_range_def upper_hex_code)

lemma unreserved_plain:
  "is_unreserved c \<Longrightarrow> \<not> forbidden_path_char c \<and> c \<noteq> CHR ''%''"
  by (auto simp: is_unreserved_def forbidden_path_char_def in_range_def)

lemma forbidden_percent [simp]: "\<not> forbidden_path_char CHR ''%''"
  by (simp add: forbidden_path_char_def)

lemma canon_escape_hex: "canon_escape h l = Inr out \<Longrightarrow> is_hex h \<and> is_hex l"
  by (auto simp: canon_escape_def split: if_splits)

text \<open>An escape is either decoded to one unreserved byte or rewritten to an escape that is
  already canonical.\<close>

lemma canon_escape_cases:
  assumes "canon_escape h l = Inr out"
  obtains d where "out = [d]" "is_unreserved d" "d \<noteq> CHR ''.''"
    | a b where "out = [CHR ''%'', a, b]" "canon_escape a b = Inr [CHR ''%'', a, b]"
proof -
  define d :: char where "d = char_of (hex_value h * 16 + hex_value l)"
  define a where "a = upper_hex (code d div 16)"
  define b where "b = upper_hex (code d mod 16)"
  have lt: "code d div 16 < 16"
    using code_less [of d] by (simp add: less_mult_imp_div_less)
  have dec: "char_of (hex_value a * 16 + hex_value b) = d" and hex: "is_hex a" "is_hex b"
    using lt by (simp_all add: a_def b_def)
  show thesis
  proof (cases "is_unreserved d")
    case True
    with assms that(1) [of d] show thesis
      by (auto simp: canon_escape_def d_def [symmetric] Let_def split: if_splits)
  next
    case False
    with assms have "out = [CHR ''%'', a, b]" and ok: "\<not> (code d < 32 \<or> code d = 127)"
      "\<not> (d = CHR ''.'' \<or> d = CHR ''/'' \<or> d = CHR 0x5C)"
      by (auto simp: canon_escape_def d_def [symmetric] a_def b_def Let_def split: if_splits)
    moreover have "canon_escape a b = Inr [CHR ''%'', a, b]"
      unfolding canon_escape_def dec Let_def
      using hex ok False by (simp add: a_def b_def)
    ultimately show thesis using that(2) by blast
  qed
qed

lemma canon_ok_plain_append:
  "is_unreserved d \<Longrightarrow> canon_ok (d # t) = canon_ok t"
  by (simp add: unreserved_plain)

lemma canon_escape_ok:
  assumes "canon_escape h l = Inr out" "canon_ok t"
  shows "canon_ok (out @ t)" "length out \<le> 3"
  using assms(1) by (cases rule: canon_escape_cases; use assms(2) in \<open>simp add: unreserved_plain\<close>)+

lemma canon_loop_ok: "canon_loop s = Inr t \<Longrightarrow> canon_ok t \<and> length t \<le> length s"
proof (induction s arbitrary: t rule: length_induct)
  case (1 s)
  show ?case
  proof (cases s)
    case Nil
    with 1 show ?thesis by simp
  next
    case (Cons ch rest)
    show ?thesis
    proof (cases "ch = CHR ''%''")
      case False
      with 1 Cons show ?thesis by (auto split: if_splits)
    next
      case True
      with "1.prems" Cons obtain h l rest' out t' where rest: "rest = h # l # rest'"
        and out: "canon_escape h l = Inr out" and t': "canon_loop rest' = Inr t'" "t = out @ t'"
        by (auto split: list.splits)
      have "length rest' < length s" using Cons rest by simp
      with "1.IH" t'(1) have "canon_ok t' \<and> length t' \<le> length rest'" by blast
      with canon_escape_ok [OF out, of t'] t' Cons rest show ?thesis by simp
    qed
  qed
qed

lemma canon_ok_loop: "canon_ok t \<Longrightarrow> canon_loop t = Inr t"
  by (induction t rule: canon_ok.induct) (auto split: list.splits if_splits)

lemma canon_ok_snoc: "canon_ok (t @ [c]) \<Longrightarrow> \<not> is_hex c \<Longrightarrow> canon_ok t"
proof (induction t rule: length_induct)
  case (1 t)
  show ?case
  proof (cases t)
    case Nil
    then show ?thesis by simp
  next
    case (Cons ch rest)
    show ?thesis
    proof (cases "ch = CHR ''%''")
      case False
      with 1 Cons show ?thesis by auto
    next
      case True
      with "1.prems" Cons obtain h l rest' where rest: "rest = h # l # rest'"
        by (cases rest; cases "tl rest") (auto dest: canon_escape_hex)
      have "length rest' < length t" using Cons rest by simp
      with "1.IH" "1.prems" True Cons rest show ?thesis by simp
    qed
  qed
qed

lemma canon_loop_head:
  "canon_loop s = Inr t \<Longrightarrow> s \<noteq> [] \<Longrightarrow> hd s = CHR ''/'' \<Longrightarrow> t \<noteq> [] \<and> hd t = CHR ''/''"
  by (cases s) (auto simp: forbidden_path_char_def split: if_splits)

lemma hex_not_slash: "is_hex h \<Longrightarrow> h \<noteq> CHR ''/''"
  by (auto simp: is_hex_def in_range_def)

lemma dup_sep_Cons:
  "sublist ''//'' (ch # rest) \<longleftrightarrow>
     (ch = CHR ''/'' \<and> rest \<noteq> [] \<and> hd rest = CHR ''/'') \<or> sublist ''//'' rest"
  by (cases rest) (auto simp: sublist_Cons_right)

lemma dup_sep_append:
  "sublist ''//'' (s @ t) \<longleftrightarrow> sublist ''//'' s \<or> sublist ''//'' t
     \<or> (s \<noteq> [] \<and> t \<noteq> [] \<and> last s = CHR ''/'' \<and> hd t = CHR ''/'')"
  by (induction s) (auto simp: dup_sep_Cons hd_append)

text \<open>Duplicate separators of the raw path stay visible in the decoded candidate.\<close>

lemma canon_loop_dup_sep: "canon_loop s = Inr t \<Longrightarrow> sublist ''//'' s \<Longrightarrow> sublist ''//'' t"
proof (induction s arbitrary: t rule: length_induct)
  case (1 s)
  then obtain ch rest where s: "s = ch # rest" by (cases s) auto
  show ?case
  proof (cases "ch = CHR ''%''")
    case False
    with "1.prems" s obtain t' where t': "canon_loop rest = Inr t'" "t = ch # t'"
      by (auto split: if_splits)
    have "length rest < length s" using s by simp
    with "1.IH" t'(1) have "sublist ''//'' rest \<Longrightarrow> sublist ''//'' t'" by blast
    with canon_loop_head [OF t'(1)] "1.prems"(2) s t'(2) show ?thesis
      by (auto simp: dup_sep_Cons)
  next
    case True
    with "1.prems" s obtain h l rest' out t' where rest: "rest = h # l # rest'"
      and out: "canon_escape h l = Inr out" and t': "canon_loop rest' = Inr t'" "t = out @ t'"
      by (auto split: list.splits)
    from "1.prems"(2) s rest True out have "sublist ''//'' rest'"
      by (auto simp: dup_sep_Cons dest!: canon_escape_hex hex_not_slash)
    moreover have "length rest' < length s" using s rest by simp
    ultimately have "sublist ''//'' t'" using "1.IH" t'(1) by blast
    then show ?thesis using t'(2) by (simp add: dup_sep_append)
  qed
qed

lemma canon_ok_chars: "canon_ok t \<Longrightarrow> ch \<in> set t \<Longrightarrow> \<not> forbidden_path_char ch"
proof (induction t rule: length_induct)
  case (1 t)
  have hexf: "is_hex c \<Longrightarrow> \<not> forbidden_path_char c" for c
    by (auto simp: is_hex_def forbidden_path_char_def in_range_def)
  from "1.prems" obtain c rest where t: "t = c # rest" by (cases t) auto
  show ?case
  proof (cases "c = CHR ''%''")
    case False
    with 1 t show ?thesis by auto
  next
    case True
    with "1.prems" t obtain h l rest' where rest: "rest = h # l # rest'"
      and esc: "canon_escape h l = Inr [CHR ''%'', h, l]" "canon_ok rest'"
      by (auto split: list.splits)
    moreover have "length rest' < length t" using t rest by simp
    ultimately have "ch \<in> set rest' \<Longrightarrow> \<not> forbidden_path_char ch" using "1.IH" by blast
    with True t rest "1.prems"(2) canon_escape_hex [OF esc(1)] show ?thesis by (auto simp: hexf)
  qed
qed

lemma split_on_snoc_sep: "split_on c (s @ [c]) = split_on c s @ [[]]"
  by (induction s) (auto split: list.splits simp: Cons_eq_append_conv)

text \<open>The facts about a canonical path that its clients use.\<close>

lemma canonicalizeE:
  assumes "canonicalize_http_path p = Inr c"
  obtains "c \<noteq> []" "hd c = CHR ''/''" "length c \<le> length p" "length p \<le> 2048" "canon_ok c"
    "\<not> sublist ''//'' c" "\<not> list_ex is_dot_segment (split_on CHR ''/'' (drop 1 c))"
    "length c > 1 \<longrightarrow> last c \<noteq> CHR ''/''" "\<not> sublist ''//'' p" "p \<noteq> []" "hd p = CHR ''/''"
proof -
  let ?sl = "CHR ''/''"
  from assms have p: "p \<noteq> []" "hd p = ?sl" "length p \<le> 2048"
    by (auto simp: canonicalize_http_path_def split: if_splits)
  with assms obtain t where t: "canon_loop p = Inr t"
    by (auto simp: canonicalize_http_path_def)
  with assms p have dup: "\<not> sublist ''//'' t"
    and dots: "\<not> list_ex is_dot_segment (split_on ?sl (drop 1 t))"
    and c: "c = (if length t > 1 \<and> last t = ?sl then butlast t else t)"
    by (auto simp: canonicalize_http_path_def find_str_None split: if_split_asm)
  from canon_loop_ok [OF t] have ok: "canon_ok t" "length t \<le> length p" by auto
  from canon_loop_head [OF t p(1,2)] obtain t' where t': "t = ?sl # t'" by (cases t) auto
  from canon_loop_dup_sep [OF t] dup have pdup: "\<not> sublist ''//'' p" by blast
  show thesis
  proof (cases "length t > 1 \<and> last t = ?sl")
    case False
    with c have "c = t" by auto
    with t' ok dup dots p pdup False show thesis by (intro that) auto
  next
    case True
    with t' obtain u where u: "t' = u @ [?sl]" by (metis append_butlast_last_id last_ConsR
        length_Cons length_greater_0_conv less_numeral_extra(3) list.size(3) One_nat_def not_less_eq)
    with True c t' have cu: "c = ?sl # u" by (simp add: butlast_append)
    have "\<not> is_hex ?sl" by (simp add: is_hex_def in_range_def)
    with ok(1) t' u have "canon_ok c" unfolding cu by (metis append_Cons canon_ok_snoc)
    moreover have "\<not> sublist ''//'' c"
      using dup t' u cu by (auto simp: dup_sep_append dup_sep_Cons)
    moreover have "last c \<noteq> ?sl" if "length c > 1"
    proof
      assume "last c = ?sl"
      with that cu obtain v where "c = v @ [?sl]" by (metis append_butlast_last_id list.distinct(1))
      then have "t = v @ ''//''" using t' u cu by simp
      then have "sublist ''//'' t" by simp
      with dup show False by blast
    qed
    ultimately show thesis using t' u cu ok(2) dots p pdup
      by (intro that) (auto simp: split_on_snoc_sep)
  qed
qed

lemma canonical_idem: "canonicalize_http_path p = Inr c \<Longrightarrow> canonicalize_http_path c = Inr c"
proof (erule canonicalizeE)
  assume "c \<noteq> []" "hd c = CHR ''/''" "length c \<le> length p" "length p \<le> 2048" "canon_ok c"
    "\<not> sublist ''//'' c" "\<not> list_ex is_dot_segment (split_on CHR ''/'' (drop 1 c))"
    "length c > 1 \<longrightarrow> last c \<noteq> CHR ''/''"
  then show ?thesis by (auto simp: canonicalize_http_path_def canon_ok_loop find_str_None)
qed

text \<open>Canonicalising a path that \<^verbatim>\<open>canonicalize_http_path\<close> produced changes nothing, so the
  route table may canonicalise a path that the configuration already stores canonically.\<close>

theorem canonicalize_idempotent:
  "canonicalize_http_path p = Inr c \<Longrightarrow> canonicalize_http_path c = Inr c"
  by (rule canonical_idem)

theorem canonicalize_idempotent_witness:
  "canonicalize_http_path ''/a%7eb/%c3/'' = Inr ''/a~b/%C3'' \<and>
   canonicalize_http_path ''/a~b/%C3'' = Inr ''/a~b/%C3''"
proof -
  have h: "canonicalize_http_path ''/a%7eb/%c3/'' = Inr ''/a~b/%C3''" by code_simp
  show ?thesis using h canonicalize_idempotent [OF h] by simp
qed

text \<open>C22: Every path \<^verbatim>\<open>canonicalize_http_path\<close> accepts yields a canonical path of at most 2048
  bytes that starts with a slash, has no empty segment, no dot segment, no trailing slash
  besides the root, and no control byte, query, fragment or backslash.\<close>

theorem canonicalize_shape:
  assumes "canonicalize_http_path p = Inr c"
  shows "hd c = CHR ''/'' \<and> length c \<le> 2048 \<and> \<not> sublist ''//'' c
    \<and> (\<forall>seg. seg \<in> set (split_on CHR ''/'' (drop 1 c)) \<longrightarrow> seg \<noteq> ''.'' \<and> seg \<noteq> ''..'')
    \<and> (c = ''/'' \<or> last c \<noteq> CHR ''/'')
    \<and> (\<forall>ch. ch \<in> set c \<longrightarrow> \<not> is_control ch \<and> ch \<notin> set ''?#'' \<and> ch \<noteq> CHR 0x5C)"
  using assms
proof (rule canonicalizeE)
  assume c: "c \<noteq> []" "hd c = CHR ''/''" and "length c \<le> length p" "length p \<le> 2048"
    and ok: "canon_ok c" and "\<not> sublist ''//'' c"
    "\<not> list_ex is_dot_segment (split_on CHR ''/'' (drop 1 c))"
    and l: "length c > 1 \<longrightarrow> last c \<noteq> CHR ''/''"
  moreover have "c = ''/'' \<or> last c \<noteq> CHR ''/''" using c l by (cases c) auto
  moreover from canon_ok_chars [OF ok]
  have "\<forall>ch. ch \<in> set c \<longrightarrow> \<not> is_control ch \<and> ch \<notin> set ''?#'' \<and> ch \<noteq> CHR 0x5C"
    by (auto simp: forbidden_path_char_def is_control_def)
  ultimately show ?thesis by (auto simp: list_ex_iff is_dot_segment_def)
qed

theorem canonicalize_shape_witness:
  "canonicalize_http_path ''/v1/messages/'' = Inr ''/v1/messages'' \<and> last ''/v1/messages'' \<noteq> CHR ''/''"
proof -
  have h: "canonicalize_http_path ''/v1/messages/'' = Inr ''/v1/messages''" by code_simp
  show ?thesis using h canonicalize_shape [OF h] by simp
qed

text \<open>The path sent upstream, a validated base path joined with a validated route path, starts
  with a slash and has no empty segment: exactly one separator stands at the joint.\<close>

theorem join_no_duplicate_separator:
  assumes "canonicalize_http_path base = Inr b" and "canonicalize_http_path route = Inr r"
  shows "hd (join_url_path base route []) = CHR ''/'' \<and> \<not> sublist ''//'' (join_url_path base route [])
    \<and> (\<exists>pre. join_url_path base route [] = pre @ route)"
proof -
  from assms(1) have b: "\<not> sublist ''//'' base" "base \<noteq> []" "hd base = CHR ''/''"
    by (auto elim: canonicalizeE)
  from assms(2) have r: "\<not> sublist ''//'' route" "route \<noteq> []" "hd route = CHR ''/''"
    by (auto elim: canonicalizeE)
  show ?thesis
  proof (cases "last base = CHR ''/''")
    case True
    with b obtain pre where pre: "base = pre @ [CHR ''/'']" by (metis append_butlast_last_id)
    with b r have "\<not> sublist ''//'' (pre @ route)"
      by (auto simp: dup_sep_append)
    with True b r pre show ?thesis
      by (cases pre) (auto simp: join_url_path_def Let_def hd_append)
  next
    case False
    with b r have "\<not> sublist ''//'' (base @ route)"
      by (auto simp: dup_sep_append)
    with False b r show ?thesis by (auto simp: join_url_path_def Let_def hd_append)
  qed
qed

theorem join_no_duplicate_separator_witness:
  "canonicalize_http_path ''/api/'' = Inr ''/api'' \<and> canonicalize_http_path ''/v1/chat'' = Inr ''/v1/chat'' \<and>
   join_url_path ''/api/'' ''/v1/chat'' [] = ''/api/v1/chat'' \<and> hd ''/api/v1/chat'' = CHR ''/''"
proof -
  have h: "canonicalize_http_path ''/api/'' = Inr ''/api''"
    "canonicalize_http_path ''/v1/chat'' = Inr ''/v1/chat''" by code_simp+
  have j: "join_url_path ''/api/'' ''/v1/chat'' [] = ''/api/v1/chat''" by code_simp
  show ?thesis using h j join_no_duplicate_separator [OF h] by simp
qed

section \<open>Parsing upstream URLs\<close>

lemma parse_port_range: "parse_port t = Inr p \<Longrightarrow> 1 \<le> p \<and> p \<le> 65535"
  by (auto simp: parse_port_def split: option.splits if_splits)

lemma parse_authority_port:
  "parse_authority d a = Inr (h, p) \<Longrightarrow> p = d \<or> (1 \<le> p \<and> p \<le> 65535)"
  by (auto simp: parse_authority_def Let_def split: if_splits option.splits dest: parse_port_range)

lemma strip_trailing_dots_last:
  "strip_trailing_dots s \<noteq> [] \<Longrightarrow> last (strip_trailing_dots s) \<noteq> CHR ''.''"
  using hd_dropWhile [of "\<lambda>c. c = CHR ''.''" "rev s"] by (simp add: strip_trailing_dots_def last_rev)

lemma strip_trailing_dots_set: "set (strip_trailing_dots s) \<subseteq> set s"
  unfolding strip_trailing_dots_def using set_dropWhileD by fastforce

lemma strip_trailing_dots_id: "s = [] \<or> last s \<noteq> CHR ''.'' \<Longrightarrow> strip_trailing_dots s = s"
  unfolding strip_trailing_dots_def
  by (cases s rule: rev_cases) auto

text \<open>Whatever \<^verbatim>\<open>parse_http_url\<close> accepts has a port between 1 and 65535, a non-empty lower-case
  host without trailing dot, and a base path that starts with a slash.\<close>

theorem parse_http_url_wellformed:
  assumes "parse_http_url s = Inr u"
  shows "1 \<le> url_port u \<and> url_port u \<le> 65535 \<and> url_host u \<noteq> [] \<and> last (url_host u) \<noteq> CHR ''.''
    \<and> (\<forall>c. c \<in> set (url_host u) \<longrightarrow> \<not> is_upper c) \<and> hd (url_base_path u) = CHR ''/''"
proof -
  from assms obtain i where i: "find_str ''://'' s = Some i"
    by (auto simp: parse_http_url_def split: option.splits)
  define rest where "rest = drop (i + 3) s"
  define slash where "slash = find_char CHR ''/'' rest"
  define sec where "sec = (lower_copy (take i s) = ''https'')"
  define auth where "auth = (case slash of None \<Rightarrow> rest | Some j \<Rightarrow> take j rest)"
  define base where "base = (case slash of None \<Rightarrow> ''/'' | Some j \<Rightarrow> drop j rest)"
  from assms i obtain h p where hp: "parse_authority (if sec then 443 else 80) auth = Inr (h, p)"
    and u: "u = \<lparr>url_secure = sec, url_host = strip_trailing_dots (lower_copy h), url_port = p,
                 url_base_path = (if base = [] then ''/'' else base)\<rparr>"
    and ne: "strip_trailing_dots (lower_copy h) \<noteq> []"
    unfolding parse_http_url_def rest_def slash_def sec_def auth_def base_def
    by (auto simp: Let_def split: if_split_asm)
  have "base \<noteq> [] \<longrightarrow> hd base = CHR ''/''"
    by (auto simp: base_def slash_def find_char_Some hd_drop_conv_nth split: option.splits)
  moreover have "\<not> is_upper c" if "c \<in> set (strip_trailing_dots (lower_copy h))" for c
    using that strip_trailing_dots_set set_lower_copy_not_upper by blast
  ultimately show ?thesis
    using u ne strip_trailing_dots_last [OF ne] parse_authority_port [OF hp]
    by (auto split: if_splits)
qed

theorem parse_http_url_wellformed_witness:
  "parse_http_url ''HTTPS://Api.X.com.:8443/v1'' =
     Inr \<lparr>url_secure = True, url_host = ''api.x.com'', url_port = 8443, url_base_path = ''/v1''\<rparr> \<and>
   (8443::nat) \<le> 65535"
proof -
  have h: "parse_http_url ''HTTPS://Api.X.com.:8443/v1'' =
     Inr \<lparr>url_secure = True, url_host = ''api.x.com'', url_port = 8443, url_base_path = ''/v1''\<rparr>"
    by (simp add: parse_http_url_def parse_authority_def rfind_char_def parse_port_def Let_def
        from_chars_all_def digits_value_def digit_value_def strip_trailing_dots_def to_lower_def char_of_def bit_0 byte_simps)
  show ?thesis using h parse_http_url_wellformed [OF h] by simp
qed

text \<open>The URL text of a parsed URL: an IPv6 host, one with a colon, stands in brackets.\<close>

definition url_text :: "parsed_url \<Rightarrow> string" where
  "url_text u =
     (if url_secure u then ''https'' else ''http'') @ ''://''
     @ (if CHR '':'' \<in> set (url_host u) then ''['' @ url_host u @ '']'' else url_host u)
     @ '':'' @ string_of_nat (url_port u) @ url_base_path u"

definition url_wf :: "parsed_url \<Rightarrow> bool" where
  "url_wf u \<longleftrightarrow> 1 \<le> url_port u \<and> url_port u \<le> 65535
     \<and> url_host u \<noteq> [] \<and> last (url_host u) \<noteq> CHR ''.''
     \<and> list_all (\<lambda>c. \<not> is_upper c \<and> c \<notin> set ''/@[]'') (url_host u)
     \<and> url_base_path u \<noteq> [] \<and> hd (url_base_path u) = CHR ''/''"

lemma parse_port_string_of_nat [simp]:
  "1 \<le> p \<Longrightarrow> p \<le> 65535 \<Longrightarrow> parse_port (string_of_nat p) = Inr p"
  by (simp add: parse_port_def)

lemma digits_not_in: "c \<in> set (string_of_nat p) \<Longrightarrow> is_digit c"
  using string_of_nat_digits [of p] by (simp add: list_all_iff)

lemma parse_authority_host_port:
  assumes "h \<noteq> []" "hd h \<noteq> CHR ''[''" "CHR '':'' \<notin> set h" "1 \<le> p" "p \<le> 65535"
  shows "parse_authority d (h @ '':'' @ string_of_nat p) = Inr (h, p)"
proof -
  have nc: "CHR '':'' \<notin> set (string_of_nat p)"
    using digits_not_in [of "CHR '':''" p] by (auto simp: byte_simps)
  have "find_char CHR '':'' (h @ '':'' @ string_of_nat p) = Some (length h)"
    using assms by (simp add: find_char_append)
  moreover have "rfind_char CHR '':'' (h @ '':'' @ string_of_nat p) = Some (length h)"
    using nc by (simp add: rfind_char_def find_char_append)
  ultimately show ?thesis
    using assms by (simp add: parse_authority_def)
qed

lemma parse_authority_ipv6_port:
  assumes "CHR '']'' \<notin> set h" "1 \<le> p" "p \<le> 65535"
  shows "parse_authority d (''['' @ h @ '']'' @ '':'' @ string_of_nat p) = Inr (h, p)"
proof -
  have "find_char CHR '']'' (''['' @ h @ '']'' @ '':'' @ string_of_nat p) = Some (Suc (length h))"
    using assms by (simp add: find_char_append)
  then show ?thesis
    using assms by (simp add: parse_authority_def nth_append)
qed

text \<open>Printing a well-formed upstream URL (IPv6 hosts in brackets) and parsing the text gives the
  URL back, so \<^verbatim>\<open>parse_http_url\<close> loses nothing of scheme, host, port and base path.\<close>

theorem parse_http_url_roundtrip: "url_wf u \<Longrightarrow> parse_http_url (url_text u) = Inr u"
proof -
  assume wf: "url_wf u"
  obtain sec h p b where u: "u = \<lparr>url_secure = sec, url_host = h, url_port = p, url_base_path = b\<rparr>"
    by (cases u) auto
  let ?auth = "(if CHR '':'' \<in> set h then ''['' @ h @ '']'' else h) @ '':'' @ string_of_nat p"
  from wf u have p: "1 \<le> p" "p \<le> 65535" and h: "h \<noteq> []" "last h \<noteq> CHR ''.''"
    and hs: "\<And>c. c \<in> set h \<Longrightarrow> \<not> is_upper c \<and> c \<notin> set ''/@[]''" and b: "b \<noteq> []" "hd b = CHR ''/''"
    by (auto simp: url_wf_def list_all_iff)
  obtain b' where b': "b = CHR ''/'' # b'" using b by (cases b) auto
  have dig: "c \<notin> set (string_of_nat p)" if "\<not> is_digit c" for c using that digits_not_in by blast
  have auth: "CHR ''/'' \<notin> set ?auth" "CHR ''@'' \<notin> set ?auth" "?auth \<noteq> []"
    using hs h dig [of "CHR ''/''"] dig [of "CHR ''@''"] by (auto simp: byte_simps)
  have pa: "parse_authority d ?auth = Inr (h, p)" for d
  proof (cases "CHR '':'' \<in> set h")
    case True
    moreover have "CHR '']'' \<notin> set h" using hs by auto
    ultimately show ?thesis using parse_authority_ipv6_port [OF _ p, of h d] by simp
  next
    case False
    have "hd h \<in> set h" using h by simp
    with hs have "hd h \<noteq> CHR ''[''" by auto
    with False show ?thesis using parse_authority_host_port [OF h(1) _ _ p, of d] by simp
  qed
  have host: "strip_trailing_dots (lower_copy h) = h"
    using hs h by (simp add: lower_copy_id strip_trailing_dots_id)
  have text_eq: "url_text u = (if sec then ''https'' else ''http'') @ ''://'' @ ?auth @ b"
    by (simp add: url_text_def u)
  have sl: "find_char CHR ''/'' (?auth @ b) = Some (length ?auth)"
    unfolding b' using auth(1) by (rule find_char_append)
  have "parse_http_url (''https'' @ ''://'' @ ?auth @ b)
      = Inr \<lparr>url_secure = True, url_host = h, url_port = p, url_base_path = b\<rparr>"
    using sl auth pa host h b
    by (simp add: parse_http_url_def Let_def find_char_None to_lower_def byte_simps del: append_assoc)
  moreover have "parse_http_url (''http'' @ ''://'' @ ?auth @ b)
      = Inr \<lparr>url_secure = False, url_host = h, url_port = p, url_base_path = b\<rparr>"
    using sl auth pa host h b
    by (simp add: parse_http_url_def Let_def find_char_None to_lower_def byte_simps del: append_assoc)
  ultimately show ?thesis unfolding text_eq by (cases sec) (simp_all add: u)
qed

theorem parse_http_url_roundtrip_witness:
  "let u = \<lparr>url_secure = True, url_host = ''::1'', url_port = 8443, url_base_path = ''/v1''\<rparr>
   in url_wf u \<and> parse_http_url (url_text u) = Inr u"
proof -
  let ?u = "\<lparr>url_secure = True, url_host = ''::1'', url_port = 8443, url_base_path = ''/v1''\<rparr>"
  have h: "url_wf ?u" by (simp add: url_wf_def byte_simps)
  show ?thesis unfolding Let_def using h parse_http_url_roundtrip [OF h] by blast
qed

end
