(* ===== verification/Metrics.thy ===== *)
theory Metrics
  imports Prelude
begin

text \<open>
  The runtime metrics, \<^verbatim>\<open>src/core/runtime_metrics.cpp\<close>: a set of 64-bit atomic counters, one
  constructor per field of the class \<^verbatim>\<open>RuntimeMetrics\<close>, grouped by what they count, and the operations on them.
  The state maps each counter to its value; additions and subtractions wrap at 64 bits. The
  compare-exchange loops of the class appear here as the atomic effect they have; the theory of
  the inflight budget proves properties of them, and there the loops of many threads are also interleaved step by step.
\<close>

section \<open>Counters\<close>

datatype inflight_metric =
    InflightBudgetBytes
  | CurrentInflightBytes
  | PeakInflightBytes
  | InflightBudgetRejections

datatype control_metric =
    CurrentGenerationRequests
  | PeakGenerationRequests
  | CurrentRetiredGenerations
  | PeakRetiredGenerations
  | CurrentControlTasks
  | PeakControlTasks
  | ControlTasksRejected
  | ControlTasksCoalesced

datatype connection_metric =
    ConnectionsAccepted
  | ConnectionsRejected
  | ConnectionsCompleted
  | CurrentConnections
  | PeakConnections
  | CurrentQueuedConnections
  | PeakQueuedConnections
  | CurrentActiveWorkers
  | PeakActiveWorkers
  | ConnectionQueueWaitTimeUs
  | MaxConnectionQueueWaitUs

datatype request_metric =
    RequestsStarted
  | RequestsCompleted
  | RequestsCancelled
  | ClientDisconnects
  | SseStreamsStarted
  | StreamChunksForwarded
  | StreamBytesForwarded

datatype upstream_metric =
    UpstreamRequestsStarted
  | UpstreamRequestsCompleted
  | UpstreamRequestsCancelled
  | UpstreamRequestsFailed
  | UpstreamResolveTimeouts
  | UpstreamConnectTimeouts
  | UpstreamSendTimeouts
  | UpstreamResponseHeaderTimeouts
  | UpstreamStreamIdleTimeouts
  | UpstreamResponseBodyTimeouts
  | UpstreamTotalTimeouts
  | UpstreamConnectionHandlesCreated
  | UpstreamRequestHandlesCreated
  | UpstreamBytesSent
  | UpstreamBytesReceived
  | WinhttpConnectingEvents
  | WinhttpConnectedEvents
  | WinhttpConnectionClosedEvents

datatype log_queue_metric =
    LogRecordsEnqueued
  | LogRecordsWritten
  | LogBytesWritten
  | CurrentLogQueueRecords
  | PeakLogQueueRecords
  | CurrentLogQueueBytes
  | PeakLogQueueBytes

datatype log_writer_metric =
    LogBackpressureCount
  | LogBackpressureWaitUs
  | LogBatchesWritten
  | LogFlushCount
  | LogWriteTimeUs
  | LogBatchWaitTimeUs
  | MaxLogBatchWaitUs
  | LogFileWriteTimeUs
  | MaxLogFileWriteTimeUs
  | LogFileFlushTimeUs
  | MaxLogFileFlushTimeUs
  | OldestLogRecordEnqueuedNs
  | MaxLogRecordAgeUs
  | LogWriterFailures

datatype log_file_metric =
    LogWritersActive
  | MaxLogBatchRecords
  | MaxLogBatchBytes
  | LogRotations
  | LogRetentionFilesRemoved
  | LogRetentionBytesRemoved
  | CurrentLogStorageBytes
  | PeakLogStorageBytes

datatype metric =
    InflightM inflight_metric
  | ControlM control_metric
  | ConnectionM connection_metric
  | RequestM request_metric
  | UpstreamM upstream_metric
  | LogQueueM log_queue_metric
  | LogWriterM log_writer_metric
  | LogFileM log_file_metric

type_synonym metrics = "metric \<Rightarrow> u64"

definition initial_metrics :: metrics where
  "initial_metrics = (\<lambda>_. 0)"

definition fetch_add :: "metric \<Rightarrow> u64 \<Rightarrow> metrics \<Rightarrow> metrics" where
  "fetch_add m v st = st(m := st m + v)"

definition fetch_sub :: "metric \<Rightarrow> u64 \<Rightarrow> metrics \<Rightarrow> metrics" where
  "fetch_sub m v st = st(m := st m - v)"

definition store :: "metric \<Rightarrow> u64 \<Rightarrow> metrics \<Rightarrow> metrics" where
  "store m v st = st(m := v)"

definition update_peak :: "metric \<Rightarrow> u64 \<Rightarrow> metrics \<Rightarrow> metrics" where
  "update_peak peak value st = (if st peak < value then st(peak := value) else st)"

definition decrement :: "metric \<Rightarrow> metrics \<Rightarrow> metrics" where
  "decrement m st = (if st m \<noteq> 0 then st(m := st m - 1) else st)"

definition configure_inflight_budget :: "u64 \<Rightarrow> metrics \<Rightarrow> bool \<times> metrics" where
  "configure_inflight_budget bytes st =
     (if bytes = 0 then (False, st)
      else if st (InflightM InflightBudgetBytes) = 0 then (True, st((InflightM InflightBudgetBytes) := bytes))
      else (st (InflightM InflightBudgetBytes) = bytes, st))"

definition try_acquire_inflight :: "u64 \<Rightarrow> metrics \<Rightarrow> bool \<times> metrics" where
  "try_acquire_inflight bytes st =
     (let capacity = st (InflightM InflightBudgetBytes); current = st (InflightM CurrentInflightBytes) in
      if bytes = 0 then (True, st)
      else if capacity = 0 then (False, fetch_add (InflightM InflightBudgetRejections) 1 st)
      else if bytes \<le> capacity - min capacity current
      then (True, update_peak (InflightM PeakInflightBytes) (current + bytes)
                    (store (InflightM CurrentInflightBytes) (current + bytes) st))
      else (False, fetch_add (InflightM InflightBudgetRejections) 1 st))"

definition release_inflight :: "u64 \<Rightarrow> metrics \<Rightarrow> metrics" where
  "release_inflight bytes st =
     (if bytes = 0 then st
      else if st (InflightM CurrentInflightBytes) \<ge> bytes
      then store (InflightM CurrentInflightBytes) (st (InflightM CurrentInflightBytes) - bytes) st
      else st)"

definition generation_request_started :: "metrics \<Rightarrow> metrics" where
  "generation_request_started st =
     (let current = st (ControlM CurrentGenerationRequests) + 1 in
      update_peak (ControlM PeakGenerationRequests) current (fetch_add (ControlM CurrentGenerationRequests) 1 st))"

definition generation_request_finished :: "metrics \<Rightarrow> metrics" where
  "generation_request_finished st = decrement (ControlM CurrentGenerationRequests) st"

definition generation_retired :: "metrics \<Rightarrow> metrics" where
  "generation_retired st =
     (let current = st (ControlM CurrentRetiredGenerations) + 1 in
      update_peak (ControlM PeakRetiredGenerations) current (fetch_add (ControlM CurrentRetiredGenerations) 1 st))"

definition retired_generation_released :: "metrics \<Rightarrow> metrics" where
  "retired_generation_released st = decrement (ControlM CurrentRetiredGenerations) st"

definition control_task_queued :: "u64 \<Rightarrow> metrics \<Rightarrow> metrics" where
  "control_task_queued current st =
     update_peak (ControlM PeakControlTasks) current (store (ControlM CurrentControlTasks) current st)"

definition control_task_finished :: "u64 \<Rightarrow> metrics \<Rightarrow> metrics" where
  "control_task_finished current st = store (ControlM CurrentControlTasks) current st"

definition control_task_rejected :: "metrics \<Rightarrow> metrics" where
  "control_task_rejected st = fetch_add (ControlM ControlTasksRejected) 1 st"

definition control_task_coalesced :: "metrics \<Rightarrow> metrics" where
  "control_task_coalesced st = fetch_add (ControlM ControlTasksCoalesced) 1 st"

definition connection_accepted :: "u64 \<Rightarrow> u64 \<Rightarrow> metrics \<Rightarrow> metrics" where
  "connection_accepted current queued st =
     (let st = fetch_add (ConnectionM ConnectionsAccepted) 1 st;
          st = store (ConnectionM CurrentConnections) current st;
          st = store (ConnectionM CurrentQueuedConnections) queued st;
          st = update_peak (ConnectionM PeakConnections) current st
      in update_peak (ConnectionM PeakQueuedConnections) queued st)"

definition connection_rejected :: "metrics \<Rightarrow> metrics" where
  "connection_rejected st = fetch_add (ConnectionM ConnectionsRejected) 1 st"

definition worker_started :: "u64 \<Rightarrow> u64 \<Rightarrow> metrics \<Rightarrow> metrics" where
  "worker_started queued queue_wait_us st =
     (let st = store (ConnectionM CurrentQueuedConnections) queued st;
          active = st (ConnectionM CurrentActiveWorkers) + 1;
          st = fetch_add (ConnectionM CurrentActiveWorkers) 1 st;
          st = update_peak (ConnectionM PeakActiveWorkers) active st;
          st = fetch_add (ConnectionM ConnectionQueueWaitTimeUs) queue_wait_us st
      in update_peak (ConnectionM MaxConnectionQueueWaitUs) queue_wait_us st)"

definition worker_finished :: "u64 \<Rightarrow> metrics \<Rightarrow> metrics" where
  "worker_finished current st =
     fetch_add (ConnectionM ConnectionsCompleted) 1
       (store (ConnectionM CurrentConnections) current (fetch_sub (ConnectionM CurrentActiveWorkers) 1 st))"

datatype upstream_timeout_phase =
    Resolve | Connect | Send | ResponseHeader | StreamIdle | ResponseBody | Total

fun upstream_timeout :: "upstream_timeout_phase \<Rightarrow> metrics \<Rightarrow> metrics" where
  "upstream_timeout Resolve st = fetch_add (UpstreamM UpstreamResolveTimeouts) 1 st"
| "upstream_timeout Connect st = fetch_add (UpstreamM UpstreamConnectTimeouts) 1 st"
| "upstream_timeout Send st = fetch_add (UpstreamM UpstreamSendTimeouts) 1 st"
| "upstream_timeout ResponseHeader st = fetch_add (UpstreamM UpstreamResponseHeaderTimeouts) 1 st"
| "upstream_timeout StreamIdle st = fetch_add (UpstreamM UpstreamStreamIdleTimeouts) 1 st"
| "upstream_timeout ResponseBody st = fetch_add (UpstreamM UpstreamResponseBodyTimeouts) 1 st"
| "upstream_timeout Total st = fetch_add (UpstreamM UpstreamTotalTimeouts) 1 st"

definition request_started :: "metrics \<Rightarrow> metrics" where
  "request_started st = fetch_add (RequestM RequestsStarted) 1 st"

definition request_completed :: "metrics \<Rightarrow> metrics" where
  "request_completed st = fetch_add (RequestM RequestsCompleted) 1 st"

definition request_cancelled :: "metrics \<Rightarrow> metrics" where
  "request_cancelled st = fetch_add (RequestM RequestsCancelled) 1 st"

definition client_disconnected :: "metrics \<Rightarrow> metrics" where
  "client_disconnected st = fetch_add (RequestM ClientDisconnects) 1 st"

definition stream_started :: "metrics \<Rightarrow> metrics" where
  "stream_started st = fetch_add (RequestM SseStreamsStarted) 1 st"

definition upstream_request_started :: "metrics \<Rightarrow> metrics" where
  "upstream_request_started st = fetch_add (UpstreamM UpstreamRequestsStarted) 1 st"

definition upstream_request_completed :: "metrics \<Rightarrow> metrics" where
  "upstream_request_completed st = fetch_add (UpstreamM UpstreamRequestsCompleted) 1 st"

definition upstream_request_cancelled :: "metrics \<Rightarrow> metrics" where
  "upstream_request_cancelled st = fetch_add (UpstreamM UpstreamRequestsCancelled) 1 st"

definition upstream_request_failed :: "metrics \<Rightarrow> metrics" where
  "upstream_request_failed st = fetch_add (UpstreamM UpstreamRequestsFailed) 1 st"

definition upstream_connection_handle_created :: "metrics \<Rightarrow> metrics" where
  "upstream_connection_handle_created st = fetch_add (UpstreamM UpstreamConnectionHandlesCreated) 1 st"

definition upstream_request_handle_created :: "metrics \<Rightarrow> metrics" where
  "upstream_request_handle_created st = fetch_add (UpstreamM UpstreamRequestHandlesCreated) 1 st"

definition winhttp_connecting :: "metrics \<Rightarrow> metrics" where
  "winhttp_connecting st = fetch_add (UpstreamM WinhttpConnectingEvents) 1 st"

definition winhttp_connected :: "metrics \<Rightarrow> metrics" where
  "winhttp_connected st = fetch_add (UpstreamM WinhttpConnectedEvents) 1 st"

definition winhttp_connection_closed :: "metrics \<Rightarrow> metrics" where
  "winhttp_connection_closed st = fetch_add (UpstreamM WinhttpConnectionClosedEvents) 1 st"

definition log_writer_started :: "metrics \<Rightarrow> metrics" where
  "log_writer_started st = fetch_add (LogFileM LogWritersActive) 1 st"

definition log_rotated :: "metrics \<Rightarrow> metrics" where
  "log_rotated st = fetch_add (LogFileM LogRotations) 1 st"

definition stream_chunk_forwarded :: "u64 \<Rightarrow> metrics \<Rightarrow> metrics" where
  "stream_chunk_forwarded bytes st =
     fetch_add (RequestM StreamBytesForwarded) bytes (fetch_add (RequestM StreamChunksForwarded) 1 st)"

definition upstream_bytes_sent :: "u64 \<Rightarrow> metrics \<Rightarrow> metrics" where
  "upstream_bytes_sent bytes st = fetch_add (UpstreamM UpstreamBytesSent) bytes st"

definition upstream_bytes_received :: "u64 \<Rightarrow> metrics \<Rightarrow> metrics" where
  "upstream_bytes_received bytes st = fetch_add (UpstreamM UpstreamBytesReceived) bytes st"

definition log_record_enqueued :: "u64 \<Rightarrow> u64 \<Rightarrow> u64 \<Rightarrow> metrics \<Rightarrow> metrics" where
  "log_record_enqueued records bytes oldest_pending_ns st =
     (let st = fetch_add (LogQueueM LogRecordsEnqueued) 1 st;
          st = store (LogQueueM CurrentLogQueueRecords) records st;
          st = store (LogQueueM CurrentLogQueueBytes) bytes st;
          st = store (LogWriterM OldestLogRecordEnqueuedNs) oldest_pending_ns st;
          st = update_peak (LogQueueM PeakLogQueueRecords) records st
      in update_peak (LogQueueM PeakLogQueueBytes) bytes st)"

definition log_queue_reset :: "metrics \<Rightarrow> metrics" where
  "log_queue_reset st =
     store (LogWriterM OldestLogRecordEnqueuedNs) 0 (store (LogQueueM CurrentLogQueueBytes) 0 (store (LogQueueM CurrentLogQueueRecords) 0 st))"

definition log_backpressure :: "u64 \<Rightarrow> metrics \<Rightarrow> metrics" where
  "log_backpressure wait_us st =
     fetch_add (LogWriterM LogBackpressureWaitUs) wait_us (fetch_add (LogWriterM LogBackpressureCount) 1 st)"

definition log_batch_written ::
  "u64 \<Rightarrow> u64 \<Rightarrow> u64 \<Rightarrow> u64 \<Rightarrow> u64 \<Rightarrow> u64 \<Rightarrow> u64 \<Rightarrow> u64 \<Rightarrow> u64 \<Rightarrow> metrics \<Rightarrow> metrics" where
  "log_batch_written records bytes batch_wait_us write_us flush_us oldest_record_age_us
       pending_records pending_bytes oldest_pending_ns st =
     (let st = fetch_add (LogQueueM LogRecordsWritten) records st;
          st = fetch_add (LogQueueM LogBytesWritten) bytes st;
          st = fetch_add (LogWriterM LogBatchesWritten) 1 st;
          st = fetch_add (LogWriterM LogFlushCount) 1 st;
          st = fetch_add (LogWriterM LogWriteTimeUs) (write_us + flush_us) st;
          st = fetch_add (LogWriterM LogBatchWaitTimeUs) batch_wait_us st;
          st = fetch_add (LogWriterM LogFileWriteTimeUs) write_us st;
          st = fetch_add (LogWriterM LogFileFlushTimeUs) flush_us st;
          st = store (LogQueueM CurrentLogQueueRecords) pending_records st;
          st = store (LogQueueM CurrentLogQueueBytes) pending_bytes st;
          st = store (LogWriterM OldestLogRecordEnqueuedNs) oldest_pending_ns st;
          st = update_peak (LogWriterM MaxLogBatchWaitUs) batch_wait_us st;
          st = update_peak (LogWriterM MaxLogFileWriteTimeUs) write_us st;
          st = update_peak (LogWriterM MaxLogFileFlushTimeUs) flush_us st;
          st = update_peak (LogWriterM MaxLogRecordAgeUs) oldest_record_age_us st;
          st = update_peak (LogFileM MaxLogBatchRecords) records st
      in update_peak (LogFileM MaxLogBatchBytes) bytes st)"

definition log_writer_failed :: "bool \<Rightarrow> metrics \<Rightarrow> metrics" where
  "log_writer_failed was_active st =
     fetch_add (LogWriterM LogWriterFailures) 1 (if was_active then fetch_sub (LogFileM LogWritersActive) 1 st else st)"

definition log_writer_stopped :: "metrics \<Rightarrow> metrics" where
  "log_writer_stopped st = fetch_sub (LogFileM LogWritersActive) 1 st"

definition log_retention_removed :: "u64 \<Rightarrow> u64 \<Rightarrow> metrics \<Rightarrow> metrics" where
  "log_retention_removed files bytes st =
     fetch_add (LogFileM LogRetentionBytesRemoved) bytes (fetch_add (LogFileM LogRetentionFilesRemoved) files st)"

definition log_storage_changed :: "u64 \<Rightarrow> u64 \<Rightarrow> metrics \<Rightarrow> metrics" where
  "log_storage_changed previous_bytes current_bytes st =
     (if current_bytes \<ge> previous_bytes
      then let aggregate = st (LogFileM CurrentLogStorageBytes) + current_bytes - previous_bytes in
        update_peak (LogFileM PeakLogStorageBytes) aggregate
          (fetch_add (LogFileM CurrentLogStorageBytes) (current_bytes - previous_bytes) st)
      else let aggregate = st (LogFileM CurrentLogStorageBytes) - (previous_bytes - current_bytes) in
        update_peak (LogFileM PeakLogStorageBytes) aggregate
          (fetch_sub (LogFileM CurrentLogStorageBytes) (previous_bytes - current_bytes) st))"

end
