(* ===== verification/Budget.thy ===== *)
theory Budget
  imports Metrics
begin

text \<open>
  The inflight memory budget, \<^verbatim>\<open>src/core/inflight_memory_budget.cpp\<close>, on top of the byte counters of
  the runtime metrics. A lease owns bytes of the budget; a pool of leases and the counters is the
  state, and one step of the pool is one call on a lease (acquire, grow, shrink, reset, move).
  Shown here: the counter of bytes in flight is always the sum of what the live leases own and
  never exceeds the capacity, a request is refused exactly when it does not fit, and the bytes
  of every lease come back. The last section interleaves the compare-exchange loops of any
  number of threads.
\<close>

section \<open>The counters as a byte budget\<close>

text \<open>The contract of the budget counters: what a client that acquires and releases bytes relies on.\<close>

locale byte_budget =
  fixes acquire :: "u64 \<Rightarrow> 's \<Rightarrow> bool \<times> 's"
    and release :: "u64 \<Rightarrow> 's \<Rightarrow> 's"
    and used :: "'s \<Rightarrow> nat"
    and cap :: "'s \<Rightarrow> nat"
    and invar :: "'s \<Rightarrow> bool"
  assumes used_le_cap: "invar s \<Longrightarrow> used s \<le> cap s"
    and acquire_grants: "invar s \<Longrightarrow> fst (acquire n s) \<longleftrightarrow> used s + unat n \<le> cap s"
    and acquire_used: "invar s \<Longrightarrow> used (snd (acquire n s)) = (if fst (acquire n s) then used s + unat n else used s)"
    and acquire_cap: "invar s \<Longrightarrow> cap (snd (acquire n s)) = cap s"
    and acquire_invar: "invar s \<Longrightarrow> invar (snd (acquire n s))"
    and release_used: "invar s \<Longrightarrow> unat n \<le> used s \<Longrightarrow> used (release n s) = used s - unat n"
    and release_cap: "invar s \<Longrightarrow> cap (release n s) = cap s"
    and release_invar: "invar s \<Longrightarrow> invar (release n s)"
begin

lemmas budget_laws =
  acquire_grants acquire_used acquire_cap acquire_invar release_used release_cap release_invar

text \<open>Acquiring and releasing again restores the bytes in use.\<close>

lemma acquire_release:
  assumes "invar s" and "fst (acquire n s)"
  shows "used (release n (snd (acquire n s))) = used s"
proof -
  have "invar (snd (acquire n s))" "used (snd (acquire n s)) = used s + unat n"
    using assms by (simp_all add: budget_laws)
  then show ?thesis by (simp add: release_used)
qed

text \<open>A list of acquisitions: as many are granted as fit, one after the other.\<close>

primrec acquire_all :: "u64 list \<Rightarrow> 's \<Rightarrow> u64 list \<times> 's" where
  "acquire_all [] s = ([], s)"
| "acquire_all (n # ns) s =
     (let (granted, s') = acquire n s; (held, s'') = acquire_all ns s'
      in (if granted then n # held else held, s''))"

lemma acquire_all_used:
  "invar s \<Longrightarrow> used (snd (acquire_all ns s)) = used s + sum_list (map unat (fst (acquire_all ns s)))
     \<and> cap (snd (acquire_all ns s)) = cap s \<and> invar (snd (acquire_all ns s))"
proof (induction ns arbitrary: s)
  case Nil
  then show ?case by simp
next
  case (Cons n ns)
  have "invar (snd (acquire n s))" using Cons.prems by (rule acquire_invar)
  from Cons.IH [OF this] Cons.prems show ?case
    by (auto simp: Let_def case_prod_beta acquire_used acquire_cap)
qed

lemma acquire_all_fits:
  "invar s \<Longrightarrow> used s + sum_list (map unat (fst (acquire_all ns s))) \<le> cap s"
  using acquire_all_used [of s ns] used_le_cap [of "snd (acquire_all ns s)"] by simp

end

definition inflight_used :: "metrics \<Rightarrow> nat" where
  "inflight_used st = unat (st (InflightM CurrentInflightBytes))"

definition inflight_cap :: "metrics \<Rightarrow> nat" where
  "inflight_cap st = unat (st (InflightM InflightBudgetBytes))"

text \<open>The bytes in flight fit in the budget, and the peak is one of the values they had.\<close>

definition inflight_ok :: "metrics \<Rightarrow> bool" where
  "inflight_ok st \<longleftrightarrow> st (InflightM CurrentInflightBytes) \<le> st (InflightM PeakInflightBytes)
     \<and> st (InflightM PeakInflightBytes) \<le> st (InflightM InflightBudgetBytes)"

lemma fits_word:
  fixes n cap cur :: u64
  assumes "cur \<le> cap"
  shows "n \<le> cap - min cap cur \<longleftrightarrow> unat cur + unat n \<le> unat cap"
proof -
  have "min cap cur = cur" using assms by (simp add: min_def)
  moreover have "unat (cap - cur) = unat cap - unat cur" using assms by (rule unat_sub)
  moreover have "unat cur \<le> unat cap" using assms by (simp add: word_le_nat_alt)
  ultimately show ?thesis by (auto simp: word_le_nat_alt)
qed

lemma unat_add_fits:
  fixes n cap cur :: u64
  assumes "unat cur + unat n \<le> unat cap"
  shows "unat (cur + n) = unat cur + unat n"
  using assms unsigned_less [of cap, where ?'a = nat] by (subst unat_add_lem [THEN iffD1]) auto

lemma try_acquire_grants:
  assumes "inflight_ok st"
  shows "fst (try_acquire_inflight n st) \<longleftrightarrow> inflight_used st + unat n \<le> inflight_cap st"
proof -
  have le: "st (InflightM CurrentInflightBytes) \<le> st (InflightM InflightBudgetBytes)"
    using assms by (auto simp: inflight_ok_def)
  then have le': "inflight_used st \<le> inflight_cap st"
    by (simp add: inflight_used_def inflight_cap_def word_le_nat_alt)
  show ?thesis
  proof (cases "n = 0")
    case True
    with le' show ?thesis by (simp add: try_acquire_inflight_def)
  next
    case False
    then have "0 < unat n" by (simp add: unat_gt_0)
    with False le' fits_word [OF le, of n] show ?thesis
      by (auto simp: try_acquire_inflight_def Let_def inflight_used_def inflight_cap_def)
  qed
qed

lemma try_acquire_used:
  assumes "inflight_ok st"
  shows "inflight_used (snd (try_acquire_inflight n st)) =
    (if fst (try_acquire_inflight n st) then inflight_used st + unat n else inflight_used st)"
  using try_acquire_grants [OF assms, of n]
  by (auto simp: try_acquire_inflight_def Let_def inflight_used_def inflight_cap_def store_def
      update_peak_def fetch_add_def unat_add_fits split: if_splits)

lemma try_acquire_ok: "inflight_ok st \<Longrightarrow> inflight_ok (snd (try_acquire_inflight n st))"
proof -
  assume ok: "inflight_ok st"
  let ?cur = "st (InflightM CurrentInflightBytes)" and ?cap = "st (InflightM InflightBudgetBytes)"
  from ok have le: "?cur \<le> ?cap" by (auto simp: inflight_ok_def)
  have "?cur + n \<le> ?cap" if "n \<le> ?cap - min ?cap ?cur"
    using fits_word [OF le, of n] unat_add_fits [of ?cur n ?cap] that by (simp add: word_le_nat_alt)
  with ok show ?thesis
    by (auto simp: try_acquire_inflight_def inflight_ok_def Let_def store_def
        update_peak_def fetch_add_def not_less split: if_splits)
qed

lemma release_ok: "inflight_ok st \<Longrightarrow> inflight_ok (release_inflight n st)"
  by (auto simp: release_inflight_def inflight_ok_def store_def intro: order_trans word_sub_le)

interpretation inflight: byte_budget try_acquire_inflight release_inflight
  inflight_used inflight_cap inflight_ok
proof (unfold_locales, goal_cases)
  case (1 s)
  then show ?case by (auto simp: inflight_ok_def inflight_used_def inflight_cap_def word_le_nat_alt)
next
  case (2 s n)
  then show ?case by (rule try_acquire_grants)
next
  case (3 s n)
  then show ?case by (rule try_acquire_used)
next
  case (4 s n)
  then show ?case
    by (auto simp: try_acquire_inflight_def Let_def inflight_cap_def store_def update_peak_def fetch_add_def)
next
  case (5 s n)
  then show ?case by (rule try_acquire_ok)
next
  case (6 s n)
  then show ?case
    by (auto simp: release_inflight_def inflight_used_def store_def word_le_nat_alt unat_sub)
next
  case (7 s n)
  then show ?case by (simp add: release_inflight_def inflight_cap_def store_def)
next
  case (8 s n)
  then show ?case by (rule release_ok)
qed

section \<open>Leases\<close>

text \<open>A lease: \<open>lease_valid\<close> stands for \<^verbatim>\<open>metrics_ != nullptr\<close>.\<close>

record lease =
  lease_valid :: bool
  lease_bytes :: u64

definition empty_lease :: lease where
  "empty_lease = \<lparr>lease_valid = False, lease_bytes = 0\<rparr>"

definition lease_try_grow :: "u64 \<Rightarrow> lease \<Rightarrow> metrics \<Rightarrow> bool \<times> lease \<times> metrics" where
  "lease_try_grow additional_bytes l st =
     (if \<not> lease_valid l then (False, l, st)
      else if additional_bytes = 0 then (True, l, st)
      else (case try_acquire_inflight additional_bytes st of
              (False, st') \<Rightarrow> (False, l, st')
            | (True, st') \<Rightarrow> (True, l\<lparr>lease_bytes := lease_bytes l + additional_bytes\<rparr>, st')))"

definition lease_shrink :: "u64 \<Rightarrow> lease \<Rightarrow> metrics \<Rightarrow> lease \<times> metrics" where
  "lease_shrink bytes l st =
     (let released = min bytes (lease_bytes l);
          st' = (if lease_valid l \<and> released \<noteq> 0 then release_inflight released st else st)
      in (l\<lparr>lease_bytes := lease_bytes l - released\<rparr>, st'))"

definition lease_reset :: "lease \<Rightarrow> metrics \<Rightarrow> lease \<times> metrics" where
  "lease_reset l st =
     (empty_lease, if lease_valid l \<and> lease_bytes l \<noteq> 0 then release_inflight (lease_bytes l) st else st)"

text \<open>Move construction: the new lease and what is left of the moved one.\<close>

definition lease_move :: "lease \<Rightarrow> lease \<times> lease" where
  "lease_move other = (other, empty_lease)"

text \<open>Move assignment between two distinct leases (a self-move changes nothing).\<close>

definition lease_move_assign :: "lease \<Rightarrow> lease \<Rightarrow> metrics \<Rightarrow> lease \<times> lease \<times> metrics" where
  "lease_move_assign this other st =
     (let (_, st') = lease_reset this st; (this', other') = lease_move other in (this', other', st'))"

definition make_inflight_memory_budget :: "u64 \<Rightarrow> metrics \<Rightarrow> metrics res" where
  "make_inflight_memory_budget capacity st =
     (if capacity = 0 then Inl ''inflight memory budget must be positive''
      else (case configure_inflight_budget capacity st of
              (True, st') \<Rightarrow> Inr st'
            | (False, _) \<Rightarrow> Inl ''runtime metrics already use a different inflight memory budget''))"

definition budget_try_acquire :: "u64 \<Rightarrow> metrics \<Rightarrow> lease option \<times> metrics" where
  "budget_try_acquire bytes st =
     (case try_acquire_inflight bytes st of
        (False, st') \<Rightarrow> (None, st')
      | (True, st') \<Rightarrow> (Some \<lparr>lease_valid = True, lease_bytes = bytes\<rparr>, st'))"

text \<open>The leases of a process, by index, with the counters they share.\<close>

record lease_pool =
  pool_leases :: "lease list"
  pool_metrics :: metrics

datatype lease_op =
    Acquire u64
  | Grow nat u64
  | Shrink nat u64
  | Reset nat
  | MoveAssign nat nat

fun pool_step :: "lease_op \<Rightarrow> lease_pool \<Rightarrow> lease_pool" where
  "pool_step (Acquire n) p =
     (case budget_try_acquire n (pool_metrics p) of
        (None, st) \<Rightarrow> p\<lparr>pool_metrics := st\<rparr>
      | (Some l, st) \<Rightarrow> p\<lparr>pool_leases := pool_leases p @ [l], pool_metrics := st\<rparr>)"
| "pool_step (Grow i n) p =
     (if i < length (pool_leases p) then
        (case lease_try_grow n (pool_leases p ! i) (pool_metrics p) of
           (_, l, st) \<Rightarrow> p\<lparr>pool_leases := (pool_leases p)[i := l], pool_metrics := st\<rparr>)
      else p)"
| "pool_step (Shrink i n) p =
     (if i < length (pool_leases p) then
        (case lease_shrink n (pool_leases p ! i) (pool_metrics p) of
           (l, st) \<Rightarrow> p\<lparr>pool_leases := (pool_leases p)[i := l], pool_metrics := st\<rparr>)
      else p)"
| "pool_step (Reset i) p =
     (if i < length (pool_leases p) then
        (case lease_reset (pool_leases p ! i) (pool_metrics p) of
           (l, st) \<Rightarrow> p\<lparr>pool_leases := (pool_leases p)[i := l], pool_metrics := st\<rparr>)
      else p)"
| "pool_step (MoveAssign i j) p =
     (if i < length (pool_leases p) \<and> j < length (pool_leases p) \<and> i \<noteq> j then
        (case lease_move_assign (pool_leases p ! i) (pool_leases p ! j) (pool_metrics p) of
           (this, other, st) \<Rightarrow>
             p\<lparr>pool_leases := (pool_leases p)[i := this, j := other], pool_metrics := st\<rparr>)
      else p)"

definition owned :: "lease \<Rightarrow> nat" where
  "owned l = (if lease_valid l then unat (lease_bytes l) else 0)"

definition pool_ok :: "lease_pool \<Rightarrow> bool" where
  "pool_ok p \<longleftrightarrow> inflight_ok (pool_metrics p)
     \<and> inflight_used (pool_metrics p) = sum_list (map owned (pool_leases p))
     \<and> list_all (\<lambda>l. lease_valid l \<or> lease_bytes l = 0) (pool_leases p)"

lemma sum_owned_update:
  "i < length ls \<Longrightarrow>
     sum_list (map owned (ls[i := l])) + owned (ls ! i) = sum_list (map owned ls) + owned l"
  by (induction ls arbitrary: i) (auto split: nat.splits)

lemma owned_le_sum: "i < length ls \<Longrightarrow> owned (ls ! i) \<le> sum_list (map owned ls)"
  by (induction ls arbitrary: i) (auto split: nat.splits simp: nth_Cons intro: trans_le_add2)

lemma list_all_update: "list_all P xs \<Longrightarrow> P x \<Longrightarrow> list_all P (xs[i := x])"
  by (auto simp: list_all_iff dest!: set_update_subset_insert [THEN subsetD])

lemma owned_empty [simp]: "owned empty_lease = 0"
  by (simp add: owned_def empty_lease_def)

text \<open>What a step does to one lease and the counters, for any lease whose bytes are accounted.\<close>

lemma lease_reset_spec:
  assumes "inflight_ok st" "owned l \<le> inflight_used st" "lease_reset l st = (l', st')"
  shows "inflight_ok st' \<and> inflight_used st' = inflight_used st - owned l \<and> l' = empty_lease
    \<and> inflight_cap st' = inflight_cap st"
  using assms by (auto simp: lease_reset_def owned_def inflight.budget_laws split: if_splits)

lemma lease_shrink_spec:
  assumes "inflight_ok st" "owned l \<le> inflight_used st" "lease_shrink n l st = (l', st')"
  shows "inflight_ok st' \<and> inflight_used st' + owned l = inflight_used st + owned l'
    \<and> lease_valid l' = lease_valid l \<and> (lease_bytes l = 0 \<longrightarrow> lease_bytes l' = 0)
    \<and> inflight_cap st' = inflight_cap st"
proof -
  have le: "min n (lease_bytes l) \<le> lease_bytes l" by simp
  then have "unat (lease_bytes l - min n (lease_bytes l)) = unat (lease_bytes l) - unat (min n (lease_bytes l))"
    "unat (min n (lease_bytes l)) \<le> unat (lease_bytes l)"
    by (simp_all add: unat_sub word_le_nat_alt [symmetric])
  with assms show ?thesis
    by (auto simp: lease_shrink_def owned_def Let_def inflight.budget_laws split: if_splits)
qed

lemma lease_try_grow_spec:
  assumes "inflight_ok st" "owned l \<le> inflight_used st" "lease_try_grow n l st = (b, l', st')"
  shows "inflight_ok st' \<and> inflight_used st' + owned l = inflight_used st + owned l'
    \<and> lease_valid l' = lease_valid l \<and> (\<not> lease_valid l \<longrightarrow> l' = l)
    \<and> inflight_cap st' = inflight_cap st"
proof (cases "lease_valid l \<and> n \<noteq> 0")
  case False
  with assms show ?thesis by (auto simp: lease_try_grow_def split: if_splits)
next
  case True
  obtain g st1 where acq: "try_acquire_inflight n st = (g, st1)" by fastforce
  with assms(1) have st1: "inflight_ok st1" "inflight_used st1 = (if g then inflight_used st + unat n else inflight_used st)"
    "inflight_cap st1 = inflight_cap st" "g \<longleftrightarrow> inflight_used st + unat n \<le> inflight_cap st"
    using inflight.budget_laws [OF assms(1), of n] by simp_all
  have "unat (lease_bytes l + n) = unat (lease_bytes l) + unat n" if "g"
  proof -
    have "unat (lease_bytes l) + unat n \<le> inflight_cap st"
      using that st1(4) assms(2) True by (simp add: owned_def)
    then show ?thesis unfolding inflight_cap_def by (rule unat_add_fits)
  qed
  with True acq st1 assms(3) show ?thesis
    by (cases g) (auto simp: lease_try_grow_def owned_def)
qed

lemma budget_try_acquire_ok:
  assumes "inflight_ok st" "budget_try_acquire n st = (m, st')"
  shows "inflight_ok st' \<and> inflight_used st' = inflight_used st + (case m of None \<Rightarrow> 0 | Some l \<Rightarrow> owned l)
    \<and> (\<forall>l. m = Some l \<longrightarrow> owned l = unat n)"
  using assms inflight.budget_laws [OF assms(1), of n]
  by (cases "try_acquire_inflight n st") (auto simp: budget_try_acquire_def owned_def split: bool.splits)

lemma pool_update_ok:
  assumes "pool_ok p" "i < length (pool_leases p)" "inflight_ok st"
    and "inflight_used st + owned (pool_leases p ! i) = inflight_used (pool_metrics p) + owned l"
    and "lease_valid l \<or> lease_bytes l = 0"
  shows "pool_ok (p\<lparr>pool_leases := (pool_leases p)[i := l], pool_metrics := st\<rparr>)"
  using assms sum_owned_update [OF assms(2), of l]
  by (auto simp: pool_ok_def list_all_update)

lemma pool_okD:
  assumes "pool_ok p" "i < length (pool_leases p)"
  shows "inflight_ok (pool_metrics p)" "owned (pool_leases p ! i) \<le> inflight_used (pool_metrics p)"
    "lease_valid (pool_leases p ! i) \<or> lease_bytes (pool_leases p ! i) = 0"
  using assms by (auto simp: pool_ok_def owned_le_sum list_all_length)

definition pool_cap :: "lease_pool \<Rightarrow> nat" where
  "pool_cap p = inflight_cap (pool_metrics p)"

text \<open>Each kind of step keeps the accounts and the capacity.\<close>

lemma pool_step_Acquire:
  assumes "pool_ok p"
  shows "pool_ok (pool_step (Acquire n) p) \<and> pool_cap (pool_step (Acquire n) p) = pool_cap p"
proof -
  have "inflight_ok (pool_metrics p)" using assms by (simp add: pool_ok_def)
  from inflight.budget_laws [OF this, of n] assms show ?thesis
    by (auto simp: budget_try_acquire_def pool_ok_def pool_cap_def owned_def split: prod.splits bool.splits)
qed

lemma pool_step_Grow:
  assumes "pool_ok p"
  shows "pool_ok (pool_step (Grow i n) p) \<and> pool_cap (pool_step (Grow i n) p) = pool_cap p"
proof (cases "i < length (pool_leases p)")
  case True
  obtain b l st where eq: "lease_try_grow n (pool_leases p ! i) (pool_metrics p) = (b, l, st)"
    by (metis prod.exhaust)
  note D = pool_okD [OF assms True]
  from lease_try_grow_spec [OF D(1,2) eq] D(3) assms True eq show ?thesis
    by (auto intro!: pool_update_ok simp: pool_cap_def)
qed (simp add: assms)

lemma pool_step_Shrink:
  assumes "pool_ok p"
  shows "pool_ok (pool_step (Shrink i n) p) \<and> pool_cap (pool_step (Shrink i n) p) = pool_cap p"
proof (cases "i < length (pool_leases p)")
  case True
  obtain l st where eq: "lease_shrink n (pool_leases p ! i) (pool_metrics p) = (l, st)"
    by fastforce
  note D = pool_okD [OF assms True]
  from lease_shrink_spec [OF D(1,2) eq] D(3) assms True eq show ?thesis
    by (auto intro!: pool_update_ok simp: pool_cap_def)
qed (simp add: assms)

lemma pool_step_Reset:
  assumes "pool_ok p"
  shows "pool_ok (pool_step (Reset i) p) \<and> pool_cap (pool_step (Reset i) p) = pool_cap p"
proof (cases "i < length (pool_leases p)")
  case True
  obtain l st where eq: "lease_reset (pool_leases p ! i) (pool_metrics p) = (l, st)"
    by fastforce
  note D = pool_okD [OF assms True]
  from lease_reset_spec [OF D(1,2) eq] D(2) assms True eq show ?thesis
    by (auto intro!: pool_update_ok simp: empty_lease_def owned_def pool_cap_def)
qed (simp add: assms)

lemma pool_step_MoveAssign:
  assumes "pool_ok p"
  shows "pool_ok (pool_step (MoveAssign i j) p) \<and> pool_cap (pool_step (MoveAssign i j) p) = pool_cap p"
proof (cases "i < length (pool_leases p) \<and> j < length (pool_leases p) \<and> i \<noteq> j")
  case True
  let ?ls = "pool_leases p"
  obtain l st where eq: "lease_reset (?ls ! i) (pool_metrics p) = (l, st)" by fastforce
  note D = pool_okD [OF assms, of i]
  note spec = lease_reset_spec [OF D(1,2) eq]
  have "sum_list (map owned (?ls[i := ?ls ! j])) + owned (?ls ! i) = sum_list (map owned ?ls) + owned (?ls ! j)"
    using True by (simp add: sum_owned_update)
  moreover have "sum_list (map owned (?ls[i := ?ls ! j, j := empty_lease])) + owned (?ls ! j)
      = sum_list (map owned (?ls[i := ?ls ! j]))"
    using True sum_owned_update [of j "?ls[i := ?ls ! j]" empty_lease] by simp
  moreover have "list_all (\<lambda>l. lease_valid l \<or> lease_bytes l = 0) (?ls[i := ?ls ! j, j := empty_lease])"
    using assms True by (intro list_all_update) (auto simp: pool_ok_def empty_lease_def list_all_length)
  ultimately show ?thesis
    using True spec eq assms
    by (auto simp: lease_move_assign_def lease_move_def pool_ok_def pool_cap_def)
qed (use assms in auto)

lemma pool_step_ok:
  "pool_ok p \<Longrightarrow> pool_ok (pool_step op p) \<and> pool_cap (pool_step op p) = pool_cap p"
  by (cases op) (metis pool_step_Acquire, metis pool_step_Grow, metis pool_step_Shrink,
      metis pool_step_Reset, metis pool_step_MoveAssign)

lemma pool_run_ok:
  "pool_ok p \<Longrightarrow> pool_ok (fold pool_step ops p) \<and> pool_cap (fold pool_step ops p) = pool_cap p"
  by (induction ops arbitrary: p) (simp, metis fold_simps(2) pool_step_ok)

definition fresh_pool :: "metrics \<Rightarrow> lease_pool" where
  "fresh_pool st = \<lparr>pool_leases = [], pool_metrics = st\<rparr>"

lemma fresh_pool_ok:
  "make_inflight_memory_budget c initial_metrics = Inr st \<Longrightarrow>
     pool_ok (fresh_pool st) \<and> pool_cap (fresh_pool st) = unat c"
  by (auto simp: make_inflight_memory_budget_def configure_inflight_budget_def initial_metrics_def
      pool_ok_def pool_cap_def fresh_pool_def inflight_ok_def inflight_used_def inflight_cap_def
      split: if_splits)

text \<open>C23: After any sequence of acquisitions, growth, shrinking, resets and moves of leases on a new
  budget, the counter of bytes in flight is the sum of the bytes the live leases own, and it
  never exceeds the capacity.\<close>

theorem inflight_accounting:
  assumes "make_inflight_memory_budget c initial_metrics = Inr st"
  shows "inflight_used (pool_metrics (fold pool_step ops (fresh_pool st)))
      = sum_list (map owned (pool_leases (fold pool_step ops (fresh_pool st))))
    \<and> inflight_used (pool_metrics (fold pool_step ops (fresh_pool st))) \<le> unat c"
proof -
  have "pool_ok (fold pool_step ops (fresh_pool st))" "pool_cap (fold pool_step ops (fresh_pool st)) = unat c"
    using fresh_pool_ok [OF assms] pool_run_ok by auto
  then show ?thesis
    using inflight.used_le_cap [of "pool_metrics (fold pool_step ops (fresh_pool st))"]
    by (simp add: pool_ok_def pool_cap_def)
qed

theorem inflight_accounting_witness:
  "\<exists>st. make_inflight_memory_budget 100 initial_metrics = Inr st \<and>
     inflight_used (pool_metrics (fold pool_step [Acquire 60, Acquire 50, Grow 0 30, Shrink 0 10] (fresh_pool st))) = 80 \<and>
     inflight_used (pool_metrics (fold pool_step [Acquire 60, Acquire 50, Grow 0 30, Shrink 0 10] (fresh_pool st))) \<le> unat (100 :: u64)"
proof -
  let ?st = "initial_metrics(InflightM InflightBudgetBytes := 100)"
  have h: "make_inflight_memory_budget 100 initial_metrics = Inr ?st"
    by (simp add: make_inflight_memory_budget_def configure_inflight_budget_def initial_metrics_def)
  have "inflight_used (pool_metrics (fold pool_step [Acquire 60, Acquire 50, Grow 0 30, Shrink 0 10] (fresh_pool ?st))) = 80"
    by (simp add: fresh_pool_def budget_try_acquire_def try_acquire_inflight_def lease_try_grow_def
        lease_shrink_def release_inflight_def store_def fetch_add_def update_peak_def Let_def
        initial_metrics_def inflight_used_def)
  with h inflight_accounting [OF h, of "[Acquire 60, Acquire 50, Grow 0 30, Shrink 0 10]"]
  show ?thesis by blast
qed

text \<open>In every reachable pool, \<^verbatim>\<open>try_acquire\<close> grants a lease exactly when the requested bytes fit in
  what the live leases leave of the capacity.\<close>

theorem try_acquire_exact:
  assumes "make_inflight_memory_budget c initial_metrics = Inr st"
  shows "fst (budget_try_acquire n (pool_metrics (fold pool_step ops (fresh_pool st)))) \<noteq> None
    \<longleftrightarrow> sum_list (map owned (pool_leases (fold pool_step ops (fresh_pool st)))) + unat n \<le> unat c"
proof -
  let ?p = "fold pool_step ops (fresh_pool st)"
  have ok: "pool_ok ?p" "pool_cap ?p = unat c"
    using fresh_pool_ok [OF assms] pool_run_ok by auto
  then have "fst (try_acquire_inflight n (pool_metrics ?p)) \<longleftrightarrow>
      sum_list (map owned (pool_leases ?p)) + unat n \<le> unat c"
    using inflight.acquire_grants [of "pool_metrics ?p" n] by (simp add: pool_ok_def pool_cap_def)
  then show ?thesis by (auto simp: budget_try_acquire_def split: prod.splits bool.splits)
qed

theorem try_acquire_exact_witness:
  "\<exists>st. make_inflight_memory_budget 100 initial_metrics = Inr st \<and>
     fst (budget_try_acquire 41 (pool_metrics (fold pool_step [Acquire 60] (fresh_pool st)))) = None"
proof -
  let ?st = "initial_metrics(InflightM InflightBudgetBytes := 100)"
  have h: "make_inflight_memory_budget 100 initial_metrics = Inr ?st"
    by (simp add: make_inflight_memory_budget_def configure_inflight_budget_def initial_metrics_def)
  have "pool_leases (fold pool_step [Acquire 60] (fresh_pool ?st)) = [\<lparr>lease_valid = True, lease_bytes = 60\<rparr>]"
    by (simp add: fresh_pool_def budget_try_acquire_def try_acquire_inflight_def store_def
        update_peak_def Let_def initial_metrics_def)
  with h try_acquire_exact [OF h, of 41 "[Acquire 60]"] show ?thesis
    by (auto simp: owned_def)
qed

lemma reset_all_owned:
  assumes "n \<le> length (pool_leases p)"
  shows "length (pool_leases (fold pool_step (map Reset [0..<n]) p)) = length (pool_leases p)
    \<and> (\<forall>i<n. pool_leases (fold pool_step (map Reset [0..<n]) p) ! i = empty_lease)"
  using assms
proof (induction n)
  case 0
  then show ?case by simp
next
  case (Suc n)
  then show ?case
    by (auto simp: lease_reset_def nth_list_update less_Suc_eq)
qed

text \<open>When every lease of a reachable pool has been reset (destroyed), no byte is in flight.\<close>

theorem reset_all_returns_everything:
  assumes "make_inflight_memory_budget c initial_metrics = Inr st" "p = fold pool_step ops (fresh_pool st)"
  shows "inflight_used (pool_metrics (fold pool_step (map Reset [0..<length (pool_leases p)]) p)) = 0"
proof -
  let ?q = "fold pool_step (map Reset [0..<length (pool_leases p)]) p"
  have "pool_ok p" using fresh_pool_ok [OF assms(1)] pool_run_ok assms(2) by auto
  then have "inflight_used (pool_metrics ?q) = sum_list (map owned (pool_leases ?q))"
    using pool_run_ok by (auto simp: pool_ok_def)
  moreover have "map owned (pool_leases ?q) = map (\<lambda>_. 0) (pool_leases ?q)"
    using reset_all_owned [of "length (pool_leases p)" p] by (auto simp: in_set_conv_nth)
  ultimately show ?thesis by (simp add: sum_list_triv)
qed

theorem reset_all_returns_everything_witness:
  "\<exists>st. make_inflight_memory_budget 100 initial_metrics = Inr st \<and>
     inflight_used (pool_metrics (fold pool_step (map Reset [0..<length (pool_leases
       (fold pool_step [Acquire 60, Acquire 40] (fresh_pool st)))])
       (fold pool_step [Acquire 60, Acquire 40] (fresh_pool st)))) = 0"
proof -
  let ?st = "initial_metrics(InflightM InflightBudgetBytes := 100)"
  have h: "make_inflight_memory_budget 100 initial_metrics = Inr ?st"
    by (simp add: make_inflight_memory_budget_def configure_inflight_budget_def initial_metrics_def)
  from h reset_all_returns_everything [OF h refl, of "[Acquire 60, Acquire 40]"] show ?thesis by blast
qed

section \<open>The compare-exchange loops, interleaved\<close>

text \<open>
  Where a thread stands in \<^verbatim>\<open>try_acquire_inflight\<close>, \<^verbatim>\<open>update_peak\<close> or \<^verbatim>\<open>release_inflight\<close>: before its
  loads, or in the loop with the value it loaded last. A failed \<^verbatim>\<open>compare_exchange_weak\<close>, also a
  spurious one, reloads the counter.
\<close>

datatype budget_pc =
    Idle
  | AcqStart u64
  | AcqCapacity u64 u64
  | AcqLoop u64 u64 u64
  | PeakStart u64
  | PeakLoop u64 u64
  | RelStart u64
  | RelLoop u64 u64

text \<open>The bytes each thread has acquired and not yet given back are kept beside the counters.\<close>

record budget_sys =
  sys_metrics :: metrics
  sys_pcs :: "budget_pc list"
  sys_held :: "nat list"

abbreviation sys_cur :: "budget_sys \<Rightarrow> u64" where
  "sys_cur s \<equiv> sys_metrics s (InflightM CurrentInflightBytes)"

abbreviation sys_cap :: "budget_sys \<Rightarrow> u64" where
  "sys_cap s \<equiv> sys_metrics s (InflightM InflightBudgetBytes)"

abbreviation sys_peak :: "budget_sys \<Rightarrow> u64" where
  "sys_peak s \<equiv> sys_metrics s (InflightM PeakInflightBytes)"

definition goto :: "nat \<Rightarrow> budget_pc \<Rightarrow> budget_sys \<Rightarrow> budget_sys" where
  "goto i pc s = s\<lparr>sys_pcs := (sys_pcs s)[i := pc]\<rparr>"

definition put_metric :: "inflight_metric \<Rightarrow> u64 \<Rightarrow> budget_sys \<Rightarrow> budget_sys" where
  "put_metric m v s = s\<lparr>sys_metrics := (sys_metrics s)(InflightM m := v)\<rparr>"

definition hold :: "nat \<Rightarrow> nat \<Rightarrow> budget_sys \<Rightarrow> budget_sys" where
  "hold i n s = s\<lparr>sys_held := (sys_held s)[i := n]\<rparr>"

definition count_rejection :: "budget_sys \<Rightarrow> budget_sys" where
  "count_rejection s = put_metric InflightBudgetRejections (sys_metrics s (InflightM InflightBudgetRejections) + 1) s"

abbreviation fits :: "u64 \<Rightarrow> u64 \<Rightarrow> u64 \<Rightarrow> bool" where
  "fits n cap cur \<equiv> n \<le> cap - min cap cur"

inductive budget_step :: "budget_sys \<Rightarrow> budget_sys \<Rightarrow> bool" where
  configure: "sys_cap s = 0 \<Longrightarrow> c \<noteq> 0 \<Longrightarrow> budget_step s (put_metric InflightBudgetBytes c s)"
| call_acquire: "i < length (sys_pcs s) \<Longrightarrow> sys_pcs s ! i = Idle \<Longrightarrow> n \<noteq> 0 \<Longrightarrow>
    budget_step s (goto i (AcqStart n) s)"
| acq_unconfigured: "i < length (sys_pcs s) \<Longrightarrow> sys_pcs s ! i = AcqStart n \<Longrightarrow> sys_cap s = 0 \<Longrightarrow>
    budget_step s (goto i Idle (count_rejection s))"
| acq_capacity: "i < length (sys_pcs s) \<Longrightarrow> sys_pcs s ! i = AcqStart n \<Longrightarrow> sys_cap s \<noteq> 0 \<Longrightarrow>
    budget_step s (goto i (AcqCapacity n (sys_cap s)) s)"
| acq_load: "i < length (sys_pcs s) \<Longrightarrow> sys_pcs s ! i = AcqCapacity n cap \<Longrightarrow>
    budget_step s (goto i (AcqLoop n cap (sys_cur s)) s)"
| acq_refuse: "i < length (sys_pcs s) \<Longrightarrow> sys_pcs s ! i = AcqLoop n cap cur \<Longrightarrow> \<not> fits n cap cur \<Longrightarrow>
    budget_step s (goto i Idle (count_rejection s))"
| acq_cas: "i < length (sys_pcs s) \<Longrightarrow> sys_pcs s ! i = AcqLoop n cap cur \<Longrightarrow> fits n cap cur \<Longrightarrow>
    sys_cur s = cur \<Longrightarrow>
    budget_step s (goto i (PeakStart (cur + n)) (hold i (sys_held s ! i + unat n)
                     (put_metric CurrentInflightBytes (cur + n) s)))"
| acq_retry: "i < length (sys_pcs s) \<Longrightarrow> sys_pcs s ! i = AcqLoop n cap cur \<Longrightarrow> fits n cap cur \<Longrightarrow>
    budget_step s (goto i (AcqLoop n cap (sys_cur s)) s)"
| peak_load: "i < length (sys_pcs s) \<Longrightarrow> sys_pcs s ! i = PeakStart v \<Longrightarrow>
    budget_step s (goto i (PeakLoop v (sys_peak s)) s)"
| peak_done: "i < length (sys_pcs s) \<Longrightarrow> sys_pcs s ! i = PeakLoop v p \<Longrightarrow> \<not> p < v \<Longrightarrow>
    budget_step s (goto i Idle s)"
| peak_cas: "i < length (sys_pcs s) \<Longrightarrow> sys_pcs s ! i = PeakLoop v p \<Longrightarrow> p < v \<Longrightarrow> sys_peak s = p \<Longrightarrow>
    budget_step s (goto i Idle (put_metric PeakInflightBytes v s))"
| peak_retry: "i < length (sys_pcs s) \<Longrightarrow> sys_pcs s ! i = PeakLoop v p \<Longrightarrow> p < v \<Longrightarrow>
    budget_step s (goto i (PeakLoop v (sys_peak s)) s)"
| call_release: "i < length (sys_pcs s) \<Longrightarrow> sys_pcs s ! i = Idle \<Longrightarrow> n \<noteq> 0 \<Longrightarrow>
    unat n \<le> sys_held s ! i \<Longrightarrow> budget_step s (goto i (RelStart n) s)"
| rel_load: "i < length (sys_pcs s) \<Longrightarrow> sys_pcs s ! i = RelStart n \<Longrightarrow>
    budget_step s (goto i (RelLoop n (sys_cur s)) s)"
| rel_cas: "i < length (sys_pcs s) \<Longrightarrow> sys_pcs s ! i = RelLoop n cur \<Longrightarrow> n \<le> cur \<Longrightarrow> sys_cur s = cur \<Longrightarrow>
    budget_step s (goto i Idle (hold i (sys_held s ! i - unat n)
                     (put_metric CurrentInflightBytes (cur - n) s)))"
| rel_retry: "i < length (sys_pcs s) \<Longrightarrow> sys_pcs s ! i = RelLoop n cur \<Longrightarrow> n \<le> cur \<Longrightarrow>
    budget_step s (goto i (RelLoop n (sys_cur s)) s)"
| rel_underflow: "i < length (sys_pcs s) \<Longrightarrow> sys_pcs s ! i = RelLoop n cur \<Longrightarrow> \<not> n \<le> cur \<Longrightarrow>
    budget_step s (goto i Idle s)"

text \<open>\<open>k\<close> threads, nothing acquired.\<close>

definition initial_sys :: "nat \<Rightarrow> budget_sys" where
  "initial_sys k = \<lparr>sys_metrics = initial_metrics, sys_pcs = replicate k Idle, sys_held = replicate k 0\<rparr>"

inductive budget_reachable :: "nat \<Rightarrow> budget_sys \<Rightarrow> bool" for k where
  start: "budget_reachable k (initial_sys k)"
| step: "budget_reachable k s \<Longrightarrow> budget_step s t \<Longrightarrow> budget_reachable k t"

text \<open>What each position of a thread knows about the counters.\<close>

fun pc_ok :: "u64 \<Rightarrow> nat \<Rightarrow> budget_pc \<Rightarrow> bool" where
  "pc_ok cap held Idle \<longleftrightarrow> True"
| "pc_ok cap held (AcqStart n) \<longleftrightarrow> True"
| "pc_ok cap held (AcqCapacity n c) \<longleftrightarrow> c = cap \<and> cap \<noteq> 0"
| "pc_ok cap held (AcqLoop n c cur) \<longleftrightarrow> c = cap \<and> cap \<noteq> 0"
| "pc_ok cap held (PeakStart v) \<longleftrightarrow> v \<le> cap \<and> cap \<noteq> 0"
| "pc_ok cap held (PeakLoop v p) \<longleftrightarrow> v \<le> cap \<and> cap \<noteq> 0"
| "pc_ok cap held (RelStart n) \<longleftrightarrow> unat n \<le> held \<and> n \<noteq> 0"
| "pc_ok cap held (RelLoop n cur) \<longleftrightarrow> unat n \<le> held \<and> n \<noteq> 0 \<and> n \<le> cur"

definition budget_inv :: "budget_sys \<Rightarrow> bool" where
  "budget_inv s \<longleftrightarrow> length (sys_held s) = length (sys_pcs s)
     \<and> unat (sys_cur s) = sum_list (sys_held s) \<and> sys_cur s \<le> sys_cap s \<and> sys_peak s \<le> sys_cap s
     \<and> (\<forall>i < length (sys_pcs s). pc_ok (sys_cap s) (sys_held s ! i) (sys_pcs s ! i))"

lemmas sys_upd_defs = goto_def put_metric_def hold_def count_rejection_def

lemma budget_inv_goto:
  "budget_inv s \<Longrightarrow> pc_ok (sys_cap s) (sys_held s ! i) pc \<Longrightarrow> budget_inv (goto i pc s)"
  unfolding budget_inv_def goto_def by simp (metis nth_list_update_eq nth_list_update_neq)

lemma budget_inv_at:
  "budget_inv s \<Longrightarrow> i < length (sys_pcs s) \<Longrightarrow> sys_pcs s ! i = pc \<Longrightarrow> pc_ok (sys_cap s) (sys_held s ! i) pc"
  by (auto simp: budget_inv_def)

lemma budget_inv_rejection: "budget_inv s \<Longrightarrow> budget_inv (count_rejection s)"
  by (simp add: budget_inv_def sys_upd_defs)

lemma held_le_cur: "budget_inv s \<Longrightarrow> i < length (sys_pcs s) \<Longrightarrow> sys_held s ! i \<le> unat (sys_cur s)"
  by (simp add: budget_inv_def elem_le_sum_list)

lemma budget_inv_acquire:
  assumes "budget_inv s" "i < length (sys_pcs s)" "sys_pcs s ! i = AcqLoop n cap cur"
    "fits n cap cur" "sys_cur s = cur"
  shows "budget_inv (goto i (PeakStart (cur + n)) (hold i (sys_held s ! i + unat n)
           (put_metric CurrentInflightBytes (cur + n) s)))"
proof -
  from assms have cap: "cap = sys_cap s" "cap \<noteq> 0" "cur \<le> cap"
    by (auto simp: budget_inv_def dest!: spec [of _ i])
  with assms(4) have le: "unat cur + unat n \<le> unat cap" using fits_word by blast
  then have un: "unat (cur + n) = unat cur + unat n" by (rule unat_add_fits)
  with le have "cur + n \<le> cap" by (simp add: word_le_nat_alt)
  with assms cap un show ?thesis
    by (auto simp: budget_inv_def sys_upd_defs nth_list_update sum_list_update elem_le_sum_list)
qed

lemma budget_inv_release:
  assumes "budget_inv s" "i < length (sys_pcs s)" "sys_pcs s ! i = RelLoop n cur" "n \<le> cur" "sys_cur s = cur"
  shows "budget_inv (goto i Idle (hold i (sys_held s ! i - unat n) (put_metric CurrentInflightBytes (cur - n) s)))"
proof -
  from assms have n: "unat n \<le> sys_held s ! i"
    by (auto simp: budget_inv_def dest!: spec [of _ i])
  have un: "unat (cur - n) = unat cur - unat n" using assms(4) by (rule unat_sub)
  have "cur - n \<le> cur" using assms(4) by (rule word_sub_le)
  then have "cur - n \<le> sys_cap s" using assms by (auto simp: budget_inv_def)
  moreover have "sum_list ((sys_held s)[i := sys_held s ! i - unat n]) = unat cur - unat n"
    using assms n held_le_cur [OF assms(1,2)]
    by (auto simp: budget_inv_def sum_list_update elem_le_sum_list)
  ultimately show ?thesis using assms un
    by (auto simp: budget_inv_def sys_upd_defs nth_list_update)
qed

lemma budget_step_inv: "budget_step s t \<Longrightarrow> budget_inv s \<Longrightarrow> budget_inv t"
proof (induction rule: budget_step.induct)
  case (configure s c)
  then have "\<And>i. i < length (sys_pcs s) \<Longrightarrow> pc_ok c (sys_held s ! i) (sys_pcs s ! i)"
    by (fastforce simp: budget_inv_def elim!: pc_ok.elims)
  with configure show ?case by (auto simp: budget_inv_def put_metric_def)
next
  case (acq_cas i s n cap cur)
  then show ?case by (intro budget_inv_acquire)
next
  case (rel_cas i s n cur)
  then show ?case by (intro budget_inv_release)
next
  case (peak_cas i s v p)
  then have "v \<le> sys_cap s" by (auto simp: budget_inv_def dest!: spec [of _ i])
  with peak_cas show ?case by (intro budget_inv_goto) (auto simp: budget_inv_def put_metric_def)
next
  case (rel_load i s n)
  moreover from this have "pc_ok (sys_cap s) (sys_held s ! i) (RelStart n)" by (auto simp: budget_inv_def)
  ultimately show ?case using held_le_cur [of s i]
    by (intro budget_inv_goto) (auto simp: word_le_nat_alt)
next
  case (rel_retry i s n cur)
  moreover from this have "pc_ok (sys_cap s) (sys_held s ! i) (RelLoop n cur)" by (auto simp: budget_inv_def)
  ultimately show ?case using held_le_cur [of s i]
    by (intro budget_inv_goto) (auto simp: word_le_nat_alt)
qed (auto dest: budget_inv_at intro!: budget_inv_goto budget_inv_rejection)

lemma budget_reachable_inv: "budget_reachable k s \<Longrightarrow> budget_inv s"
proof (induction rule: budget_reachable.induct)
  case start
  then show ?case
    by (simp add: budget_inv_def initial_sys_def initial_metrics_def sum_list_replicate)
next
  case (step s t)
  then show ?case by (blast intro: budget_step_inv)
qed

text \<open>C3: However the compare-exchange loops of any number of threads interleave, the bytes in flight
  are the bytes the threads hold, neither they nor the recorded peak exceed the configured
  budget, and no thread reaches the underflow assertion of \<^verbatim>\<open>release_inflight\<close>.\<close>

theorem budget_never_exceeded:
  assumes "budget_reachable k s"
  shows "unat (sys_cur s) = sum_list (sys_held s) \<and> sys_cur s \<le> sys_cap s \<and> sys_peak s \<le> sys_cap s
    \<and> (\<forall>i n cur. i < length (sys_pcs s) \<longrightarrow> sys_pcs s ! i = RelLoop n cur \<longrightarrow> n \<le> cur)"
proof -
  have inv: "budget_inv s" using assms by (rule budget_reachable_inv)
  then have "\<forall>i n cur. i < length (sys_pcs s) \<longrightarrow> sys_pcs s ! i = RelLoop n cur \<longrightarrow> n \<le> cur"
    using budget_inv_at by fastforce
  with inv show ?thesis by (simp add: budget_inv_def)
qed

theorem budget_never_exceeded_witness:
  "\<exists>s. budget_reachable 2 s \<and> sys_pcs s ! 0 = AcqCapacity 5 10 \<and> sys_cur s \<le> sys_cap s"
proof -
  let ?s1 = "put_metric InflightBudgetBytes 10 (initial_sys 2)"
  let ?s2 = "goto 0 (AcqStart 5) ?s1"
  let ?s3 = "goto 0 (AcqCapacity 5 (sys_cap ?s2)) ?s2"
  have "budget_reachable 2 ?s1"
    by (rule budget_reachable.step [OF budget_reachable.start])
       (rule budget_step.configure, simp_all add: initial_sys_def initial_metrics_def)
  then have "budget_reachable 2 ?s2"
    by (rule budget_reachable.step)
       (rule budget_step.call_acquire, simp_all add: initial_sys_def put_metric_def)
  then have r: "budget_reachable 2 ?s3"
    by (rule budget_reachable.step)
       (rule budget_step.acq_capacity, simp_all add: initial_sys_def put_metric_def goto_def)
  moreover have "sys_pcs ?s3 ! 0 = AcqCapacity 5 10"
    by (simp add: goto_def put_metric_def initial_sys_def)
  ultimately show ?thesis using budget_never_exceeded [OF r] by blast
qed

end
