(* ===== verification/Json.thy ===== *)
theory Json
  imports Prelude
begin

text \<open>
  JSON values as the program handles them: the value type of the JSON library the sources use
  (\<^verbatim>\<open>nlohmann::json\<close> and its instance \<^verbatim>\<open>RuleJson\<close> of \<^verbatim>\<open>src/rules/rule_json.hpp\<close>), with its two integer
  kinds of 64 bits, IEEE doubles, and objects as maps ordered by key. Its parser and its
  printer are not modelled: the components that call them take them as arguments. The
  equality \<open>json_eq\<close> is the one the rules use, which compares numbers of different kinds after
  a conversion.
\<close>

section \<open>Doubles\<close>

text \<open>A finite double is a sign, a mantissa and an exponent: \<open>mantissa * 2 ^ exponent\<close>.\<close>

datatype double = DNan | DInf bool | DFin bool nat int

definition signed :: "bool \<Rightarrow> nat \<Rightarrow> int" where
  "signed neg m = (if neg then - int m else int m)"

fun double_eq :: "double \<Rightarrow> double \<Rightarrow> bool" where
  "double_eq (DInf s) (DInf t) \<longleftrightarrow> s = t"
| "double_eq (DFin s m e) (DFin t n f) \<longleftrightarrow>
     signed s m * 2 ^ nat (e - min e f) = signed t n * 2 ^ nat (f - min e f)"
| "double_eq _ _ \<longleftrightarrow> False"

definition double_finite :: "double \<Rightarrow> bool" where
  "double_finite d \<longleftrightarrow> (case d of DFin _ _ _ \<Rightarrow> True | _ \<Rightarrow> False)"

fun bit_length :: "nat \<Rightarrow> nat" where
  "bit_length n = (if n = 0 then 0 else Suc (bit_length (n div 2)))"

declare bit_length.simps [simp del]

text \<open>Conversion of an integer to double: exact below \<open>2 ^ 53\<close>, else to nearest, ties to even.\<close>

definition double_of_int :: "int \<Rightarrow> double" where
  "double_of_int i =
     (let n = nat \<bar>i\<bar>; k = bit_length n - 53 in
      if k = 0 then DFin (i < 0) n 0
      else let q = n div 2 ^ k; r = n mod 2 ^ k; half = 2 ^ (k - 1);
               q' = (if r > half \<or> (r = half \<and> odd q) then q + 1 else q)
           in DFin (i < 0) q' (int k))"

section \<open>Values\<close>

datatype json =
    JNull
  | JBool bool
  | JInt u64
  | JUint u64
  | JFloat double
  | JStr string
  | JArr "json list"
  | JObj "(string \<times> json) list"

text \<open>Byte-wise order of keys, the order of \<^verbatim>\<open>std::map\<close>.\<close>

fun str_less :: "string \<Rightarrow> string \<Rightarrow> bool" where
  "str_less [] [] \<longleftrightarrow> False"
| "str_less [] (_ # _) \<longleftrightarrow> True"
| "str_less (_ # _) [] \<longleftrightarrow> False"
| "str_less (x # xs) (y # ys) \<longleftrightarrow> code x < code y \<or> (x = y \<and> str_less xs ys)"

text \<open>Ordered maps as sorted association lists.\<close>

definition keys_sorted :: "(string \<times> 'a) list \<Rightarrow> bool" where
  "keys_sorted kvs \<longleftrightarrow> sorted_wrt str_less (map fst kvs)"

fun map_insert :: "string \<Rightarrow> 'a \<Rightarrow> (string \<times> 'a) list \<Rightarrow> (string \<times> 'a) list" where
  "map_insert k v [] = [(k, v)]"
| "map_insert k v ((k', v') # kvs) =
     (if k = k' then (k, v) # kvs
      else if str_less k k' then (k, v) # (k', v') # kvs
      else (k', v') # map_insert k v kvs)"

definition map_erase :: "string \<Rightarrow> (string \<times> 'a) list \<Rightarrow> (string \<times> 'a) list" where
  "map_erase k kvs = filter (\<lambda>(k', _). k' \<noteq> k) kvs"

text \<open>\<^verbatim>\<open>emplace\<close> keeps an entry that is there; \<^verbatim>\<open>root[key] = value\<close> overwrites it.\<close>

definition map_emplace :: "string \<Rightarrow> 'a \<Rightarrow> (string \<times> 'a) list \<Rightarrow> (string \<times> 'a) list" where
  "map_emplace k v kvs = (if map_of kvs k = None then map_insert k v kvs else kvs)"

definition map_of_entries :: "(string \<times> 'a) list \<Rightarrow> (string \<times> 'a) list" where
  "map_of_entries = foldl (\<lambda>m (k, v). map_insert k v m) []"

text \<open>Numbers of different kinds compare after conversion: a signed and an unsigned integer as
  signed, an integer and a double as double.\<close>

fun json_eq :: "json \<Rightarrow> json \<Rightarrow> bool" where
  "json_eq (JArr xs) (JArr ys) \<longleftrightarrow> list_all2 json_eq xs ys"
| "json_eq (JObj xs) (JObj ys) \<longleftrightarrow> list_all2 (\<lambda>(k, v) (k', v'). k = k' \<and> json_eq v v') xs ys"
| "json_eq JNull JNull \<longleftrightarrow> True"
| "json_eq (JStr s) (JStr t) \<longleftrightarrow> s = t"
| "json_eq (JBool a) (JBool b) \<longleftrightarrow> a = b"
| "json_eq (JInt i) (JInt j) \<longleftrightarrow> i = j"
| "json_eq (JUint i) (JUint j) \<longleftrightarrow> i = j"
| "json_eq (JFloat d) (JFloat e) \<longleftrightarrow> double_eq d e"
| "json_eq (JInt i) (JFloat d) \<longleftrightarrow> double_eq (double_of_int (sint i)) d"
| "json_eq (JFloat d) (JInt i) \<longleftrightarrow> double_eq d (double_of_int (sint i))"
| "json_eq (JUint i) (JFloat d) \<longleftrightarrow> double_eq (double_of_int (uint i)) d"
| "json_eq (JFloat d) (JUint i) \<longleftrightarrow> double_eq d (double_of_int (uint i))"
| "json_eq (JUint i) (JInt j) \<longleftrightarrow> sint i = sint j"
| "json_eq (JInt i) (JUint j) \<longleftrightarrow> sint i = sint j"
| "json_eq _ _ \<longleftrightarrow> False"

text \<open>Well-formed values: a finite double is in lowest terms and in the range of the type, and the
  members of an object are ordered by distinct keys.\<close>

definition double_wf :: "double \<Rightarrow> bool" where
  "double_wf d \<longleftrightarrow> (case d of
     DFin _ m e \<Rightarrow> m < 2 ^ 53 \<and> - 1074 \<le> e \<and> e + int (bit_length m) \<le> 1024 \<and> (odd m \<or> m = 0 \<and> e = 0)
   | _ \<Rightarrow> True)"

fun json_wf :: "json \<Rightarrow> bool" where
  "json_wf (JFloat d) \<longleftrightarrow> double_wf d"
| "json_wf (JArr xs) \<longleftrightarrow> list_all json_wf xs"
| "json_wf (JObj kvs) \<longleftrightarrow> keys_sorted kvs \<and> list_all (\<lambda>kv. json_wf (snd kv)) kvs"
| "json_wf _ \<longleftrightarrow> True"

fun is_object :: "json \<Rightarrow> bool" where
  "is_object (JObj _) \<longleftrightarrow> True"
| "is_object _ \<longleftrightarrow> False"

fun is_array :: "json \<Rightarrow> bool" where
  "is_array (JArr _) \<longleftrightarrow> True"
| "is_array _ \<longleftrightarrow> False"

text \<open>\<^verbatim>\<open>value.find(key)\<close> on a value of any kind: only objects have members.\<close>

fun json_find :: "string \<Rightarrow> json \<Rightarrow> json option" where
  "json_find k (JObj kvs) = map_of kvs k"
| "json_find k _ = None"

section \<open>Lemmas on ordered maps\<close>

lemma str_less_irrefl [simp]: "\<not> str_less s s"
  by (induction s) auto

lemma str_less_trans: "str_less a b \<Longrightarrow> str_less b c \<Longrightarrow> str_less a c"
proof (induction a b arbitrary: c rule: str_less.induct)
  case (4 x xs y ys)
  then show ?case by (cases c) auto
qed (auto elim: str_less.elims)

lemma str_less_linear: "str_less a b \<or> a = b \<or> str_less b a"
  by (induction a b rule: str_less.induct) (auto simp: less_le)

lemma keys_sorted_Nil [simp]: "keys_sorted []"
  by (simp add: keys_sorted_def)

lemma keys_sorted_Cons:
  "keys_sorted ((k, v) # kvs) \<longleftrightarrow> (\<forall>k' \<in> fst ` set kvs. str_less k k') \<and> keys_sorted kvs"
  by (auto simp: keys_sorted_def)

lemma keys_sorted_distinct: "keys_sorted kvs \<Longrightarrow> distinct (map fst kvs)"
proof (induction kvs)
  case (Cons kv kvs)
  then show ?case by (cases kv) (auto simp: keys_sorted_Cons dest!: bspec)
qed simp

lemma fst_set_map_insert [simp]: "fst ` set (map_insert k v kvs) = insert k (fst ` set kvs)"
  by (induction k v kvs rule: map_insert.induct) auto

lemma map_of_map_insert [simp]:
  "map_of (map_insert k v kvs) = (map_of kvs)(k \<mapsto> v)"
  by (induction k v kvs rule: map_insert.induct) (auto simp: fun_eq_iff)

lemma keys_sorted_insert: "keys_sorted kvs \<Longrightarrow> keys_sorted (map_insert k v kvs)"
proof (induction k v kvs rule: map_insert.induct)
  case (1 k v)
  then show ?case by (simp add: keys_sorted_Cons)
next
  case (2 k v k' v' kvs)
  then show ?case
    using str_less_linear [of k k'] str_less_trans [of k k']
    by (auto simp: keys_sorted_Cons)
qed

lemma map_of_map_erase [simp]: "map_of (map_erase k kvs) = (map_of kvs)(k := None)"
  by (induction kvs) (auto simp: map_erase_def fun_eq_iff)

lemma keys_sorted_filter: "keys_sorted kvs \<Longrightarrow> keys_sorted (filter P kvs)"
  by (induction kvs) (auto simp: keys_sorted_Cons)

lemma keys_sorted_erase: "keys_sorted kvs \<Longrightarrow> keys_sorted (map_erase k kvs)"
  by (simp add: map_erase_def keys_sorted_filter)

lemma keys_sorted_map_values: "keys_sorted (map (\<lambda>(k, v). (k, f k v)) kvs) \<longleftrightarrow> keys_sorted kvs"
  by (simp add: keys_sorted_def case_prod_beta comp_def)

lemma map_insert_present:
  "map_of kvs k = Some w \<Longrightarrow> keys_sorted kvs \<Longrightarrow>
     map_insert k v kvs = map (\<lambda>(k', v'). (k', if k' = k then v else v')) kvs"
proof (induction k v kvs rule: map_insert.induct)
  case (2 k v k' v' kvs)
  have nomem: "str_less k k' \<Longrightarrow> k \<in> fst ` set kvs \<Longrightarrow> False" if "keys_sorted ((k', v') # kvs)"
    using that str_less_trans [of k k' k] by (auto simp: keys_sorted_Cons)
  have id: "map (\<lambda>(k'', v''). (k'', if k'' = k' then v else v'')) kvs = kvs"
    if "keys_sorted ((k', v') # kvs)"
    using that by (auto simp: keys_sorted_Cons intro!: map_idI) force
  show ?case
  proof (cases "k = k'")
    case True
    with 2 id show ?thesis by simp
  next
    case False
    with "2.prems" have mem: "map_of kvs k = Some w" by simp
    then have "k \<in> fst ` set kvs" by (metis domI dom_map_of_conv_image_fst)
    with nomem "2.prems" have "\<not> str_less k k'" by blast
    with False 2 mem show ?thesis by (simp add: keys_sorted_Cons)
  qed
qed simp

text \<open>Two ordered maps with the same entries are the same list.\<close>

lemma keys_sorted_unique:
  "keys_sorted xs \<Longrightarrow> keys_sorted ys \<Longrightarrow> map_of xs = map_of ys \<Longrightarrow> xs = ys"
proof (induction xs arbitrary: ys)
  case Nil
  then show ?case by (metis map_of.simps(1) map_of_eq_empty_iff)
next
  case (Cons kv xs)
  obtain k v where kv: "kv = (k, v)" by fastforce
  have at: "map_of ys x = (if x = k then Some v else map_of xs x)" for x
    using fun_cong [OF Cons.prems(3), of x] kv by simp
  have "ys \<noteq> []" using at [of k] by auto
  then obtain k' v' ys' where ys: "ys = (k', v') # ys'" by (metis list.exhaust surj_pair)
  have "dom (map_of (kv # xs)) = dom (map_of ys)"
    by (rule arg_cong [OF Cons.prems(3)])
  then have "insert k (fst ` set xs) = insert k' (fst ` set ys')"
    unfolding dom_map_of_conv_image_fst by (simp add: kv ys)
  then have "k \<in> insert k' (fst ` set ys')" "k' \<in> insert k (fst ` set xs)" by auto
  then have eq: "k = k'"
    using Cons.prems(1,2) kv ys str_less_trans [of k k' k] by (auto simp: keys_sorted_Cons)
  have n: "map_of xs k = None" "map_of ys' k = None"
    using Cons.prems(1,2) kv ys eq by (auto simp: keys_sorted_Cons map_of_eq_None_iff)
  from at [of k] ys eq have "v = v'" by simp
  moreover have "map_of xs = map_of ys'"
  proof
    fix x
    show "map_of xs x = map_of ys' x"
      using at [of x] ys eq n by (cases "x = k") auto
  qed
  ultimately show ?case using Cons kv ys eq by (simp add: keys_sorted_Cons)
qed

lemma map_insert_last:
  "(\<And>k'. k' \<in> fst ` set kvs \<Longrightarrow> str_less k' k) \<Longrightarrow> map_insert k v kvs = kvs @ [(k, v)]"
proof (induction k v kvs rule: map_insert.induct)
  case (2 k v k' v' kvs)
  have "str_less k' k" using "2.prems" by simp
  then have "k \<noteq> k'" "\<not> str_less k k'" using str_less_trans [of k k' k] by auto
  with 2 show ?case by simp
qed simp

lemma map_emplace_last:
  assumes "\<And>k'. k' \<in> fst ` set kvs \<Longrightarrow> str_less k' k"
  shows "map_emplace k v kvs = kvs @ [(k, v)]"
proof -
  have "k \<notin> fst ` set kvs" using assms [of k] by auto
  then show ?thesis using assms by (simp add: map_emplace_def map_of_eq_None_iff map_insert_last)
qed

lemma keys_sorted_append:
  "keys_sorted (xs @ ys) \<longleftrightarrow> keys_sorted xs \<and> keys_sorted ys
     \<and> (\<forall>x \<in> fst ` set xs. \<forall>y \<in> fst ` set ys. str_less x y)"
  by (auto simp: keys_sorted_def sorted_wrt_append)

lemma keys_sorted_map_of_entries: "keys_sorted (map_of_entries kvs)"
proof -
  have "keys_sorted m \<Longrightarrow> keys_sorted (foldl (\<lambda>m (k, v). map_insert k v m) m kvs)" for m
    by (induction kvs arbitrary: m) (auto simp: keys_sorted_insert)
  then show ?thesis by (simp add: map_of_entries_def)
qed

lemma map_of_map_of_entries:
  "distinct (map fst kvs) \<Longrightarrow> map_of (map_of_entries kvs) k = map_of kvs k"
proof -
  assume d: "distinct (map fst kvs)"
  have "distinct (map fst kvs) \<Longrightarrow> map_of (foldl (\<lambda>m (k, v). map_insert k v m) m kvs) k
      = (case map_of kvs k of None \<Rightarrow> map_of m k | Some v \<Rightarrow> Some v)" for m
  proof (induction kvs arbitrary: m)
    case (Cons kv kvs)
    obtain a b where kv: "kv = (a, b)" by fastforce
    with Cons.prems have "map_of kvs a = None" by (simp add: map_of_eq_None_iff)
    with Cons kv show ?case by (cases "k = a") (auto split: option.splits)
  qed simp
  from this [OF d, of "[]"] show ?thesis by (simp add: map_of_entries_def split: option.splits)
qed

lemma map_of_entries_sorted: "keys_sorted kvs \<Longrightarrow> map_of_entries kvs = kvs"
  by (rule keys_sorted_unique)
    (auto simp: keys_sorted_map_of_entries map_of_map_of_entries keys_sorted_distinct fun_eq_iff)

lemma set_map_of_entries:
  "distinct (map fst kvs) \<Longrightarrow> set (map_of_entries kvs) = set kvs"
proof -
  assume d: "distinct (map fst kvs)"
  have "(k, v) \<in> set (map_of_entries kvs) \<longleftrightarrow> (k, v) \<in> set kvs" for k v
    using map_of_map_of_entries [OF d, of k] d keys_sorted_distinct [OF keys_sorted_map_of_entries [of kvs]]
    by (metis map_of_eq_Some_iff)
  then show ?thesis by auto
qed

end
