(* ===== verification/FsPath.thy ===== *)
theory FsPath
  imports Prelude
begin

text \<open>
  Lexical operations of \<^verbatim>\<open>std::filesystem::path\<close> with POSIX separators, as far as the configuration
  code uses them. A path is a root flag and its file names; a trailing separator is a last empty
  name. Nothing here looks at a file system. The lemmas describe the normal form: it has no
  \<^verbatim>\<open>.\<close> besides the path \<^verbatim>\<open>.\<close> itself, and \<^verbatim>\<open>..\<close> only at the front of a relative path.
\<close>

record fs_path =
  fs_rooted :: bool
  fs_names :: "string list"

definition fs_of_string :: "string \<Rightarrow> fs_path" where
  "fs_of_string s =
     (let names = filter (\<lambda>n. n \<noteq> []) (split_on CHR ''/'' s)
      in \<lparr>fs_rooted = (s \<noteq> [] \<and> hd s = CHR ''/''),
          fs_names = (if names \<noteq> [] \<and> last s = CHR ''/'' then names @ [[]] else names)\<rparr>)"

definition fs_empty :: "fs_path \<Rightarrow> bool" where
  "fs_empty p \<longleftrightarrow> \<not> fs_rooted p \<and> fs_names p = []"

definition fs_elems :: "fs_path \<Rightarrow> string list" where
  "fs_elems p = (if fs_rooted p then [''/''] else []) @ fs_names p"

definition fs_filename :: "fs_path \<Rightarrow> string" where
  "fs_filename p = (if fs_names p = [] then [] else last (fs_names p))"

abbreviation dotdot :: string where
  "dotdot \<equiv> ''..''"

text \<open>The names seen so far, innermost first, and whether a separator ends them.\<close>

fun norm_loop :: "bool \<Rightarrow> string list \<Rightarrow> bool \<Rightarrow> string list \<Rightarrow> string list \<times> bool" where
  "norm_loop r st tr [] = (st, tr)"
| "norm_loop r st tr (n # ns) =
     (if n = [] \<or> n = ''.'' then norm_loop r st True ns
      else if n = dotdot then
        (case st of
           [] \<Rightarrow> if r then norm_loop r [] True ns else norm_loop r [n] False ns
         | t # ts \<Rightarrow> if t = dotdot then norm_loop r (n # st) False ns else norm_loop r ts True ns)
      else norm_loop r (n # st) False ns)"

definition lexically_normal :: "fs_path \<Rightarrow> fs_path" where
  "lexically_normal p =
     (if fs_empty p then p
      else (case norm_loop (fs_rooted p) [] False (fs_names p) of
              ([], _) \<Rightarrow> \<lparr>fs_rooted = fs_rooted p, fs_names = (if fs_rooted p then [] else [''.''])\<rparr>
            | (t # ts, tr) \<Rightarrow>
                \<lparr>fs_rooted = fs_rooted p,
                 fs_names = rev (t # ts) @ (if tr \<and> t \<noteq> dotdot then [[]] else [])\<rparr>))"

text \<open>The names without the trailing separator.\<close>

definition fs_dir_names :: "fs_path \<Rightarrow> string list" where
  "fs_dir_names p =
     (if fs_names p \<noteq> [] \<and> last (fs_names p) = [] then butlast (fs_names p) else fs_names p)"

definition fs_append :: "fs_path \<Rightarrow> fs_path \<Rightarrow> fs_path" where
  "fs_append p q =
     (if fs_rooted q then q
      else let names = fs_dir_names p
           in \<lparr>fs_rooted = fs_rooted p,
               fs_names = names @ (if fs_names q = [] \<and> names \<noteq> [] then [[]] else fs_names q)\<rparr>)"

fun drop_common :: "'a list \<Rightarrow> 'a list \<Rightarrow> 'a list \<times> 'a list" where
  "drop_common (x # xs) (y # ys) = (if x = y then drop_common xs ys else (x # xs, y # ys))"
| "drop_common xs ys = (xs, ys)"

fun relative_ups :: "string list \<Rightarrow> int" where
  "relative_ups [] = 0"
| "relative_ups (n # ns) =
     (if n = dotdot then - 1 else if n \<noteq> [] \<and> n \<noteq> ''.'' then 1 else 0) + relative_ups ns"

definition lexically_relative :: "fs_path \<Rightarrow> fs_path \<Rightarrow> fs_path" where
  "lexically_relative p base =
     (if fs_rooted p \<noteq> fs_rooted base then \<lparr>fs_rooted = False, fs_names = []\<rparr>
      else let (a, b) = drop_common (fs_elems p) (fs_elems base); n = relative_ups b
           in if a = [] \<and> b = [] then \<lparr>fs_rooted = False, fs_names = [''.'']\<rparr>
              else if n = 0 \<and> (a = [] \<or> hd a = []) then \<lparr>fs_rooted = False, fs_names = [''.'']\<rparr>
              else if n \<ge> 0 then \<lparr>fs_rooted = False, fs_names = replicate (nat n) dotdot @ a\<rparr>
              else \<lparr>fs_rooted = False, fs_names = []\<rparr>)"

section \<open>The normal form\<close>

text \<open>A name that is neither empty nor one of the dots.\<close>

definition plain_name :: "string \<Rightarrow> bool" where
  "plain_name n \<longleftrightarrow> n \<noteq> [] \<and> n \<noteq> ''.'' \<and> n \<noteq> dotdot"

text \<open>The stack of the loop, innermost first: plain names over a possible block of \<^verbatim>\<open>..\<close>.\<close>

definition stack_ok :: "bool \<Rightarrow> string list \<Rightarrow> bool" where
  "stack_ok r st \<longleftrightarrow> (\<exists>ps k. st = ps @ replicate k dotdot \<and> list_all plain_name ps \<and> (r \<longrightarrow> k = 0))"

lemma stack_ok_push: "stack_ok r st \<Longrightarrow> plain_name n \<Longrightarrow> stack_ok r (n # st)"
  unfolding stack_ok_def by (metis append_Cons list.pred_inject(2))

lemma stack_ok_pop: "stack_ok r (t # ts) \<Longrightarrow> t \<noteq> dotdot \<Longrightarrow> stack_ok r ts"
  unfolding stack_ok_def
proof (elim exE conjE)
  fix ps k assume *: "t # ts = ps @ replicate k dotdot" "list_all plain_name ps" "r \<longrightarrow> k = 0" "t \<noteq> dotdot"
  then obtain ps' where "ps = t # ps'" by (cases ps; cases k) auto
  with * show "\<exists>ps k. ts = ps @ replicate k dotdot \<and> list_all plain_name ps \<and> (r \<longrightarrow> k = 0)" by auto
qed

lemma stack_ok_up: "stack_ok False (dotdot # ts) \<Longrightarrow> stack_ok False (dotdot # dotdot # ts)"
  unfolding stack_ok_def
proof (elim exE conjE)
  fix ps k assume *: "dotdot # ts = ps @ replicate k dotdot" "list_all plain_name ps"
  then have "ps = []" by (cases ps) (auto simp: plain_name_def)
  with * show "\<exists>ps k. dotdot # dotdot # ts = ps @ replicate k dotdot \<and> list_all plain_name ps \<and> (False \<longrightarrow> k = 0)"
    by (intro exI [of _ "[]"] exI [of _ "Suc k"]) simp
qed

lemma stack_ok_rooted: "stack_ok True st \<longleftrightarrow> list_all plain_name st"
  by (auto simp: stack_ok_def)

lemma norm_loop_stack: "stack_ok r st \<Longrightarrow> stack_ok r (fst (norm_loop r st tr ns))"
proof (induction r st tr ns rule: norm_loop.induct)
  case (2 r st tr n ns)
  have up: "stack_ok r (n # t # ts)" if "st = t # ts" "t = dotdot" "n = dotdot" for t ts
  proof -
    have "\<not> r" using "2.prems" that by (auto simp: stack_ok_rooted plain_name_def)
    with "2.prems" that stack_ok_up show ?thesis by simp
  qed
  have one: "stack_ok r [n]" if "\<not> r" "n = dotdot"
    using that unfolding stack_ok_def by (intro exI [of _ "[]"] exI [of _ "1"]) simp
  show ?case
  proof (cases "n = [] \<or> n = ''.''")
    case True
    with 2 show ?thesis by auto
  next
    case False
    note nd = False
    show ?thesis
    proof (cases "n = dotdot")
      case False
      with nd "2.prems" have "stack_ok r (n # st)" by (simp add: stack_ok_push plain_name_def)
      with False nd 2 show ?thesis by simp
    next
      case True
      with nd 2 up one stack_ok_pop show ?thesis by (cases st) auto
    qed
  qed
qed simp

text \<open>On plain names the loop only pushes.\<close>

lemma norm_loop_plain:
  "list_all plain_name ns \<Longrightarrow> norm_loop r st tr ns = (rev ns @ st, if ns = [] then tr else False)"
  by (induction ns arbitrary: st tr) (auto simp: plain_name_def)

lemma norm_loop_append:
  "norm_loop r st tr (xs @ ys) = (case norm_loop r st tr xs of (st', tr') \<Rightarrow> norm_loop r st' tr' ys)"
  by (induction r st tr xs rule: norm_loop.induct) (auto split: list.splits)

lemma normal_rooted:
  assumes "fs_rooted p"
  obtains ns tr where "lexically_normal p = \<lparr>fs_rooted = True, fs_names = ns @ (if tr then [[]] else [])\<rparr>"
    "list_all plain_name ns" "tr \<longrightarrow> ns \<noteq> []"
proof -
  obtain st tr where loop: "norm_loop True [] False (fs_names p) = (st, tr)" by fastforce
  then have st: "list_all plain_name st"
    using norm_loop_stack [of True "[]" False "fs_names p"] by (simp add: stack_ok_rooted)
  show ?thesis
  proof (cases st)
    case Nil
    with loop assms show ?thesis
      by (intro that [of "[]" False]) (simp_all add: lexically_normal_def fs_empty_def)
  next
    case (Cons t ts)
    with loop assms st show ?thesis
      by (intro that [of "rev st" tr]) (auto simp: lexically_normal_def fs_empty_def plain_name_def)
  qed
qed

text \<open>A normal relative path that does not start with \<^verbatim>\<open>..\<close> and is not \<^verbatim>\<open>.\<close> has only plain names.\<close>

lemma normal_relative:
  assumes "\<not> fs_rooted p" and "fs_names (lexically_normal p) \<noteq> []"
    and "hd (fs_names (lexically_normal p)) \<noteq> dotdot" and "fs_names (lexically_normal p) \<noteq> [''.'']"
  obtains ns tr where "lexically_normal p = \<lparr>fs_rooted = False, fs_names = ns @ (if tr then [[]] else [])\<rparr>"
    "list_all plain_name ns" "ns \<noteq> []"
proof -
  obtain st tr where loop: "norm_loop False [] False (fs_names p) = (st, tr)" by fastforce
  then have st: "stack_ok False st"
    using norm_loop_stack [of False "[]" False "fs_names p"] by (simp add: stack_ok_def)
  have ne: "\<not> fs_empty p" using assms by (auto simp: lexically_normal_def fs_empty_def)
  show ?thesis
  proof (cases st)
    case Nil
    with loop assms ne show ?thesis by (simp add: lexically_normal_def)
  next
    case (Cons t ts)
    with loop assms ne have eq: "lexically_normal p = \<lparr>fs_rooted = False, fs_names = rev st @ (if tr \<and> t \<noteq> dotdot then [[]] else [])\<rparr>"
      by (simp add: lexically_normal_def)
    with assms(3) Cons have nd: "last st \<noteq> dotdot" by (auto simp: hd_append hd_rev split: if_splits)
    from st obtain ps k where st': "st = ps @ replicate k dotdot" "list_all plain_name ps"
      by (auto simp: stack_ok_def)
    have "k = 0"
    proof (rule ccontr)
      assume "k \<noteq> 0"
      then have "last st = dotdot" by (simp add: st'(1))
      with nd show False ..
    qed
    with st' have "list_all plain_name (rev st)" by simp
    moreover have "t \<noteq> dotdot" using \<open>k = 0\<close> st' Cons by (auto simp: plain_name_def)
    ultimately show ?thesis using eq Cons by (intro that [of "rev st" tr]) simp_all
  qed
qed

lemma normal_of_plain:
  assumes "list_all plain_name ns" "ns \<noteq> []"
  shows "lexically_normal \<lparr>fs_rooted = r, fs_names = ns @ (if tr then [[]] else [])\<rparr>
    = \<lparr>fs_rooted = r, fs_names = ns @ (if tr then [[]] else [])\<rparr>"
proof -
  have "norm_loop r [] False (ns @ (if tr then [[]] else [])) = (rev ns, tr)"
    using assms by (simp add: norm_loop_append norm_loop_plain)
  moreover obtain t ts where "rev ns = t # ts" using assms(2) by (cases "rev ns") auto
  moreover have "t \<noteq> dotdot"
    using assms(1) \<open>rev ns = t # ts\<close> by (auto simp: list_all_iff plain_name_def dest: arg_cong [where f=set])
  ultimately show ?thesis using assms(2)
    by (auto simp: lexically_normal_def fs_empty_def rev_swap)
qed

lemma drop_common_append [simp]: "drop_common (xs @ as) (xs @ bs) = drop_common as bs"
  by (induction xs) auto

lemma lexically_normal_rooted [simp]: "fs_rooted (lexically_normal p) = fs_rooted p"
  by (auto simp: lexically_normal_def split: list.splits prod.splits)

text \<open>Appending plain names to a normal absolute path and normalising again changes nothing above them.\<close>

lemma append_below_root:
  assumes "fs_rooted root" and "list_all plain_name ns" and "ns \<noteq> []"
  obtains rs where "fs_dir_names (lexically_normal root) = rs" "list_all plain_name rs"
    "lexically_normal (fs_append (lexically_normal root) \<lparr>fs_rooted = False, fs_names = ns\<rparr>)
       = \<lparr>fs_rooted = True, fs_names = rs @ ns\<rparr>"
    "lexically_relative \<lparr>fs_rooted = True, fs_names = rs @ ns\<rparr> (lexically_normal root)
       = \<lparr>fs_rooted = False, fs_names = ns\<rparr>"
proof -
  from normal_rooted [OF assms(1)] obtain rs tr where
    root: "lexically_normal root = \<lparr>fs_rooted = True, fs_names = rs @ (if tr then [[]] else [])\<rparr>"
    and rs: "list_all plain_name rs" "tr \<longrightarrow> rs \<noteq> []" by blast
  have last: "rs \<noteq> [] \<Longrightarrow> last rs \<noteq> []" using rs(1) by (auto simp: list_all_iff plain_name_def)
  have dir: "fs_dir_names (lexically_normal root) = rs"
    using rs last by (auto simp: fs_dir_names_def root butlast_append)
  have app: "fs_append (lexically_normal root) \<lparr>fs_rooted = False, fs_names = ns\<rparr>
      = \<lparr>fs_rooted = True, fs_names = rs @ ns\<rparr>"
    using assms(3) dir by (simp add: fs_append_def root)
  have "lexically_normal \<lparr>fs_rooted = True, fs_names = rs @ ns\<rparr> = \<lparr>fs_rooted = True, fs_names = rs @ ns\<rparr>"
    using normal_of_plain [of "rs @ ns" True False] assms rs by simp
  moreover obtain n ns' where ns: "ns = n # ns'" "plain_name n" using assms by (cases ns) auto
  then have "drop_common ns (if tr then [[]] else []) = (ns, if tr then [[]] else [])"
    by (simp add: plain_name_def)
  then have "lexically_relative \<lparr>fs_rooted = True, fs_names = rs @ ns\<rparr> (lexically_normal root)
      = \<lparr>fs_rooted = False, fs_names = ns\<rparr>"
    using ns by (simp add: lexically_relative_def root fs_elems_def plain_name_def)
  ultimately show ?thesis using dir rs app by (intro that [of rs]) simp_all
qed


end
