(* ===== verification/ConfigModel.thy ===== *)
theory ConfigModel
  imports Url Json FsPath
begin

text \<open>
  The configuration document and its validation: \<^verbatim>\<open>src/config/config_document.hpp\<close>,
  \<^verbatim>\<open>application_settings.hpp\<close>, \<^verbatim>\<open>profile_model.hpp\<close> and the validating half of
  \<^verbatim>\<open>config_document.cpp\<close>. A validator returns the failing field and a message, or unit.
  Shown here: what a document that passes satisfies (the log size arithmetic does not wrap,
  enabled profiles are complete, local routes stay out of the management namespace), that the
  option check accepts exactly the bounded JSON values, and that a relative log path stays
  below the application root.
\<close>

type_synonym i32 = "32 word"
type_synonym i64 = "64 word"
type_synonym 'a vres = "(string \<times> string) + 'a"

section \<open>Data\<close>

record listener_settings =
  listener_host :: string
  listener_port :: u16

record runtime_settings =
  worker_threads :: u32
  max_connections :: u32
  max_request_body_size :: u64
  max_response_body_size :: u64
  max_inflight_bytes :: u64
  metrics_interval_ms :: u32

record timeout_config =
  resolve_ms :: i32
  connect_ms :: i32
  send_ms :: i32
  response_header_ms :: i32
  stream_idle_ms :: i32
  total_ms :: i32

record logging_settings =
  log_path :: string
  log_level :: string
  log_body :: bool
  redact_sensitive :: bool
  body_limit :: u64
  queue_capacity :: u64
  max_total_size :: u64
  flush_interval_ms :: u32

record application_settings =
  listener :: listener_settings
  runtime :: runtime_settings
  timeouts :: timeout_config
  logging :: logging_settings

definition default_application_settings :: application_settings where
  "default_application_settings =
     \<lparr>listener = \<lparr>listener_host = ''127.0.0.1'', listener_port = 15723\<rparr>,
      runtime = \<lparr>worker_threads = 32, max_connections = 64, max_request_body_size = 104857600,
                 max_response_body_size = 104857600, max_inflight_bytes = 536870912,
                 metrics_interval_ms = 0\<rparr>,
      timeouts = \<lparr>resolve_ms = 300000, connect_ms = 300000, send_ms = 300000,
                  response_header_ms = 300000, stream_idle_ms = 300000, total_ms = 0\<rparr>,
      logging = \<lparr>log_path = ''logs/ccs-trans.log'', log_level = ''info'', log_body = True,
                 redact_sensitive = False, body_limit = 1048576, queue_capacity = 16777216,
                 max_total_size = 2147483648, flush_interval_ms = 100\<rparr>\<rparr>"

record local_routes =
  local_request_path :: "string option"
  local_usage_path :: "string option"

record upstream_definition =
  base_url :: "string option"
  upstream_request_path :: "string option"
  upstream_usage_path :: "string option"

record rule_definition =
  rule_id :: string
  rule_enabled :: bool
  rule_type :: string
  rule_options :: "(string \<times> json) list"
  rule_storage_key :: i64

record profile_definition =
  profile_enabled :: bool
  protocol :: "string option"
  locals :: local_routes
  upstream :: upstream_definition
  profile_rules :: "rule_definition list"
  profile_storage_key :: i64
  storage_position :: "nat option"

record config_document =
  application :: application_settings
  profiles :: "(string \<times> profile_definition) list"

record validation_failure =
  failure_profile_id :: string
  failure_field :: string
  failure_detail :: string

definition empty_profile :: profile_definition where
  "empty_profile =
     \<lparr>profile_enabled = False, protocol = None,
      locals = \<lparr>local_request_path = None, local_usage_path = None\<rparr>,
      upstream = \<lparr>base_url = None, upstream_request_path = None, upstream_usage_path = None\<rparr>,
      profile_rules = [], profile_storage_key = 0, storage_position = None\<rparr>"

definition make_default_config_document :: config_document where
  "make_default_config_document = \<lparr>application = default_application_settings, profiles = []\<rparr>"

section \<open>Identifiers\<close>

definition stable_id_char :: "bool \<Rightarrow> bool \<Rightarrow> char \<Rightarrow> bool" where
  "stable_id_char lower_case_only allow_dot ch \<longleftrightarrow>
     (if lower_case_only then is_lower ch \<or> is_digit ch \<or> ch = CHR ''-'' \<or> ch = CHR ''_''
      else is_alnum ch \<or> ch = CHR ''-'' \<or> ch = CHR ''_'' \<or> (allow_dot \<and> ch = CHR ''.''))"

definition valid_stable_id :: "string \<Rightarrow> bool \<Rightarrow> bool \<Rightarrow> bool" where
  "valid_stable_id s lower_case_only allow_dot \<longleftrightarrow>
     s \<noteq> [] \<and> length s \<le> 64
     \<and> (if lower_case_only then is_lower (hd s) else is_alnum (hd s))
     \<and> list_all (stable_id_char lower_case_only allow_dot) s"

definition is_valid_profile_id :: "string \<Rightarrow> bool" where
  "is_valid_profile_id s = valid_stable_id s False True"

definition is_valid_protocol_id :: "string \<Rightarrow> bool" where
  "is_valid_protocol_id s = valid_stable_id s True False"

definition is_valid_rule_id :: "string \<Rightarrow> bool" where
  "is_valid_rule_id s = valid_stable_id s False True"

definition is_valid_rule_type :: "string \<Rightarrow> bool" where
  "is_valid_rule_type s \<longleftrightarrow> valid_stable_id s True False \<and> find_char CHR ''-'' s = None"

definition valid_rule_option_name_impl :: "string \<Rightarrow> bool" where
  "valid_rule_option_name_impl s \<longleftrightarrow>
     s \<noteq> [] \<and> length s \<le> 64 \<and> is_lower (hd s)
     \<and> list_all (\<lambda>ch. is_lower ch \<or> is_digit ch \<or> ch = CHR ''_'') s"

definition is_valid_rule_option_name :: "string \<Rightarrow> bool" where
  "is_valid_rule_option_name s \<longleftrightarrow>
     s \<noteq> ''id'' \<and> s \<noteq> ''enabled'' \<and> s \<noteq> ''type'' \<and> valid_rule_option_name_impl s"

section \<open>Rule options\<close>

text \<open>The node counter is threaded through the recursion.\<close>

fun validate_rule_json :: "json \<Rightarrow> nat \<Rightarrow> nat \<Rightarrow> nat res"
  and validate_rule_children :: "json list \<Rightarrow> nat \<Rightarrow> nat \<Rightarrow> nat res"
  and validate_rule_members :: "(string \<times> json) list \<Rightarrow> nat \<Rightarrow> nat \<Rightarrow> nat res" where
  "validate_rule_json v depth nodes =
     (if nodes + 1 > 4096 then Inl ''rule options exceed the maximum JSON node count''
      else if depth > 32 then Inl ''rule options exceed the maximum JSON nesting depth''
      else (case v of
              JFloat d \<Rightarrow> if double_finite d then Inr (nodes + 1)
                else Inl ''rule options must be losslessly representable as JSON text''
            | JArr xs \<Rightarrow> validate_rule_children xs (depth + 1) (nodes + 1)
            | JObj kvs \<Rightarrow> validate_rule_members kvs (depth + 1) (nodes + 1)
            | _ \<Rightarrow> Inr (nodes + 1)))"
| "validate_rule_children [] depth nodes = Inr nodes"
| "validate_rule_children (x # xs) depth nodes =
     res_bind (validate_rule_json x depth nodes) (validate_rule_children xs depth)"
| "validate_rule_members [] depth nodes = Inr nodes"
| "validate_rule_members ((k, x) # kvs) depth nodes =
     (if length k > 256 \<or> contains_control k then Inl ''rule option object contains an invalid key''
      else res_bind (validate_rule_json x depth nodes) (validate_rule_members kvs depth))"

section \<open>Paths and URLs\<close>

definition validate_route_path :: "string \<Rightarrow> bool \<Rightarrow> string \<Rightarrow> unit res" where
  "validate_route_path s local label =
     (case canonicalize_http_path s of
        Inl path_error \<Rightarrow> Inl (label @ '': '' @ path_error)
      | Inr canonical \<Rightarrow>
          if local \<and> in_management_namespace canonical
          then Inl (label @ '' uses the reserved /_ccs-trans management namespace'')
          else Inr ())"

definition validate_base_url :: "string \<Rightarrow> string \<Rightarrow> unit res" where
  "validate_base_url s label =
     (if s = [] \<or> length s > 8192 \<or> contains_control s
      then Inl (label @ '' is empty, too long, or contains control characters'')
      else if find_char CHR ''?'' s \<noteq> None \<or> find_char CHR ''#'' s \<noteq> None
      then Inl (label @ '' must not contain a query or fragment'')
      else (case parse_http_url s of
              Inl what \<Rightarrow> Inl (label @ '': '' @ what)
            | Inr parsed \<Rightarrow>
                if list_ex is_space (url_host parsed) then Inl (label @ '' contains an invalid host'')
                else validate_route_path (url_base_path parsed) False (label @ '' base path'')))"

section \<open>Application settings\<close>

definition reject_field :: "string \<Rightarrow> string \<Rightarrow> 'a vres" where
  "reject_field key detail = Inl (key, detail)"

definition vseq :: "unit vres \<Rightarrow> unit vres \<Rightarrow> unit vres" where
  "vseq a b = (case a of Inl e \<Rightarrow> Inl e | Inr _ \<Rightarrow> b)"

definition validate_listener :: "listener_settings \<Rightarrow> unit vres" where
  "validate_listener l =
     (if listener_host l = [] \<or> length (listener_host l) > 255 \<or> contains_control (listener_host l)
         \<or> list_ex is_space (listener_host l)
      then reject_field ''listener.host'' ''listener.host must be a non-empty host without whitespace''
      else if listener_port l = 0
      then reject_field ''listener.port'' ''listener.port must be between 1 and 65535''
      else Inr ())"

definition validate_runtime :: "runtime_settings \<Rightarrow> unit vres" where
  "validate_runtime r =
     (if worker_threads r = 0 \<or> worker_threads r > 1024
      then reject_field ''runtime.worker-threads'' ''runtime.worker_threads must be between 1 and 1024''
      else if max_connections r < worker_threads r \<or> max_connections r > 65535
      then reject_field ''runtime.max-connections''
        ''runtime.max_connections must be between worker_threads and 65535''
      else if max_request_body_size r = 0 \<or> max_request_body_size r > 1073741824
      then reject_field ''runtime.max-request-body-size''
        ''runtime body size limits must be between 1 byte and 1 GiB''
      else if max_response_body_size r = 0 \<or> max_response_body_size r > 1073741824
      then reject_field ''runtime.max-response-body-size''
        ''runtime body size limits must be between 1 byte and 1 GiB''
      else if max_inflight_bytes r < 1048576 \<or> max_inflight_bytes r > 68719476736
      then reject_field ''runtime.max-inflight-bytes''
        ''runtime.max_inflight_bytes must be between 1 MiB and 64 GiB''
      else if metrics_interval_ms r > 2147483647
      then reject_field ''runtime.metrics-interval-ms''
        ''runtime.metrics_interval_ms exceeds the supported integer range''
      else Inr ())"

definition timeout_fields :: "timeout_config \<Rightarrow> (string \<times> i32) list" where
  "timeout_fields t =
     [(''timeouts.resolve-ms'', resolve_ms t), (''timeouts.connect-ms'', connect_ms t),
      (''timeouts.send-ms'', send_ms t), (''timeouts.response-header-ms'', response_header_ms t),
      (''timeouts.stream-idle-ms'', stream_idle_ms t)]"

definition validate_timeouts :: "timeout_config \<Rightarrow> unit vres" where
  "validate_timeouts t =
     (case find (\<lambda>(key, v). sint v \<le> 0) (timeout_fields t) of
        Some (key, _) \<Rightarrow> reject_field key ''stage timeouts must be positive; total_ms may be 0''
      | None \<Rightarrow>
          if sint (total_ms t) < 0
          then reject_field ''timeouts.total-ms'' ''stage timeouts must be positive; total_ms may be 0''
          else Inr ())"

definition validate_log_path :: "string \<Rightarrow> unit vres" where
  "validate_log_path s =
     (if s = [] \<or> length s > 32768 \<or> contains_control s
      then reject_field ''logging.path'' ''logging.path must name a log file''
      else let path = lexically_normal (fs_of_string s); filename = fs_filename path in
           if filename = [] \<or> filename = ''.'' \<or> filename = ''..''
           then reject_field ''logging.path'' ''logging.path must name a log file''
           else if \<not> fs_rooted path \<and> \<not> fs_empty path \<and> hd (fs_elems path) = ''..''
           then reject_field ''logging.path''
             ''relative logging.path must stay within the application root''
           else Inr ())"

definition minimum_total_size :: "logging_settings \<Rightarrow> u64" where
  "minimum_total_size g = max (queue_capacity g) (body_limit g * 6 + 1048576)"

definition logging_size_detail :: string where
  "logging_size_detail =
     ''logging size fields must be 1 byte to 1 GiB and flush_interval_ms must be 1 to 60000''"

definition validate_log_sizes :: "logging_settings \<Rightarrow> unit vres" where
  "validate_log_sizes g =
     (if body_limit g = 0 \<or> body_limit g > 1073741824
      then reject_field ''logging.body-limit'' logging_size_detail
      else if queue_capacity g = 0 \<or> queue_capacity g > 1073741824
      then reject_field ''logging.queue-capacity'' logging_size_detail
      else if flush_interval_ms g = 0 \<or> flush_interval_ms g > 60000
      then reject_field ''logging.flush-interval-ms'' logging_size_detail
      else if max_total_size g = 0 \<or> max_total_size g > 1099511627776
      then reject_field ''logging.max-total-size''
        ''logging.max_total_size must be between 1 byte and 1 TiB''
      else if max_total_size g < minimum_total_size g
      then reject_field ''logging.max-total-size''
        ''logging.max_total_size is too small for body_limit and queue_capacity''
      else Inr ())"

definition validate_logging :: "logging_settings \<Rightarrow> unit vres" where
  "validate_logging g =
     (if log_level g \<notin> set [''trace'', ''debug'', ''info'', ''warn'', ''error'']
      then reject_field ''logging.level'' ''logging.level must be one of trace, debug, info, warn, error''
      else vseq (validate_log_path (log_path g)) (validate_log_sizes g))"

definition validate_application_settings_impl :: "application_settings \<Rightarrow> unit vres" where
  "validate_application_settings_impl a =
     vseq (validate_listener (listener a))
       (vseq (validate_runtime (runtime a))
         (vseq (validate_timeouts (timeouts a)) (validate_logging (logging a))))"

definition detail_of :: "unit vres \<Rightarrow> unit res" where
  "detail_of r = (case r of Inl (_, detail) \<Rightarrow> Inl detail | Inr _ \<Rightarrow> Inr ())"

definition validate_application_settings :: "application_settings \<Rightarrow> unit res" where
  "validate_application_settings a = detail_of (validate_application_settings_impl a)"

section \<open>Profiles\<close>

definition check_optional :: "string \<Rightarrow> (string \<Rightarrow> unit res) \<Rightarrow> string option \<Rightarrow> unit vres" where
  "check_optional field check v =
     (case v of None \<Rightarrow> Inr ()
      | Some s \<Rightarrow> (case check s of Inl e \<Rightarrow> Inl (field, e) | Inr _ \<Rightarrow> Inr ()))"

fun validate_rule_options :: "string \<Rightarrow> (string \<times> json) list \<Rightarrow> unit vres" where
  "validate_rule_options label [] = Inr ()"
| "validate_rule_options label ((key, v) # opts) =
     (if \<not> is_valid_rule_option_name key
      then reject_field ''rules'' (label @ '' has an invalid option name: '' @ key)
      else (case validate_rule_json v 0 0 of
              Inl option_error \<Rightarrow> reject_field ''rules'' (label @ '' option '' @ key @ '': '' @ option_error)
            | Inr _ \<Rightarrow> validate_rule_options label opts))"

fun validate_rules :: "string \<Rightarrow> string set \<Rightarrow> rule_definition list \<Rightarrow> unit vres" where
  "validate_rules label rule_ids [] = Inr ()"
| "validate_rules label rule_ids (r # rs) =
     (if \<not> is_valid_rule_id (rule_id r)
      then reject_field ''rules'' (label @ '' has an invalid rule id: '' @ rule_id r)
      else if rule_id r \<in> rule_ids
      then reject_field ''rules'' (label @ '' has duplicate rule id: '' @ rule_id r)
      else if \<not> is_valid_rule_type (rule_type r)
      then reject_field ''rules'' (label @ '' rule '' @ rule_id r @ '' has an invalid type'')
      else vseq (validate_rule_options (label @ '' rule '' @ rule_id r) (rule_options r))
             (validate_rules label (insert (rule_id r) rule_ids) rs))"

definition missing_detail :: "string \<Rightarrow> string" where
  "missing_detail label = label @ '' is enabled but missing protocol, local.request_path, ''
     @ ''upstream.base_url, or upstream.request_path''"

definition usage_detail :: "string \<Rightarrow> string" where
  "usage_detail label = label @ '' must configure both local.usage_path and upstream.usage_path''"

definition validate_completeness :: "string \<Rightarrow> profile_definition \<Rightarrow> unit vres" where
  "validate_completeness label p =
     (if protocol p = None then reject_field ''protocol'' (missing_detail label)
      else if local_request_path (locals p) = None
      then reject_field ''local.request-path'' (missing_detail label)
      else if base_url (upstream p) = None
      then reject_field ''upstream.base-url'' (missing_detail label)
      else if upstream_request_path (upstream p) = None
      then reject_field ''upstream.request-path'' (missing_detail label)
      else if local_usage_path (locals p) \<noteq> None \<and> upstream_usage_path (upstream p) = None
      then reject_field ''upstream.usage-path'' (usage_detail label)
      else if local_usage_path (locals p) = None \<and> upstream_usage_path (upstream p) \<noteq> None
      then reject_field ''local.usage-path'' (usage_detail label)
      else Inr ())"

definition validate_profile_definition_impl :: "string \<Rightarrow> profile_definition \<Rightarrow> bool \<Rightarrow> unit vres" where
  "validate_profile_definition_impl profile_id p require_complete =
     (let label = ''profile '' @ profile_id in
      if \<not> is_valid_profile_id profile_id
      then reject_field ''id'' (''invalid profile id: '' @ profile_id)
      else if (case protocol p of None \<Rightarrow> False | Some v \<Rightarrow> \<not> is_valid_protocol_id v)
      then reject_field ''protocol'' (label @ '' has an invalid protocol id'')
      else
        vseq (check_optional ''local.request-path''
                (\<lambda>s. validate_route_path s True (label @ '' local.request_path'')) (local_request_path (locals p)))
        (vseq (check_optional ''local.usage-path''
                (\<lambda>s. validate_route_path s True (label @ '' local.usage_path'')) (local_usage_path (locals p)))
        (vseq (check_optional ''upstream.base-url''
                (\<lambda>s. validate_base_url s (label @ '' upstream.base_url'')) (base_url (upstream p)))
        (vseq (check_optional ''upstream.request-path''
                (\<lambda>s. validate_route_path s False (label @ '' upstream.request_path'')) (upstream_request_path (upstream p)))
        (vseq (check_optional ''upstream.usage-path''
                (\<lambda>s. validate_route_path s False (label @ '' upstream.usage_path'')) (upstream_usage_path (upstream p)))
        (if length (profile_rules p) > 64
         then reject_field ''rules'' (label @ '' exceeds the maximum rule count'')
         else vseq (validate_rules label {} (profile_rules p))
                (if require_complete then validate_completeness label p else Inr ())))))))"

definition validate_profile_definition :: "string \<Rightarrow> profile_definition \<Rightarrow> bool \<Rightarrow> unit res" where
  "validate_profile_definition profile_id p require_complete =
     detail_of (validate_profile_definition_impl profile_id p require_complete)"

section \<open>Documents\<close>

definition profile_route_count :: "profile_definition \<Rightarrow> nat" where
  "profile_route_count p =
     (if local_request_path (locals p) \<noteq> None then 1 else 0)
     + (if local_usage_path (locals p) \<noteq> None then 1 else 0)"

fun validate_profiles :: "(string \<times> profile_definition) list \<Rightarrow> nat \<Rightarrow> validation_failure + nat" where
  "validate_profiles [] route_count = Inr route_count"
| "validate_profiles ((profile_id, p) # ps) route_count =
     (case validate_profile_definition_impl profile_id p (profile_enabled p) of
        Inl (field, detail) \<Rightarrow>
          Inl \<lparr>failure_profile_id = profile_id, failure_field = field, failure_detail = detail\<rparr>
      | Inr _ \<Rightarrow> validate_profiles ps (route_count + profile_route_count p))"

definition validate_config_document_failure :: "config_document \<Rightarrow> validation_failure + unit" where
  "validate_config_document_failure d =
     (case validate_application_settings_impl (application d) of
        Inl (field, detail) \<Rightarrow>
          Inl \<lparr>failure_profile_id = [], failure_field = field, failure_detail = detail\<rparr>
      | Inr _ \<Rightarrow>
          if length (profiles d) > 128
          then Inl \<lparr>failure_profile_id = [], failure_field = [],
                    failure_detail = ''config exceeds the maximum of 128 profiles''\<rparr>
          else (case validate_profiles (profiles d) 0 of
                  Inl f \<Rightarrow> Inl f
                | Inr route_count \<Rightarrow>
                    if route_count > 256
                    then Inl \<lparr>failure_profile_id = [], failure_field = [],
                              failure_detail = ''config exceeds the maximum of 256 routes''\<rparr>
                    else Inr ()))"

definition validate_config_document :: "config_document \<Rightarrow> unit res" where
  "validate_config_document d =
     (case validate_config_document_failure d of Inl f \<Rightarrow> Inl (failure_detail f) | Inr _ \<Rightarrow> Inr ())"

section \<open>The log path\<close>

definition resolve_application_log_path :: "application_settings \<Rightarrow> fs_path \<Rightarrow> fs_path res" where
  "resolve_application_log_path a application_root =
     (let parsed = lexically_normal (fs_of_string (log_path (logging a))) in
      if fs_rooted parsed then Inr parsed
      else if fs_empty parsed \<or> hd (fs_elems parsed) = ''..''
      then Inl ''relative logging.path must stay within the application root''
      else let root = lexically_normal application_root;
               resolved = lexically_normal (fs_append root parsed);
               relative = lexically_relative resolved root
           in if fs_empty relative \<or> relative = \<lparr>fs_rooted = False, fs_names = [''.'']\<rparr>
                 \<or> hd (fs_elems relative) = ''..''
              then Inl ''relative logging.path must stay within the application root''
              else Inr resolved)"

section \<open>Reference measures of JSON values\<close>

definition list_max :: "nat list \<Rightarrow> nat" where
  "list_max ns = foldr max ns 0"

fun json_nodes :: "json \<Rightarrow> nat" where
  "json_nodes (JArr xs) = 1 + sum_list (map json_nodes xs)"
| "json_nodes (JObj kvs) = 1 + sum_list (map (\<lambda>kv. json_nodes (snd kv)) kvs)"
| "json_nodes _ = 1"

text \<open>The nesting depth; a value without members has depth 0.\<close>

fun json_depth :: "json \<Rightarrow> nat" where
  "json_depth (JArr xs) = list_max (map (\<lambda>x. Suc (json_depth x)) xs)"
| "json_depth (JObj kvs) = list_max (map (\<lambda>kv. Suc (json_depth (snd kv))) kvs)"
| "json_depth _ = 0"

definition option_key_ok :: "string \<Rightarrow> bool" where
  "option_key_ok k \<longleftrightarrow> length k \<le> 256 \<and> \<not> contains_control k"

text \<open>Every number is finite, every member name short and free of control characters.\<close>

fun json_text_ok :: "json \<Rightarrow> bool" where
  "json_text_ok (JFloat d) \<longleftrightarrow> double_finite d"
| "json_text_ok (JArr xs) \<longleftrightarrow> list_all json_text_ok xs"
| "json_text_ok (JObj kvs) \<longleftrightarrow> list_all (\<lambda>kv. option_key_ok (fst kv) \<and> json_text_ok (snd kv)) kvs"
| "json_text_ok _ \<longleftrightarrow> True"

lemma list_max_le: "list_max ns \<le> k \<longleftrightarrow> (\<forall>n \<in> set ns. n \<le> k)"
  by (induction ns) (auto simp: list_max_def)

lemma json_nodes_pos: "0 < json_nodes v"
  by (cases v) auto

lemma validate_rule_json_iff:
  "nodes \<le> 4096 \<Longrightarrow> validate_rule_json v depth nodes = Inr m \<longleftrightarrow>
     m = nodes + json_nodes v \<and> m \<le> 4096 \<and> depth + json_depth v \<le> 32 \<and> json_text_ok v"
  "nodes \<le> 4096 \<Longrightarrow> validate_rule_children xs depth nodes = Inr m \<longleftrightarrow>
     m = nodes + sum_list (map json_nodes xs) \<and> m \<le> 4096
     \<and> (\<forall>x \<in> set xs. depth + json_depth x \<le> 32) \<and> list_all json_text_ok xs"
  "nodes \<le> 4096 \<Longrightarrow> validate_rule_members kvs depth nodes = Inr m \<longleftrightarrow>
     m = nodes + sum_list (map (\<lambda>kv. json_nodes (snd kv)) kvs) \<and> m \<le> 4096
     \<and> (\<forall>kv \<in> set kvs. depth + json_depth (snd kv) \<le> 32)
     \<and> list_all (\<lambda>kv. option_key_ok (fst kv) \<and> json_text_ok (snd kv)) kvs"
proof (induction v depth nodes and xs depth nodes and kvs depth nodes arbitrary: m and m and m
    rule: validate_rule_json_validate_rule_children_validate_rule_members.induct)
  case (1 v depth nodes)
  have shift: "depth + list_max (map (\<lambda>x. Suc (g x)) ys) \<le> 32 \<longleftrightarrow>
      depth \<le> 32 \<and> (\<forall>y \<in> set ys. Suc depth + g y \<le> 32)" for g :: "'b \<Rightarrow> nat" and ys
  proof -
    have "depth + list_max (map (\<lambda>x. Suc (g x)) ys) \<le> 32 \<longleftrightarrow>
        depth \<le> 32 \<and> list_max (map (\<lambda>x. Suc (g x)) ys) \<le> 32 - depth" by auto
    also have "\<dots> \<longleftrightarrow> depth \<le> 32 \<and> (\<forall>y \<in> set ys. Suc depth + g y \<le> 32)"
      by (auto simp: list_max_le)
    finally show ?thesis .
  qed
  show ?case
  proof (cases "nodes + 1 > 4096 \<or> depth > 32")
    case True
    then show ?thesis using json_nodes_pos [of v] by auto
  next
    case False
    then have g: "\<not> nodes + 1 > 4096" "\<not> depth > 32" and le: "nodes + 1 \<le> 4096" by auto
    show ?thesis
    proof (cases v)
      case (JArr xs)
      with 1(1) [OF g JArr, of m] le g show ?thesis by (auto simp: shift)
    next
      case (JObj kvs)
      with 1(2) [OF g JObj, of m] le g show ?thesis by (auto simp: shift)
    qed (use g in auto)
  qed
next
  case (3 x xs depth nodes)
  show ?case
  proof (cases "validate_rule_json x depth nodes")
    case (Inl e)
    with 3(1) [OF 3(3)] have "\<not> (nodes + json_nodes x \<le> 4096 \<and> depth + json_depth x \<le> 32 \<and> json_text_ok x)"
      by auto
    with Inl show ?thesis by auto
  next
    case (Inr n)
    with 3(1) [OF 3(3), of n] have n: "n = nodes + json_nodes x" "n \<le> 4096"
      "depth + json_depth x \<le> 32" "json_text_ok x" by auto
    with Inr 3(2) [OF Inr n(2), of m] show ?thesis by auto
  qed
next
  case (5 k x kvs depth nodes)
  show ?case
  proof (cases "length k > 256 \<or> contains_control k")
    case True
    then show ?thesis by (auto simp: option_key_ok_def)
  next
    case False
    then have key: "option_key_ok k" by (simp add: option_key_ok_def)
    show ?thesis
    proof (cases "validate_rule_json x depth nodes")
      case (Inl e)
      with 5(1) [OF False 5(3)] have "\<not> (nodes + json_nodes x \<le> 4096 \<and> depth + json_depth x \<le> 32 \<and> json_text_ok x)"
        by auto
      with Inl False show ?thesis by auto
    next
      case (Inr n)
      with 5(1) [OF False 5(3), of n] have n: "n = nodes + json_nodes x" "n \<le> 4096"
        "depth + json_depth x \<le> 32" "json_text_ok x" by auto
      with Inr key False 5(2) [OF False Inr n(2), of m] show ?thesis by auto
    qed
  qed
qed auto

declare validate_rule_json.simps [simp del]

text \<open>The recursive check of a rule option accepts exactly the JSON values of at most 4096
  nodes, nested at most 32 deep, whose numbers are finite and whose member names have at most
  256 bytes and no control character; the node counter it returns is the number of nodes.\<close>

theorem validate_rule_json_exact:
  "validate_rule_json v 0 0 = Inr m \<longleftrightarrow>
     m = json_nodes v \<and> json_nodes v \<le> 4096 \<and> json_depth v \<le> 32 \<and> json_text_ok v"
  by (subst validate_rule_json_iff) auto

section \<open>Consequences of a successful validation\<close>

lemma vseq_ok [simp]: "vseq a b = Inr () \<longleftrightarrow> a = Inr () \<and> b = Inr ()"
  by (cases a) (auto simp: vseq_def)

lemma reject_not_ok [simp]: "reject_field k d \<noteq> Inr x"
  by (simp add: reject_field_def)

lemma detail_of_ok [simp]: "detail_of r = Inr () \<longleftrightarrow> r = Inr ()"
  by (cases r) (auto simp: detail_of_def)

lemma check_optional_ok [simp]:
  "check_optional f c v = Inr () \<longleftrightarrow> (\<forall>s. v = Some s \<longrightarrow> c s = Inr ())"
proof (cases v)
  case (Some s)
  then show ?thesis by (cases "c s") (auto simp: check_optional_def)
qed (simp add: check_optional_def)

lemma validate_runtime_ok:
  "validate_runtime r = Inr () \<Longrightarrow>
     0 < unat (worker_threads r) \<and> unat (worker_threads r) \<le> 1024
     \<and> unat (worker_threads r) \<le> unat (max_connections r) \<and> unat (max_connections r) \<le> 65535
     \<and> 0 < unat (max_request_body_size r) \<and> unat (max_request_body_size r) \<le> 1073741824
     \<and> 0 < unat (max_response_body_size r) \<and> unat (max_response_body_size r) \<le> 1073741824
     \<and> 1048576 \<le> unat (max_inflight_bytes r) \<and> unat (max_inflight_bytes r) \<le> 68719476736"
  by (auto simp: validate_runtime_def not_less word_le_nat_alt unat_gt_0 split: if_splits)

lemma validate_timeouts_ok:
  "validate_timeouts t = Inr () \<Longrightarrow>
     (\<forall>v \<in> {resolve_ms t, connect_ms t, send_ms t, response_header_ms t, stream_idle_ms t}. 0 < sint v)
     \<and> 0 \<le> sint (total_ms t)"
  by (auto simp: validate_timeouts_def timeout_fields_def split: option.splits if_splits)

text \<open>With a body limit of at most 1 GiB the six-fold escape expansion does not wrap.\<close>

lemma minimum_total_size_exact:
  assumes "body_limit g \<le> 1073741824"
  shows "unat (minimum_total_size g) = max (unat (queue_capacity g)) (unat (body_limit g) * 6 + 1048576)"
proof -
  have le: "unat (body_limit g) \<le> 1073741824" using assms by (simp add: word_le_nat_alt)
  have "unat (body_limit g * 6) = unat (body_limit g) * 6"
    by (subst unat_mult_lem [THEN iffD1]) (use le in auto)
  moreover have "unat (body_limit g * 6 + 1048576) = unat (body_limit g * 6) + 1048576"
    by (subst unat_add_lem [THEN iffD1]) (use le calculation in auto)
  ultimately show ?thesis
    by (auto simp: minimum_total_size_def max_def word_le_nat_alt)
qed

lemma validate_log_sizes_ok:
  assumes "validate_log_sizes g = Inr ()"
  shows "0 < unat (body_limit g) \<and> 0 < unat (queue_capacity g)
    \<and> unat (body_limit g) * 6 + 1048576 \<le> unat (max_total_size g)
    \<and> unat (queue_capacity g) \<le> unat (max_total_size g) \<and> unat (max_total_size g) \<le> 1099511627776"
proof -
  from assms have b: "body_limit g \<le> 1073741824" "minimum_total_size g \<le> max_total_size g"
    "body_limit g \<noteq> 0" "queue_capacity g \<noteq> 0" "max_total_size g \<le> 1099511627776"
    by (auto simp: validate_log_sizes_def not_less split: if_splits)
  from b(2) minimum_total_size_exact [OF b(1)] b(3-5) show ?thesis
    by (simp add: word_le_nat_alt unat_gt_0)
qed

lemma validate_rules_ok:
  "validate_rules label ids rs = Inr () \<Longrightarrow>
     distinct (map rule_id rs) \<and> set (map rule_id rs) \<inter> ids = {}
     \<and> (\<forall>r \<in> set rs. is_valid_rule_id (rule_id r) \<and> is_valid_rule_type (rule_type r)
          \<and> (\<exists>l. validate_rule_options l (rule_options r) = Inr ()))"
  by (induction label ids rs rule: validate_rules.induct) (auto split: if_splits)

lemma validate_rule_options_ok:
  "validate_rule_options label opts = Inr () \<longleftrightarrow>
     (\<forall>(k, v) \<in> set opts. is_valid_rule_option_name k \<and> is_ok (validate_rule_json v 0 0))"
proof (induction label opts rule: validate_rule_options.induct)
  case (2 label key v opts)
  then show ?case
    by (cases "validate_rule_json v 0 0") auto
qed simp

lemma validate_route_path_ok:
  "validate_route_path s local label = Inr () \<longleftrightarrow>
     (\<exists>c. canonicalize_http_path s = Inr c \<and> \<not> (local \<and> in_management_namespace c))"
  by (auto simp: validate_route_path_def split: sum.splits)

text \<open>What a profile satisfies once it has been validated.\<close>

definition routable :: "bool \<Rightarrow> string \<Rightarrow> bool" where
  "routable local s \<longleftrightarrow>
     (case canonicalize_http_path s of Inl _ \<Rightarrow> False
      | Inr c \<Rightarrow> \<not> (local \<and> in_management_namespace c))"

definition profile_complete :: "profile_definition \<Rightarrow> bool" where
  "profile_complete p \<longleftrightarrow>
     protocol p \<noteq> None \<and> local_request_path (locals p) \<noteq> None
     \<and> base_url (upstream p) \<noteq> None \<and> upstream_request_path (upstream p) \<noteq> None
     \<and> (local_usage_path (locals p) = None \<longleftrightarrow> upstream_usage_path (upstream p) = None)"

definition profile_sound :: "string \<Rightarrow> profile_definition \<Rightarrow> bool" where
  "profile_sound pid p \<longleftrightarrow>
     is_valid_profile_id pid
     \<and> pred_option is_valid_protocol_id (protocol p)
     \<and> pred_option (routable True) (local_request_path (locals p))
     \<and> pred_option (routable True) (local_usage_path (locals p))
     \<and> pred_option (routable False) (upstream_request_path (upstream p))
     \<and> pred_option (routable False) (upstream_usage_path (upstream p))
     \<and> pred_option (\<lambda>u. validate_base_url u [] = Inr ()) (base_url (upstream p))
     \<and> length (profile_rules p) \<le> 64 \<and> distinct (map rule_id (profile_rules p))
     \<and> list_all (\<lambda>r. is_valid_rule_id (rule_id r) \<and> is_valid_rule_type (rule_type r)
          \<and> list_all (\<lambda>(k, v). is_valid_rule_option_name k \<and> is_ok (validate_rule_json v 0 0))
              (rule_options r)) (profile_rules p)"

lemma routable_iff: "validate_route_path s local label = Inr () \<longleftrightarrow> routable local s"
  by (auto simp: routable_def validate_route_path_ok split: sum.splits)

lemma validate_base_url_label: "validate_base_url s l = Inr () \<longleftrightarrow> validate_base_url s l' = Inr ()"
  unfolding validate_base_url_def by (auto simp: routable_iff split: sum.splits if_splits)

lemma validate_completeness_ok: "validate_completeness label p = Inr () \<longleftrightarrow> profile_complete p"
  by (auto simp: validate_completeness_def profile_complete_def split: if_splits)

lemma validate_profile_ok:
  assumes "validate_profile_definition_impl pid p c = Inr ()"
  shows "profile_sound pid p \<and> (c \<longrightarrow> profile_complete p)"
proof -
  let ?label = "''profile '' @ pid"
  from assms have ok: "is_valid_profile_id pid" "\<And>v. protocol p = Some v \<Longrightarrow> is_valid_protocol_id v"
    "length (profile_rules p) \<le> 64" "validate_rules ?label {} (profile_rules p) = Inr ()"
    "c \<Longrightarrow> validate_completeness ?label p = Inr ()"
    by (auto simp: validate_profile_definition_impl_def Let_def split: if_splits option.splits)
  from assms have paths: "\<And>s. local_request_path (locals p) = Some s \<Longrightarrow> routable True s"
    "\<And>s. local_usage_path (locals p) = Some s \<Longrightarrow> routable True s"
    "\<And>s. upstream_request_path (upstream p) = Some s \<Longrightarrow> routable False s"
    "\<And>s. upstream_usage_path (upstream p) = Some s \<Longrightarrow> routable False s"
    "\<And>s. base_url (upstream p) = Some s \<Longrightarrow> validate_base_url s [] = Inr ()"
    using validate_base_url_label [of _ "?label @ '' upstream.base_url''" "[]"]
    by (auto simp: validate_profile_definition_impl_def Let_def routable_iff split: if_splits)
  from validate_rules_ok [OF ok(4)] ok(1-3) paths ok(5) show ?thesis
    by (auto simp: profile_sound_def validate_completeness_ok validate_rule_options_ok
        option.pred_set list_all_iff)
qed

lemma validate_profiles_ok:
  "validate_profiles ps n = Inr m \<Longrightarrow>
     m = n + sum_list (map (\<lambda>(_, p). profile_route_count p) ps)
     \<and> (\<forall>(pid, p) \<in> set ps. validate_profile_definition_impl pid p (profile_enabled p) = Inr ())"
  by (induction ps n rule: validate_profiles.induct) (auto split: sum.splits prod.splits)

lemma validate_config_document_ok:
  assumes "validate_config_document d = Inr ()"
  shows "validate_application_settings (application d) = Inr ()"
    and "length (profiles d) \<le> 128"
    and "\<And>pid p. (pid, p) \<in> set (profiles d) \<Longrightarrow>
           validate_profile_definition_impl pid p (profile_enabled p) = Inr ()"
    and "sum_list (map (\<lambda>(_, p). profile_route_count p) (profiles d)) \<le> 256"
  using assms validate_profiles_ok [of "profiles d" 0]
  by (auto simp: validate_config_document_def validate_config_document_failure_def
      validate_application_settings_def split: sum.splits prod.splits if_splits)


lemma default_application_settings_valid:
  "validate_application_settings default_application_settings = Inr ()"
  by code_simp


text \<open>C15: Every profile of a document that validates has well-formed identifiers, paths that
  canonicalise, local routes outside the management namespace, at most 64 rules with distinct
  ids, and bounded options; an enabled profile has all its required fields; and all profiles
  together have at most 256 local routes.\<close>

theorem validate_config_document_sound:
  assumes "validate_config_document d = Inr ()" and "(pid, p) \<in> set (profiles d)"
  shows "profile_sound pid p \<and> (profile_enabled p \<longrightarrow> profile_complete p)
    \<and> length (profiles d) \<le> 128 \<and> sum_list (map (\<lambda>(_, p). profile_route_count p) (profiles d)) \<le> 256"
  using validate_profile_ok [OF validate_config_document_ok(3) [OF assms]]
    validate_config_document_ok(2,4) [OF assms(1)] by blast

definition sample_profile :: profile_definition where
  "sample_profile =
     empty_profile\<lparr>profile_enabled := True, protocol := Some ''chat'',
       locals := \<lparr>local_request_path = Some ''/v1/chat'', local_usage_path = None\<rparr>,
       upstream := \<lparr>base_url = Some ''https://api.example.com/v1'',
                    upstream_request_path = Some ''/chat/completions'', upstream_usage_path = None\<rparr>,
       profile_rules := [\<lparr>rule_id = ''r1'', rule_enabled = True, rule_type = ''set_field'',
         rule_options = [(''path'', JStr ''/model''), (''value'', JStr ''m'')], rule_storage_key = 0\<rparr>]\<rparr>"

definition sample_document :: config_document where
  "sample_document = make_default_config_document\<lparr>profiles := [(''main'', sample_profile)]\<rparr>"

lemma sample_document_valid: "validate_config_document sample_document = Inr ()"
  by code_simp

theorem validate_config_document_sound_witness:
  "validate_config_document sample_document = Inr () \<and> (''main'', sample_profile) \<in> set (profiles sample_document)
   \<and> profile_enabled sample_profile \<and> profile_complete sample_profile"
proof -
  have mem: "(''main'', sample_profile) \<in> set (profiles sample_document)"
    by (simp add: sample_document_def)
  moreover have "profile_enabled sample_profile" by (simp add: sample_profile_def)
  ultimately show ?thesis
    using sample_document_valid validate_config_document_sound [OF sample_document_valid mem] by blast
qed



end
