(* ===== verification/ConfigJson.thy ===== *)
theory ConfigJson
  imports ConfigModel
begin

text \<open>
  The configuration document as JSON text: the reading and writing half of
  \<^verbatim>\<open>src/config/config_document.cpp\<close>. The JSON parser and printer are arguments
  (\<open>json_parse\<close> returns the value with the events its callback saw, \<open>json_dump\<close> is
  \<^verbatim>\<open>dump(2)\<close>; a failure is the message of the exception). Shown here: a document that was
  written is read back, up to the fields the format does not hold and the kind of non-negative
  integers; a document that was read is valid; and the check for duplicate keys is exact but
  for the empty key.
\<close>

section \<open>Reading values\<close>

definition check_object_keys :: "json \<Rightarrow> string \<Rightarrow> string list \<Rightarrow> string list \<Rightarrow> unit res" where
  "check_object_keys v path allowed required =
     (case v of
        JObj kvs \<Rightarrow>
          (case find (\<lambda>(k, _). k \<notin> set allowed) kvs of
             Some (k, _) \<Rightarrow> Inl (path @ '' contains unknown field: '' @ k)
           | None \<Rightarrow>
               (case find (\<lambda>k. map_of kvs k = None) required of
                  Some k \<Rightarrow> Inl (path @ '' is missing required field: '' @ k)
                | None \<Rightarrow> Inr ()))
      | _ \<Rightarrow> Inl (path @ '' must be a JSON object''))"

definition json_contains :: "json \<Rightarrow> string \<Rightarrow> bool" where
  "json_contains v key \<longleftrightarrow> json_find key v \<noteq> None"

text \<open>\<^verbatim>\<open>object.at(key)\<close> throws for a missing key; every caller has checked that the key is there.\<close>

definition json_at :: "json \<Rightarrow> string \<Rightarrow> json res" where
  "json_at v key = (case json_find key v of None \<Rightarrow> Inl (''key '' @ key @ '' not found'') | Some x \<Rightarrow> Inr x)"

definition read_string :: "json \<Rightarrow> string \<Rightarrow> string \<Rightarrow> string res" where
  "read_string object key path =
     res_bind (json_at object key) (\<lambda>v. case v of JStr s \<Rightarrow> Inr s
       | _ \<Rightarrow> Inl (path @ ''.'' @ key @ '' must be a JSON string''))"

definition read_bool :: "json \<Rightarrow> string \<Rightarrow> string \<Rightarrow> bool res" where
  "read_bool object key path =
     res_bind (json_at object key) (\<lambda>v. case v of JBool b \<Rightarrow> Inr b
       | _ \<Rightarrow> Inl (path @ ''.'' @ key @ '' must be a JSON boolean''))"

definition read_unsigned :: "json \<Rightarrow> string \<Rightarrow> string \<Rightarrow> nat \<Rightarrow> u64 res" where
  "read_unsigned object key path maximum =
     res_bind (json_at object key) (\<lambda>v. case v of
         JUint n \<Rightarrow> if unat n > maximum
           then Inl (path @ ''.'' @ key @ '' exceeds the supported maximum of '' @ string_of_nat maximum)
           else Inr n
       | _ \<Rightarrow> Inl (path @ ''.'' @ key @ '' must be a non-negative JSON integer''))"

definition read_positive :: "json \<Rightarrow> string \<Rightarrow> string \<Rightarrow> nat \<Rightarrow> string \<Rightarrow> u64 res" where
  "read_positive object key path maximum error =
     res_bind (read_unsigned object key path maximum) (\<lambda>n. if n = 0 then Inl error else Inr n)"

definition read_optional :: "json \<Rightarrow> string \<Rightarrow> string \<Rightarrow> string option res" where
  "read_optional object key path =
     (if json_contains object key then res_map Some (read_string object key path) else Inr None)"

section \<open>Application settings\<close>

definition read_listener :: "json \<Rightarrow> listener_settings res" where
  "read_listener j =
     res_bind (check_object_keys j ''$.listener'' [''host'', ''port''] [''host'', ''port'']) (\<lambda>_.
     res_bind (read_string j ''host'' ''$.listener'') (\<lambda>host.
     res_map (\<lambda>n. \<lparr>listener_host = host, listener_port = ucast n\<rparr>)
       (read_positive j ''port'' ''$.listener'' 65535 ''$.listener.port must be between 1 and 65535'')))"

definition runtime_keys :: "string list" where
  "runtime_keys = [''worker_threads'', ''max_connections'', ''max_request_body_size'',
     ''max_response_body_size'', ''metrics_interval_ms'']"

definition read_runtime :: "json \<Rightarrow> runtime_settings \<Rightarrow> runtime_settings res" where
  "read_runtime j defaults =
     res_bind (check_object_keys j ''$.runtime'' runtime_keys runtime_keys) (\<lambda>_.
     res_bind (read_positive j ''worker_threads'' ''$.runtime'' 1024
       ''$.runtime.worker_threads must be greater than 0'') (\<lambda>w.
     res_bind (read_positive j ''max_connections'' ''$.runtime'' 65535
       ''$.runtime.max_connections must be greater than 0'') (\<lambda>c.
     res_bind (read_positive j ''max_request_body_size'' ''$.runtime'' 1073741824
       ''$.runtime.max_request_body_size must be greater than 0'') (\<lambda>q.
     res_bind (read_positive j ''max_response_body_size'' ''$.runtime'' 1073741824
       ''$.runtime.max_response_body_size must be greater than 0'') (\<lambda>p.
     res_map (\<lambda>m. defaults\<lparr>worker_threads := ucast w, max_connections := ucast c,
         max_request_body_size := q, max_response_body_size := p, metrics_interval_ms := ucast m\<rparr>)
       (read_unsigned j ''metrics_interval_ms'' ''$.runtime'' 2147483647))))))"

definition timeout_keys :: "string list" where
  "timeout_keys = [''resolve_ms'', ''connect_ms'', ''send_ms'', ''response_header_ms'',
     ''stream_idle_ms'', ''total_ms'']"

definition read_timeout :: "json \<Rightarrow> string \<Rightarrow> bool \<Rightarrow> i32 res" where
  "read_timeout j key allow_zero =
     res_bind (read_unsigned j key ''$.timeouts'' 2147483647) (\<lambda>n.
       if \<not> allow_zero \<and> n = 0 then Inl (''$.timeouts.'' @ key @ '' must be greater than 0'')
       else Inr (ucast n))"

definition read_timeouts :: "json \<Rightarrow> timeout_config res" where
  "read_timeouts j =
     res_bind (check_object_keys j ''$.timeouts'' timeout_keys timeout_keys) (\<lambda>_.
     res_bind (read_timeout j ''resolve_ms'' False) (\<lambda>a.
     res_bind (read_timeout j ''connect_ms'' False) (\<lambda>b.
     res_bind (read_timeout j ''send_ms'' False) (\<lambda>c.
     res_bind (read_timeout j ''response_header_ms'' False) (\<lambda>d.
     res_bind (read_timeout j ''stream_idle_ms'' False) (\<lambda>e.
     res_map (\<lambda>f. \<lparr>resolve_ms = a, connect_ms = b, send_ms = c, response_header_ms = d,
         stream_idle_ms = e, total_ms = f\<rparr>)
       (read_timeout j ''total_ms'' True)))))))"

definition logging_required :: "string list" where
  "logging_required = [''path'', ''level'', ''body'', ''redact_sensitive'', ''body_limit'',
     ''queue_capacity'', ''flush_interval_ms'']"

definition logging_keys :: "string list" where
  "logging_keys = [''path'', ''level'', ''body'', ''redact_sensitive'', ''body_limit'',
     ''queue_capacity'', ''max_total_size'', ''flush_interval_ms'']"

definition read_logging :: "json \<Rightarrow> logging_settings \<Rightarrow> logging_settings res" where
  "read_logging j defaults =
     res_bind (check_object_keys j ''$.logging'' logging_keys logging_required) (\<lambda>_.
     res_bind (read_string j ''path'' ''$.logging'') (\<lambda>path.
     res_bind (read_string j ''level'' ''$.logging'') (\<lambda>level.
     res_bind (read_bool j ''body'' ''$.logging'') (\<lambda>body.
     res_bind (read_bool j ''redact_sensitive'' ''$.logging'') (\<lambda>redact.
     res_bind (read_positive j ''body_limit'' ''$.logging'' 1073741824
       ''$.logging.body_limit must be greater than 0'') (\<lambda>limit.
     res_bind (read_positive j ''queue_capacity'' ''$.logging'' 1073741824
       ''$.logging.queue_capacity must be greater than 0'') (\<lambda>capacity.
     res_bind (if json_contains j ''max_total_size''
               then read_positive j ''max_total_size'' ''$.logging'' 1099511627776
                 ''$.logging.max_total_size must be greater than 0''
               else Inr (max_total_size defaults)) (\<lambda>total.
     res_map (\<lambda>flush. \<lparr>log_path = path, log_level = level, log_body = body, redact_sensitive = redact,
         body_limit = limit, queue_capacity = capacity, max_total_size = total,
         flush_interval_ms = ucast flush\<rparr>)
       (read_positive j ''flush_interval_ms'' ''$.logging'' 60000
         ''$.logging.flush_interval_ms must be greater than 0'')))))))))"

definition read_required_application_settings :: "json \<Rightarrow> application_settings res" where
  "read_required_application_settings root =
     (let defaults = default_application_settings in
      res_bind (res_bind (json_at root ''listener'') read_listener) (\<lambda>l.
      res_bind (res_bind (json_at root ''runtime'') (\<lambda>j. read_runtime j (runtime defaults))) (\<lambda>r.
      res_bind (res_bind (json_at root ''timeouts'') read_timeouts) (\<lambda>t.
      res_map (\<lambda>g. \<lparr>listener = l, runtime = r, timeouts = t, logging = g\<rparr>)
        (res_bind (json_at root ''logging'') (\<lambda>j. read_logging j (logging defaults)))))))"

section \<open>Profiles and rules\<close>

fun parse_rule_options :: "string \<Rightarrow> (string \<times> json) list \<Rightarrow> (string \<times> json) list \<Rightarrow> (string \<times> json) list res" where
  "parse_rule_options path [] options = Inr options"
| "parse_rule_options path ((k, v) # kvs) options =
     (if k = ''id'' \<or> k = ''enabled'' \<or> k = ''type'' then parse_rule_options path kvs options
      else if \<not> is_valid_rule_option_name k
      then Inl (path @ '' contains an invalid rule option name: '' @ k)
      else res_bind (res_label (path @ ''.'' @ k @ '': '') (validate_rule_json v 0 0)) (\<lambda>_.
             parse_rule_options path kvs (map_emplace k v options)))"

definition parse_rule :: "json \<Rightarrow> string \<Rightarrow> rule_definition res" where
  "parse_rule source path =
     (case source of
        JObj kvs \<Rightarrow>
          if \<not> json_contains source ''id'' \<or> \<not> json_contains source ''type''
          then Inl (path @ '' must contain id and type'')
          else
            res_bind (read_string source ''id'' path) (\<lambda>i.
            res_bind (read_string source ''type'' path) (\<lambda>t.
            res_bind (if json_contains source ''enabled'' then read_bool source ''enabled'' path else Inr False) (\<lambda>e.
            res_map (\<lambda>opts. \<lparr>rule_id = i, rule_enabled = e, rule_type = t, rule_options = opts, rule_storage_key = 0\<rparr>)
              (parse_rule_options path kvs []))))
      | _ \<Rightarrow> Inl (path @ '' must be a JSON object''))"

fun parse_rules :: "string \<Rightarrow> nat \<Rightarrow> string set \<Rightarrow> json list \<Rightarrow> rule_definition list res" where
  "parse_rules path index ids [] = Inr []"
| "parse_rules path index ids (j # js) =
     res_bind (parse_rule j (path @ ''.rules['' @ string_of_nat index @ '']'')) (\<lambda>r.
       if rule_id r \<in> ids then Inl (path @ ''.rules contains duplicate rule id: '' @ rule_id r)
       else res_map ((#) r) (parse_rules path (index + 1) (insert (rule_id r) ids) js))"

definition parse_local :: "json \<Rightarrow> string \<Rightarrow> local_routes res" where
  "parse_local source path =
     (if json_contains source ''local'' then
        res_bind (json_at source ''local'') (\<lambda>local.
        res_bind (check_object_keys local (path @ ''.local'') [''request_path'', ''usage_path''] []) (\<lambda>_.
        res_bind (read_optional local ''request_path'' (path @ ''.local'')) (\<lambda>r.
        res_map (\<lambda>u. \<lparr>local_request_path = r, local_usage_path = u\<rparr>)
          (read_optional local ''usage_path'' (path @ ''.local'')))))
      else Inr \<lparr>local_request_path = None, local_usage_path = None\<rparr>)"

definition parse_upstream :: "json \<Rightarrow> string \<Rightarrow> upstream_definition res" where
  "parse_upstream source path =
     (if json_contains source ''upstream'' then
        res_bind (json_at source ''upstream'') (\<lambda>up.
        res_bind (check_object_keys up (path @ ''.upstream'') [''base_url'', ''request_path'', ''usage_path''] []) (\<lambda>_.
        res_bind (read_optional up ''base_url'' (path @ ''.upstream'')) (\<lambda>b.
        res_bind (read_optional up ''request_path'' (path @ ''.upstream'')) (\<lambda>r.
        res_map (\<lambda>u. \<lparr>base_url = b, upstream_request_path = r, upstream_usage_path = u\<rparr>)
          (read_optional up ''usage_path'' (path @ ''.upstream''))))))
      else Inr \<lparr>base_url = None, upstream_request_path = None, upstream_usage_path = None\<rparr>)"

definition parse_profile_rules :: "json \<Rightarrow> string \<Rightarrow> rule_definition list res" where
  "parse_profile_rules source path =
     (if json_contains source ''rules'' then
        res_bind (json_at source ''rules'') (\<lambda>rules. case rules of
            JArr js \<Rightarrow> if length js > 64 then Inl (path @ ''.rules exceeds the maximum of 64'')
              else parse_rules path 0 {} js
          | _ \<Rightarrow> Inl (path @ ''.rules must be a JSON array''))
      else Inr [])"

definition parse_profile :: "json \<Rightarrow> string \<Rightarrow> profile_definition res" where
  "parse_profile source profile_id =
     (let path = ''$.profiles.'' @ profile_id in
      res_bind (check_object_keys source path [''enabled'', ''protocol'', ''local'', ''upstream'', ''rules''] []) (\<lambda>_.
      res_bind (if json_contains source ''enabled'' then read_bool source ''enabled'' path else Inr False) (\<lambda>e.
      res_bind (read_optional source ''protocol'' path) (\<lambda>pr.
      res_bind (parse_local source path) (\<lambda>l.
      res_bind (parse_upstream source path) (\<lambda>u.
      res_map (\<lambda>rs. \<lparr>profile_enabled = e, protocol = pr, locals = l, upstream = u, profile_rules = rs,
          profile_storage_key = 0, storage_position = None\<rparr>)
        (parse_profile_rules source path)))))))"

fun parse_profiles :: "(string \<times> json) list \<Rightarrow> (string \<times> profile_definition) list
    \<Rightarrow> (string \<times> profile_definition) list res" where
  "parse_profiles [] acc = Inr acc"
| "parse_profiles ((pid, j) # rest) acc =
     res_bind (parse_profile j pid) (\<lambda>p. parse_profiles rest (map_emplace pid p acc))"

section \<open>The document\<close>

datatype parse_event = ObjectStart | ObjectEnd | KeyEvent string | OtherEvent

text \<open>The callback of the parser: a stack of the keys seen in the open objects, and the first
  duplicate.\<close>

fun track_event :: "string set list \<times> string \<Rightarrow> parse_event \<Rightarrow> string set list \<times> string" where
  "track_event (stack, dup) ObjectStart = ({} # stack, dup)"
| "track_event (keys # stack, dup) (KeyEvent k) =
     (insert k keys # stack, if k \<in> keys \<and> dup = [] then k else dup)"
| "track_event (keys # stack, dup) ObjectEnd = (stack, dup)"
| "track_event s _ = s"

definition duplicate_key :: "parse_event list \<Rightarrow> string" where
  "duplicate_key events = snd (foldl track_event ([], []) events)"

definition root_keys :: "string list" where
  "root_keys = [''schema_version'', ''listener'', ''runtime'', ''timeouts'', ''logging'', ''profiles'']"

definition schema_version :: string where
  "schema_version = ''ccs-trans.config/v2''"

definition config_of_profiles :: "application_settings \<Rightarrow> json \<Rightarrow> config_document res" where
  "config_of_profiles a ps =
     (case ps of
        JObj kvs \<Rightarrow>
          if length kvs > 128 then Inl ''config exceeds the maximum of 128 profiles''
          else res_bind (parse_profiles kvs []) (\<lambda>profs.
            let candidate = \<lparr>application = a, profiles = profs\<rparr>
            in res_map (\<lambda>_. candidate) (validate_config_document candidate))
      | _ \<Rightarrow> Inl ''$.profiles must be a JSON object'')"

definition config_of_json :: "json \<Rightarrow> config_document res" where
  "config_of_json root =
     (if \<not> is_object root then Inl ''config root must be a JSON object''
      else (case json_find ''schema_version'' root of
        Some (JStr v) \<Rightarrow>
          if v \<noteq> schema_version then Inl ''unsupported config schema_version; expected ccs-trans.config/v2''
          else
            res_bind (check_object_keys root ''$'' root_keys root_keys) (\<lambda>_.
            res_bind (read_required_application_settings root) (\<lambda>a.
            res_bind (json_at root ''profiles'') (config_of_profiles a)))
      | _ \<Rightarrow> Inl ''config schema_version must be a JSON string''))"

definition parse_config_document ::
    "(string \<Rightarrow> (parse_event list \<times> json) res) \<Rightarrow> string \<Rightarrow> config_document res" where
  "parse_config_document json_parse content =
     (if length content > 4194304 then Inl ''config document exceeds the 4 MiB limit''
      else (case json_parse content of
        Inl what \<Rightarrow> Inl (''failed to parse config document: '' @ what)
      | Inr (events, root) \<Rightarrow>
          if duplicate_key events \<noteq> []
          then Inl (''config contains duplicate JSON object key: '' @ duplicate_key events)
          else config_of_json root))"

section \<open>Writing\<close>

definition json_object :: "(string \<times> json) list \<Rightarrow> json" where
  "json_object kvs = JObj (map_of_entries kvs)"

definition opt_entry :: "string \<Rightarrow> string option \<Rightarrow> (string \<times> json) list" where
  "opt_entry key v = (case v of None \<Rightarrow> [] | Some s \<Rightarrow> [(key, JStr s)])"

definition listener_to_json :: "listener_settings \<Rightarrow> json" where
  "listener_to_json l =
     json_object [(''host'', JStr (listener_host l)), (''port'', JUint (ucast (listener_port l)))]"

definition runtime_to_json :: "runtime_settings \<Rightarrow> json" where
  "runtime_to_json r = json_object
     [(''worker_threads'', JUint (ucast (worker_threads r))),
      (''max_connections'', JUint (ucast (max_connections r))),
      (''max_request_body_size'', JUint (max_request_body_size r)),
      (''max_response_body_size'', JUint (max_response_body_size r)),
      (''metrics_interval_ms'', JUint (ucast (metrics_interval_ms r)))]"

definition timeouts_to_json :: "timeout_config \<Rightarrow> json" where
  "timeouts_to_json t = json_object
     [(''resolve_ms'', JInt (scast (resolve_ms t))), (''connect_ms'', JInt (scast (connect_ms t))),
      (''send_ms'', JInt (scast (send_ms t))),
      (''response_header_ms'', JInt (scast (response_header_ms t))),
      (''stream_idle_ms'', JInt (scast (stream_idle_ms t))), (''total_ms'', JInt (scast (total_ms t)))]"

definition logging_to_json :: "logging_settings \<Rightarrow> json" where
  "logging_to_json g = json_object
     [(''path'', JStr (log_path g)), (''level'', JStr (log_level g)), (''body'', JBool (log_body g)),
      (''redact_sensitive'', JBool (redact_sensitive g)), (''body_limit'', JUint (body_limit g)),
      (''queue_capacity'', JUint (queue_capacity g)), (''max_total_size'', JUint (max_total_size g)),
      (''flush_interval_ms'', JUint (ucast (flush_interval_ms g)))]"

definition rule_to_json :: "rule_definition \<Rightarrow> json" where
  "rule_to_json r = json_object
     ([(''id'', JStr (rule_id r)), (''enabled'', JBool (rule_enabled r)), (''type'', JStr (rule_type r))]
      @ rule_options r)"

definition local_to_json :: "local_routes \<Rightarrow> (string \<times> json) list" where
  "local_to_json l =
     (if local_request_path l \<noteq> None \<or> local_usage_path l \<noteq> None
      then [(''local'', json_object (opt_entry ''request_path'' (local_request_path l)
              @ opt_entry ''usage_path'' (local_usage_path l)))]
      else [])"

definition upstream_to_json :: "upstream_definition \<Rightarrow> (string \<times> json) list" where
  "upstream_to_json u =
     (if base_url u \<noteq> None \<or> upstream_request_path u \<noteq> None \<or> upstream_usage_path u \<noteq> None
      then [(''upstream'', json_object (opt_entry ''base_url'' (base_url u)
              @ opt_entry ''request_path'' (upstream_request_path u)
              @ opt_entry ''usage_path'' (upstream_usage_path u)))]
      else [])"

definition profile_to_json :: "profile_definition \<Rightarrow> json" where
  "profile_to_json p = json_object
     ([(''enabled'', JBool (profile_enabled p))] @ opt_entry ''protocol'' (protocol p)
      @ local_to_json (locals p) @ upstream_to_json (upstream p)
      @ [(''rules'', JArr (map rule_to_json (profile_rules p)))])"

definition document_to_json :: "config_document \<Rightarrow> json" where
  "document_to_json d = json_object
     [(''schema_version'', JStr schema_version),
      (''listener'', listener_to_json (listener (application d))),
      (''runtime'', runtime_to_json (runtime (application d))),
      (''timeouts'', timeouts_to_json (timeouts (application d))),
      (''logging'', logging_to_json (logging (application d))),
      (''profiles'', json_object (map (\<lambda>(pid, p). (pid, profile_to_json p)) (profiles d)))]"

definition serialize_config_document :: "(json \<Rightarrow> string res) \<Rightarrow> config_document \<Rightarrow> string res" where
  "serialize_config_document json_dump d =
     res_bind (validate_config_document d) (\<lambda>_.
       case json_dump (document_to_json d) of
         Inl what \<Rightarrow> Inl (''failed to serialize config document: '' @ what)
       | Inr s \<Rightarrow>
           let serialized = s @ [CHR 0x0A] in
           if length serialized > 4194304
           then Inl ''serialized config document exceeds the 4 MiB limit''
           else Inr serialized)"

section \<open>What the text preserves\<close>

text \<open>What the parser returns for the text of a value: a non-negative integer is unsigned.\<close>

fun json_reparse :: "json \<Rightarrow> json" where
  "json_reparse (JInt n) = (if 0 \<le> sint n then JUint n else JInt n)"
| "json_reparse (JArr xs) = JArr (map json_reparse xs)"
| "json_reparse (JObj kvs) = JObj (map (\<lambda>kv. (fst kv, json_reparse (snd kv))) kvs)"
| "json_reparse v = v"

fun json_finite :: "json \<Rightarrow> bool" where
  "json_finite (JFloat d) \<longleftrightarrow> double_finite d"
| "json_finite (JArr xs) \<longleftrightarrow> list_all json_finite xs"
| "json_finite (JObj kvs) \<longleftrightarrow> list_all (\<lambda>kv. json_finite (snd kv)) kvs"
| "json_finite _ \<longleftrightarrow> True"

definition persisted_options :: "(string \<times> json) list \<Rightarrow> (string \<times> json) list" where
  "persisted_options opts = map (\<lambda>kv. (fst kv, json_reparse (snd kv))) opts"

definition persisted_rule :: "rule_definition \<Rightarrow> rule_definition" where
  "persisted_rule r = r\<lparr>rule_options := persisted_options (rule_options r), rule_storage_key := 0\<rparr>"

definition persisted_profile :: "profile_definition \<Rightarrow> profile_definition" where
  "persisted_profile p = p\<lparr>profile_rules := map persisted_rule (profile_rules p),
     profile_storage_key := 0, storage_position := None\<rparr>"

definition persisted :: "config_document \<Rightarrow> config_document" where
  "persisted d =
     \<lparr>application = (application d)\<lparr>runtime := (runtime (application d))
        \<lparr>max_inflight_bytes := max_inflight_bytes (runtime default_application_settings)\<rparr>\<rparr>,
      profiles = map (\<lambda>(pid, p). (pid, persisted_profile p)) (profiles d)\<rparr>"

text \<open>The maps of the document are ordered, and their values well formed.\<close>

definition config_wf :: "config_document \<Rightarrow> bool" where
  "config_wf d \<longleftrightarrow> keys_sorted (profiles d)
     \<and> list_all (\<lambda>(_, p). list_all (\<lambda>r. keys_sorted (rule_options r)
          \<and> list_all (\<lambda>kv. json_wf (snd kv)) (rule_options r)) (profile_rules p)) (profiles d)"

lemma json_reparse_measures [simp]:
  "json_nodes (json_reparse v) = json_nodes v"
  "json_depth (json_reparse v) = json_depth v"
  "json_text_ok (json_reparse v) = json_text_ok v"
proof (induction v)
  case (JArr xs)
  { case 1 show ?case using JArr(1) by (simp add: comp_def cong: map_cong) }
  { case 2 show ?case using JArr(2) by (simp add: comp_def cong: map_cong) }
  { case 3 show ?case using JArr(3) by (simp add: list_all_iff) }
next
  case (JObj kvs)
  have mem: "snd kv \<in> Basic_BNFs.snds kv" for kv :: "string \<times> json" by (cases kv) auto
  { case 1 show ?case using JObj(1) [OF _ mem] by (simp add: comp_def cong: map_cong) }
  { case 2 show ?case using JObj(2) [OF _ mem] by (simp add: comp_def cong: map_cong) }
  { case 3 show ?case using JObj(3) [OF _ mem] by (simp add: list_all_iff) }
qed auto

lemma validate_rule_json_reparse:
  "is_ok (validate_rule_json (json_reparse v) 0 0) \<longleftrightarrow> is_ok (validate_rule_json v 0 0)"
proof -
  have "is_ok (validate_rule_json v 0 0) \<longleftrightarrow>
      json_nodes v \<le> 4096 \<and> json_depth v \<le> 32 \<and> json_text_ok v" for v
    using validate_rule_json_iff(1) [of 0 v 0]
    by (cases "validate_rule_json v 0 0") auto
  then show ?thesis by simp
qed

lemma json_text_ok_finite: "json_text_ok v \<Longrightarrow> json_finite v"
proof (induction v)
  case (JObj kvs)
  have mem: "snd kv \<in> Basic_BNFs.snds kv" for kv :: "string \<times> json" by (cases kv) auto
  show ?case using JObj(1) [OF _ mem] JObj(2) by (simp add: list_all_iff)
qed (auto simp: list_all_iff)

lemma json_find_object:
  "distinct (map fst es) \<Longrightarrow> json_find k (json_reparse (json_object es)) = map_option json_reparse (map_of es k)"
proof -
  have m: "map_of (map (\<lambda>kv. (fst kv, json_reparse (snd kv))) kvs) k = map_option json_reparse (map_of kvs k)" for kvs
    by (induction kvs) auto
  assume "distinct (map fst es)"
  then show ?thesis by (simp add: json_object_def m map_of_map_of_entries)
qed

lemma check_object_keys_ok:
  "check_object_keys (JObj kvs) path allowed required = Inr () \<longleftrightarrow>
     fst ` set kvs \<subseteq> set allowed \<and> set required \<subseteq> fst ` set kvs"
proof -
  have "find (\<lambda>(k, _). k \<notin> set allowed) kvs = None \<longleftrightarrow> fst ` set kvs \<subseteq> set allowed"
    by (auto simp: find_None_iff)
  moreover have "find (\<lambda>k. map_of kvs k = None) required = None \<longleftrightarrow> set required \<subseteq> fst ` set kvs"
    by (auto simp: find_None_iff map_of_eq_None_iff)
  ultimately show ?thesis
    by (auto simp: check_object_keys_def split: option.splits)
qed

lemma check_object_keys_object:
  assumes "distinct (map fst es)"
  shows "check_object_keys (json_reparse (json_object es)) path allowed required = Inr () \<longleftrightarrow>
    fst ` set es \<subseteq> set allowed \<and> set required \<subseteq> fst ` set es"
proof -
  have "fst ` set (map (\<lambda>kv. (fst kv, json_reparse (snd kv))) (map_of_entries es)) = fst ` set es"
    using set_map_of_entries [OF assms] by (simp add: image_image)
  then show ?thesis by (simp add: json_object_def check_object_keys_ok del: set_map)
qed

lemmas read_simps = read_positive_def read_unsigned_def read_string_def read_bool_def json_at_def
  json_contains_def read_optional_def json_find_object check_object_keys_object

section \<open>Reading back the settings\<close>

lemma read_listener_back:
  "listener_port l \<noteq> 0 \<Longrightarrow> read_listener (json_reparse (listener_to_json l)) = Inr l"
proof -
  assume p: "listener_port l \<noteq> 0"
  have "unat (ucast (listener_port l) :: u64) \<le> 65535"
    using unsigned_less [of "listener_port l", where ?'a = nat] by (simp add: unat_ucast_up)
  moreover have "(ucast (listener_port l) :: u64) \<noteq> 0" using p by (simp add: ucast_up_eq_0)
  ultimately show ?thesis
    by (simp add: read_listener_def listener_to_json_def read_simps ucast_ucast_up)
qed

lemma read_runtime_back:
  assumes "validate_runtime r = Inr ()"
  shows "read_runtime (json_reparse (runtime_to_json r)) (runtime default_application_settings)
    = Inr (r\<lparr>max_inflight_bytes := max_inflight_bytes (runtime default_application_settings)\<rparr>)"
proof -
  note ok = validate_runtime_ok [OF assms]
  from ok have z: "(ucast (worker_threads r) :: u64) \<noteq> 0" "(ucast (max_connections r) :: u64) \<noteq> 0"
    "max_request_body_size r \<noteq> 0" "max_response_body_size r \<noteq> 0"
    by (auto simp: ucast_up_eq_0)
  have m: "unat (metrics_interval_ms r) \<le> 2147483647"
    using assms by (auto simp: validate_runtime_def not_less word_le_nat_alt split: if_splits)
  show ?thesis
    using ok z m by (simp add: read_runtime_def runtime_to_json_def runtime_keys_def read_simps
        ucast_ucast_up unat_ucast_up)
qed

lemma read_timeout_back:
  assumes "json_find key j = Some (json_reparse (JInt (scast v)))" "0 \<le> sint v" "\<not> z \<longrightarrow> sint v \<noteq> 0"
  shows "read_timeout j key z = Inr (v :: i32)"
proof -
  have "(scast v :: u64) \<noteq> 0" if "\<not> z"
    using assms(3) that ucast_scast_up [of v, where ?'b = 64] by (auto simp del: ucast_scast_up)
  then have "z \<or> (scast v :: u64) \<noteq> 0" by blast
  then show ?thesis
    using assms(1,2) unat_scast_32 [OF assms(2)]
    by (simp add: read_timeout_def read_unsigned_def json_at_def sint_scast_32 ucast_scast_up)
qed

lemma read_timeouts_back:
  "validate_timeouts t = Inr () \<Longrightarrow> read_timeouts (json_reparse (timeouts_to_json t)) = Inr t"
  using validate_timeouts_ok [of t]
  by (simp add: read_timeouts_def timeouts_to_json_def timeout_keys_def check_object_keys_object
      read_timeout_back json_find_object del: json_reparse.simps)

lemma read_logging_back:
  assumes "validate_log_sizes g = Inr ()"
  shows "read_logging (json_reparse (logging_to_json g)) (logging default_application_settings) = Inr g"
proof -
  have ok: "body_limit g \<noteq> 0" "queue_capacity g \<noteq> 0" "max_total_size g \<noteq> 0" "flush_interval_ms g \<noteq> 0"
    "unat (body_limit g) \<le> 1073741824" "unat (queue_capacity g) \<le> 1073741824"
    "unat (max_total_size g) \<le> 1099511627776" "unat (flush_interval_ms g) \<le> 60000"
    using assms by (auto simp: validate_log_sizes_def not_less word_le_nat_alt split: if_splits)
  then show ?thesis
    by (simp add: read_logging_def logging_to_json_def logging_keys_def logging_required_def read_simps
        ucast_ucast_up unat_ucast_up ucast_up_eq_0)
qed

section \<open>Reading back rules and profiles\<close>

lemma valid_option_not_reserved:
  "is_valid_rule_option_name k \<Longrightarrow> k \<notin> {''id'', ''enabled'', ''type''}"
  by (simp add: is_valid_rule_option_name_def)

definition reserved :: "string \<Rightarrow> bool" where
  "reserved k \<longleftrightarrow> k = ''id'' \<or> k = ''enabled'' \<or> k = ''type''"

lemma parse_rule_options_back:
  "keys_sorted kvs \<Longrightarrow> (\<And>a b. a \<in> fst ` set acc \<Longrightarrow> b \<in> fst ` set kvs \<Longrightarrow> str_less a b) \<Longrightarrow>
   (\<And>k v. (k, v) \<in> set kvs \<Longrightarrow> \<not> reserved k \<Longrightarrow>
      is_valid_rule_option_name k \<and> is_ok (validate_rule_json v 0 0)) \<Longrightarrow>
   parse_rule_options path kvs acc = Inr (acc @ filter (\<lambda>kv. \<not> reserved (fst kv)) kvs)"
proof (induction path kvs acc rule: parse_rule_options.induct)
  case (2 path k v kvs acc)
  show ?case
  proof (cases "reserved k")
    case True
    with 2 show ?thesis by (auto simp: reserved_def keys_sorted_Cons)
  next
    case False
    then have k: "\<not> (k = ''id'' \<or> k = ''enabled'' \<or> k = ''type'')" by (simp add: reserved_def)
    from "2.prems"(3) [of k v] False obtain n where v: "is_valid_rule_option_name k"
      "validate_rule_json v 0 0 = Inr n"
      by (cases "validate_rule_json v 0 0") auto
    have em: "map_emplace k v acc = acc @ [(k, v)]"
      by (rule map_emplace_last) (use "2.prems"(2) in auto)
    have "parse_rule_options path kvs (acc @ [(k, v)])
        = Inr ((acc @ [(k, v)]) @ filter (\<lambda>kv. \<not> reserved (fst kv)) kvs)"
    proof (unfold em [symmetric], rule "2.IH"(2) [OF k])
      show "\<not> \<not> is_valid_rule_option_name k" "keys_sorted kvs"
        using v "2.prems"(1) by (simp_all add: keys_sorted_Cons)
      show "res_label (path @ ''.'' @ k @ '': '') (validate_rule_json v 0 0) = Inr n" by (simp add: v)
      show "str_less a b" if "a \<in> fst ` set (map_emplace k v acc)" "b \<in> fst ` set kvs" for a b
        using that "2.prems"(1,2) by (auto simp: em keys_sorted_Cons)
      show "is_valid_rule_option_name k' \<and> is_ok (validate_rule_json v' 0 0)"
        if "(k', v') \<in> set kvs" "\<not> reserved k'" for k' v'
        using that "2.prems"(3) [of k' v'] by simp
    qed
    with k v em False show ?thesis by simp
  qed
qed simp

definition rule_valid :: "rule_definition \<Rightarrow> bool" where
  "rule_valid r \<longleftrightarrow> list_all (\<lambda>(k, v). is_valid_rule_option_name k \<and> is_ok (validate_rule_json v 0 0)) (rule_options r)"

lemma rule_entries_distinct:
  assumes "keys_sorted (rule_options r)" "rule_valid r"
  shows "distinct (map fst ([(''id'', JStr (rule_id r)), (''enabled'', JBool (rule_enabled r)), (''type'', JStr (rule_type r))] @ rule_options r))"
proof -
  have "k \<in> fst ` set (rule_options r) \<Longrightarrow> \<not> reserved k" for k
    using assms(2) valid_option_not_reserved by (auto simp: rule_valid_def list_all_iff reserved_def)
  then show ?thesis using keys_sorted_distinct [OF assms(1)] by (auto simp: reserved_def)
qed

lemma parse_rule_back:
  assumes sorted: "keys_sorted (rule_options r)" and valid: "rule_valid r"
  shows "parse_rule (json_reparse (rule_to_json r)) path = Inr (persisted_rule r)"
proof -
  define es where "es = [(''id'', JStr (rule_id r)), (''enabled'', JBool (rule_enabled r)), (''type'', JStr (rule_type r))] @ rule_options r"
  let ?kvs = "map (\<lambda>kv. (fst kv, json_reparse (snd kv))) (map_of_entries es)"
  have d: "distinct (map fst es)" unfolding es_def by (rule rule_entries_distinct [OF assms])
  have res: "k \<in> fst ` set (rule_options r) \<Longrightarrow> \<not> reserved k" for k
    using valid valid_option_not_reserved by (auto simp: rule_valid_def list_all_iff reserved_def)
  have j: "json_reparse (rule_to_json r) = JObj ?kvs" by (simp add: rule_to_json_def json_object_def es_def)
  have find: "json_find k (JObj ?kvs) = map_option json_reparse (map_of es k)" for k
    using json_find_object [OF d, of k] by (simp add: json_object_def)
  have ks: "keys_sorted ?kvs"
    using keys_sorted_map_of_entries [of es] by (simp add: keys_sorted_def comp_def)
  have opts: "parse_rule_options path ?kvs [] = Inr ([] @ filter (\<lambda>kv. \<not> reserved (fst kv)) ?kvs)"
  proof (rule parse_rule_options_back [OF ks])
    fix k v assume kv: "(k, v) \<in> set ?kvs" "\<not> reserved k"
    then obtain w where "(k, w) \<in> set (map_of_entries es)" "v = json_reparse w" by auto
    with kv(2) have "(k, w) \<in> set (rule_options r)"
      unfolding set_map_of_entries [OF d] by (auto simp: reserved_def es_def)
    with valid \<open>v = json_reparse w\<close>
    show "is_valid_rule_option_name k \<and> is_ok (validate_rule_json v 0 0)"
      by (auto simp: rule_valid_def list_all_iff validate_rule_json_reparse)
  qed simp
  have "filter (\<lambda>kv. \<not> reserved (fst kv)) ?kvs = persisted_options (rule_options r)"
  proof (rule keys_sorted_unique)
    show "keys_sorted (filter (\<lambda>kv. \<not> reserved (fst kv)) ?kvs)" by (rule keys_sorted_filter [OF ks])
    show "keys_sorted (persisted_options (rule_options r))"
      using sorted by (simp add: persisted_options_def keys_sorted_def comp_def)
    have m: "map_of (filter (\<lambda>kv. P (fst kv)) xs) k = (if P k then map_of xs k else None)" for P k and xs :: "(string \<times> json) list"
      by (induction xs) auto
    have p: "map_of (persisted_options os) k = map_option json_reparse (map_of os k)" for os k
      by (induction os) (auto simp: persisted_options_def)
    show "map_of (filter (\<lambda>kv. \<not> reserved (fst kv)) ?kvs) = map_of (persisted_options (rule_options r))"
    proof
      fix k
      show "map_of (filter (\<lambda>kv. \<not> reserved (fst kv)) ?kvs) k = map_of (persisted_options (rule_options r)) k"
      proof (cases "reserved k")
        case True
        then have "map_of (rule_options r) k = None" using res [of k] map_of_eq_None_iff [of "rule_options r" k] by blast
        with True show ?thesis by (simp add: m [of "\<lambda>k. \<not> reserved k"] p)
      next
        case False
        then have "map_of es k = map_of (rule_options r) k" by (simp add: es_def reserved_def)
        with False find [of k] show ?thesis by (simp add: m [of "\<lambda>k. \<not> reserved k"] p)
      qed
    qed
  qed
  with opts find show ?thesis
    by (simp add: j es_def parse_rule_def json_contains_def read_string_def read_bool_def json_at_def persisted_rule_def
        del: json_find.simps)
qed

lemma parse_rules_back:
  "(\<And>r. r \<in> set rs \<Longrightarrow> keys_sorted (rule_options r) \<and> rule_valid r) \<Longrightarrow> distinct (map rule_id rs) \<Longrightarrow>
   set (map rule_id rs) \<inter> ids = {} \<Longrightarrow>
   parse_rules path i ids (map (\<lambda>r. json_reparse (rule_to_json r)) rs) = Inr (map persisted_rule rs)"
proof (induction rs arbitrary: i ids)
  case (Cons r rs)
  have "rule_id (persisted_rule r) = rule_id r" by (simp add: persisted_rule_def)
  with Cons show ?case by (simp add: parse_rule_back)
qed simp

lemma read_optional_object:
  "distinct (map fst es) \<Longrightarrow> map_of es key = map_option JStr v \<Longrightarrow>
     read_optional (json_reparse (json_object es)) key path = Inr v"
  by (cases v) (simp_all add: read_simps)

definition profile_entries :: "profile_definition \<Rightarrow> (string \<times> json) list" where
  "profile_entries p = [(''enabled'', JBool (profile_enabled p))] @ opt_entry ''protocol'' (protocol p)
      @ local_to_json (locals p) @ upstream_to_json (upstream p)
      @ [(''rules'', JArr (map rule_to_json (profile_rules p)))]"

lemmas entry_simps = opt_entry_def local_to_json_def upstream_to_json_def

lemma profile_entries_keys: "distinct (map fst (profile_entries p))"
  "fst ` set (profile_entries p) \<subseteq> {''enabled'', ''protocol'', ''local'', ''upstream'', ''rules''}"
  by (auto simp: profile_entries_def entry_simps split: option.splits)

lemma profile_entries_find:
  "map_of (profile_entries p) ''enabled'' = Some (JBool (profile_enabled p))"
  "map_of (profile_entries p) ''protocol'' = map_option JStr (protocol p)"
  "map_of (profile_entries p) ''rules'' = Some (JArr (map rule_to_json (profile_rules p)))"
  "map_of (profile_entries p) ''local'' = map_of (local_to_json (locals p)) ''local''"
  "map_of (profile_entries p) ''upstream'' = map_of (upstream_to_json (upstream p)) ''upstream''"
  by (auto simp: profile_entries_def entry_simps split: option.splits)

lemma opt_entries_distinct:
  "distinct (map fst (opt_entry ''request_path'' a @ opt_entry ''usage_path'' b))"
  "distinct (map fst (opt_entry ''base_url'' c @ opt_entry ''request_path'' a @ opt_entry ''usage_path'' b))"
  by (auto simp: opt_entry_def split: option.splits)

lemma parse_local_back:
  assumes "json_find ''local'' j = map_option json_reparse (map_of (local_to_json l) ''local'')"
  shows "parse_local j path = Inr l"
proof (cases "local_request_path l = None \<and> local_usage_path l = None")
  case True
  with assms show ?thesis by (simp add: parse_local_def json_contains_def local_to_json_def)
next
  case False
  let ?es = "opt_entry ''request_path'' (local_request_path l) @ opt_entry ''usage_path'' (local_usage_path l)"
  have ro: "read_optional (json_reparse (json_object ?es)) ''request_path'' p = Inr (local_request_path l)"
    "read_optional (json_reparse (json_object ?es)) ''usage_path'' p = Inr (local_usage_path l)" for p
    by (intro read_optional_object; auto simp: opt_entry_def split: option.splits)+
  have ck: "check_object_keys (json_reparse (json_object ?es)) p [''request_path'', ''usage_path''] [] = Inr ()" for p
    by (subst check_object_keys_object) (auto simp: opt_entry_def split: option.splits)
  from False have "map_of (local_to_json l) ''local'' = Some (json_object ?es)"
    by (simp add: local_to_json_def)
  with assms ro ck show ?thesis by (simp add: parse_local_def json_contains_def json_at_def)
qed

lemma parse_upstream_back:
  assumes "json_find ''upstream'' j = map_option json_reparse (map_of (upstream_to_json u) ''upstream'')"
  shows "parse_upstream j path = Inr u"
proof (cases "base_url u = None \<and> upstream_request_path u = None \<and> upstream_usage_path u = None")
  case True
  with assms show ?thesis by (simp add: parse_upstream_def json_contains_def upstream_to_json_def)
next
  case False
  let ?es = "opt_entry ''base_url'' (base_url u) @ opt_entry ''request_path'' (upstream_request_path u)
    @ opt_entry ''usage_path'' (upstream_usage_path u)"
  have ro: "read_optional (json_reparse (json_object ?es)) ''base_url'' p = Inr (base_url u)"
    "read_optional (json_reparse (json_object ?es)) ''request_path'' p = Inr (upstream_request_path u)"
    "read_optional (json_reparse (json_object ?es)) ''usage_path'' p = Inr (upstream_usage_path u)" for p
    by (intro read_optional_object; auto simp: opt_entry_def split: option.splits)+
  have ck: "check_object_keys (json_reparse (json_object ?es)) p [''base_url'', ''request_path'', ''usage_path''] [] = Inr ()" for p
    by (subst check_object_keys_object) (auto simp: opt_entry_def split: option.splits)
  from False have "map_of (upstream_to_json u) ''upstream'' = Some (json_object ?es)"
    by (simp add: upstream_to_json_def)
  with assms ro ck show ?thesis by (simp add: parse_upstream_def json_contains_def json_at_def)
qed

definition profile_rules_ok :: "profile_definition \<Rightarrow> bool" where
  "profile_rules_ok p \<longleftrightarrow> length (profile_rules p) \<le> 64 \<and> distinct (map rule_id (profile_rules p))
     \<and> (\<forall>r \<in> set (profile_rules p). keys_sorted (rule_options r) \<and> rule_valid r)"

lemma parse_profile_back:
  assumes "profile_rules_ok p"
  shows "parse_profile (json_reparse (profile_to_json p)) pid = Inr (persisted_profile p)"
proof -
  let ?j = "json_reparse (json_object (profile_entries p))" and ?path = "''$.profiles.'' @ pid"
  have j: "json_reparse (profile_to_json p) = ?j" by (simp add: profile_to_json_def profile_entries_def)
  have find: "json_find k ?j = map_option json_reparse (map_of (profile_entries p) k)" for k
    by (rule json_find_object) (rule profile_entries_keys)
  have "check_object_keys ?j ?path [''enabled'', ''protocol'', ''local'', ''upstream'', ''rules''] [] = Inr ()"
    by (subst check_object_keys_object) (use profile_entries_keys [of p] in auto)
  moreover have "read_bool ?j ''enabled'' ?path = Inr (profile_enabled p)" "json_contains ?j ''enabled''"
    by (simp_all add: read_bool_def json_at_def json_contains_def find profile_entries_find)
  moreover have "read_optional ?j ''protocol'' ?path = Inr (protocol p)"
    by (rule read_optional_object) (simp_all add: profile_entries_keys profile_entries_find)
  moreover have "parse_local ?j ?path = Inr (locals p)" "parse_upstream ?j ?path = Inr (upstream p)"
    by (rule parse_local_back parse_upstream_back, simp add: find profile_entries_find)+
  moreover have "parse_profile_rules ?j ?path = Inr (map persisted_rule (profile_rules p))"
    using assms parse_rules_back [of "profile_rules p" "{}" ?path 0]
    by (simp add: parse_profile_rules_def json_contains_def json_at_def find profile_entries_find
        profile_rules_ok_def comp_def)
  ultimately show ?thesis by (simp add: j parse_profile_def Let_def persisted_profile_def)
qed

lemma parse_profiles_back:
  "keys_sorted ps \<Longrightarrow> (\<And>a b. a \<in> fst ` set acc \<Longrightarrow> b \<in> fst ` set ps \<Longrightarrow> str_less a b) \<Longrightarrow>
   (\<And>pid p. (pid, p) \<in> set ps \<Longrightarrow> profile_rules_ok p) \<Longrightarrow>
   parse_profiles (map (\<lambda>(pid, p). (pid, json_reparse (profile_to_json p))) ps) acc
     = Inr (acc @ map (\<lambda>(pid, p). (pid, persisted_profile p)) ps)"
proof (induction ps arbitrary: acc)
  case (Cons x ps)
  obtain pid p where x: "x = (pid, p)" by fastforce
  have em: "map_emplace pid v acc = acc @ [(pid, v)]" for v
    by (rule map_emplace_last) (use Cons.prems(2) x in auto)
  have "parse_profiles (map (\<lambda>(pid, p). (pid, json_reparse (profile_to_json p))) ps) (acc @ [(pid, persisted_profile p)])
      = Inr ((acc @ [(pid, persisted_profile p)]) @ map (\<lambda>(pid, p). (pid, persisted_profile p)) ps)"
  proof (rule Cons.IH)
    show "keys_sorted ps" using Cons.prems(1) x by (simp add: keys_sorted_Cons)
    show "str_less a b" if "a \<in> fst ` set (acc @ [(pid, persisted_profile p)])" "b \<in> fst ` set ps" for a b
      using that Cons.prems(1,2) x by (auto simp: keys_sorted_Cons)
    show "profile_rules_ok q" if "(i, q) \<in> set ps" for i q using that Cons.prems(3) by auto
  qed
  then show ?case using Cons.prems(3) [of pid p] by (simp add: x parse_profile_back em)
qed simp

section \<open>The text of a document\<close>

lemma json_object_wf:
  "distinct (map fst es) \<Longrightarrow> (\<And>k v. (k, v) \<in> set es \<Longrightarrow> json_wf v \<and> json_finite v) \<Longrightarrow>
     json_wf (json_object es) \<and> json_finite (json_object es)"
  using keys_sorted_map_of_entries [of es] set_map_of_entries [of es]
  by (auto simp: json_object_def list_all_iff)

lemma rule_json_wf:
  assumes "keys_sorted (rule_options r)" "rule_valid r" "list_all (\<lambda>kv. json_wf (snd kv)) (rule_options r)"
  shows "json_wf (rule_to_json r) \<and> json_finite (rule_to_json r)"
  unfolding rule_to_json_def
proof (rule json_object_wf [OF rule_entries_distinct [OF assms(1,2)]])
  fix k v assume kv: "(k, v) \<in> set ([(''id'', JStr (rule_id r)), (''enabled'', JBool (rule_enabled r)),
    (''type'', JStr (rule_type r))] @ rule_options r)"
  show "json_wf v \<and> json_finite v"
  proof (cases "(k, v) \<in> set (rule_options r)")
    case True
    then have "is_ok (validate_rule_json v 0 0)" "json_wf v"
      using assms by (auto simp: rule_valid_def list_all_iff)
    then show ?thesis using validate_rule_json_iff(1) [of 0 v 0] json_text_ok_finite [of v]
      by (cases "validate_rule_json v 0 0") auto
  qed (use kv in auto)
qed

lemma profile_json_wf:
  assumes "\<And>r. r \<in> set (profile_rules p) \<Longrightarrow> json_wf (rule_to_json r) \<and> json_finite (rule_to_json r)"
  shows "json_wf (profile_to_json p) \<and> json_finite (profile_to_json p)"
proof -
  have opt: "json_wf v \<and> json_finite v" if "(k, v) \<in> set (opt_entry key x)" for k v key x
    using that by (auto simp: opt_entry_def split: option.splits)
  have "json_wf v \<and> json_finite v" if "(k, v) \<in> set (local_to_json l)" for k v l
    using that json_object_wf [OF opt_entries_distinct(1), of "local_request_path l" "local_usage_path l"] opt
    by (auto simp: local_to_json_def split: if_splits)
  moreover have "json_wf v \<and> json_finite v" if "(k, v) \<in> set (upstream_to_json u)" for k v u
    using that json_object_wf [OF opt_entries_distinct(2), of "base_url u" "upstream_request_path u" "upstream_usage_path u"] opt
    by (auto simp: upstream_to_json_def split: if_splits)
  ultimately show ?thesis
    unfolding profile_to_json_def profile_entries_def [symmetric]
    using opt assms
    by (intro json_object_wf [OF profile_entries_keys(1)]) (auto simp: profile_entries_def list_all_iff)
qed

lemma config_rules_ok:
  assumes "validate_config_document d = Inr ()" "config_wf d" "(pid, p) \<in> set (profiles d)"
  shows "profile_rules_ok p"
  using validate_profile_ok [OF validate_config_document_ok(3) [OF assms(1,3)]] assms(2,3)
  by (auto simp: profile_rules_ok_def config_wf_def profile_sound_def rule_valid_def list_all_iff)

lemma document_json_wf:
  assumes "validate_config_document d = Inr ()" "config_wf d"
  shows "json_wf (document_to_json d) \<and> json_finite (document_to_json d)"
proof -
  have prof: "json_wf (profile_to_json p) \<and> json_finite (profile_to_json p)" if "(pid, p) \<in> set (profiles d)" for pid p
  proof (rule profile_json_wf)
    fix r assume "r \<in> set (profile_rules p)"
    moreover from this have "list_all (\<lambda>kv. json_wf (snd kv)) (rule_options r)"
      using assms(2) that by (fastforce simp: config_wf_def list_all_iff)
    ultimately show "json_wf (rule_to_json r) \<and> json_finite (rule_to_json r)"
      using config_rules_ok [OF assms that] by (intro rule_json_wf) (auto simp: profile_rules_ok_def)
  qed
  have "distinct (map fst (profiles d))"
    using assms(2) by (auto simp: config_wf_def intro: keys_sorted_distinct)
  then have "json_wf (json_object (map (\<lambda>(pid, p). (pid, profile_to_json p)) (profiles d)))
      \<and> json_finite (json_object (map (\<lambda>(pid, p). (pid, profile_to_json p)) (profiles d)))"
    using prof by (intro json_object_wf) (auto simp: comp_def case_prod_beta)
  moreover have "json_wf (listener_to_json l) \<and> json_finite (listener_to_json l)" for l
    unfolding listener_to_json_def by (rule json_object_wf) auto
  moreover have "json_wf (runtime_to_json r) \<and> json_finite (runtime_to_json r)" for r
    unfolding runtime_to_json_def by (rule json_object_wf) auto
  moreover have "json_wf (timeouts_to_json t) \<and> json_finite (timeouts_to_json t)" for t
    unfolding timeouts_to_json_def by (rule json_object_wf) auto
  moreover have "json_wf (logging_to_json g) \<and> json_finite (logging_to_json g)" for g
    unfolding logging_to_json_def by (rule json_object_wf) auto
  ultimately show ?thesis unfolding document_to_json_def by (intro json_object_wf) auto
qed

section \<open>Validation of what was read back\<close>

lemma rule_options_persisted:
  "validate_rule_options label opts = Inr () \<Longrightarrow> validate_rule_options label' (persisted_options opts) = Inr ()"
  by (fastforce simp: validate_rule_options_ok persisted_options_def validate_rule_json_reparse)

lemma validate_rules_persisted:
  "validate_rules label ids rs = Inr () \<Longrightarrow> validate_rules label ids (map persisted_rule rs) = Inr ()"
  by (induction label ids rs rule: validate_rules.induct)
    (auto simp: persisted_rule_def rule_options_persisted split: if_splits)

lemma validate_profile_persisted:
  "validate_profile_definition_impl pid p c = Inr () \<Longrightarrow>
     validate_profile_definition_impl pid (persisted_profile p) c = Inr ()"
  by (auto simp: validate_profile_definition_impl_def persisted_profile_def Let_def
      validate_rules_persisted validate_completeness_ok profile_complete_def split: if_splits)

lemma validate_profiles_persisted:
  "validate_profiles ps n = Inr m \<Longrightarrow>
     validate_profiles (map (\<lambda>(pid, p). (pid, persisted_profile p)) ps) n = Inr m"
proof (induction ps n rule: validate_profiles.induct)
  case (2 pid p ps n)
  from "2.prems" have ok: "validate_profile_definition_impl pid p (profile_enabled p) = Inr ()"
    "validate_profiles ps (n + profile_route_count p) = Inr m"
    by (auto split: sum.splits prod.splits)
  have "profile_enabled (persisted_profile p) = profile_enabled p"
    "profile_route_count (persisted_profile p) = profile_route_count p"
    by (simp_all add: persisted_profile_def profile_route_count_def)
  with 2(1) [OF ok] validate_profile_persisted [OF ok(1)] show ?case by simp
qed simp

lemma validate_runtime_default:
  "validate_runtime r = Inr () \<Longrightarrow>
     validate_runtime (r\<lparr>max_inflight_bytes := max_inflight_bytes (runtime default_application_settings)\<rparr>) = Inr ()"
  by (auto simp: validate_runtime_def default_application_settings_def split: if_splits)

lemma validate_config_document_persisted:
  assumes "validate_config_document d = Inr ()"
  shows "validate_config_document (persisted d) = Inr ()"
proof -
  let ?a = "application d"
  from assms have app: "validate_application_settings_impl ?a = Inr ()"
    using validate_config_document_ok(1) by (auto simp: validate_application_settings_def)
  then have app': "validate_application_settings_impl (application (persisted d)) = Inr ()"
    using validate_runtime_default by (simp add: validate_application_settings_impl_def persisted_def)
  from assms obtain m where "validate_profiles (profiles d) 0 = Inr m" "m \<le> 256" "length (profiles d) \<le> 128"
    by (auto simp: validate_config_document_def validate_config_document_failure_def split: sum.splits prod.splits if_splits)
  with validate_profiles_persisted [OF this(1)] app' show ?thesis
    by (simp add: validate_config_document_def validate_config_document_failure_def persisted_def)
qed

lemma config_of_json_back:
  assumes valid: "validate_config_document d = Inr ()" and wf: "config_wf d"
  shows "config_of_json (json_reparse (document_to_json d)) = Inr (persisted d)"
proof -
  define es where "es = [(''schema_version'', JStr schema_version),
      (''listener'', listener_to_json (listener (application d))),
      (''runtime'', runtime_to_json (runtime (application d))),
      (''timeouts'', timeouts_to_json (timeouts (application d))),
      (''logging'', logging_to_json (logging (application d))),
      (''profiles'', json_object (map (\<lambda>(pid, p). (pid, profile_to_json p)) (profiles d)))]"
  let ?j = "json_reparse (json_object es)"
  have d: "distinct (map fst es)" by (simp add: es_def)
  have j: "json_reparse (document_to_json d) = ?j" by (simp add: document_to_json_def es_def)
  have find: "json_find k ?j = map_option json_reparse (map_of es k)" for k by (rule json_find_object [OF d])
  have mo: "map_of es ''listener'' = Some (listener_to_json (listener (application d)))"
    "map_of es ''runtime'' = Some (runtime_to_json (runtime (application d)))"
    "map_of es ''timeouts'' = Some (timeouts_to_json (timeouts (application d)))"
    "map_of es ''logging'' = Some (logging_to_json (logging (application d)))"
    "map_of es ''schema_version'' = Some (JStr schema_version)"
    by (simp_all add: es_def)
  have app: "validate_listener (listener (application d)) = Inr ()" "validate_runtime (runtime (application d)) = Inr ()"
    "validate_timeouts (timeouts (application d)) = Inr ()" "validate_log_sizes (logging (application d)) = Inr ()"
    using validate_config_document_ok(1) [OF valid]
    by (auto simp: validate_application_settings_def validate_application_settings_impl_def validate_logging_def
        split: if_splits)
  from app(1) have port: "listener_port (listener (application d)) \<noteq> 0"
    by (auto simp: validate_listener_def split: if_splits)
  have settings: "read_required_application_settings ?j = Inr (application (persisted d))"
    using read_listener_back [OF port] read_runtime_back [OF app(2)] read_timeouts_back [OF app(3)]
      read_logging_back [OF app(4)]
    by (simp add: read_required_application_settings_def Let_def json_at_def find mo persisted_def)
  have keys: "check_object_keys ?j ''$'' root_keys root_keys = Inr ()"
    by (subst check_object_keys_object [OF d]) (auto simp: es_def root_keys_def)
  let ?ps = "map (\<lambda>(pid, p). (pid, json_reparse (profile_to_json p))) (profiles d)"
  have sorted: "keys_sorted (profiles d)" using wf by (simp add: config_wf_def)
  then have "keys_sorted (map (\<lambda>(pid, p). (pid, profile_to_json p)) (profiles d))"
    by (simp add: keys_sorted_def comp_def case_prod_beta)
  then have profs: "map_option json_reparse (map_of es ''profiles'') = Some (JObj ?ps)"
    by (simp add: es_def json_object_def map_of_entries_sorted case_prod_beta)
  then have at: "json_at ?j ''profiles'' = Inr (JObj ?ps)" by (simp only: json_at_def find) simp
  have prof_back: "parse_profiles ?ps [] = Inr (profiles (persisted d))"
    using parse_profiles_back [OF sorted, of "[]"] config_rules_ok [OF valid wf] by (simp add: persisted_def)
  have doc: "\<lparr>application = application (persisted d), profiles = profiles (persisted d)\<rparr> = persisted d" by simp
  have ver: "json_find ''schema_version'' ?j = Some (JStr schema_version)" by (simp add: find mo)
  have "is_object ?j" by (simp add: json_object_def)
  then show ?thesis
    using validate_config_document_ok(2) [OF valid] validate_config_document_persisted [OF valid] settings keys prof_back ver
    by (simp add: j config_of_json_def config_of_profiles_def at Let_def doc del: json_reparse.simps)
qed



lemma config_of_profiles_valid:
  "config_of_profiles a ps = Inr d \<Longrightarrow> validate_config_document d = Inr ()"
  by (cases ps) (auto simp: config_of_profiles_def Let_def split: if_splits)

lemma config_of_json_valid:
  "config_of_json root = Inr d \<Longrightarrow> validate_config_document d = Inr ()"
  by (auto simp: config_of_json_def split: if_splits option.splits json.splits
      intro: config_of_profiles_valid)

text \<open>A document that is read is valid: no text leads to a configuration that the validation
  would refuse, whatever the parser returns.\<close>

theorem parse_config_document_valid:
  "parse_config_document json_parse content = Inr d \<Longrightarrow>
     validate_config_document d = Inr () \<and> length content \<le> 4194304"
  by (auto simp: parse_config_document_def not_less config_of_json_valid
      split: sum.splits if_splits)

theorem parse_config_document_valid_witness:
  "let parse = (\<lambda>s :: string. Inr ([] :: parse_event list, json_reparse (document_to_json sample_document)))
   in parse_config_document parse ''x'' = Inr (persisted sample_document)
      \<and> validate_config_document (persisted sample_document) = Inr ()"
proof -
  have wf: "config_wf sample_document"
    by (simp add: config_wf_def sample_document_def sample_profile_def keys_sorted_Cons)
  have p: "parse_config_document (\<lambda>s. Inr ([], json_reparse (document_to_json sample_document))) ''x''
      = Inr (persisted sample_document)"
    using config_of_json_back [OF sample_document_valid wf]
    by (simp add: parse_config_document_def duplicate_key_def)
  show ?thesis using p parse_config_document_valid [OF p] by simp
qed

section \<open>Duplicate keys\<close>

text \<open>JSON text as a tree that keeps repeated members, with the events the parser reports for it.\<close>

datatype raw_json = RScalar | RArr "raw_json list" | RObj "(string \<times> raw_json) list"

fun raw_events :: "raw_json \<Rightarrow> parse_event list"
  and raw_member_events :: "(string \<times> raw_json) list \<Rightarrow> parse_event list" where
  "raw_events RScalar = [OtherEvent]"
| "raw_events (RArr xs) = OtherEvent # concat (map raw_events xs) @ [OtherEvent]"
| "raw_events (RObj kvs) = ObjectStart # raw_member_events kvs @ [ObjectEnd]"
| "raw_member_events [] = []"
| "raw_member_events ((k, v) # kvs) = KeyEvent k # raw_events v @ raw_member_events kvs"

text \<open>No object of the tree has two members of the same name; the empty name does not count.\<close>

fun no_duplicates :: "raw_json \<Rightarrow> bool" where
  "no_duplicates RScalar \<longleftrightarrow> True"
| "no_duplicates (RArr xs) \<longleftrightarrow> list_all no_duplicates xs"
| "no_duplicates (RObj kvs) \<longleftrightarrow>
     distinct (filter (\<lambda>k. k \<noteq> []) (map fst kvs)) \<and> list_all (\<lambda>kv. no_duplicates (snd kv)) kvs"

definition tracked :: "string set list \<Rightarrow> string \<Rightarrow> bool \<Rightarrow> string set list \<times> string \<Rightarrow> bool" where
  "tracked st dup ok r \<longleftrightarrow> fst r = st \<and> (snd r = [] \<longleftrightarrow> dup = [] \<and> ok)"

lemma track_members:
  assumes "\<And>k v st dup. (k, v) \<in> set kvs \<Longrightarrow>
      tracked st dup (no_duplicates v) (foldl track_event (st, dup) (raw_events v))"
  shows "tracked ((keys \<union> fst ` set kvs) # st) dup
    (distinct (filter (\<lambda>k. k \<noteq> []) (map fst kvs)) \<and> keys \<inter> {k \<in> fst ` set kvs. k \<noteq> []} = {}
       \<and> list_all (\<lambda>kv. no_duplicates (snd kv)) kvs)
    (foldl track_event (keys # st, dup) (raw_member_events kvs))"
  using assms
proof (induction kvs arbitrary: keys dup)
  case Nil
  then show ?case by (simp add: tracked_def)
next
  case (Cons kv kvs)
  obtain k v where kv: "kv = (k, v)" by fastforce
  let ?dup = "if k \<in> keys \<and> dup = [] then k else dup"
  obtain st' d' where r: "foldl track_event (insert k keys # st, ?dup) (raw_events v) = (st', d')" by fastforce
  from Cons.prems [of k v "insert k keys # st" ?dup] r kv
  have v: "st' = insert k keys # st" "d' = [] \<longleftrightarrow> ?dup = [] \<and> no_duplicates v" by (simp_all add: tracked_def)
  have "tracked ((insert k keys \<union> fst ` set kvs) # st) d'
    (distinct (filter (\<lambda>k. k \<noteq> []) (map fst kvs)) \<and> insert k keys \<inter> {k \<in> fst ` set kvs. k \<noteq> []} = {}
       \<and> list_all (\<lambda>kv. no_duplicates (snd kv)) kvs)
    (foldl track_event (insert k keys # st, d') (raw_member_events kvs))"
    by (rule Cons.IH) (use Cons.prems in auto)
  with v r kv show ?case by (auto simp: tracked_def split: if_splits)
qed

lemma track_value:
  "tracked st dup (no_duplicates r) (foldl track_event (st, dup) (raw_events r))"
proof (induction r arbitrary: st dup)
  case RScalar
  then show ?case by (cases st) (simp_all add: tracked_def)
next
  case (RArr xs)
  have other: "track_event (st, dup) OtherEvent = (st, dup)" for st dup by (cases st) simp_all
  have "tracked st dup (list_all no_duplicates xs) (foldl track_event (st, dup) (concat (map raw_events xs)))"
    using RArr
  proof (induction xs arbitrary: dup)
    case (Cons x xs)
    obtain st' d' where r: "foldl track_event (st, dup) (raw_events x) = (st', d')" by fastforce
    with Cons.prems [of x st dup] Cons.IH [of d'] Cons.prems show ?case by (auto simp: tracked_def)
  qed (simp add: tracked_def)
  then show ?case using other by (cases "foldl track_event (st, dup) (concat (map raw_events xs))") (simp add: tracked_def)
next
  case (RObj kvs)
  have "tracked (({} \<union> fst ` set kvs) # st) dup
    (distinct (filter (\<lambda>k. k \<noteq> []) (map fst kvs)) \<and> {} \<inter> {k \<in> fst ` set kvs. k \<noteq> []} = {}
       \<and> list_all (\<lambda>kv. no_duplicates (snd kv)) kvs)
    (foldl track_event ({} # st, dup) (raw_member_events kvs))"
    by (rule track_members) (use RObj in \<open>force\<close>)
  then show ?case
    by (cases "foldl track_event ({} # st, dup) (raw_member_events kvs)") (auto simp: tracked_def)
qed

text \<open>C28: The parser callback refuses a text exactly when some object of it, at any depth, has two
  members of the same non-empty name. Two members with the empty name are not noticed, since the
  empty string also stands for "no duplicate".\<close>

theorem duplicate_key_exact: "duplicate_key (raw_events r) = [] \<longleftrightarrow> no_duplicates r"
  using track_value [of "[]" "[]" r] by (simp add: duplicate_key_def tracked_def)

end
