(* ===== verification/Stores.thy ===== *)
theory Stores
  imports Prelude
begin

text \<open>
  The contract of a store of keyed entries that refuses a second entry for the same key: the protocol
  registry, the rule registry and the route table are all of this kind. An entry may be
  stored in a changed form (the route table stores the canonical path), and adding may fail for
  other reasons; a failed addition leaves the store to the caller unchanged. The
  components that provide such a store interpret the contract, and the runtime compiler, which
  fills stores from lists, rests on the lemmas proved here.
\<close>

locale keyed_store =
  fixes lookup :: "'r \<Rightarrow> 'k \<Rightarrow> 'v option"
    and add :: "'e \<Rightarrow> 'r \<Rightarrow> string + 'r"
    and key_of :: "'e \<Rightarrow> 'k"
    and stored :: "'e \<Rightarrow> 'v"
    and empty :: 'r
    and invar :: "'r \<Rightarrow> bool"
  assumes empty_invar: "invar empty"
    and empty_lookup: "lookup empty k = None"
    and add_fresh: "invar r \<Longrightarrow> add e r = Inr r' \<Longrightarrow> lookup r (key_of e) = None"
    and add_lookup: "invar r \<Longrightarrow> add e r = Inr r' \<Longrightarrow>
          lookup r' k = (if k = key_of e then Some (stored e) else lookup r k)"
    and add_invar: "invar r \<Longrightarrow> add e r = Inr r' \<Longrightarrow> invar r'"
begin

fun add_all :: "'e list \<Rightarrow> 'r \<Rightarrow> string + 'r" where
  "add_all [] r = Inr r"
| "add_all (e # es) r = res_bind (add e r) (add_all es)"

lemma add_all_append: "add_all (es @ fs) r = res_bind (add_all es r) (add_all fs)"
proof (induction es arbitrary: r)
  case (Cons e es)
  then show ?case by (cases "add e r") auto
qed simp

text \<open>A store filled from a list holds what it held and the entries of the list, under new and
  distinct keys.\<close>

lemma add_all_lookup:
  "invar r \<Longrightarrow> add_all es r = Inr r' \<Longrightarrow>
     invar r' \<and> distinct (map key_of es) \<and> (\<forall>e \<in> set es. lookup r (key_of e) = None)
     \<and> (\<forall>k. lookup r' k = (case map_of (map (\<lambda>e. (key_of e, stored e)) es) k of Some v \<Rightarrow> Some v | None \<Rightarrow> lookup r k))"
proof (induction es arbitrary: r)
  case Nil
  then show ?case by simp
next
  case (Cons e es)
  from Cons.prems(2) obtain r1 where r1: "add e r = Inr r1" "add_all es r1 = Inr r'" by auto
  note laws = add_invar [OF Cons.prems(1) r1(1)] add_lookup [OF Cons.prems(1) r1(1)]
    add_fresh [OF Cons.prems(1) r1(1)]
  from Cons.IH [OF laws(1) r1(2)] have ih: "invar r'" "distinct (map key_of es)"
    "\<And>w. w \<in> set es \<Longrightarrow> lookup r1 (key_of w) = None"
    "\<And>k. lookup r' k = (case map_of (map (\<lambda>e. (key_of e, stored e)) es) k of Some v \<Rightarrow> Some v | None \<Rightarrow> lookup r1 k)"
    by auto
  have fresh: "key_of w \<noteq> key_of e \<and> lookup r (key_of w) = None" if "w \<in> set es" for w
    using ih(3) [OF that] laws(2) [of "key_of w"] by (auto split: if_splits)
  then have "map_of (map (\<lambda>e. (key_of e, stored e)) es) (key_of e) = None"
    by (force simp: map_of_eq_None_iff)
  moreover have "key_of e \<notin> key_of ` set es" using fresh by fastforce
  ultimately show ?case using ih fresh laws by (auto split: option.splits)
qed

lemma built_lookup:
  "add_all es empty = Inr r \<Longrightarrow> lookup r k = Some v \<longleftrightarrow> (\<exists>e \<in> set es. key_of e = k \<and> stored e = v)"
proof -
  assume "add_all es empty = Inr r"
  from add_all_lookup [OF empty_invar this]
  have d: "distinct (map key_of es)" and l: "lookup r k = map_of (map (\<lambda>e. (key_of e, stored e)) es) k"
    by (auto simp: empty_lookup split: option.splits)
  have "map_of (map (\<lambda>e. (key_of e, stored e)) es) k = Some v \<longleftrightarrow> (k, v) \<in> set (map (\<lambda>e. (key_of e, stored e)) es)"
    using d by (intro map_of_eq_Some_iff) (simp add: comp_def)
  with l show ?thesis by auto
qed

lemma built_distinct: "add_all es empty = Inr r \<Longrightarrow> invar r \<and> distinct (map key_of es)"
  using add_all_lookup [OF empty_invar] by blast

end

text \<open>Registries: the entries are stored as they are, and the names can be listed.\<close>

locale named_registry = keyed_store lookup register name_of "\<lambda>v. v" empty invar
  for lookup :: "'r \<Rightarrow> string \<Rightarrow> 'v option"
    and register :: "'v \<Rightarrow> 'r \<Rightarrow> string + 'r"
    and name_of :: "'v \<Rightarrow> string"
    and empty :: 'r
    and invar :: "'r \<Rightarrow> bool" +
  fixes names :: "'r \<Rightarrow> string list"
  assumes names_lookup: "invar r \<Longrightarrow> n \<in> set (names r) \<longleftrightarrow> lookup r n \<noteq> None"
begin

text \<open>The names of a registry built from a list are those of the list.\<close>

lemma built_names: "add_all vs empty = Inr r \<Longrightarrow> set (names r) = name_of ` set vs"
  using built_lookup [of vs r] built_distinct [of vs r] names_lookup [of r] by auto

end

end
