(* ===== verification/Protocols.thy ===== *)
theory Protocols
  imports ConfigModel Stores
begin

text \<open>
  Protocol handlers and their registry: \<^verbatim>\<open>src/protocols/\<close>. A handler is its descriptor together with
  the address of the object, since the registry compares shared pointers. The registry is an
  unordered map in the code; its order is never observed, so it is an ordered one here. The
  printer of JSON is an argument of \<open>local_error\<close>. Shown here: the laws of the
  registry (registration extends it by exactly one handler and keeps its invariant), as a
  contract that the runtime compiler relies on.
\<close>

section \<open>Handlers\<close>

datatype protocol_error_envelope = OpenAI | Anthropic

record protocol_descriptor =
  desc_id :: string
  request_method :: string
  usage_method :: string
  supports_usage :: bool
  supports_sse :: bool
  request_body_is_json :: bool
  error_envelope :: protocol_error_envelope
  specialized_rule_types :: "string list"

record protocol_handler =
  handler_address :: nat
  descriptor :: protocol_descriptor

record http_response =
  status_code :: int
  reason :: string
  headers :: "(string \<times> string) list"
  response_body :: string

definition handler_id :: "protocol_handler \<Rightarrow> string" where
  "handler_id h = desc_id (descriptor h)"

definition reason_phrase :: "int \<Rightarrow> string" where
  "reason_phrase c =
     (if c = 400 then ''Bad Request''
      else if c = 404 then ''Not Found''
      else if c = 405 then ''Method Not Allowed''
      else if c = 413 then ''Payload Too Large''
      else if c = 429 then ''Too Many Requests''
      else if c = 500 then ''Internal Server Error''
      else if c = 502 then ''Bad Gateway''
      else if c = 503 then ''Service Unavailable''
      else if c = 504 then ''Gateway Timeout''
      else ''Error'')"

definition handler_validate_profile :: "protocol_handler \<Rightarrow> string \<Rightarrow> profile_definition \<Rightarrow> unit res" where
  "handler_validate_profile h profile_id p =
     res_bind (validate_profile_definition profile_id p True) (\<lambda>_.
       if protocol p \<noteq> Some (handler_id h)
       then Inl (''profile '' @ profile_id @ '' protocol does not match handler '' @ handler_id h)
       else if local_usage_path (locals p) \<noteq> None \<and> \<not> supports_usage (descriptor h)
       then Inl (''protocol '' @ handler_id h @ '' does not support a Usage route'')
       else Inr ())"

definition supports_specialized_rule :: "protocol_handler \<Rightarrow> string \<Rightarrow> bool" where
  "supports_specialized_rule h t \<longleftrightarrow> t \<in> set (specialized_rule_types (descriptor h))"

definition error_body :: "protocol_error_envelope \<Rightarrow> string \<Rightarrow> string \<Rightarrow> json" where
  "error_body envelope type message =
     (let error = JObj (map_of_entries [(''type'', JStr type), (''message'', JStr message)]) in
      case envelope of
        Anthropic \<Rightarrow> JObj (map_of_entries [(''type'', JStr ''error''), (''error'', error)])
      | OpenAI \<Rightarrow> JObj [(''error'', error)])"

definition local_error ::
    "(json \<Rightarrow> string) \<Rightarrow> protocol_handler \<Rightarrow> int \<Rightarrow> string \<Rightarrow> string \<Rightarrow> http_response" where
  "local_error json_dump h status type message =
     \<lparr>status_code = status, reason = reason_phrase status,
      headers = [(''Content-Type'', ''application/json'')],
      response_body = json_dump (error_body (error_envelope (descriptor h)) type message)\<rparr>"

definition responses_descriptor :: protocol_descriptor where
  "responses_descriptor =
     \<lparr>desc_id = ''responses'', request_method = ''POST'', usage_method = ''GET'', supports_usage = True,
      supports_sse = True, request_body_is_json = True, error_envelope = OpenAI,
      specialized_rule_types = [''remove_tool'']\<rparr>"

definition chat_descriptor :: protocol_descriptor where
  "chat_descriptor =
     \<lparr>desc_id = ''chat'', request_method = ''POST'', usage_method = ''GET'', supports_usage = True,
      supports_sse = True, request_body_is_json = True, error_envelope = OpenAI,
      specialized_rule_types = [''remove_tool'']\<rparr>"

definition messages_descriptor :: protocol_descriptor where
  "messages_descriptor =
     \<lparr>desc_id = ''messages'', request_method = ''POST'', usage_method = ''GET'', supports_usage = True,
      supports_sse = True, request_body_is_json = True, error_envelope = Anthropic,
      specialized_rule_types = [''remove_tool'']\<rparr>"

section \<open>The registry\<close>

record protocol_registry =
  handlers :: "(string \<times> protocol_handler) list"
  known_specialized :: "string set"

definition empty_protocol_registry :: protocol_registry where
  "empty_protocol_registry = \<lparr>handlers = [], known_specialized = {}\<rparr>"

definition valid_method :: "string \<Rightarrow> bool" where
  "valid_method m \<longleftrightarrow> m \<noteq> [] \<and> length m \<le> 32
     \<and> list_all (\<lambda>ch. is_upper ch \<or> is_digit ch \<or> ch = CHR ''-'') m"

fun check_specialized :: "string \<Rightarrow> string set \<Rightarrow> string list \<Rightarrow> unit res" where
  "check_specialized i seen [] = Inr ()"
| "check_specialized i seen (t # ts) =
     (if \<not> is_valid_rule_type t
      then Inl (''protocol '' @ i @ '' declares an invalid specialized rule type: '' @ t)
      else if t \<in> seen
      then Inl (''protocol '' @ i @ '' declares duplicate specialized rule type: '' @ t)
      else check_specialized i (insert t seen) ts)"

definition protocol_find :: "protocol_registry \<Rightarrow> string \<Rightarrow> protocol_handler option" where
  "protocol_find reg i = map_of (handlers reg) i"

definition register_handler :: "protocol_handler option \<Rightarrow> protocol_registry \<Rightarrow> protocol_registry res" where
  "register_handler handler reg =
     (case handler of
        None \<Rightarrow> Inl ''cannot register a null protocol handler''
      | Some h \<Rightarrow>
          let d = descriptor h; i = desc_id d in
          if \<not> is_valid_protocol_id i then Inl (''invalid protocol id: '' @ i)
          else if \<not> valid_method (request_method d)
          then Inl (''protocol '' @ i @ '' has an invalid request method'')
          else if supports_usage d \<and> \<not> valid_method (usage_method d)
          then Inl (''protocol '' @ i @ '' has an invalid Usage method'')
          else res_bind (check_specialized i {} (specialized_rule_types d)) (\<lambda>_.
            if protocol_find reg i \<noteq> None then Inl (''protocol handler already registered: '' @ i)
            else Inr \<lparr>handlers = map_insert i h (handlers reg),
                      known_specialized = known_specialized reg \<union> set (specialized_rule_types d)\<rparr>))"

definition is_known_specialized_rule :: "protocol_registry \<Rightarrow> string \<Rightarrow> bool" where
  "is_known_specialized_rule reg t \<longleftrightarrow> t \<in> known_specialized reg"

fun check_profile_rules :: "protocol_registry \<Rightarrow> protocol_handler \<Rightarrow> rule_definition list \<Rightarrow> unit res" where
  "check_profile_rules reg h [] = Inr ()"
| "check_profile_rules reg h (r # rs) =
     (if \<not> rule_enabled r \<or> \<not> is_known_specialized_rule reg (rule_type r) then check_profile_rules reg h rs
      else if \<not> supports_specialized_rule h (rule_type r)
      then Inl (''rule '' @ rule_id r @ '' type '' @ rule_type r @ '' is not supported by protocol '' @ handler_id h)
      else check_profile_rules reg h rs)"

definition registry_validate_profile ::
    "protocol_registry \<Rightarrow> protocol_handler option \<Rightarrow> string \<Rightarrow> profile_definition \<Rightarrow> unit res" where
  "registry_validate_profile reg handler profile_id p =
     (case handler of
        None \<Rightarrow> Inl (''profile '' @ profile_id @ '' has no protocol handler'')
      | Some h \<Rightarrow>
          (case protocol_find reg (handler_id h) of
             None \<Rightarrow> Inl (''protocol handler is not registered in this registry: '' @ handler_id h)
           | Some registered \<Rightarrow>
               if handler_address registered \<noteq> handler_address h
               then Inl (''protocol handler is not registered in this registry: '' @ handler_id h)
               else res_bind (handler_validate_profile h profile_id p) (\<lambda>_.
                      check_profile_rules reg h (profile_rules p))))"

definition protocol_ids :: "protocol_registry \<Rightarrow> string list" where
  "protocol_ids reg = map fst (handlers reg)"

definition builtin_handlers :: "protocol_handler list" where
  "builtin_handlers =
     [\<lparr>handler_address = 1, descriptor = responses_descriptor\<rparr>,
      \<lparr>handler_address = 2, descriptor = chat_descriptor\<rparr>,
      \<lparr>handler_address = 3, descriptor = messages_descriptor\<rparr>]"

text \<open>Registration of a list of handlers, up to the first failure.\<close>

fun register_handlers :: "protocol_handler list \<Rightarrow> protocol_registry \<Rightarrow> protocol_registry res" where
  "register_handlers [] reg = Inr reg"
| "register_handlers (h # hs) reg = res_bind (register_handler (Some h) reg) (register_handlers hs)"

definition builtin_protocol_registry :: "protocol_registry res" where
  "builtin_protocol_registry = register_handlers builtin_handlers empty_protocol_registry"

section \<open>Lookup laws\<close>

definition registry_ok :: "protocol_registry \<Rightarrow> bool" where
  "registry_ok reg \<longleftrightarrow> keys_sorted (handlers reg)
     \<and> list_all (\<lambda>(i, h). handler_id h = i \<and> valid_method (request_method (descriptor h))
          \<and> (supports_usage (descriptor h) \<longrightarrow> valid_method (usage_method (descriptor h)))
          \<and> set (specialized_rule_types (descriptor h)) \<subseteq> known_specialized reg) (handlers reg)"

lemma set_map_insert_subset: "set (map_insert k v kvs) \<subseteq> insert (k, v) (set kvs)"
  by (induction k v kvs rule: map_insert.induct) auto

lemma register_handler_Some:
  assumes "register_handler (Some h) reg = Inr reg'"
  shows "protocol_find reg (handler_id h) = None" "handlers reg' = map_insert (handler_id h) h (handlers reg)"
    "known_specialized reg' = known_specialized reg \<union> set (specialized_rule_types (descriptor h))"
    "valid_method (request_method (descriptor h))"
    "supports_usage (descriptor h) \<longrightarrow> valid_method (usage_method (descriptor h))"
  using assms by (auto simp: register_handler_def Let_def handler_id_def split: if_splits)

lemma register_handler_ok:
  assumes "registry_ok reg" "register_handler (Some h) reg = Inr reg'"
  shows "registry_ok reg'"
  using assms(1) register_handler_Some [OF assms(2)] set_map_insert_subset [of "handler_id h" h "handlers reg"]
  by (auto simp: registry_ok_def list_all_iff keys_sorted_insert) blast+

interpretation protocols: named_registry protocol_find "\<lambda>h. register_handler (Some h)" handler_id
  empty_protocol_registry registry_ok protocol_ids
proof (unfold_locales, goal_cases)
  case 1
  then show ?case by (simp add: registry_ok_def empty_protocol_registry_def)
next
  case (2 n)
  then show ?case by (simp add: protocol_find_def empty_protocol_registry_def)
next
  case (3 r v r')
  then show ?case using register_handler_Some(1) by blast
next
  case (4 r v r' n)
  then show ?case using register_handler_Some(2) [OF 4(2)] by (simp add: protocol_find_def)
next
  case (5 r v r')
  then show ?case using register_handler_ok by blast
next
  case (6 r n)
  then show ?case by (simp add: protocol_ids_def protocol_find_def map_of_eq_None_iff)
qed

lemma register_handlers_all: "register_handlers hs reg = protocols.add_all hs reg"
  by (induction hs arbitrary: reg) (auto intro!: arg_cong2 [where f=res_bind])

lemma find_handler_ok:
  assumes "registry_ok reg" "protocol_find reg i = Some h"
  shows "handler_id h = i" "valid_method (request_method (descriptor h))"
    "supports_usage (descriptor h) \<longrightarrow> valid_method (usage_method (descriptor h))"
  using assms map_of_SomeD [of "handlers reg" i h] by (auto simp: registry_ok_def list_all_iff protocol_find_def)

end
