(* ===== verification/Rules.thy ===== *)
theory Rules
  imports Protocols
begin

text \<open>
  The rewriting rules: \<^verbatim>\<open>src/rules/generic_json_rules.cpp\<close> (\<open>set_field\<close>, \<open>remove_field\<close>) and
  \<^verbatim>\<open>remove_tool_rule.cpp\<close>. A rule throws a runtime error or returns the changed body with a report.
  The code walks the body by references; here \<open>resolve_all\<close> is the value the reference points to
  and \<open>assign_at\<close> the body after an assignment through it. Shown here: a JSON pointer is read back
  from its text, an array index is exactly a canonical decimal in range, and each rule
  changes what it names and nothing else.
\<close>

section \<open>JSON pointers\<close>

record parsed_pointer =
  trace_target :: string
  tokens :: "string list"

definition bounded_trace_target :: "string \<Rightarrow> string" where
  "bounded_trace_target pointer =
     (if length pointer \<le> 256 then pointer
      else ''<json-pointer:'' @ string_of_nat (length pointer) @ ''-bytes>'')"

fun decode_pointer_token :: "string \<Rightarrow> string res" where
  "decode_pointer_token [] = Inr []"
| "decode_pointer_token (c # cs) =
     (if c \<noteq> CHR ''~'' then res_map ((#) c) (decode_pointer_token cs)
      else (case cs of
              [] \<Rightarrow> Inl ''path contains an invalid RFC 6901 escape''
            | d # ds \<Rightarrow>
                if d = CHR ''0'' then res_map ((#) CHR ''~'') (decode_pointer_token ds)
                else if d = CHR ''1'' then res_map ((#) CHR ''/'') (decode_pointer_token ds)
                else Inl ''path contains an invalid RFC 6901 escape''))"

definition parse_json_pointer :: "string \<Rightarrow> parsed_pointer res" where
  "parse_json_pointer source =
     (if length source > 4096 then Inl ''path exceeds the 4096-byte JSON Pointer limit''
      else if source \<noteq> [] \<and> hd source \<noteq> CHR ''/'' then Inl ''path must be an RFC 6901 JSON Pointer''
      else res_map (\<lambda>ts. \<lparr>trace_target = bounded_trace_target source, tokens = ts\<rparr>)
             (if source = [] then Inr []
              else res_traverse decode_pointer_token (split_on CHR ''/'' (drop 1 source))))"

section \<open>Rule definitions and options\<close>

text \<open>The required names are an unordered set in the code; only the choice of the missing name that
  is reported depends on its order.\<close>

definition validate_options :: "rule_definition \<Rightarrow> string list \<Rightarrow> unit res" where
  "validate_options r required =
     (case find (\<lambda>(k, _). k \<notin> set required) (rule_options r) of
        Some (k, _) \<Rightarrow> Inl (''unsupported option: '' @ k)
      | None \<Rightarrow>
          (case find (\<lambda>k. map_of (rule_options r) k = None) required of
             Some k \<Rightarrow> Inl (''missing required option: '' @ k)
           | None \<Rightarrow> Inr ()))"

definition require_json_protocol :: "protocol_handler \<Rightarrow> unit res" where
  "require_json_protocol h =
     (if \<not> request_body_is_json (descriptor h)
      then Inl (''protocol '' @ handler_id h @ '' does not declare a JSON request body'')
      else Inr ())"

section \<open>Targets in a body\<close>

datatype rule_exn = RuleRuntimeError string string

fun array_index_loop :: "nat \<Rightarrow> string \<Rightarrow> rule_exn + nat" where
  "array_index_loop v [] = Inr v"
| "array_index_loop v (c # cs) =
     (if \<not> is_digit c
      then Inl (RuleRuntimeError ''invalid_array_index'' ''JSON Pointer contains an invalid array index'')
      else if v > (18446744073709551615 - digit_value c) div 10
      then Inl (RuleRuntimeError ''invalid_array_index'' ''JSON Pointer array index is too large'')
      else array_index_loop (v * 10 + digit_value c) cs)"

definition parse_array_index :: "string \<Rightarrow> nat \<Rightarrow> rule_exn + nat" where
  "parse_array_index token n =
     (if token = [] \<or> token = ''-'' \<or> (length token > 1 \<and> hd token = CHR ''0'')
      then Inl (RuleRuntimeError ''invalid_array_index'' ''JSON Pointer contains an invalid array index'')
      else res_bind (array_index_loop 0 token) (\<lambda>v.
        if v \<ge> n
        then Inl (RuleRuntimeError ''array_index_out_of_bounds'' ''JSON Pointer array index is out of bounds'')
        else Inr v))"

definition target_missing :: "rule_exn" where
  "target_missing = RuleRuntimeError ''target_missing'' ''JSON Pointer target does not exist''"

definition resolve_child :: "json \<Rightarrow> string \<Rightarrow> rule_exn + json" where
  "resolve_child parent token =
     (case parent of
        JObj kvs \<Rightarrow> (case map_of kvs token of None \<Rightarrow> Inl target_missing | Some c \<Rightarrow> Inr c)
      | JArr xs \<Rightarrow> res_map (\<lambda>i. xs ! i) (parse_array_index token (length xs))
      | _ \<Rightarrow> Inl (RuleRuntimeError ''type_conflict'' ''JSON Pointer cannot traverse a scalar value''))"

text \<open>The parent after its child at \<open>token\<close> was assigned \<open>c\<close>.\<close>

definition store_child :: "json \<Rightarrow> string \<Rightarrow> json \<Rightarrow> json" where
  "store_child parent token c =
     (case parent of
        JObj kvs \<Rightarrow> JObj (map_insert token c kvs)
      | JArr xs \<Rightarrow> (case parse_array_index token (length xs) of Inl _ \<Rightarrow> parent | Inr i \<Rightarrow> JArr (xs[i := c]))
      | _ \<Rightarrow> parent)"

fun resolve_all :: "json \<Rightarrow> string list \<Rightarrow> rule_exn + json" where
  "resolve_all body [] = Inr body"
| "resolve_all body (t # ts) = res_bind (resolve_child body t) (\<lambda>c. resolve_all c ts)"

fun assign_at :: "json \<Rightarrow> string list \<Rightarrow> json \<Rightarrow> json" where
  "assign_at body [] v = v"
| "assign_at body (t # ts) v =
     (case resolve_child body t of Inl _ \<Rightarrow> body | Inr c \<Rightarrow> store_child body t (assign_at c ts v))"

section \<open>The rules\<close>

record change_summary =
  summary_target :: string
  affected_count :: nat

record apply_result =
  matched :: bool
  modified :: bool
  result_reason :: string
  summary :: change_summary

definition apply_result :: "bool \<Rightarrow> bool \<Rightarrow> string \<Rightarrow> string \<Rightarrow> nat \<Rightarrow> apply_result" where
  "apply_result m md r target n =
     \<lparr>matched = m, modified = md, result_reason = r,
      summary = \<lparr>summary_target = target, affected_count = n\<rparr>\<rparr>"

record compiled_rule =
  compiled_id :: string
  compiled_type :: string
  compiled_apply :: "json \<Rightarrow> rule_exn + (json \<times> apply_result)"

definition set_field_apply :: "parsed_pointer \<Rightarrow> json \<Rightarrow> json \<Rightarrow> rule_exn + (json \<times> apply_result)" where
  "set_field_apply pointer v body =
     res_map (\<lambda>target.
         if json_eq target v
         then (body, apply_result True False ''value_unchanged'' (trace_target pointer) 0)
         else (assign_at body (tokens pointer) v,
               apply_result True True ''field_set'' (trace_target pointer) 1))
       (resolve_all body (tokens pointer))"

definition erase_child :: "json \<Rightarrow> string \<Rightarrow> rule_exn + json" where
  "erase_child parent token =
     (case parent of
        JObj kvs \<Rightarrow>
          (case map_of kvs token of None \<Rightarrow> Inl target_missing | Some _ \<Rightarrow> Inr (JObj (map_erase token kvs)))
      | JArr xs \<Rightarrow>
          res_map (\<lambda>i. JArr (take i xs @ drop (Suc i) xs)) (parse_array_index token (length xs))
      | _ \<Rightarrow> Inl (RuleRuntimeError ''type_conflict'' ''JSON Pointer target parent is a scalar value''))"

text \<open>The rule exists only for a pointer with at least one token.\<close>

definition remove_field_apply :: "parsed_pointer \<Rightarrow> json \<Rightarrow> rule_exn + (json \<times> apply_result)" where
  "remove_field_apply pointer body =
     res_bind (resolve_all body (butlast (tokens pointer))) (\<lambda>parent.
     res_map (\<lambda>parent'. (assign_at body (butlast (tokens pointer)) parent',
         apply_result True True ''field_removed'' (trace_target pointer) 1))
       (erase_child parent (last (tokens pointer))))"

datatype tool_layout = Responses | Chat | Messages

definition string_field_equals :: "json \<Rightarrow> string \<Rightarrow> string \<Rightarrow> bool" where
  "string_field_equals v name expected \<longleftrightarrow>
     (case json_find name v of Some (JStr s) \<Rightarrow> s = expected | _ \<Rightarrow> False)"

definition matches_tool :: "json \<Rightarrow> tool_layout \<Rightarrow> string \<Rightarrow> bool" where
  "matches_tool candidate layout tool_name \<longleftrightarrow>
     is_object candidate
     \<and> (case layout of
          Responses \<Rightarrow> string_field_equals candidate ''name'' tool_name
            \<or> string_field_equals candidate ''namespace'' tool_name
        | Chat \<Rightarrow> (case json_find ''function'' candidate of
            Some f \<Rightarrow> is_object f \<and> string_field_equals f ''name'' tool_name
          | None \<Rightarrow> False)
        | Messages \<Rightarrow> string_field_equals candidate ''name'' tool_name)"

definition remove_tool_apply :: "tool_layout \<Rightarrow> string \<Rightarrow> json \<Rightarrow> rule_exn + (json \<times> apply_result)" where
  "remove_tool_apply layout tool_name body =
     (case body of
        JObj kvs \<Rightarrow>
          (case map_of kvs ''tools'' of
             None \<Rightarrow> Inr (body, apply_result False False ''tools_absent'' ''/tools'' 0)
           | Some (JArr tools) \<Rightarrow>
               let retained = filter (\<lambda>t. \<not> matches_tool t layout tool_name) tools;
                   removed = length tools - length retained
               in if removed = 0 then Inr (body, apply_result False False ''tool_not_found'' ''/tools'' 0)
                  else Inr (JObj (map_insert ''tools'' (JArr retained) kvs),
                            apply_result True True ''tool_removed'' ''/tools'' removed)
           | Some _ \<Rightarrow> Inr (body, apply_result False False ''tools_not_array'' ''/tools'' 0))
      | _ \<Rightarrow> Inl (RuleRuntimeError ''invalid_root_type''
               ''request body must be a JSON object for remove_tool''))"

section \<open>Factories\<close>

definition set_field_compile :: "rule_definition \<Rightarrow> protocol_handler \<Rightarrow> compiled_rule option res" where
  "set_field_compile r h =
     res_bind (require_json_protocol h) (\<lambda>_.
     res_bind (validate_options r [''path'', ''value'']) (\<lambda>_.
       case map_of (rule_options r) ''path'' of
         Some (JStr path) \<Rightarrow>
           res_map (\<lambda>pointer. Some \<lparr>compiled_id = rule_id r, compiled_type = ''set_field'',
               compiled_apply = set_field_apply pointer (the (map_of (rule_options r) ''value''))\<rparr>)
             (parse_json_pointer path)
       | _ \<Rightarrow> Inl ''option path must be a string''))"

definition remove_field_compile :: "rule_definition \<Rightarrow> protocol_handler \<Rightarrow> compiled_rule option res" where
  "remove_field_compile r h =
     res_bind (require_json_protocol h) (\<lambda>_.
     res_bind (validate_options r [''path'']) (\<lambda>_.
       case map_of (rule_options r) ''path'' of
         Some (JStr path) \<Rightarrow>
           res_bind (parse_json_pointer path) (\<lambda>pointer.
             if tokens pointer = [] then Inl ''remove_field cannot remove the JSON document root''
             else Inr (Some \<lparr>compiled_id = rule_id r, compiled_type = ''remove_field'',
                 compiled_apply = remove_field_apply pointer\<rparr>))
       | _ \<Rightarrow> Inl ''option path must be a string''))"

definition layout_of_protocol :: "string \<Rightarrow> tool_layout option" where
  "layout_of_protocol i =
     (if i = ''responses'' then Some Responses
      else if i = ''chat'' then Some Chat
      else if i = ''messages'' then Some Messages
      else None)"

definition remove_tool_compile :: "rule_definition \<Rightarrow> protocol_handler \<Rightarrow> compiled_rule option res" where
  "remove_tool_compile r h =
     (if \<not> request_body_is_json (descriptor h)
      then Inl (''protocol '' @ handler_id h @ '' does not declare a JSON request body'')
      else if \<not> supports_specialized_rule h ''remove_tool''
      then Inl (''remove_tool is not supported by protocol '' @ handler_id h)
      else if length (rule_options r) \<noteq> 1 \<or> map_of (rule_options r) ''tool'' = None
      then (case find (\<lambda>(k, _). k \<noteq> ''tool'') (rule_options r) of
              Some (k, _) \<Rightarrow> Inl (''unsupported option: '' @ k)
            | None \<Rightarrow> Inl ''missing required option: tool'')
      else (case map_of (rule_options r) ''tool'' of
              Some (JStr tool_name) \<Rightarrow>
                if tool_name = [] \<or> length tool_name > 256 \<or> contains_control tool_name
                then Inl ''option tool must be 1 to 256 bytes without control characters''
                else (case layout_of_protocol (handler_id h) of
                        None \<Rightarrow> Inl (''remove_tool has no implementation for protocol '' @ handler_id h)
                      | Some layout \<Rightarrow>
                          Inr (Some \<lparr>compiled_id = rule_id r, compiled_type = ''remove_tool'',
                            compiled_apply = remove_tool_apply layout tool_name\<rparr>))
            | _ \<Rightarrow> Inl ''option tool must be a string''))"

section \<open>Pointers and their text\<close>

fun escape_token :: "string \<Rightarrow> string" where
  "escape_token [] = []"
| "escape_token (c # cs) =
     (if c = CHR ''~'' then ''~0'' else if c = CHR ''/'' then ''~1'' else [c]) @ escape_token cs"

definition pointer_text :: "string list \<Rightarrow> string" where
  "pointer_text ts = concat (map (\<lambda>t. CHR ''/'' # escape_token t) ts)"

lemma decode_escape [simp]: "decode_pointer_token (escape_token t) = Inr t"
  by (induction t) auto

lemma escape_no_slash: "CHR ''/'' \<notin> set (escape_token t)"
  by (induction t) auto

lemma escape_decode:
  "decode_pointer_token t = Inr u \<Longrightarrow> CHR ''/'' \<notin> set t \<Longrightarrow> escape_token u = t"
proof (induction t arbitrary: u rule: decode_pointer_token.induct)
  case (2 c cs)
  show ?case
  proof (cases "c = CHR ''~''")
    case False
    with "2.prems" obtain w where "decode_pointer_token cs = Inr w" "u = c # w" by auto
    with 2(1) [OF False] "2.prems"(2) False show ?thesis by auto
  next
    case True
    with "2.prems"(1) obtain d ds where cs: "cs = d # ds" by (cases cs) auto
    with True "2.prems"(1) obtain w where "decode_pointer_token ds = Inr w" "d = CHR ''0'' \<or> d = CHR ''1''"
      "u = (if d = CHR ''0'' then CHR ''~'' else CHR ''/'') # w" by (auto split: if_splits)
    with 2(2) [of d ds w] 2(3) [of d ds w] "2.prems"(2) True cs show ?thesis by auto
  qed
qed simp

lemma pointer_text_join: "pointer_text (t # ts) = CHR ''/'' # join_on CHR ''/'' (map escape_token (t # ts))"
  by (induction ts arbitrary: t) (auto simp: pointer_text_def)

lemma split_pointer_text:
  "split_on CHR ''/'' (drop 1 (pointer_text (t # ts))) = map escape_token (t # ts)"
proof -
  have "split_on CHR ''/'' (join_on CHR ''/'' (map escape_token (t # ts))) = map escape_token (t # ts)"
    by (rule split_join) (use escape_no_slash in auto)
  then show ?thesis by (simp only: pointer_text_join drop_Suc_Cons drop_0 One_nat_def)
qed

lemma traverse_decode:
  assumes "\<And>p. p \<in> set ps \<Longrightarrow> CHR ''/'' \<notin> set p" "res_traverse decode_pointer_token ps = Inr ts"
  shows "map escape_token ts = ps"
  using assms by (induction ps arbitrary: ts) (auto simp: escape_decode)

text \<open>A text of at most 4096 bytes is accepted as a JSON pointer exactly when it is the
  RFC 6901 text of a list of tokens, and then exactly these tokens are read: parsing and printing
  of pointers are inverse to each other.\<close>

theorem json_pointer_roundtrip:
  "parse_json_pointer s = Inr p \<longleftrightarrow>
     length s \<le> 4096 \<and> s = pointer_text (tokens p) \<and> trace_target p = bounded_trace_target s"
proof (cases "s = []")
  case True
  have "[] = pointer_text (tokens p) \<longleftrightarrow> tokens p = []" by (cases "tokens p") (auto simp: pointer_text_def)
  moreover have "p = \<lparr>trace_target = a, tokens = b\<rparr> \<longleftrightarrow> trace_target p = a \<and> tokens p = b" for a b
    by (cases p) simp
  ultimately show ?thesis using True by (auto simp: parse_json_pointer_def)
next
  case False
  show ?thesis
  proof
    assume "parse_json_pointer s = Inr p"
    with False obtain ts where ts: "length s \<le> 4096" "hd s = CHR ''/''"
      "res_traverse decode_pointer_token (split_on CHR ''/'' (drop 1 s)) = Inr ts"
      "p = \<lparr>trace_target = bounded_trace_target s, tokens = ts\<rparr>"
      by (auto simp: parse_json_pointer_def split: if_splits)
    have es: "map escape_token ts = split_on CHR ''/'' (drop 1 s)"
      by (rule traverse_decode [OF split_on_sep_free ts(3)])
    then have "ts \<noteq> []" using split_on_ne by (metis list.map_disc_iff)
    then obtain u us where u: "ts = u # us" by (cases ts) auto
    have "pointer_text ts = CHR ''/'' # join_on CHR ''/'' (split_on CHR ''/'' (drop 1 s))"
      unfolding es [symmetric] u by (rule pointer_text_join)
    also have "\<dots> = s" using ts(2) False by (cases s) auto
    finally show "length s \<le> 4096 \<and> s = pointer_text (tokens p) \<and> trace_target p = bounded_trace_target s"
      using ts by simp
  next
    assume a: "length s \<le> 4096 \<and> s = pointer_text (tokens p) \<and> trace_target p = bounded_trace_target s"
    with False obtain u us where u: "tokens p = u # us" by (cases "tokens p") (auto simp: pointer_text_def)
    have "res_traverse decode_pointer_token (split_on CHR ''/'' (drop 1 s)) = Inr (tokens p)"
    proof -
      have "split_on CHR ''/'' (drop 1 s) = map escape_token (tokens p)"
        using a u by (simp only: split_pointer_text)
      then show ?thesis
        using res_traverse_map_Inr [of "tokens p" decode_pointer_token escape_token "\<lambda>t. t"] by simp
    qed
    moreover have "hd s = CHR ''/''" using a u by (simp add: pointer_text_def)
    ultimately show "parse_json_pointer s = Inr p"
      using a False by (cases p) (auto simp: parse_json_pointer_def)
  qed
qed

section \<open>Array indices\<close>

lemma digit_char_value: "is_digit c \<Longrightarrow> digit_char (digit_value c) = c"
  unfolding char_eq_code [of _ c] by (auto simp: digit_char_def digit_value_def byte_simps)

lemma array_index_loop_iff:
  "v \<le> 18446744073709551615 \<Longrightarrow> array_index_loop v s = Inr r \<longleftrightarrow>
     list_all is_digit s \<and> r = digits_value v s \<and> r \<le> 18446744073709551615"
proof (induction v s rule: array_index_loop.induct)
  case (1 v)
  then show ?case by (auto simp: digits_value_def)
next
  case (2 v c s)
  show ?case
  proof (cases "is_digit c")
    case True
    then have d: "digit_value c \<le> 9" by (rule digit_value_le)
    have over: "v > (18446744073709551615 - digit_value c) div 10 \<longleftrightarrow> v * 10 + digit_value c > 18446744073709551615"
      using d by (auto simp: div_less_iff_less_mult less_eq_div_iff_mult_less_eq not_less)
    show ?thesis
    proof (cases "v * 10 + digit_value c > 18446744073709551615")
      case big: True
      with digits_value_ge [of "v * 10 + digit_value c" s] over True show ?thesis
        by (auto simp: digits_value_def)
    next
      case False
      with 2 over True show ?thesis by (simp add: digits_value_def)
    qed
  qed simp
qed

lemma canonical_decimal:
  "s \<noteq> [] \<Longrightarrow> list_all is_digit s \<Longrightarrow> length s = 1 \<or> hd s \<noteq> CHR ''0'' \<Longrightarrow>
     s = string_of_nat (digits_value 0 s) \<and> (hd s \<noteq> CHR ''0'' \<longrightarrow> 0 < digits_value 0 s)"
proof (induction s rule: rev_induct)
  case (snoc c s)
  then have c: "is_digit c" "digit_value c \<le> 9" "digit_char (digit_value c) = c"
    by (auto simp: digit_value_le digit_char_value)
  show ?case
  proof (cases "s = []")
    case True
    have "digit_char 0 = CHR ''0''" by code_simp
    with c(3) have "c \<noteq> CHR ''0'' \<Longrightarrow> 0 < digit_value c" by (cases "digit_value c") auto
    with True c show ?thesis
      by (subst string_of_nat.simps) (auto simp: digits_value_def)
  next
    case False
    with snoc.prems have hd: "hd s \<noteq> CHR ''0''" by auto
    with snoc False have ih: "s = string_of_nat (digits_value 0 s)" "0 < digits_value 0 s" by auto
    have "(digits_value 0 s * 10 + digit_value c) div 10 = digits_value 0 s"
      "(digits_value 0 s * 10 + digit_value c) mod 10 = digit_value c" using c(2) by auto
    with ih c show ?thesis
      unfolding digits_value_append by (subst string_of_nat.simps) auto
  qed
qed simp

lemma hd_string_of_nat: "0 < n \<Longrightarrow> hd (string_of_nat n) \<noteq> CHR ''0''"
proof (induction n rule: string_of_nat.induct)
  case (1 n)
  show ?case
  proof (cases "n < 10")
    case True
    then have "is_digit (digit_char n)" "digit_value (digit_char n) = n" by simp_all
    then have "digit_char n \<noteq> CHR ''0''" using 1(2) by (auto simp: digit_value_def)
    with True show ?thesis by (subst string_of_nat.simps) simp
  next
    case False
    with 1(1) show ?thesis by (subst string_of_nat.simps) simp
  qed
qed

lemma parse_array_index_token:
  "parse_array_index t n = Inr i \<Longrightarrow> t = string_of_nat i \<and> i < n"
proof -
  assume p: "parse_array_index t n = Inr i"
  then have t: "t \<noteq> []" "length t = 1 \<or> hd t \<noteq> CHR ''0''" "array_index_loop 0 t = Inr i" "i < n"
    by (cases "length t = 1"; auto simp: parse_array_index_def neq_Nil_conv split: if_splits)+
  from t(3) have "list_all is_digit t" "i = digits_value 0 t" by (simp_all add: array_index_loop_iff)
  with canonical_decimal [OF t(1) _ t(2)] t(4) show ?thesis by simp
qed

text \<open>An index token selects element \<open>i\<close> of an array exactly when it is the canonical decimal
  of \<open>i\<close> and \<open>i\<close> is in range; a sign, a leading zero or a number beyond 64 bits is never
  read as some other index.\<close>

theorem parse_array_index_exact:
  assumes "n \<le> 18446744073709551616"
  shows "parse_array_index t n = Inr i \<longleftrightarrow> t = string_of_nat i \<and> i < n"
proof
  assume r: "t = string_of_nat i \<and> i < n"
  then have "t \<noteq> ''-''"
    using string_of_nat_digits [of i] by (auto simp: list_all_iff byte_simps dest: arg_cong [where f=set])
  moreover have "\<not> (length t > 1 \<and> hd t = CHR ''0'')"
  proof (cases "i = 0")
    case True
    with r show ?thesis by (simp add: string_of_nat.simps)
  next
    case False
    with r hd_string_of_nat show ?thesis by auto
  qed
  moreover have "array_index_loop 0 t = Inr i"
    using r assms string_of_nat_digits [of i] by (simp add: array_index_loop_iff)
  ultimately show "parse_array_index t n = Inr i"
    using r by (simp add: parse_array_index_def)
qed (rule parse_array_index_token)

theorem parse_array_index_exact_witness:
  "(12 :: nat) \<le> 18446744073709551616 \<and> parse_array_index ''10'' 12 = Inr 10"
proof -
  have "string_of_nat 10 = ''10''" by code_simp
  then show ?thesis using parse_array_index_exact [of 12 "''10''" 10] by simp
qed

section \<open>Reading and writing along a pointer\<close>

lemma resolve_store_same:
  "resolve_child p t = Inr c \<Longrightarrow> resolve_child (store_child p t c') t = Inr c'"
  using parse_array_index_token
  by (cases p) (auto simp: resolve_child_def store_child_def split: option.splits)

lemma resolve_store_other:
  assumes "resolve_child p t = Inr c" "t \<noteq> u"
  shows "resolve_child (store_child p t c') u = resolve_child p u"
proof (cases p)
  case (JArr xs)
  with assms(1) obtain i where i: "parse_array_index t (length xs) = Inr i" by (auto simp: resolve_child_def)
  have "i \<noteq> j" if "parse_array_index u (length xs) = Inr j" for j
    using parse_array_index_token [OF i] parse_array_index_token [OF that] assms(2) by auto
  with JArr i show ?thesis
    by (cases "parse_array_index u (length xs)") (auto simp: resolve_child_def store_child_def)
qed (use assms in \<open>auto simp: resolve_child_def store_child_def\<close>)

lemma resolve_assign_same: "resolve_all b ts = Inr c \<Longrightarrow> resolve_all (assign_at b ts v) ts = Inr v"
proof (induction b ts v rule: assign_at.induct)
  case (2 b t ts v)
  then obtain d where "resolve_child b t = Inr d" "resolve_all d ts = Inr c" by auto
  with 2 show ?case by (auto simp: resolve_store_same)
qed simp

text \<open>Two pointers that part at some token do not see each other's assignments.\<close>

lemma resolve_assign_other:
  "t \<noteq> u \<Longrightarrow> resolve_all (assign_at b (pre @ t # ts) v) (pre @ u # us) = resolve_all b (pre @ u # us)"
proof (induction pre arbitrary: b)
  case Nil
  then show ?case by (cases "resolve_child b t") (simp_all add: resolve_store_other)
next
  case (Cons p pre)
  then show ?case by (cases "resolve_child b p") (simp_all add: resolve_store_same)
qed


definition sample_body :: json where
  "sample_body = JObj [(''model'', JStr ''a''), (''stream'', JBool True),
     (''tools'', JArr [JObj [(''name'', JStr ''x'')], JObj [(''name'', JStr ''y'')]])]"


text \<open>After \<open>remove_field\<close> succeeds the parent that the pointer names has lost exactly that
  member, or that element with the later ones moved up by one, and what any pointer that parts
  from the path to the parent leads to is the same as before.\<close>

theorem remove_field_effect:
  assumes "remove_field_apply p body = Inr (body', r)"
  shows "(\<exists>parent parent'. resolve_all body (butlast (tokens p)) = Inr parent
      \<and> resolve_all body' (butlast (tokens p)) = Inr parent'
      \<and> ((\<exists>kvs. parent = JObj kvs \<and> map_of kvs (last (tokens p)) \<noteq> None
            \<and> parent' = JObj (map_erase (last (tokens p)) kvs))
         \<or> (\<exists>xs i. parent = JArr xs \<and> i < length xs \<and> last (tokens p) = string_of_nat i
            \<and> parent' = JArr (take i xs @ drop (Suc i) xs))))
    \<and> (\<forall>pre t ts u us. butlast (tokens p) = pre @ t # ts \<longrightarrow> t \<noteq> u \<longrightarrow>
         resolve_all body' (pre @ u # us) = resolve_all body (pre @ u # us))"
proof -
  from assms obtain parent parent' where pp: "resolve_all body (butlast (tokens p)) = Inr parent"
    "erase_child parent (last (tokens p)) = Inr parent'" "body' = assign_at body (butlast (tokens p)) parent'"
    by (auto simp: remove_field_apply_def)
  from pp(2) have "(\<exists>kvs. parent = JObj kvs \<and> map_of kvs (last (tokens p)) \<noteq> None
            \<and> parent' = JObj (map_erase (last (tokens p)) kvs))
         \<or> (\<exists>xs i. parent = JArr xs \<and> i < length xs \<and> last (tokens p) = string_of_nat i
            \<and> parent' = JArr (take i xs @ drop (Suc i) xs))"
    using parse_array_index_token by (cases parent) (fastforce simp: erase_child_def split: option.splits)+
  with pp resolve_assign_same [OF pp(1)] show ?thesis by (simp add: resolve_assign_other)
qed

lemma parse_array_index_first: "parse_array_index ''0'' (Suc n) = Inr 0"
  by (simp add: parse_array_index_def is_digit_def in_range_def digit_value_def)

theorem remove_field_effect_witness:
  "remove_field_apply \<lparr>trace_target = ''/tools/0'', tokens = [''tools'', ''0'']\<rparr> sample_body
     = Inr (assign_at sample_body [''tools''] (JArr [JObj [(''name'', JStr ''y'')]]),
         apply_result True True ''field_removed'' ''/tools/0'' 1)
   \<and> resolve_all (assign_at sample_body [''tools''] (JArr [JObj [(''name'', JStr ''y'')]])) [''model'']
     = resolve_all sample_body [''model'']"
proof -
  have h: "remove_field_apply \<lparr>trace_target = ''/tools/0'', tokens = [''tools'', ''0'']\<rparr> sample_body
     = Inr (assign_at sample_body [''tools''] (JArr [JObj [(''name'', JStr ''y'')]]),
         apply_result True True ''field_removed'' ''/tools/0'' 1)"
    by (simp add: remove_field_apply_def sample_body_def resolve_child_def erase_child_def parse_array_index_first)
  have "resolve_all (assign_at sample_body [''tools''] (JArr [JObj [(''name'', JStr ''y'')]])) [''model'']
     = resolve_all sample_body [''model'']"
    using conjunct2 [OF remove_field_effect [OF h], rule_format, of "[]" "''tools''" "[]" "''model''" "[]"]
    by (simp del: assign_at.simps resolve_all.simps)
  with h show ?thesis by simp
qed

lemma length_filter_diff:
  "length xs - length (filter (\<lambda>x. \<not> P x) xs) = length (filter P xs)"
  using sum_length_filter_compl [of P xs] by simp

lemma remove_tool_array:
  assumes "map_of kvs ''tools'' = Some (JArr tools)"
  shows "remove_tool_apply l n (JObj kvs) =
    (if filter (\<lambda>t. matches_tool t l n) tools = []
     then Inr (JObj kvs, apply_result False False ''tool_not_found'' ''/tools'' 0)
     else Inr (JObj (map_insert ''tools'' (JArr (filter (\<lambda>t. \<not> matches_tool t l n) tools)) kvs),
       apply_result True True ''tool_removed'' ''/tools'' (length (filter (\<lambda>t. matches_tool t l n) tools))))"
  using assms unfolding remove_tool_apply_def json.case Let_def length_filter_diff by simp

text \<open>C25: \<open>remove_tool\<close> on an object keeps every member but \<^verbatim>\<open>tools\<close>, removes from the tool array
  exactly the tools the layout matches and keeps the others in order, reports how many it removed
  and whether it removed any, and has nothing to do when it is applied again.\<close>

theorem remove_tool_effect:
  assumes "remove_tool_apply layout tool_name (JObj kvs) = Inr (body', r)"
  shows "(\<forall>k. k \<noteq> ''tools'' \<longrightarrow> json_find k body' = map_of kvs k)
    \<and> (\<forall>tools. map_of kvs ''tools'' = Some (JArr tools) \<longrightarrow>
         json_find ''tools'' body' = Some (JArr (filter (\<lambda>t. \<not> matches_tool t layout tool_name) tools))
         \<and> affected_count (summary r) = length (filter (\<lambda>t. matches_tool t layout tool_name) tools)
         \<and> modified r = list_ex (\<lambda>t. matches_tool t layout tool_name) tools)
    \<and> (\<exists>r'. remove_tool_apply layout tool_name body' = Inr (body', r') \<and> \<not> modified r')"
proof (cases "\<exists>tools. map_of kvs ''tools'' = Some (JArr tools)")
  case False
  with assms have "body' = JObj kvs" "\<not> modified r"
    by (auto simp: remove_tool_apply_def apply_result_def split: option.splits json.splits)
  with assms False show ?thesis by auto
next
  case True
  then obtain tools where t: "map_of kvs ''tools'' = Some (JArr tools)" by blast
  let ?m = "\<lambda>t. matches_tool t layout tool_name"
  show ?thesis
  proof (cases "filter ?m tools = []")
    case none: True
    then have "filter (\<lambda>t. \<not> ?m t) tools = tools" by (simp add: filter_empty_conv filter_id_conv)
    moreover from assms have "body' = JObj kvs" "r = apply_result False False ''tool_not_found'' ''/tools'' 0"
      unfolding remove_tool_array [OF t] using none by simp_all
    ultimately show ?thesis using assms t none
      by (auto simp: apply_result_def list_ex_iff filter_empty_conv)
  next
    case some: False
    with assms have b: "body' = JObj (map_insert ''tools'' (JArr (filter (\<lambda>t. \<not> ?m t) tools)) kvs)"
      "r = apply_result True True ''tool_removed'' ''/tools'' (length (filter ?m tools))"
      unfolding remove_tool_array [OF t] by simp_all
    have "list_ex ?m tools" using some by (auto simp: list_ex_iff filter_empty_conv)
    moreover have "map_of (map_insert ''tools'' (JArr (filter (\<lambda>t. \<not> ?m t) tools)) kvs) ''tools''
        = Some (JArr (filter (\<lambda>t. \<not> ?m t) tools))" by simp
    from remove_tool_array [OF this, of layout tool_name]
    have "remove_tool_apply layout tool_name body' =
        Inr (body', apply_result False False ''tool_not_found'' ''/tools'' 0)" by (simp add: b)
    ultimately show ?thesis using b t by (simp add: apply_result_def)
  qed
qed

theorem remove_tool_effect_witness:
  "\<exists>body' r. remove_tool_apply Messages ''x'' sample_body = Inr (body', r)
     \<and> json_find ''tools'' body' = Some (JArr [JObj [(''name'', JStr ''y'')]])
     \<and> (\<exists>r'. remove_tool_apply Messages ''x'' body' = Inr (body', r') \<and> \<not> modified r')"
proof -
  let ?kvs = "[(''model'', JStr ''a''), (''stream'', JBool True),
     (''tools'', JArr [JObj [(''name'', JStr ''x'')], JObj [(''name'', JStr ''y'')]])]"
  have h: "remove_tool_apply Messages ''x'' (JObj ?kvs)
      = Inr (JObj [(''model'', JStr ''a''), (''stream'', JBool True), (''tools'', JArr [JObj [(''name'', JStr ''y'')]])],
          apply_result True True ''tool_removed'' ''/tools'' 1)" by code_simp
  from remove_tool_effect [OF h] obtain r' where "remove_tool_apply Messages ''x''
      (JObj [(''model'', JStr ''a''), (''stream'', JBool True), (''tools'', JArr [JObj [(''name'', JStr ''y'')]])])
      = Inr (JObj [(''model'', JStr ''a''), (''stream'', JBool True), (''tools'', JArr [JObj [(''name'', JStr ''y'')]])], r')"
    "\<not> modified r'" by blast
  with h show ?thesis unfolding sample_body_def by fastforce
qed

section \<open>Well-formed bodies\<close>

lemma resolve_child_wf: "json_wf p \<Longrightarrow> resolve_child p t = Inr c \<Longrightarrow> json_wf c"
  using parse_array_index_token
  by (cases p) (fastforce simp: resolve_child_def list_all_iff dest: map_of_SomeD split: option.splits)+

lemma resolve_all_wf: "json_wf b \<Longrightarrow> resolve_all b ts = Inr c \<Longrightarrow> json_wf c"
  by (induction b ts rule: resolve_all.induct) (auto dest: resolve_child_wf)

lemma store_child_wf: "json_wf p \<Longrightarrow> json_wf c \<Longrightarrow> json_wf (store_child p t c)"
proof (cases p)
  case (JObj kvs)
  assume "json_wf p" "json_wf c"
  with JObj set_map_insert_subset [of t c kvs] show ?thesis
    by (auto simp: store_child_def keys_sorted_insert list_all_iff)
next
  case (JArr xs)
  assume "json_wf p" "json_wf c"
  with JArr show ?thesis
    by (auto simp: store_child_def list_all_iff split: sum.splits dest!: set_update_subset_insert [THEN subsetD])
qed (auto simp: store_child_def)

lemma assign_at_wf: "json_wf b \<Longrightarrow> json_wf v \<Longrightarrow> json_wf (assign_at b ts v)"
  by (induction b ts v rule: assign_at.induct) (auto split: sum.splits intro: store_child_wf dest: resolve_child_wf)

lemma erase_child_wf: "json_wf p \<Longrightarrow> erase_child p t = Inr p' \<Longrightarrow> json_wf p'"
  by (cases p) (auto simp: erase_child_def list_all_iff map_erase_def keys_sorted_filter
      split: option.splits dest!: in_set_takeD in_set_dropD)

lemma set_field_wf: "json_wf b \<Longrightarrow> json_wf v \<Longrightarrow> set_field_apply p v b = Inr (b', r) \<Longrightarrow> json_wf b'"
  by (auto simp: set_field_apply_def assign_at_wf split: if_splits)

lemma remove_field_wf: "json_wf b \<Longrightarrow> remove_field_apply p b = Inr (b', r) \<Longrightarrow> json_wf b'"
proof -
  assume wf: "json_wf b" and "remove_field_apply p b = Inr (b', r)"
  then obtain q q' where q: "resolve_all b (butlast (tokens p)) = Inr q" "erase_child q (last (tokens p)) = Inr q'"
    "b' = assign_at b (butlast (tokens p)) q'" by (auto simp: remove_field_apply_def)
  show ?thesis
    unfolding q(3) by (rule assign_at_wf [OF wf erase_child_wf [OF resolve_all_wf [OF wf q(1)] q(2)]])
qed

lemma remove_tool_wf:
  assumes "json_wf b" "remove_tool_apply l n b = Inr (b', r)"
  shows "json_wf b'"
proof (cases b)
  case (JObj kvs)
  have ins: "json_wf (JObj (map_insert ''tools'' (JArr (filter P tools)) kvs))"
    if "map_of kvs ''tools'' = Some (JArr tools)" for tools P
  proof -
    have "json_wf (JArr tools)" using assms(1) JObj map_of_SomeD [OF that] by (force simp: list_all_iff)
    then have "json_wf (JArr (filter P tools))" by (simp add: list_all_iff)
    from store_child_wf [OF assms(1) this, of "''tools''"] show ?thesis by (simp add: JObj store_child_def)
  qed
  show ?thesis
  proof (cases "\<exists>tools. map_of kvs ''tools'' = Some (JArr tools)")
    case True
    then obtain tools where "map_of kvs ''tools'' = Some (JArr tools)" by blast
    with assms JObj ins remove_tool_array [OF this] show ?thesis by (auto split: if_splits)
  next
    case False
    with assms JObj show ?thesis by (auto simp: remove_tool_apply_def split: option.splits json.splits)
  qed
qed (use assms in \<open>auto simp: remove_tool_apply_def\<close>)

text \<open>A rule compiled from well-formed options keeps bodies well formed.\<close>

definition rule_keeps_wf :: "compiled_rule \<Rightarrow> bool" where
  "rule_keeps_wf c \<longleftrightarrow> (\<forall>b b' r. json_wf b \<longrightarrow> compiled_apply c b = Inr (b', r) \<longrightarrow> json_wf b')"

lemma validate_options_has:
  "validate_options r req = Inr () \<Longrightarrow> k \<in> set req \<Longrightarrow> map_of (rule_options r) k \<noteq> None"
  by (auto simp: validate_options_def find_None_iff split: option.splits)

lemma set_field_compile_wf:
  assumes "list_all (\<lambda>kv. json_wf (snd kv)) (rule_options r)" "set_field_compile r h = Inr (Some c)"
  shows "rule_keeps_wf c \<and> compiled_id c = rule_id r \<and> compiled_type c = ''set_field''"
proof -
  from assms(2) have valid: "validate_options r [''path'', ''value''] = Inr ()" by (auto simp: set_field_compile_def)
  from validate_options_has [OF valid, of "''value''"] obtain v where v: "map_of (rule_options r) ''value'' = Some v" by auto
  with assms(1) have "json_wf v" by (auto simp: list_all_iff dest!: map_of_SomeD)
  moreover have "\<exists>p. c = \<lparr>compiled_id = rule_id r, compiled_type = ''set_field'', compiled_apply = set_field_apply p v\<rparr>"
  proof -
    from validate_options_has [OF valid, of "''path''"] obtain j where j: "map_of (rule_options r) ''path'' = Some j" by auto
    show ?thesis
    proof (cases j)
      case (JStr path)
      with assms(2) j v valid show ?thesis
        by (cases "require_json_protocol h"; cases "parse_json_pointer path") (simp_all add: set_field_compile_def, blast)
    qed (use assms(2) j valid in \<open>auto simp: set_field_compile_def\<close>)
  qed
  ultimately show ?thesis unfolding rule_keeps_wf_def by (auto intro: set_field_wf)
qed

lemma remove_field_compile_wf:
  "remove_field_compile r h = Inr (Some c) \<Longrightarrow>
     rule_keeps_wf c \<and> compiled_id c = rule_id r \<and> compiled_type c = ''remove_field''"
  by (auto simp: remove_field_compile_def rule_keeps_wf_def split: option.splits json.splits if_splits
      intro: remove_field_wf)

lemma remove_tool_compile_wf:
  "remove_tool_compile r h = Inr (Some c) \<Longrightarrow>
     rule_keeps_wf c \<and> compiled_id c = rule_id r \<and> compiled_type c = ''remove_tool''"
  by (auto simp: remove_tool_compile_def rule_keeps_wf_def split: option.splits json.splits if_splits
      intro: remove_tool_wf)

end
