(* ===== verification/Pipeline.thy ===== *)
theory Pipeline
  imports Rules Budget
begin

text \<open>
  The rule registry (\<^verbatim>\<open>src/rules/rule_registry.cpp\<close>), the allocator that charges JSON values to the
  memory budget (\<^verbatim>\<open>rule_json.cpp\<close>, \<^verbatim>\<open>rule_json.hpp\<close>) and the pipeline that applies compiled rules to a request
  body (\<^verbatim>\<open>rule.cpp\<close>). The JSON library is an argument: its parser and printer, and the allocations
  each call makes. Shown here: a pipeline never throws, on failure returns no body, runs the
  rules in order up to the first failure, and gives back every byte of the budget but those of the
  rewritten body. The clock readings of the traces are left out.
\<close>

section \<open>Allocation\<close>

datatype json_fault = BudgetExceeded | ParseError | JsonException | OtherException

text \<open>The allocation context: the lease of the budget, if there is one.\<close>

type_synonym alloc_state = "lease option \<times> metrics"

definition context_new :: "bool \<Rightarrow> metrics \<Rightarrow> json_fault + alloc_state" where
  "context_new has_budget st =
     (if \<not> has_budget then Inr (None, st)
      else (case budget_try_acquire 0 st of
              (None, st') \<Rightarrow> Inl BudgetExceeded
            | (Some l, st') \<Rightarrow> Inr (Some l, st')))"

definition context_try_acquire :: "u64 \<Rightarrow> alloc_state \<Rightarrow> bool \<times> alloc_state" where
  "context_try_acquire bytes s =
     (case s of
        (None, st) \<Rightarrow> (True, s)
      | (Some l, st) \<Rightarrow> (case lease_try_grow bytes l st of (b, l', st') \<Rightarrow> (b, (Some l', st'))))"

definition context_release :: "u64 \<Rightarrow> alloc_state \<Rightarrow> alloc_state" where
  "context_release bytes s =
     (case s of
        (None, st) \<Rightarrow> s
      | (Some l, st) \<Rightarrow> (case lease_shrink bytes l st of (l', st') \<Rightarrow> (Some l', st')))"

text \<open>A call of the allocator for \<open>count\<close> objects of \<open>width\<close> bytes; \<open>granted\<close> says whether the
  standard allocator below it succeeds.\<close>

datatype alloc_op =
    Allocate nat nat bool
  | Deallocate nat nat

fun run_alloc_op :: "alloc_op \<Rightarrow> alloc_state \<Rightarrow> json_fault option \<times> alloc_state" where
  "run_alloc_op (Allocate n width granted) s =
     (if n > 18446744073709551615 div width then (Some OtherException, s)
      else let bytes = of_nat (n * width) in
        (case context_try_acquire bytes s of
           (False, s') \<Rightarrow> (Some BudgetExceeded, s')
         | (True, s') \<Rightarrow> if granted then (None, s') else (Some OtherException, context_release bytes s')))"
| "run_alloc_op (Deallocate n width) s = (None, context_release (of_nat (n * width)) s)"

text \<open>The allocations of one call, up to the first that throws.\<close>

fun run_allocs :: "alloc_op list \<Rightarrow> alloc_state \<Rightarrow> json_fault option \<times> alloc_state" where
  "run_allocs [] s = (None, s)"
| "run_allocs (a # as) s =
     (case run_alloc_op a s of (Some f, s') \<Rightarrow> (Some f, s') | (None, s') \<Rightarrow> run_allocs as s')"

text \<open>Destroying the values of the call and then the context returns what the lease still owns.\<close>

definition context_end :: "alloc_state \<Rightarrow> metrics" where
  "context_end s = (case s of (None, st) \<Rightarrow> st | (Some l, st) \<Rightarrow> snd (lease_reset l st))"

section \<open>The pipeline\<close>

text \<open>The JSON library, and the copy of the printed text into a string.\<close>

record json_library =
  lib_parse :: "string \<Rightarrow> json_fault + json"
  lib_parse_allocs :: "string \<Rightarrow> alloc_op list"
  lib_rule_allocs :: "nat \<Rightarrow> json \<Rightarrow> alloc_op list"
  lib_dump :: "json \<Rightarrow> json_fault + string"
  lib_dump_allocs :: "json \<Rightarrow> alloc_op list"
  lib_copy_ok :: "string \<Rightarrow> bool"

record pipeline_error =
  error_status :: int
  error_type :: string
  error_message :: string
  error_rule_id :: string
  error_rule_type :: string
  error_reason :: string

record rule_trace =
  trace_rule_id :: string
  trace_rule_type :: string
  trace_matched :: bool
  trace_modified :: bool
  trace_reason :: string
  trace_summary :: change_summary

record pipeline_result =
  result_ok :: bool
  result_modified :: bool
  parse_count :: nat
  serialize_count :: nat
  original_body_size :: nat
  output_body_size :: nat
  rewritten_body_memory :: "lease option"
  rewritten_body :: "string option"
  traces :: "rule_trace list"
  result_error :: "pipeline_error option"

definition initial_result :: "string \<Rightarrow> pipeline_result" where
  "initial_result body =
     \<lparr>result_ok = True, result_modified = False, parse_count = 0, serialize_count = 0,
      original_body_size = length body, output_body_size = length body,
      rewritten_body_memory = None, rewritten_body = None, traces = [], result_error = None\<rparr>"

definition make_trace :: "compiled_rule \<Rightarrow> apply_result \<Rightarrow> rule_trace" where
  "make_trace rule r =
     \<lparr>trace_rule_id = compiled_id rule, trace_rule_type = compiled_type rule, trace_matched = matched r,
      trace_modified = modified r, trace_reason = result_reason r, trace_summary = summary r\<rparr>"

definition failed_trace :: "compiled_rule \<Rightarrow> string \<Rightarrow> rule_trace" where
  "failed_trace rule why =
     \<lparr>trace_rule_id = compiled_id rule, trace_rule_type = compiled_type rule, trace_matched = False,
      trace_modified = False, trace_reason = why,
      trace_summary = \<lparr>summary_target = [], affected_count = 0\<rparr>\<rparr>"

definition pipeline_error :: "int \<Rightarrow> string \<Rightarrow> string \<Rightarrow> string \<Rightarrow> string \<Rightarrow> string \<Rightarrow> pipeline_error" where
  "pipeline_error status type message i t why =
     \<lparr>error_status = status, error_type = type, error_message = message, error_rule_id = i,
      error_rule_type = t, error_reason = why\<rparr>"

definition budget_error :: "string \<Rightarrow> string \<Rightarrow> pipeline_error" where
  "budget_error i t = pipeline_error 503 ''server_error'' ''inflight memory budget exhausted'' i t
     ''inflight_budget_exhausted''"

fun parse_failure :: "json_fault \<Rightarrow> pipeline_error" where
  "parse_failure BudgetExceeded = budget_error [] []"
| "parse_failure ParseError = pipeline_error 400 ''invalid_request_error''
     ''request body is not valid JSON'' [] [] ''invalid_json''"
| "parse_failure JsonException = pipeline_error 400 ''invalid_request_error''
     ''request body could not be parsed as JSON'' [] [] ''json_parse_failed''"
| "parse_failure OtherException = pipeline_error 500 ''server_error''
     ''failed to parse request JSON'' [] [] ''json_parse_internal_error''"

fun rule_fault_failure :: "compiled_rule \<Rightarrow> json_fault \<Rightarrow> pipeline_error" where
  "rule_fault_failure rule BudgetExceeded = budget_error (compiled_id rule) (compiled_type rule)"
| "rule_fault_failure rule _ = pipeline_error 500 ''server_error'' ''rule execution failed''
     (compiled_id rule) (compiled_type rule) ''unexpected_rule_error''"

fun rule_exn_failure :: "compiled_rule \<Rightarrow> rule_exn \<Rightarrow> pipeline_error" where
  "rule_exn_failure rule (RuleRuntimeError why message) =
     pipeline_error 400 ''invalid_request_error'' message (compiled_id rule) (compiled_type rule) why"

definition null_rule_failure :: pipeline_error where
  "null_rule_failure = pipeline_error 500 ''server_error'' ''compiled rule pipeline contains a null rule''
     [] [] ''null_compiled_rule''"

fun serialize_failure :: "json_fault \<Rightarrow> pipeline_error" where
  "serialize_failure BudgetExceeded = budget_error [] []"
| "serialize_failure _ = pipeline_error 500 ''server_error''
     ''failed to serialize rewritten request body'' [] [] ''json_serialize_failed''"

text \<open>One rule: what it throws or returns, after its allocations.\<close>

definition run_rule ::
    "json_library \<Rightarrow> nat \<Rightarrow> compiled_rule \<Rightarrow> json \<Rightarrow> alloc_state
     \<Rightarrow> (pipeline_error + (json \<times> apply_result)) \<times> alloc_state" where
  "run_rule lib i rule candidate s =
     (case run_allocs (lib_rule_allocs lib i candidate) s of
        (Some f, s') \<Rightarrow> (Inl (rule_fault_failure rule f), s')
      | (None, s') \<Rightarrow>
          ((case compiled_apply rule candidate of
              Inl e \<Rightarrow> Inl (rule_exn_failure rule e)
            | Inr r \<Rightarrow> Inr r), s'))"

text \<open>The loop over the rules: the failure if there is one, the candidate, whether it was modified,
  and the traces.\<close>

fun run_rules ::
    "json_library \<Rightarrow> nat \<Rightarrow> compiled_rule option list \<Rightarrow> json \<Rightarrow> bool \<Rightarrow> rule_trace list \<Rightarrow> alloc_state
     \<Rightarrow> pipeline_error option \<times> json \<times> bool \<times> rule_trace list \<times> alloc_state" where
  "run_rules lib i [] candidate md tr s = (None, candidate, md, tr, s)"
| "run_rules lib i (None # rules) candidate md tr s = (Some null_rule_failure, candidate, md, tr, s)"
| "run_rules lib i (Some rule # rules) candidate md tr s =
     (case run_rule lib i rule candidate s of
        (Inl e, s') \<Rightarrow> (Some e, candidate, md, tr @ [failed_trace rule (error_reason e)], s')
      | (Inr (candidate', r), s') \<Rightarrow>
          run_rules lib (Suc i) rules candidate' (md \<or> modified r) (tr @ [make_trace rule r]) s')"

definition fail_result :: "pipeline_result \<Rightarrow> pipeline_error \<Rightarrow> pipeline_result" where
  "fail_result r e = r\<lparr>result_ok := False, result_modified := False, result_error := Some e\<rparr>"

text \<open>Printing the candidate: the text with the lease for it, or the fault. A lease that was
  acquired before the copy failed is returned.\<close>

definition serialize ::
    "json_library \<Rightarrow> bool \<Rightarrow> json \<Rightarrow> alloc_state \<Rightarrow> (json_fault + (string \<times> lease option)) \<times> alloc_state" where
  "serialize lib has_budget candidate s =
     (case run_allocs (lib_dump_allocs lib candidate) s of
        (Some f, s') \<Rightarrow> (Inl f, s')
      | (None, s') \<Rightarrow>
          (case lib_dump lib candidate of
             Inl f \<Rightarrow> (Inl f, s')
           | Inr serialized \<Rightarrow>
               if has_budget then
                 (case budget_try_acquire (of_nat (length serialized)) (snd s') of
                    (None, st) \<Rightarrow> (Inl BudgetExceeded, (fst s', st))
                  | (Some memory, st) \<Rightarrow>
                      if lib_copy_ok lib serialized then (Inr (serialized, Some memory), (fst s', st))
                      else (Inl OtherException, (fst s', snd (lease_reset memory st))))
               else if lib_copy_ok lib serialized then (Inr (serialized, None), s')
               else (Inl OtherException, s')))"

text \<open>The call with its allocation context in place.\<close>

definition pipeline_run ::
    "json_library \<Rightarrow> compiled_rule option list \<Rightarrow> string \<Rightarrow> bool \<Rightarrow> alloc_state \<Rightarrow> pipeline_result \<times> metrics" where
  "pipeline_run lib rules body has_budget s0 =
     (let result = (initial_result body)\<lparr>parse_count := 1\<rparr> in
      case run_allocs (lib_parse_allocs lib body) s0 of
        (Some f, s) \<Rightarrow> (fail_result result (parse_failure f), context_end s)
      | (None, s) \<Rightarrow>
        (case lib_parse lib body of
           Inl f \<Rightarrow> (fail_result result (parse_failure f), context_end s)
         | Inr candidate \<Rightarrow>
           (case run_rules lib 0 rules candidate False [] s of
              (Some e, _, _, tr, s) \<Rightarrow> (fail_result (result\<lparr>traces := tr\<rparr>) e, context_end s)
            | (None, candidate, candidate_modified, tr, s) \<Rightarrow>
              let result = result\<lparr>traces := tr\<rparr> in
              if \<not> candidate_modified then (result, context_end s)
              else let result = result\<lparr>serialize_count := 1\<rparr> in
                (case serialize lib has_budget candidate s of
                   (Inl f, s) \<Rightarrow> (fail_result result (serialize_failure f), context_end s)
                 | (Inr (serialized, memory), s) \<Rightarrow>
                     (result\<lparr>rewritten_body_memory := memory, rewritten_body := Some serialized,
                             result_modified := True, output_body_size := length serialized\<rparr>,
                      context_end s)))))"

definition pipeline_apply ::
    "json_library \<Rightarrow> compiled_rule option list \<Rightarrow> string \<Rightarrow> bool \<Rightarrow> metrics
     \<Rightarrow> json_fault + (pipeline_result \<times> metrics)" where
  "pipeline_apply lib rules body has_budget st =
     (if rules = [] then Inr (initial_result body, st)
      else res_map (pipeline_run lib rules body has_budget) (context_new has_budget st))"

section \<open>The registry of rule factories\<close>

datatype rule_option_value_type = StringOption | JsonValueOption | JsonPointerOption

record rule_option_descriptor =
  option_name :: string
  option_display_key :: string
  option_value_type :: rule_option_value_type
  option_required :: bool
  option_order :: nat

record rule_descriptor =
  rule_descriptor_type :: string
  rule_display_key :: string
  protocol_specialized :: bool
  descriptor_options :: "rule_option_descriptor list"

record rule_factory =
  factory_type :: string
  factory_descriptor :: rule_descriptor
  factory_compile :: "rule_definition \<Rightarrow> protocol_handler \<Rightarrow> compiled_rule option res"

definition valid_descriptor_key :: "string \<Rightarrow> nat \<Rightarrow> bool" where
  "valid_descriptor_key s maximum \<longleftrightarrow> s \<noteq> [] \<and> length s \<le> maximum
     \<and> list_all (\<lambda>ch. is_lower ch \<or> is_digit ch \<or> ch = CHR ''_'' \<or> ch = CHR ''-'' \<or> ch = CHR ''.'') s"

fun rule_option_value_type_name :: "rule_option_value_type \<Rightarrow> string" where
  "rule_option_value_type_name StringOption = ''string''"
| "rule_option_value_type_name JsonValueOption = ''json_value''"
| "rule_option_value_type_name JsonPointerOption = ''json_pointer''"

fun validate_descriptor_options :: "string \<Rightarrow> nat \<Rightarrow> string set \<Rightarrow> rule_option_descriptor list \<Rightarrow> unit res" where
  "validate_descriptor_options t index names [] = Inr ()"
| "validate_descriptor_options t index names (opt # opts) =
     (if \<not> valid_descriptor_key (option_name opt) 64
      then Inl (''rule descriptor has an invalid option name: '' @ t)
      else if \<not> valid_descriptor_key (option_display_key opt) 128
      then Inl (''rule descriptor has an invalid option display name key: '' @ t @ ''.'' @ option_name opt)
      else if option_order opt \<noteq> index
      then Inl (''rule descriptor option order is not contiguous: '' @ t)
      else if option_name opt \<in> names
      then Inl (''rule descriptor has duplicate option: '' @ t @ ''.'' @ option_name opt)
      else validate_descriptor_options t (index + 1) (insert (option_name opt) names) opts)"

definition validate_descriptor :: "rule_descriptor \<Rightarrow> string \<Rightarrow> unit res" where
  "validate_descriptor d t =
     (if rule_descriptor_type d \<noteq> t
      then Inl (''rule descriptor type does not match factory type: '' @ t)
      else if \<not> valid_descriptor_key (rule_display_key d) 128
      then Inl (''rule descriptor has an invalid display name key: '' @ rule_descriptor_type d)
      else validate_descriptor_options (rule_descriptor_type d) 0 {} (descriptor_options d))"

type_synonym rule_registry = "(string \<times> rule_factory) list"

definition rule_find :: "rule_registry \<Rightarrow> string \<Rightarrow> rule_factory option" where
  "rule_find reg t = map_of reg t"

definition find_descriptor :: "rule_registry \<Rightarrow> string \<Rightarrow> rule_descriptor option" where
  "find_descriptor reg t = map_option factory_descriptor (rule_find reg t)"

definition register_factory :: "rule_factory option \<Rightarrow> rule_registry \<Rightarrow> rule_registry res" where
  "register_factory factory reg =
     (case factory of
        None \<Rightarrow> Inl ''cannot register a null rule factory''
      | Some f \<Rightarrow>
          let t = factory_type f in
          if \<not> is_valid_rule_type t then Inl (''invalid rule factory type: '' @ t)
          else res_bind (validate_descriptor (factory_descriptor f) t) (\<lambda>_.
            if rule_find reg t \<noteq> None then Inl (''rule factory already registered: '' @ t)
            else Inr (map_insert t f reg)))"

definition rule_types :: "rule_registry \<Rightarrow> string list" where
  "rule_types reg = map fst reg"

definition descriptors :: "rule_registry \<Rightarrow> rule_descriptor list" where
  "descriptors reg = map (\<lambda>(_, f). factory_descriptor f) reg"

definition set_field_factory :: rule_factory where
  "set_field_factory =
     \<lparr>factory_type = ''set_field'',
      factory_descriptor = \<lparr>rule_descriptor_type = ''set_field'', rule_display_key = ''rule.set_field'',
        protocol_specialized = False, descriptor_options =
          [\<lparr>option_name = ''path'', option_display_key = ''rule.option.path'',
            option_value_type = JsonPointerOption, option_required = True, option_order = 0\<rparr>,
           \<lparr>option_name = ''value'', option_display_key = ''rule.option.value'',
            option_value_type = JsonValueOption, option_required = True, option_order = 1\<rparr>]\<rparr>,
      factory_compile = set_field_compile\<rparr>"

definition remove_field_factory :: rule_factory where
  "remove_field_factory =
     \<lparr>factory_type = ''remove_field'',
      factory_descriptor = \<lparr>rule_descriptor_type = ''remove_field'', rule_display_key = ''rule.remove_field'',
        protocol_specialized = False, descriptor_options =
          [\<lparr>option_name = ''path'', option_display_key = ''rule.option.path'',
            option_value_type = JsonPointerOption, option_required = True, option_order = 0\<rparr>]\<rparr>,
      factory_compile = remove_field_compile\<rparr>"

definition remove_tool_factory :: rule_factory where
  "remove_tool_factory =
     \<lparr>factory_type = ''remove_tool'',
      factory_descriptor = \<lparr>rule_descriptor_type = ''remove_tool'', rule_display_key = ''rule.remove_tool'',
        protocol_specialized = True, descriptor_options =
          [\<lparr>option_name = ''tool'', option_display_key = ''rule.option.tool'',
            option_value_type = StringOption, option_required = True, option_order = 0\<rparr>]\<rparr>,
      factory_compile = remove_tool_compile\<rparr>"

fun register_factories :: "rule_factory list \<Rightarrow> rule_registry \<Rightarrow> rule_registry res" where
  "register_factories [] reg = Inr reg"
| "register_factories (f # fs) reg = res_bind (register_factory (Some f) reg) (register_factories fs)"

definition builtin_rule_registry :: "rule_registry res" where
  "builtin_rule_registry = register_factories [set_field_factory, remove_field_factory, remove_tool_factory] []"

fun compile_rules ::
    "rule_registry \<Rightarrow> protocol_handler \<Rightarrow> string set \<Rightarrow> rule_definition list \<Rightarrow> compiled_rule option list res" where
  "compile_rules reg h ids [] = Inr []"
| "compile_rules reg h ids (d # ds) =
     (if \<not> is_valid_rule_id (rule_id d) then Inl (''invalid rule id: '' @ rule_id d)
      else if \<not> is_valid_rule_type (rule_type d) then Inl (''rule '' @ rule_id d @ '' has an invalid type'')
      else if rule_id d \<in> ids then Inl (''duplicate rule id: '' @ rule_id d)
      else let ids' = insert (rule_id d) ids in
        if \<not> rule_enabled d then compile_rules reg h ids' ds
        else (case rule_find reg (rule_type d) of
                None \<Rightarrow> Inl (''enabled rule '' @ rule_id d @ '' has unknown type: '' @ rule_type d)
              | Some f \<Rightarrow>
                  res_bind (res_label (''rule '' @ rule_id d @ '' ('' @ rule_type d @ ''): '')
                      (factory_compile f d h)) (\<lambda>compiled.
                    case compiled of
                      None \<Rightarrow> Inl (''rule factory returned an invalid compiled rule for: '' @ rule_id d)
                    | Some c \<Rightarrow>
                        if compiled_id c \<noteq> rule_id d \<or> compiled_type c \<noteq> rule_type d
                        then Inl (''rule factory returned an invalid compiled rule for: '' @ rule_id d)
                        else res_map ((#) (Some c)) (compile_rules reg h ids' ds))))"

definition compile_pipeline ::
    "rule_registry \<Rightarrow> rule_definition list \<Rightarrow> protocol_handler option \<Rightarrow> compiled_rule option list res" where
  "compile_pipeline reg definitions handler =
     (case handler of
        None \<Rightarrow> Inl ''rule pipeline requires a protocol handler''
      | Some h \<Rightarrow>
          if length definitions > 64 then Inl ''rule pipeline exceeds the maximum rule count''
          else compile_rules reg h {} definitions)"

section \<open>The budget during a pipeline\<close>

text \<open>The bytes in flight are those of before, \<open>base\<close>, and what the context owns.\<close>

definition alloc_ok :: "bool \<Rightarrow> nat \<Rightarrow> alloc_state \<Rightarrow> bool" where
  "alloc_ok has_budget base s \<longleftrightarrow> inflight_ok (snd s) \<and> (fst s \<noteq> None \<longleftrightarrow> has_budget)
     \<and> inflight_used (snd s) = base + (case fst s of None \<Rightarrow> 0 | Some l \<Rightarrow> owned l)"

lemma try_acquire_zero: "try_acquire_inflight 0 st = (True, st)"
  by (simp add: try_acquire_inflight_def)

lemma context_new_ok:
  assumes "inflight_ok st"
  shows "\<exists>s. context_new b st = Inr s \<and> alloc_ok b (inflight_used st) s"
  using assms by (auto simp: context_new_def budget_try_acquire_def try_acquire_zero alloc_ok_def owned_def)

lemma context_try_acquire_ok:
  assumes "alloc_ok b base s" "context_try_acquire n s = (g, s')"
  shows "alloc_ok b base s'"
proof (cases "fst s")
  case None
  with assms show ?thesis by (cases s) (auto simp: context_try_acquire_def)
next
  case (Some l)
  obtain st where s: "s = (Some l, st)" using Some by (cases s) auto
  obtain g' l' st' where grow: "lease_try_grow n l st = (g', l', st')" by (cases "lease_try_grow n l st") auto
  with assms s have "s' = (Some l', st')" by (simp add: context_try_acquire_def)
  moreover have "inflight_ok st" "owned l \<le> inflight_used st" using assms(1) s by (auto simp: alloc_ok_def)
  ultimately show ?thesis using lease_try_grow_spec [OF _ _ grow] assms(1) s by (auto simp: alloc_ok_def)
qed

lemma context_release_ok:
  assumes "alloc_ok b base s"
  shows "alloc_ok b base (context_release n s)"
proof (cases "fst s")
  case None
  with assms show ?thesis by (cases s) (auto simp: context_release_def)
next
  case (Some l)
  obtain st where s: "s = (Some l, st)" using Some by (cases s) auto
  obtain l' st' where shrink: "lease_shrink n l st = (l', st')" by fastforce
  have "inflight_ok st" "owned l \<le> inflight_used st" using assms s by (auto simp: alloc_ok_def)
  with lease_shrink_spec [OF _ _ shrink] assms s shrink show ?thesis
    by (auto simp: alloc_ok_def context_release_def)
qed

lemma run_alloc_op_ok: "alloc_ok b base s \<Longrightarrow> run_alloc_op a s = (f, s') \<Longrightarrow> alloc_ok b base s'"
  by (cases a) (auto simp: Let_def context_release_ok split: if_splits prod.splits bool.splits
      dest: context_try_acquire_ok)

lemma run_allocs_ok: "alloc_ok b base s \<Longrightarrow> run_allocs as s = (f, s') \<Longrightarrow> alloc_ok b base s'"
proof (induction as s rule: run_allocs.induct)
  case (2 a as s)
  obtain f1 s1 where a: "run_alloc_op a s = (f1, s1)" by (rule prod.exhaust)
  with 2 run_alloc_op_ok [OF "2.prems"(1) a] show ?case by (cases f1) auto
qed simp

lemma run_rule_ok: "alloc_ok b base s \<Longrightarrow> run_rule lib i r c s = (x, s') \<Longrightarrow> alloc_ok b base s'"
  by (auto simp: run_rule_def split: prod.splits option.splits dest: run_allocs_ok)

lemma run_rules_ok:
  "alloc_ok b base s \<Longrightarrow> run_rules lib i rules c md tr s = (e, c', md', tr', s') \<Longrightarrow> alloc_ok b base s'"
proof (induction lib i rules c md tr s rule: run_rules.induct)
  case (3 lib i rule rules c md tr s)
  obtain x s1 where r: "run_rule lib i rule c s = (x, s1)" by (rule prod.exhaust)
  with 3 run_rule_ok [OF "3.prems"(1) r] show ?case by (cases x) (auto split: prod.splits)
qed auto

lemma context_end_ok:
  assumes "alloc_ok b base s"
  shows "inflight_ok (context_end s) \<and> inflight_used (context_end s) = base"
proof (cases "fst s")
  case None
  with assms show ?thesis by (cases s) (auto simp: context_end_def alloc_ok_def)
next
  case (Some l)
  obtain st where s: "s = (Some l, st)" using Some by (cases s) auto
  obtain l' st' where reset: "lease_reset l st = (l', st')" by fastforce
  have "inflight_ok st" "owned l \<le> inflight_used st" using assms s by (auto simp: alloc_ok_def)
  with lease_reset_spec [OF _ _ reset] assms s reset show ?thesis by (simp add: alloc_ok_def context_end_def)
qed

lemma serialize_ok:
  assumes "alloc_ok b base s" "serialize lib b c s = (x, s')"
  shows "(\<forall>f. x = Inl f \<longrightarrow> alloc_ok b base s')
    \<and> (\<forall>t m. x = Inr (t, m) \<longrightarrow> alloc_ok b (base + (case m of None \<Rightarrow> 0 | Some l \<Rightarrow> owned l)) s'
         \<and> (m \<noteq> None \<longleftrightarrow> b) \<and> (\<forall>l. m = Some l \<longrightarrow> owned l = unat (of_nat (length t) :: u64))
         \<and> lib_dump lib c = Inr t)"
proof -
  obtain f s1 where a: "run_allocs (lib_dump_allocs lib c) s = (f, s1)" by (rule prod.exhaust)
  note s1 = run_allocs_ok [OF assms(1) a]
  show ?thesis
  proof (cases "f = None \<and> b \<and> is_ok (lib_dump lib c)")
    case False
    with assms(2) a s1 show ?thesis
      by (cases f; cases "lib_dump lib c") (auto simp: serialize_def split: if_splits)
  next
    case True
    then obtain t where t: "lib_dump lib c = Inr t" by (cases "lib_dump lib c") auto
    obtain m st where acq: "budget_try_acquire (of_nat (length t)) (snd s1) = (m, st)" by fastforce
    have ok: "inflight_ok (snd s1)" using s1 by (simp add: alloc_ok_def)
    note acq_ok = budget_try_acquire_ok [OF ok acq]
    show ?thesis
    proof (cases m)
      case None
      with assms(2) a t True acq acq_ok s1 show ?thesis by (auto simp: serialize_def alloc_ok_def)
    next
      case (Some l)
      obtain l' st' where reset: "lease_reset l st = (l', st')" by fastforce
      have "owned l \<le> inflight_used st" using acq_ok Some by simp
      with lease_reset_spec [OF _ this reset] acq_ok Some assms(2) a t True acq s1 reset show ?thesis
        by (auto simp: serialize_def alloc_ok_def split: if_splits)
    qed
  qed
qed

section \<open>What a pipeline returns\<close>

definition memory_bytes :: "lease option \<Rightarrow> nat" where
  "memory_bytes m = (case m of None \<Rightarrow> 0 | Some l \<Rightarrow> owned l)"

text \<open>A result is all or nothing: a body with its size and memory, or none of them.\<close>

definition result_atomic :: "string \<Rightarrow> bool \<Rightarrow> pipeline_result \<Rightarrow> bool" where
  "result_atomic body has_budget r \<longleftrightarrow>
     original_body_size r = length body
     \<and> (result_ok r \<longleftrightarrow> result_error r = None)
     \<and> (result_modified r \<longleftrightarrow> rewritten_body r \<noteq> None)
     \<and> (result_modified r \<longrightarrow> result_ok r)
     \<and> (case rewritten_body r of
          None \<Rightarrow> output_body_size r = length body \<and> rewritten_body_memory r = None
        | Some t \<Rightarrow> output_body_size r = length t
            \<and> (rewritten_body_memory r \<noteq> None \<longleftrightarrow> has_budget)
            \<and> (has_budget \<longrightarrow> memory_bytes (rewritten_body_memory r) = unat (of_nat (length t) :: u64)))"

text \<open>The rules without allocation, tracing and limits: the reference for what a pipeline computes.\<close>

fun apply_rules :: "compiled_rule list \<Rightarrow> json \<Rightarrow> rule_exn + (json \<times> bool)" where
  "apply_rules [] j = Inr (j, False)"
| "apply_rules (r # rs) j =
     res_bind (compiled_apply r j) (\<lambda>(j', res).
       res_map (\<lambda>(j'', m). (j'', modified res \<or> m)) (apply_rules rs j'))"

text \<open>A successful result holds the printed outcome of all rules in order, if one of them changed the
  body, and one trace per rule.\<close>

definition computes_rules :: "json_library \<Rightarrow> compiled_rule option list \<Rightarrow> string \<Rightarrow> pipeline_result \<Rightarrow> bool" where
  "computes_rules lib rules body r \<longleftrightarrow>
     (\<exists>rs j j' m. rules = map Some rs \<and> lib_parse lib body = Inr j
       \<and> apply_rules rs j = Inr (j', m) \<and> map trace_rule_id (traces r) = map compiled_id rs
       \<and> (if m then \<exists>t. lib_dump lib j' = Inr t \<and> rewritten_body r = Some t else rewritten_body r = None))"

lemma run_rule_cases:
  assumes "run_rule lib i r c s = (Inr (c', res), s')"
  shows "compiled_apply r c = Inr (c', res)"
  using assms by (auto simp: run_rule_def split: prod.splits option.splits sum.splits)

lemma run_rules_success:
  "run_rules lib i rules c md tr s = (None, c', md', tr', s') \<Longrightarrow>
     \<exists>rs m. rules = map Some rs \<and> apply_rules rs c = Inr (c', m) \<and> md' = (md \<or> m)
       \<and> map trace_rule_id tr' = map trace_rule_id tr @ map compiled_id rs"
proof (induction lib i rules c md tr s rule: run_rules.induct)
  case (3 lib i rule rules c md tr s)
  obtain x s1 where r: "run_rule lib i rule c s = (x, s1)" by (rule prod.exhaust)
  show ?case
  proof (cases x)
    case (Inl e)
    with r "3.prems" show ?thesis by simp
  next
    case (Inr y)
    obtain c1 res where y: "y = (c1, res)" by fastforce
    from r Inr y have app: "compiled_apply rule c = Inr (c1, res)" by (blast intro: run_rule_cases)
    from 3(1) [OF r [symmetric] Inr y [symmetric]] "3.prems" r Inr y obtain rs m where
      "rules = map Some rs" "apply_rules rs c1 = Inr (c', m)" "md' = ((md \<or> modified res) \<or> m)"
      "map trace_rule_id tr' = map trace_rule_id (tr @ [make_trace rule res]) @ map compiled_id rs" by auto
    with app show ?thesis by (intro exI [of _ "rule # rs"]) (auto simp: make_trace_def)
  qed
qed auto

lemma pipeline_run_spec:
  assumes "alloc_ok b base s0" and "pipeline_run lib rules body b s0 = (r, st')"
  shows "inflight_ok st' \<and> inflight_used st' = base + memory_bytes (rewritten_body_memory r)
    \<and> result_atomic body b r
    \<and> (result_ok r \<longrightarrow> computes_rules lib rules body r)"
proof -
  obtain f s1 where a: "run_allocs (lib_parse_allocs lib body) s0 = (f, s1)" by (rule prod.exhaust)
  note s1 = run_allocs_ok [OF assms(1) a]
  note base_defs = result_atomic_def memory_bytes_def initial_result_def fail_result_def
  show ?thesis
  proof (cases "f = None \<and> is_ok (lib_parse lib body)")
    case False
    with assms(2) a context_end_ok [OF s1] show ?thesis
      by (cases f; cases "lib_parse lib body") (auto simp: pipeline_run_def base_defs)
  next
    case True
    then obtain j where j: "lib_parse lib body = Inr j" by (cases "lib_parse lib body") auto
    obtain e c md tr s2 where rr: "run_rules lib 0 rules j False [] s1 = (e, c, md, tr, s2)"
      by (cases "run_rules lib 0 rules j False [] s1") auto
    note s2 = run_rules_ok [OF s1 rr]
    show ?thesis
    proof (cases "e = None \<and> md")
      case False
      show ?thesis
      proof (cases e)
        case (Some err)
        with assms(2) a True j rr context_end_ok [OF s2] show ?thesis by (auto simp: pipeline_run_def base_defs)
      next
        case None
        with False have md: "\<not> md" by simp
        with assms(2) a True j rr None have res: "r = (initial_result body)\<lparr>parse_count := 1, traces := tr\<rparr>" "st' = context_end s2"
          by (auto simp: pipeline_run_def)
        have "computes_rules lib rules body r"
          using run_rules_success [OF rr [unfolded None]] j md by (fastforce simp: computes_rules_def res initial_result_def)
        with res context_end_ok [OF s2] show ?thesis by (simp add: base_defs)
      qed
    next
      case md: True
      obtain x s3 where ser: "serialize lib b c s2 = (x, s3)" by (rule prod.exhaust)
      note s3 = serialize_ok [OF s2 ser]
      show ?thesis
      proof (cases x)
        case (Inl err)
        with s3 have "alloc_ok b base s3" by simp
        from Inl assms(2) a True j rr md ser context_end_ok [OF this] show ?thesis
          by (auto simp: pipeline_run_def base_defs)
      next
        case (Inr y)
        obtain t m where y: "y = (t, m)" by fastforce
        with Inr s3 have m: "alloc_ok b (base + memory_bytes m) s3" "m \<noteq> None \<longleftrightarrow> b"
          "\<forall>l. m = Some l \<longrightarrow> owned l = unat (of_nat (length t) :: u64)" "lib_dump lib c = Inr t"
          by (auto simp: memory_bytes_def)
        from Inr y assms(2) a True j rr md ser
        have res: "r = (initial_result body)\<lparr>parse_count := 1, traces := tr, serialize_count := 1, rewritten_body_memory := m,
            rewritten_body := Some t, result_modified := True, output_body_size := length t\<rparr>" "st' = context_end s3"
          by (auto simp: pipeline_run_def Let_def)
        from rr md have "run_rules lib 0 rules j False [] s1 = (None, c, True, tr, s2)" by simp
        from run_rules_success [OF this] j m(4) have "computes_rules lib rules body r"
          by (fastforce simp: computes_rules_def res initial_result_def)
        with res context_end_ok [OF m(1)] m(2,3) show ?thesis by (auto simp: base_defs)
      qed
    qed
  qed
qed

lemma pipeline_apply_spec:
  assumes "inflight_ok st"
  obtains r st' where "pipeline_apply lib rules body b st = Inr (r, st')" "inflight_ok st'"
    "inflight_used st' = inflight_used st + memory_bytes (rewritten_body_memory r)" "result_atomic body b r"
    "result_ok r \<Longrightarrow> rules \<noteq> [] \<Longrightarrow> computes_rules lib rules body r"
proof (cases "rules = []")
  case True
  with assms show ?thesis
    by (intro that) (auto simp: pipeline_apply_def result_atomic_def initial_result_def memory_bytes_def)
next
  case False
  obtain s where s: "context_new b st = Inr s" "alloc_ok b (inflight_used st) s"
    using context_new_ok [OF assms] by blast
  obtain r st' where run: "pipeline_run lib rules body b s = (r, st')" by (rule prod.exhaust)
  from pipeline_run_spec [OF s(2) run] s(1) run False show ?thesis
    by (intro that) (auto simp: pipeline_apply_def)
qed

text \<open>A library for the examples: it parses every text to one body and prints every body as the
  same text, with one allocation each.\<close>

definition sample_library :: json_library where
  "sample_library =
     \<lparr>lib_parse = (\<lambda>_. Inr sample_body), lib_parse_allocs = (\<lambda>_. [Allocate 10 16 True]),
      lib_rule_allocs = (\<lambda>_ _. [Allocate 2 8 True, Deallocate 2 8]),
      lib_dump = (\<lambda>_. Inr ''0123456789''), lib_dump_allocs = (\<lambda>_. [Allocate 10 1 True]),
      lib_copy_ok = (\<lambda>_. True)\<rparr>"

definition sample_rule :: compiled_rule where
  "sample_rule = \<lparr>compiled_id = ''r1'', compiled_type = ''set_field'',
     compiled_apply = set_field_apply \<lparr>trace_target = ''/model'', tokens = [''model'']\<rparr> (JStr ''b'')\<rparr>"

definition sample_metrics :: "u64 \<Rightarrow> metrics" where
  "sample_metrics n = store (InflightM InflightBudgetBytes) n initial_metrics"

lemma sample_metrics_ok: "inflight_ok (sample_metrics n)"
  by (simp add: sample_metrics_def inflight_ok_def store_def initial_metrics_def)

text \<open>C21: Applying a pipeline never throws, whatever the JSON library does, and leaks nothing of the
  memory budget: afterwards the bytes in flight are those of before and, if the body was
  rewritten, the bytes of the lease that the result holds for it. So a request that fails
  leaves the budget as it found it.\<close>

theorem pipeline_budget_balanced:
  assumes "inflight_ok st"
  shows "\<exists>r st'. pipeline_apply lib rules body has_budget st = Inr (r, st') \<and> inflight_ok st'
    \<and> inflight_used st' = inflight_used st + memory_bytes (rewritten_body_memory r)
    \<and> (\<not> result_ok r \<longrightarrow> inflight_used st' = inflight_used st)"
proof -
  obtain r st' where r: "pipeline_apply lib rules body has_budget st = Inr (r, st')" "inflight_ok st'"
    "inflight_used st' = inflight_used st + memory_bytes (rewritten_body_memory r)" "result_atomic body has_budget r"
    using pipeline_apply_spec [OF assms] by blast
  then have "memory_bytes (rewritten_body_memory r) = 0" if "\<not> result_ok r"
    using that by (auto simp: result_atomic_def memory_bytes_def split: option.splits)
  with r show ?thesis by auto
qed

theorem pipeline_budget_balanced_witness:
  "inflight_ok (sample_metrics 200)
   \<and> (\<exists>r st'. pipeline_apply sample_library [Some sample_rule] ''{}'' True (sample_metrics 200) = Inr (r, st')
        \<and> inflight_used st' = inflight_used (sample_metrics 200) + memory_bytes (rewritten_body_memory r))"
  using sample_metrics_ok [of 200]
    pipeline_budget_balanced [OF sample_metrics_ok, where lib=sample_library and rules="[Some sample_rule]" and body="''{}''" and has_budget=True]
  by blast

text \<open>The result of a pipeline is all or nothing. It is a success exactly when it carries no
  error; it carries a rewritten body exactly when it says that the body was modified, and only
  on success; its size is that of the body that will be sent; and with a budget the lease covers
  the rewritten body.\<close>

theorem pipeline_result_atomic:
  assumes "inflight_ok st" and "pipeline_apply lib rules body has_budget st = Inr (r, st')"
  shows "result_atomic body has_budget r"
proof -
  obtain r' st'' where "pipeline_apply lib rules body has_budget st = Inr (r', st'')" "result_atomic body has_budget r'"
    using pipeline_apply_spec [OF assms(1)] by blast
  with assms(2) show ?thesis by simp
qed

theorem pipeline_result_atomic_witness:
  "\<exists>r st'. inflight_ok (sample_metrics 100)
     \<and> pipeline_apply sample_library [Some sample_rule] ''{}'' True (sample_metrics 100) = Inr (r, st')
     \<and> result_atomic ''{}'' True r"
proof -
  obtain r st' where "pipeline_apply sample_library [Some sample_rule] ''{}'' True (sample_metrics 100) = Inr (r, st')"
    using pipeline_apply_spec [OF sample_metrics_ok] by metis
  with pipeline_result_atomic [OF sample_metrics_ok this] sample_metrics_ok show ?thesis by blast
qed

text \<open>C7: When a pipeline succeeds it has run every one of its rules once and in order, each on the
  outcome of the one before; the body it returns is the printed outcome, and there is none
  exactly when no rule changed anything.\<close>

theorem pipeline_runs_all_rules:
  assumes "inflight_ok st" and "pipeline_apply lib rules body has_budget st = Inr (r, st')"
    and "result_ok r" and "rules \<noteq> []"
  shows "computes_rules lib rules body r"
proof -
  obtain r' st'' where "pipeline_apply lib rules body has_budget st = Inr (r', st'')"
    "result_ok r' \<Longrightarrow> rules \<noteq> [] \<Longrightarrow> computes_rules lib rules body r'"
    using pipeline_apply_spec [OF assms(1)] by blast
  with assms(2-4) show ?thesis by simp
qed

lemma run_rules_quiet:
  assumes "\<And>i j. lib_rule_allocs lib i j = []"
  shows "case apply_rules rs j of
      Inr (j', m) \<Rightarrow> \<exists>tr'. run_rules lib i (map Some rs) j md tr s = (None, j', md \<or> m, tr', s)
    | Inl e \<Rightarrow> \<exists>r \<in> set rs. \<exists>j' md' tr'. run_rules lib i (map Some rs) j md tr s = (Some (rule_exn_failure r e), j', md', tr', s)"
proof (induction rs arbitrary: i j md tr)
  case (Cons r rs)
  have run: "run_rule lib i r j s = ((case compiled_apply r j of Inl e \<Rightarrow> Inl (rule_exn_failure r e) | Inr x \<Rightarrow> Inr x), s)"
    by (simp add: run_rule_def assms)
  show ?case
  proof (cases "compiled_apply r j")
    case (Inl e)
    with run show ?thesis by simp
  next
    case (Inr x)
    obtain j1 res where x: "x = (j1, res)" by fastforce
    from Cons [where j=j1 and i="Suc i" and md="md \<or> modified res" and tr="tr @ [make_trace r res]"] Inr x run show ?thesis
      by (cases "apply_rules rs j1") (auto simp: disj_assoc)
  qed
qed simp

text \<open>When no allocation fails, a pipeline succeeds exactly when the body parses, every rule
  applies to the outcome of the one before, and the outcome, if it was changed, can be
  printed; a rule that does not apply gives status 400.\<close>

theorem pipeline_success_exact:
  assumes quiet: "\<And>t. lib_parse_allocs lib t = []" "\<And>i j. lib_rule_allocs lib i j = []" "\<And>j. lib_dump_allocs lib j = []"
    "\<And>t. lib_copy_ok lib t" and rs: "rs \<noteq> []"
    and run: "pipeline_apply lib (map Some rs) body False st = Inr (r, st')"
  shows "(result_ok r \<longleftrightarrow> (\<exists>j j' m. lib_parse lib body = Inr j \<and> apply_rules rs j = Inr (j', m)
      \<and> (m \<longrightarrow> is_ok (lib_dump lib j'))))
    \<and> (\<forall>j e. lib_parse lib body = Inr j \<longrightarrow> apply_rules rs j = Inl e \<longrightarrow>
        \<not> result_ok r \<and> map_option error_status (result_error r) = Some 400)"
proof -
  from run rs have "pipeline_run lib (map Some rs) body False (None, st) = (r, st')"
    by (simp add: pipeline_apply_def context_new_def)
  then have r: "r = fst (pipeline_run lib (map Some rs) body False (None, st))" by simp
  show ?thesis
  proof (cases "lib_parse lib body")
    case (Inl f)
    then show ?thesis by (simp add: r pipeline_run_def quiet fail_result_def)
  next
    case (Inr j)
    note parsed = Inr
    show ?thesis
    proof (cases "apply_rules rs j")
      case (Inl e)
      with run_rules_quiet [OF quiet(2), where rs=rs and j=j and i=0 and md=False and tr="[]" and s="(None, st)"] obtain q j' md' tr' where
        "run_rules lib 0 (map Some rs) j False [] (None, st) = (Some (rule_exn_failure q e), j', md', tr', (None, st))" by auto
      then show ?thesis using parsed Inl
        by (cases e) (simp add: r pipeline_run_def quiet fail_result_def pipeline_error_def)
    next
      case (Inr x)
      obtain j' m where x: "x = (j', m)" by fastforce
      with Inr run_rules_quiet [OF quiet(2), where rs=rs and j=j and i=0 and md=False and tr="[]" and s="(None, st)"] obtain tr' where
        rr: "run_rules lib 0 (map Some rs) j False [] (None, st) = (None, j', m, tr', (None, st))" by auto
      show ?thesis using parsed Inr x rr
        by (cases "lib_dump lib j'")
          (auto simp: r pipeline_run_def quiet fail_result_def serialize_def initial_result_def Let_def)
    qed
  qed
qed

definition quiet_library :: json_library where
  "quiet_library = sample_library\<lparr>lib_parse_allocs := (\<lambda>_. []), lib_rule_allocs := (\<lambda>_ _. []), lib_dump_allocs := (\<lambda>_. [])\<rparr>"

lemma sample_rule_applies:
  "apply_rules [sample_rule] sample_body = Inr (assign_at sample_body [''model''] (JStr ''b''), True)"
  by (simp add: sample_rule_def set_field_apply_def sample_body_def resolve_child_def apply_result_def)

theorem pipeline_success_exact_witness:
  "\<exists>r st'. pipeline_apply quiet_library (map Some [sample_rule]) ''{}'' False (sample_metrics 0) = Inr (r, st') \<and> result_ok r"
proof -
  obtain r st' where run: "pipeline_apply quiet_library (map Some [sample_rule]) ''{}'' False (sample_metrics 0) = Inr (r, st')"
    using pipeline_apply_spec [OF sample_metrics_ok] by metis
  have "\<exists>j j' m. lib_parse quiet_library ''{}'' = Inr j \<and> apply_rules [sample_rule] j = Inr (j', m)
      \<and> (m \<longrightarrow> is_ok (lib_dump quiet_library j'))"
    by (intro exI [of _ sample_body] exI [of _ "assign_at sample_body [''model''] (JStr ''b'')"] exI [of _ True])
      (simp add: quiet_library_def sample_library_def sample_rule_applies del: apply_rules.simps)
  with pipeline_success_exact [OF _ _ _ _ _ run] have "result_ok r"
    by (simp add: quiet_library_def sample_library_def del: apply_rules.simps)
  with run show ?thesis by blast
qed

theorem pipeline_runs_all_rules_witness:
  "\<exists>r st'. pipeline_apply quiet_library (map Some [sample_rule]) ''{}'' False (sample_metrics 0) = Inr (r, st')
     \<and> computes_rules quiet_library (map Some [sample_rule]) ''{}'' r"
proof -
  let ?p = "pipeline_run quiet_library (map Some [sample_rule]) ''{}'' False (None, sample_metrics 0)"
  have run: "pipeline_apply quiet_library (map Some [sample_rule]) ''{}'' False (sample_metrics 0) = Inr (fst ?p, snd ?p)"
    by (simp add: pipeline_apply_def context_new_def)
  obtain tr where tr: "run_rules quiet_library 0 (map Some [sample_rule]) sample_body False [] (None, sample_metrics 0)
      = (None, assign_at sample_body [''model''] (JStr ''b''), True, tr, (None, sample_metrics 0))"
    using run_rules_quiet [where lib=quiet_library and rs="[sample_rule]" and j=sample_body and i=0 and md=False and tr="[]" and s="(None, sample_metrics 0)"]
    by (auto simp: sample_rule_applies quiet_library_def simp del: apply_rules.simps)
  have "result_ok (fst ?p)"
    using tr by (simp add: pipeline_run_def quiet_library_def sample_library_def serialize_def initial_result_def Let_def)
  from pipeline_runs_all_rules [OF sample_metrics_ok run this] run show ?thesis
    by (intro exI [of _ "fst ?p"] exI [of _ "snd ?p"]) simp
qed

section \<open>The registry as a contract\<close>

definition rule_registry_ok :: "rule_registry \<Rightarrow> bool" where
  "rule_registry_ok reg \<longleftrightarrow> keys_sorted reg \<and> list_all (\<lambda>(t, f). factory_type f = t \<and> is_valid_rule_type t
     \<and> rule_descriptor_type (factory_descriptor f) = t) reg"

lemma register_factory_Some:
  assumes "register_factory (Some f) reg = Inr reg'"
  shows "rule_find reg (factory_type f) = None" "reg' = map_insert (factory_type f) f reg"
    "is_valid_rule_type (factory_type f)" "rule_descriptor_type (factory_descriptor f) = factory_type f"
  using assms by (auto simp: register_factory_def validate_descriptor_def Let_def split: if_splits)

lemma register_factory_ok:
  assumes "rule_registry_ok reg" "register_factory (Some f) reg = Inr reg'"
  shows "rule_registry_ok reg'"
  using assms(1) register_factory_Some [OF assms(2)] set_map_insert_subset [of "factory_type f" f reg]
  by (auto simp: rule_registry_ok_def list_all_iff keys_sorted_insert)

interpretation rule_factories: named_registry rule_find "\<lambda>f. register_factory (Some f)" factory_type
  "[]" rule_registry_ok rule_types
proof (unfold_locales, goal_cases)
  case 1
  then show ?case by (simp add: rule_registry_ok_def)
next
  case (2 n)
  then show ?case by (simp add: rule_find_def)
next
  case (3 r v r')
  then show ?case using register_factory_Some(1) by blast
next
  case (4 r v r' n)
  then show ?case using register_factory_Some(2) [OF 4(2)] by (simp add: rule_find_def)
next
  case (5 r v r')
  then show ?case using register_factory_ok by blast
next
  case (6 r n)
  then show ?case by (simp add: rule_types_def rule_find_def map_of_eq_None_iff)
qed

lemma register_factories_all: "register_factories fs reg = rule_factories.add_all fs reg"
  by (induction fs arbitrary: reg) (auto intro!: arg_cong2 [where f=res_bind])

lemma compile_rules_spec:
  "compile_rules reg h ids ds = Inr rules \<Longrightarrow>
     \<exists>cs. rules = map Some cs \<and> map compiled_id cs = map rule_id (filter rule_enabled ds)
       \<and> map compiled_type cs = map rule_type (filter rule_enabled ds)
       \<and> list_all2 (\<lambda>d c. \<exists>f. rule_find reg (rule_type d) = Some f \<and> factory_compile f d h = Inr (Some c))
            (filter rule_enabled ds) cs
       \<and> distinct (map rule_id ds) \<and> set (map rule_id ds) \<inter> ids = {}"
proof (induction reg h ids ds arbitrary: rules rule: compile_rules.induct)
  case (1 reg h ids)
  then show ?case by auto
next
  case (2 reg h ids d ds)
  from "2.prems" have g: "is_valid_rule_id (rule_id d)" "is_valid_rule_type (rule_type d)" "rule_id d \<notin> ids"
    by (auto split: if_splits)
  show ?case
  proof (cases "rule_enabled d")
    case False
    with "2.prems" g have "compile_rules reg h (insert (rule_id d) ids) ds = Inr rules" by (simp add: Let_def)
    from 2(1) [OF _ _ _ refl False this] g False show ?thesis by auto
  next
    case True
    with "2.prems" g obtain f c rest where f: "rule_find reg (rule_type d) = Some f"
      "factory_compile f d h = Inr (Some c)" "compiled_id c = rule_id d" "compiled_type c = rule_type d"
      "compile_rules reg h (insert (rule_id d) ids) ds = Inr rest" "rules = Some c # rest"
      by (auto simp: Let_def split: option.splits if_splits)
    obtain cs where "rest = map Some cs" and cs: "map compiled_id cs = map rule_id (filter rule_enabled ds)
       \<and> map compiled_type cs = map rule_type (filter rule_enabled ds)
       \<and> list_all2 (\<lambda>d c. \<exists>f. rule_find reg (rule_type d) = Some f \<and> factory_compile f d h = Inr (Some c))
            (filter rule_enabled ds) cs
       \<and> distinct (map rule_id ds) \<and> set (map rule_id ds) \<inter> insert (rule_id d) ids = {}"
      using 2(2) [of "insert (rule_id d) ids" f "Some c" c rest] g True f by auto
    then show ?thesis using f True g by (intro exI [of _ "c # cs"]) auto
  qed
qed

lemma list_all2_right: "list_all2 P xs ys \<Longrightarrow> y \<in> set ys \<Longrightarrow> \<exists>x \<in> set xs. P x y"
  by (induction rule: list_all2_induct) auto

text \<open>A compiled pipeline holds one rule for each enabled definition of the profile, in the
  order of the profile, with its id and type and built by the factory registered for that type;
  the ids of the profile are distinct, and there is no null rule.\<close>

theorem compile_pipeline_faithful:
  assumes "compile_pipeline reg ds (Some h) = Inr rules"
  shows "\<exists>cs. rules = map Some cs \<and> map compiled_id cs = map rule_id (filter rule_enabled ds)
    \<and> map compiled_type cs = map rule_type (filter rule_enabled ds)
    \<and> list_all2 (\<lambda>d c. \<exists>f. rule_find reg (rule_type d) = Some f \<and> factory_compile f d h = Inr (Some c))
         (filter rule_enabled ds) cs
    \<and> distinct (map rule_id ds) \<and> length ds \<le> 64"
  using assms compile_rules_spec [of reg h "{}" ds rules] by (auto simp: compile_pipeline_def split: if_splits)

definition chat_handler :: protocol_handler where
  "chat_handler = \<lparr>handler_address = 2, descriptor = chat_descriptor\<rparr>"

definition sample_registry :: rule_registry where
  "sample_registry = [(''remove_field'', remove_field_factory), (''remove_tool'', remove_tool_factory),
     (''set_field'', set_field_factory)]"

lemma builtin_rule_registry_built: "builtin_rule_registry = Inr sample_registry"
proof -
  have "is_valid_rule_type ''set_field''" "is_valid_rule_type ''remove_field''" "is_valid_rule_type ''remove_tool''"
    by code_simp+
  moreover have "validate_descriptor (factory_descriptor set_field_factory) ''set_field'' = Inr ()"
    "validate_descriptor (factory_descriptor remove_field_factory) ''remove_field'' = Inr ()"
    "validate_descriptor (factory_descriptor remove_tool_factory) ''remove_tool'' = Inr ()"
    by code_simp+
  moreover have "factory_type set_field_factory = ''set_field''" "factory_type remove_field_factory = ''remove_field''"
    "factory_type remove_tool_factory = ''remove_tool''"
    by (simp_all add: set_field_factory_def remove_field_factory_def remove_tool_factory_def)
  ultimately show ?thesis
    by (simp add: builtin_rule_registry_def register_factory_def Let_def rule_find_def sample_registry_def)
qed

lemma sample_rules_compile:
  "\<exists>rules. compile_pipeline sample_registry (profile_rules sample_profile) (Some chat_handler) = Inr rules"
proof -
  have ok: "is_valid_rule_id ''r1''" "is_valid_rule_type ''set_field''" by code_simp+
  have "parse_json_pointer ''/model'' = Inr \<lparr>trace_target = ''/model'', tokens = [''model'']\<rparr>" by code_simp
  then show ?thesis
    using ok by (simp add: compile_pipeline_def sample_profile_def Let_def rule_find_def sample_registry_def
        set_field_factory_def set_field_compile_def require_json_protocol_def chat_handler_def chat_descriptor_def
        validate_options_def)
qed

theorem compile_pipeline_faithful_witness:
  "\<exists>rules cs. compile_pipeline sample_registry (profile_rules sample_profile) (Some chat_handler) = Inr rules
     \<and> rules = map Some cs \<and> map compiled_id cs = [''r1'']"
proof -
  obtain rules where r: "compile_pipeline sample_registry (profile_rules sample_profile) (Some chat_handler) = Inr rules"
    using sample_rules_compile by blast
  from compile_pipeline_faithful [OF r] obtain cs where "rules = map Some cs"
    "map compiled_id cs = map rule_id (filter rule_enabled (profile_rules sample_profile))" by blast
  with r show ?thesis by (auto simp: sample_profile_def)
qed

text \<open>The built-in registry is built without an error and finds exactly the three built-in
  factories, each under its own type.\<close>

theorem builtin_rule_registry_exact:
  "\<exists>reg. builtin_rule_registry = Inr reg \<and> rule_types reg = [''remove_field'', ''remove_tool'', ''set_field'']
     \<and> (\<forall>t f. rule_find reg t = Some f \<longleftrightarrow>
          f \<in> {set_field_factory, remove_field_factory, remove_tool_factory} \<and> factory_type f = t)"
proof -
  have "rule_factories.add_all [set_field_factory, remove_field_factory, remove_tool_factory] [] = Inr sample_registry"
    using builtin_rule_registry_built by (simp add: builtin_rule_registry_def register_factories_all)
  from rule_factories.built_lookup [OF this]
  have "rule_find sample_registry t = Some f \<longleftrightarrow>
      f \<in> {set_field_factory, remove_field_factory, remove_tool_factory} \<and> factory_type f = t" for t f by auto
  moreover have "rule_types sample_registry = [''remove_field'', ''remove_tool'', ''set_field'']"
    by (simp add: rule_types_def sample_registry_def)
  ultimately show ?thesis
    using builtin_rule_registry_built by (intro exI [of _ sample_registry]) simp
qed

text \<open>Every rule that a pipeline of the built-in registry holds keeps bodies well formed: members
  stay ordered by distinct names and numbers stay in range.\<close>

theorem builtin_rules_keep_wf:
  assumes "compile_pipeline sample_registry ds (Some h) = Inr rules"
    and "list_all (\<lambda>d. list_all (\<lambda>kv. json_wf (snd kv)) (rule_options d)) ds"
    and "Some c \<in> set rules"
  shows "rule_keeps_wf c"
proof -
  from assms(1) have "compile_rules sample_registry h {} ds = Inr rules"
    by (auto simp: compile_pipeline_def split: if_splits)
  from compile_rules_spec [OF this] obtain cs where cs: "rules = map Some cs"
    "list_all2 (\<lambda>d c. \<exists>f. rule_find sample_registry (rule_type d) = Some f \<and> factory_compile f d h = Inr (Some c))
       (filter rule_enabled ds) cs" by blast
  from cs(1) assms(3) have "c \<in> set cs" by auto
  from list_all2_right [OF cs(2) this] obtain d f where d: "d \<in> set ds" "rule_find sample_registry (rule_type d) = Some f"
    "factory_compile f d h = Inr (Some c)" by auto
  then have "f = set_field_factory \<or> f = remove_field_factory \<or> f = remove_tool_factory"
    by (auto simp: rule_find_def sample_registry_def split: if_splits)
  with d assms(2) show ?thesis
    using set_field_compile_wf [of d h c] remove_field_compile_wf [of d h c] remove_tool_compile_wf [of d h c]
    by (auto simp: set_field_factory_def remove_field_factory_def remove_tool_factory_def list_all_iff)
qed

theorem builtin_rules_keep_wf_witness:
  "\<exists>rules c. compile_pipeline sample_registry (profile_rules sample_profile) (Some chat_handler) = Inr rules
     \<and> Some c \<in> set rules \<and> rule_keeps_wf c"
proof -
  obtain rules where r: "compile_pipeline sample_registry (profile_rules sample_profile) (Some chat_handler) = Inr rules"
    using sample_rules_compile by blast
  then have "compile_rules sample_registry chat_handler {} (profile_rules sample_profile) = Inr rules"
    by (auto simp: compile_pipeline_def split: if_splits)
  from compile_rules_spec [OF this] obtain cs where cs: "rules = map Some cs"
    "map compiled_id cs = map rule_id (filter rule_enabled (profile_rules sample_profile))" by blast
  then obtain c where c: "Some c \<in> set rules" by (cases cs) (auto simp: sample_profile_def)
  have "list_all (\<lambda>d. list_all (\<lambda>kv. json_wf (snd kv)) (rule_options d)) (profile_rules sample_profile)"
    by (simp add: sample_profile_def)
  from builtin_rules_keep_wf [OF r this c] r c show ?thesis by blast
qed

end
