(* ===== verification/Routing.thy ===== *)
theory Routing
  imports Pipeline
begin

text \<open>
  The route table: \<^verbatim>\<open>src/routing/route_table.cpp\<close>. Routes are kept by canonical path and then by
  method; the two unordered maps of the code are ordered here, since their order is not
  observed. A null profile or handler is \<^term>\<open>None\<close>. Shown here: the table is a keyed
  store on (method, canonical path), a lookup finds exactly the routes that were added however
  the request spells the path, the methods reported for a known path are exactly those
  with a route, and no route lies in the management namespace.
\<close>

record runtime_profile =
  profile_id :: string
  handler :: "protocol_handler option"
  source_enabled :: bool
  request_pipeline :: "compiled_rule option list option"

datatype route_kind = RequestRoute | UsageRoute

record upstream_target =
  target_base_url :: string
  target_path :: string

record route_entry =
  route_profile :: "runtime_profile option"
  kind :: route_kind
  route_method :: string
  local_path :: string
  target :: upstream_target

datatype route_lookup_status = Matched | MethodNotAllowed | NotFound | InvalidPath

record route_lookup =
  lookup_status :: route_lookup_status
  lookup_entry :: "route_entry option"
  canonical_path :: string
  allowed_methods :: "string list"
  lookup_error :: string

record path_routes =
  by_method :: "(string \<times> route_entry) list"
  path_methods :: "string list"

record route_table =
  routes_by_path :: "(string \<times> path_routes) list"
  table_size :: nat

fun route_kind_name :: "route_kind \<Rightarrow> string" where
  "route_kind_name UsageRoute = ''usage''"
| "route_kind_name RequestRoute = ''request''"

definition empty_route_table :: route_table where
  "empty_route_table = \<lparr>routes_by_path = [], table_size = 0\<rparr>"

fun str_insort :: "string \<Rightarrow> string list \<Rightarrow> string list" where
  "str_insort x [] = [x]"
| "str_insort x (y # ys) = (if str_less y x then y # str_insort x ys else x # y # ys)"

definition sort_strings :: "string list \<Rightarrow> string list" where
  "sort_strings xs = foldr str_insort xs []"

definition entry_profile_id :: "route_entry \<Rightarrow> string" where
  "entry_profile_id e = (case route_profile e of None \<Rightarrow> [] | Some p \<Rightarrow> profile_id p)"

text \<open>The checks before the table is touched: the canonical path of the route.\<close>

definition check_route :: "route_entry \<Rightarrow> string res" where
  "check_route entry =
     (case route_profile entry of
        None \<Rightarrow> Inl ''route must reference an immutable runtime profile''
      | Some p \<Rightarrow>
          if handler p = None then Inl (''runtime profile '' @ profile_id p @ '' has no protocol handler'')
          else if \<not> valid_method (route_method entry) then Inl ''route method must be an uppercase HTTP token''
          else (case canonicalize_http_path (local_path entry) of
                  Inl e \<Rightarrow> Inl (''invalid local route for profile '' @ profile_id p @ '': '' @ e)
                | Inr canonical \<Rightarrow>
                    if in_management_namespace canonical
                    then Inl (''profile '' @ profile_id p @ '' uses the reserved /_ccs-trans management namespace'')
                    else if target_base_url (target entry) = [] \<or> target_path (target entry) = []
                    then Inl (''route for profile '' @ profile_id p @ '' has an incomplete upstream target'')
                    else Inr canonical))"

definition path_routes_at :: "route_table \<Rightarrow> string \<Rightarrow> path_routes" where
  "path_routes_at rt canonical =
     (case map_of (routes_by_path rt) canonical of None \<Rightarrow> \<lparr>by_method = [], path_methods = []\<rparr> | Some p \<Rightarrow> p)"

definition route_add :: "route_entry \<Rightarrow> route_table \<Rightarrow> route_table res" where
  "route_add entry rt =
     res_bind (check_route entry) (\<lambda>canonical.
       let entry = entry\<lparr>local_path := canonical\<rparr>;
           m = route_method entry;
           paths = path_routes_at rt canonical
       in (case map_of (by_method paths) m of
             Some existing \<Rightarrow>
               Inl (''route collision for '' @ m @ '' '' @ canonical @ '' between profiles ''
                    @ entry_profile_id existing @ '' and '' @ entry_profile_id entry)
           | None \<Rightarrow>
               Inr \<lparr>routes_by_path = map_insert canonical
                      \<lparr>by_method = map_insert m entry (by_method paths),
                       path_methods = sort_strings (path_methods paths @ [m])\<rparr> (routes_by_path rt),
                    table_size = table_size rt + 1\<rparr>))"

definition lookup_result :: "route_lookup_status \<Rightarrow> string \<Rightarrow> route_lookup" where
  "lookup_result status canonical =
     \<lparr>lookup_status = status, lookup_entry = None, canonical_path = canonical, allowed_methods = [], lookup_error = []\<rparr>"

definition route_lookup :: "route_table \<Rightarrow> string \<Rightarrow> string \<Rightarrow> route_lookup" where
  "route_lookup rt m path =
     (case canonicalize_http_path path of
        Inl e \<Rightarrow> (lookup_result InvalidPath [])\<lparr>lookup_error := e\<rparr>
      | Inr canonical \<Rightarrow>
          (case map_of (routes_by_path rt) canonical of
             None \<Rightarrow> lookup_result NotFound canonical
           | Some paths \<Rightarrow>
               (case map_of (by_method paths) m of
                  Some e \<Rightarrow> (lookup_result Matched canonical)\<lparr>lookup_entry := Some e\<rparr>
                | None \<Rightarrow> (lookup_result MethodNotAllowed canonical)\<lparr>allowed_methods := path_methods paths\<rparr>)))"

text \<open>Adding a list of routes, up to the first that is refused.\<close>

fun route_add_all :: "route_entry list \<Rightarrow> route_table \<Rightarrow> route_table res" where
  "route_add_all [] rt = Inr rt"
| "route_add_all (e # es) rt = res_bind (route_add e rt) (route_add_all es)"

section \<open>The table as a keyed store\<close>

definition route_find :: "route_table \<Rightarrow> string \<times> string \<Rightarrow> route_entry option" where
  "route_find rt k =
     (case map_of (routes_by_path rt) (snd k) of None \<Rightarrow> None | Some p \<Rightarrow> map_of (by_method p) (fst k))"

definition canonical_of :: "string \<Rightarrow> string" where
  "canonical_of path = (case canonicalize_http_path path of Inl _ \<Rightarrow> [] | Inr c \<Rightarrow> c)"

definition route_key :: "route_entry \<Rightarrow> string \<times> string" where
  "route_key e = (route_method e, canonical_of (local_path e))"

definition route_stored :: "route_entry \<Rightarrow> route_entry" where
  "route_stored e = e\<lparr>local_path := canonical_of (local_path e)\<rparr>"

text \<open>Every path of the table has a route, its methods are listed in order, and the size counts the
  routes.\<close>

definition path_ok :: "path_routes \<Rightarrow> bool" where
  "path_ok p \<longleftrightarrow> by_method p \<noteq> [] \<and> keys_sorted (by_method p) \<and> path_methods p = map fst (by_method p)"

definition table_ok :: "route_table \<Rightarrow> bool" where
  "table_ok rt \<longleftrightarrow> keys_sorted (routes_by_path rt) \<and> list_all (\<lambda>kv. path_ok (snd kv)) (routes_by_path rt)
     \<and> table_size rt = sum_list (map (\<lambda>kv. length (by_method (snd kv))) (routes_by_path rt))"

lemma sort_strings_sorted: "sorted_wrt str_less xs \<Longrightarrow> sort_strings xs = xs"
proof (induction xs)
  case (Cons x xs)
  then have "sort_strings xs = xs" by simp
  moreover have "str_insort x xs = x # xs"
  proof (cases xs)
    case (Cons y ys)
    with Cons.prems have "str_less x y" by simp
    then have "\<not> str_less y x" using str_less_trans [of x y x] by auto
    with Cons show ?thesis by simp
  qed simp
  ultimately show ?case by (simp add: sort_strings_def)
qed (simp add: sort_strings_def)

lemma str_insort_keys:
  "x \<notin> fst ` set kvs \<Longrightarrow> str_insort x (map fst kvs) = map fst (map_insert x v kvs)"
proof (induction x v kvs rule: map_insert.induct)
  case (2 k v k' v' kvs)
  then show ?case using str_less_linear [of k k'] str_less_trans [of k k' k] by auto
qed simp

lemma str_insort_commute:
  "x \<noteq> y \<Longrightarrow> str_insort x (str_insort y zs) = str_insort y (str_insort x zs)"
proof (induction zs)
  case Nil
  then show ?case using str_less_linear [of x y] str_less_trans [of x y x] by auto
next
  case (Cons z zs)
  have t: "str_less a b \<Longrightarrow> \<not> str_less b a" for a b using str_less_trans [of a b a] by auto
  from Cons show ?case
    using str_less_linear [of x y] str_less_linear [of x z] str_less_linear [of y z]
      str_less_trans [of x y z] str_less_trans [of y x z] str_less_trans [of z x y] str_less_trans [of z y x]
    by (auto dest: t)
qed

lemma sort_strings_snoc: "x \<notin> set xs \<Longrightarrow> sort_strings (xs @ [x]) = str_insort x (sort_strings xs)"
proof (induction xs)
  case (Cons y ys)
  then have "y \<noteq> x" by auto
  with Cons show ?case by (simp add: sort_strings_def str_insort_commute [of y x])
qed (simp add: sort_strings_def)

lemma sorted_snoc_keys:
  assumes "keys_sorted kvs" "x \<notin> fst ` set kvs"
  shows "sort_strings (map fst kvs @ [x]) = map fst (map_insert x v kvs)"
  using assms by (simp add: sort_strings_snoc sort_strings_sorted keys_sorted_def str_insort_keys)

lemma length_map_insert: "k \<notin> fst ` set kvs \<Longrightarrow> length (map_insert k v kvs) = Suc (length kvs)"
  by (induction k v kvs rule: map_insert.induct) auto

lemma sum_map_insert:
  fixes f :: "string \<times> 'a \<Rightarrow> nat"
  assumes "keys_sorted kvs"
  shows "sum_list (map f (map_insert k v kvs)) + (case map_of kvs k of None \<Rightarrow> 0 | Some w \<Rightarrow> f (k, w))
    = sum_list (map f kvs) + f (k, v)"
  using assms
proof (induction k v kvs rule: map_insert.induct)
  case (2 k v k' v' kvs)
  have less: "str_less k k' \<Longrightarrow> map_of kvs k = None"
    using "2.prems" str_less_trans [of k k' k] by (auto simp: keys_sorted_Cons map_of_eq_None_iff)
  from 2 less show ?case by (auto simp: keys_sorted_Cons)
qed simp

lemma check_route_canonical:
  "check_route e = Inr c \<Longrightarrow> canonicalize_http_path (local_path e) = Inr c \<and> canonical_of (local_path e) = c
     \<and> \<not> in_management_namespace c \<and> valid_method (route_method e) \<and> route_profile e \<noteq> None"
  by (auto simp: check_route_def canonical_of_def split: option.splits if_splits sum.splits)

lemma route_add_Inr:
  assumes "route_add e rt = Inr rt'"
  obtains c where "check_route e = Inr c" "canonical_of (local_path e) = c"
    "map_of (by_method (path_routes_at rt c)) (route_method e) = None"
    "rt' = \<lparr>routes_by_path = map_insert c
        \<lparr>by_method = map_insert (route_method e) (route_stored e) (by_method (path_routes_at rt c)),
         path_methods = sort_strings (path_methods (path_routes_at rt c) @ [route_method e])\<rparr> (routes_by_path rt),
      table_size = table_size rt + 1\<rparr>"
proof -
  from assms obtain c where c: "check_route e = Inr c" by (auto simp: route_add_def)
  note cc = check_route_canonical [OF c]
  from assms c cc show ?thesis
    by (intro that [of c]) (auto simp: route_add_def Let_def route_stored_def split: option.splits)
qed

lemma path_routes_at_ok:
  assumes "table_ok rt"
  shows "keys_sorted (by_method (path_routes_at rt c)) \<and>
    path_methods (path_routes_at rt c) = map fst (by_method (path_routes_at rt c))"
  using assms by (auto simp: path_routes_at_def table_ok_def path_ok_def list_all_iff split: option.splits dest!: map_of_SomeD)

lemma route_add_ok:
  assumes "table_ok rt" "route_add e rt = Inr rt'"
  shows "table_ok rt'"
proof -
  obtain c where c: "map_of (by_method (path_routes_at rt c)) (route_method e) = None"
    "rt' = \<lparr>routes_by_path = map_insert c
        \<lparr>by_method = map_insert (route_method e) (route_stored e) (by_method (path_routes_at rt c)),
         path_methods = sort_strings (path_methods (path_routes_at rt c) @ [route_method e])\<rparr> (routes_by_path rt),
      table_size = table_size rt + 1\<rparr>"
    by (rule route_add_Inr [OF assms(2)]) blast
  let ?p = "path_routes_at rt c"
  let ?new = "\<lparr>by_method = map_insert (route_method e) (route_stored e) (by_method ?p),
      path_methods = sort_strings (path_methods ?p @ [route_method e])\<rparr>"
  note p = path_routes_at_ok [OF assms(1), of c]
  from c(1) have fresh: "route_method e \<notin> fst ` set (by_method ?p)" by (simp add: map_of_eq_None_iff)
  then have ne: "map_insert (route_method e) (route_stored e) (by_method ?p) \<noteq> []"
    using length_map_insert [OF fresh, of "route_stored e"] by auto
  have new: "path_ok ?new"
    using p fresh ne sorted_snoc_keys [of "by_method ?p" "route_method e" "route_stored e"]
    by (simp add: path_ok_def keys_sorted_insert)
  have "sum_list (map (\<lambda>kv. length (by_method (snd kv))) (map_insert c ?new (routes_by_path rt)))
      = table_size rt + 1"
    using sum_map_insert [of "routes_by_path rt" "\<lambda>kv. length (by_method (snd kv))" c ?new] assms(1)
      length_map_insert [OF fresh, of "route_stored e"]
    by (auto simp: table_ok_def path_routes_at_def split: option.splits)
  with assms(1) new set_map_insert_subset [of c ?new "routes_by_path rt"] show ?thesis
    unfolding c(2) by (auto simp: table_ok_def keys_sorted_insert list_all_iff)
qed

lemma route_find_add:
  assumes "route_add e rt = Inr rt'"
  shows "route_find rt (route_key e) = None"
    and "route_find rt' k = (if k = route_key e then Some (route_stored e) else route_find rt k)"
proof -
  obtain c where c: "canonical_of (local_path e) = c" "map_of (by_method (path_routes_at rt c)) (route_method e) = None"
    "rt' = \<lparr>routes_by_path = map_insert c
        \<lparr>by_method = map_insert (route_method e) (route_stored e) (by_method (path_routes_at rt c)),
         path_methods = sort_strings (path_methods (path_routes_at rt c) @ [route_method e])\<rparr> (routes_by_path rt),
      table_size = table_size rt + 1\<rparr>"
    by (rule route_add_Inr [OF assms]) blast
  have "route_key e = (route_method e, c)" by (simp add: route_key_def c)
  with c show "route_find rt (route_key e) = None"
    "route_find rt' k = (if k = route_key e then Some (route_stored e) else route_find rt k)"
    by (cases k; auto simp: route_find_def path_routes_at_def split: option.splits)+
qed

interpretation routes: keyed_store route_find route_add route_key route_stored empty_route_table table_ok
proof (unfold_locales, goal_cases)
  case 1
  then show ?case by (simp add: table_ok_def empty_route_table_def)
next
  case (2 k)
  then show ?case by (simp add: route_find_def empty_route_table_def)
next
  case (3 r e r')
  then show ?case by (simp add: route_find_add)
next
  case (4 r e r' k)
  then show ?case by (simp add: route_find_add(2))
next
  case (5 r e r')
  then show ?case by (rule route_add_ok)
qed

lemma route_add_all_eq: "route_add_all es rt = routes.add_all es rt"
  by (induction es arbitrary: rt) (auto intro!: arg_cong2 [where f=res_bind])

section \<open>Lookups\<close>

lemma path_known:
  assumes "table_ok rt" "map_of (routes_by_path rt) c = Some p"
  shows "path_methods p = map fst (by_method p) \<and> keys_sorted (by_method p) \<and> by_method p \<noteq> []"
  using assms by (auto simp: table_ok_def path_ok_def list_all_iff dest!: map_of_SomeD)

lemma route_lookup_find:
  "canonicalize_http_path path = Inr c \<Longrightarrow>
     lookup_status (route_lookup rt m path) = Matched \<and> lookup_entry (route_lookup rt m path) = Some e
       \<longleftrightarrow> route_find rt (m, c) = Some e"
  by (auto simp: route_lookup_def lookup_result_def route_find_def split: option.splits)

lemma route_lookup_matched_path:
  "lookup_status (route_lookup rt m path) = Matched \<Longrightarrow>
     \<exists>c e. canonicalize_http_path path = Inr c \<and> lookup_entry (route_lookup rt m path) = Some e"
  by (auto simp: route_lookup_def lookup_result_def split: option.splits sum.splits)

lemma route_lookup_spec:
  assumes added: "route_add_all es empty_route_table = Inr rt"
  shows "case canonicalize_http_path path of
      Inl err \<Rightarrow> lookup_status (route_lookup rt m path) = InvalidPath \<and> lookup_error (route_lookup rt m path) = err
    | Inr c \<Rightarrow>
        (\<forall>e. lookup_status (route_lookup rt m path) = Matched \<and> lookup_entry (route_lookup rt m path) = Some e
           \<longleftrightarrow> (\<exists>e0 \<in> set es. route_key e0 = (m, c) \<and> route_stored e0 = e))
        \<and> (lookup_status (route_lookup rt m path) = MethodNotAllowed \<longleftrightarrow>
             (\<exists>e \<in> set es. snd (route_key e) = c) \<and> (\<nexists>e. e \<in> set es \<and> route_key e = (m, c)))
        \<and> (lookup_status (route_lookup rt m path) = MethodNotAllowed \<longrightarrow>
             set (allowed_methods (route_lookup rt m path)) = {m'. \<exists>e \<in> set es. route_key e = (m', c)}
             \<and> sorted_wrt str_less (allowed_methods (route_lookup rt m path)))
        \<and> (lookup_status (route_lookup rt m path) = NotFound \<longleftrightarrow> (\<nexists>e. e \<in> set es \<and> snd (route_key e) = c))"
proof (cases "canonicalize_http_path path")
  case (Inl err)
  then show ?thesis by (simp add: route_lookup_def lookup_result_def)
next
  case (Inr c)
  note assm = added [unfolded route_add_all_eq]
  note found = routes.built_lookup [OF assm]
  have ok: "table_ok rt" using routes.built_distinct [OF assm] by blast
  have dom: "route_find rt (m', c) \<noteq> None \<longleftrightarrow> (\<exists>e \<in> set es. route_key e = (m', c))" for m'
    using found [of "(m', c)"] by auto
  show ?thesis
  proof (cases "map_of (routes_by_path rt) c")
    case None
    then have "route_find rt (m', c) = None" for m' by (simp add: route_find_def)
    then have "\<nexists>e. e \<in> set es \<and> snd (route_key e) = c" using dom by (metis prod.collapse)
    with Inr None show ?thesis by (auto simp: route_lookup_def lookup_result_def)
  next
    case (Some p)
    note known = path_known [OF ok Some]
    have at: "route_find rt (m', c) = map_of (by_method p) m'" for m' by (simp add: route_find_def Some)
    have keys: "fst ` set (by_method p) = {m'. \<exists>e \<in> set es. route_key e = (m', c)}"
    proof -
      have "m' \<in> fst ` set (by_method p) \<longleftrightarrow> (\<exists>e \<in> set es. route_key e = (m', c))" for m'
        using dom [of m'] at [of m'] map_of_eq_None_iff [of "by_method p" m'] by auto
      then show ?thesis by auto
    qed
    obtain m0 where "m0 \<in> fst ` set (by_method p)" using known by (cases "by_method p") auto
    then have some: "\<exists>e \<in> set es. snd (route_key e) = c" using keys by force
    show ?thesis
    proof (cases "map_of (by_method p) m")
      case (Some e)
      with Inr \<open>map_of (routes_by_path rt) c = Some p\<close> found [of "(m, c)"] at [of m] some dom [of m] show ?thesis
        by (auto simp: route_lookup_def lookup_result_def)
    next
      case None
      with Inr \<open>map_of (routes_by_path rt) c = Some p\<close> found [of "(m, c)"] at [of m] some dom [of m] known keys show ?thesis
        by (auto simp: route_lookup_def lookup_result_def keys_sorted_def)
    qed
  qed
qed

text \<open>C8: In a table filled from a list of routes a lookup answers for the canonical form of the
  requested path: it matches exactly the route that was added for the method and this path,
  however either side spelt it; it reports "method not allowed" exactly when only other
  methods have a route there, and lists exactly these, in order; and otherwise the path is
  unknown or malformed.\<close>

theorem route_lookup_exact:
  assumes added: "route_add_all es empty_route_table = Inr rt"
  shows "case canonicalize_http_path path of
      Inl err \<Rightarrow> lookup_status (route_lookup rt m path) = InvalidPath \<and> lookup_error (route_lookup rt m path) = err
    | Inr c \<Rightarrow>
        (\<forall>e. lookup_status (route_lookup rt m path) = Matched \<and> lookup_entry (route_lookup rt m path) = Some e
           \<longleftrightarrow> (\<exists>e0 \<in> set es. route_key e0 = (m, c) \<and> route_stored e0 = e))
        \<and> (lookup_status (route_lookup rt m path) = MethodNotAllowed \<longleftrightarrow>
             (\<exists>e \<in> set es. snd (route_key e) = c) \<and> (\<nexists>e. e \<in> set es \<and> route_key e = (m, c)))
        \<and> (lookup_status (route_lookup rt m path) = MethodNotAllowed \<longrightarrow>
             set (allowed_methods (route_lookup rt m path)) = {m'. \<exists>e \<in> set es. route_key e = (m', c)}
             \<and> sorted_wrt str_less (allowed_methods (route_lookup rt m path)))
        \<and> (lookup_status (route_lookup rt m path) = NotFound \<longleftrightarrow> (\<nexists>e. e \<in> set es \<and> snd (route_key e) = c))"
  by (rule route_lookup_spec [OF added])

definition sample_route :: "string \<Rightarrow> string \<Rightarrow> route_entry" where
  "sample_route m path =
     \<lparr>route_profile = Some \<lparr>profile_id = ''main'', handler = Some chat_handler, source_enabled = True, request_pipeline = Some []\<rparr>,
      kind = RequestRoute, route_method = m, local_path = path,
      target = \<lparr>target_base_url = ''https://api.example.com'', target_path = ''/v1''\<rparr>\<rparr>"

lemma sample_routes_added:
  "\<exists>rt. route_add_all [sample_route ''POST'' ''/v1/chat/'', sample_route ''GET'' ''/v1/%63hat''] empty_route_table = Inr rt"
proof -
  have c: "canonicalize_http_path ''/v1/chat/'' = Inr ''/v1/chat''" "canonicalize_http_path ''/v1/%63hat'' = Inr ''/v1/chat''"
    by code_simp+
  moreover have "\<not> in_management_namespace ''/v1/chat''" "valid_method ''POST''" "valid_method ''GET''" by code_simp+
  ultimately show ?thesis
    by (simp add: sample_route_def route_add_def check_route_def path_routes_at_def empty_route_table_def Let_def)
qed

theorem route_lookup_exact_witness:
  "\<exists>rt e. route_add_all [sample_route ''POST'' ''/v1/chat/'', sample_route ''GET'' ''/v1/%63hat''] empty_route_table = Inr rt
     \<and> lookup_status (route_lookup rt ''GET'' ''/v1/chat'') = Matched
     \<and> lookup_entry (route_lookup rt ''GET'' ''/v1/chat'') = Some e \<and> local_path e = ''/v1/chat''"
proof -
  let ?es = "[sample_route ''POST'' ''/v1/chat/'', sample_route ''GET'' ''/v1/%63hat'']"
  let ?e = "route_stored (sample_route ''GET'' ''/v1/%63hat'')"
  obtain rt where rt: "route_add_all ?es empty_route_table = Inr rt" using sample_routes_added by blast
  have c: "canonicalize_http_path ''/v1/chat'' = Inr ''/v1/chat''" "canonicalize_http_path ''/v1/%63hat'' = Inr ''/v1/chat''"
    by code_simp+
  then have k: "route_key (sample_route ''GET'' ''/v1/%63hat'') = (''GET'', ''/v1/chat'')" "local_path ?e = ''/v1/chat''"
    by (simp_all add: route_key_def route_stored_def sample_route_def canonical_of_def)
  have mem: "sample_route ''GET'' ''/v1/%63hat'' \<in> set ?es" by simp
  from route_lookup_exact [OF rt, where path = "''/v1/chat''" and m = "''GET''", unfolded c sum.case, THEN conjunct1, THEN spec, of ?e] k mem
  have "lookup_status (route_lookup rt ''GET'' ''/v1/chat'') = Matched
      \<and> lookup_entry (route_lookup rt ''GET'' ''/v1/chat'') = Some ?e" by blast
  with rt k(2) show ?thesis by blast
qed

text \<open>A table filled from a list of routes has one entry for each of them, no two for the same
  method and canonical path, and none in the management namespace; each stored path is
  canonical. In particular two profiles never share a route.\<close>

theorem route_table_wellformed:
  assumes added: "route_add_all es empty_route_table = Inr rt"
  shows "table_size rt = length es \<and> distinct (map route_key es)
    \<and> (\<forall>e. e \<in> set es \<longrightarrow> canonicalize_http_path (snd (route_key e)) = Inr (snd (route_key e))
         \<and> \<not> in_management_namespace (snd (route_key e)))"
proof -
  have sz: "table_size rt' = table_size r + length es" if "route_add_all es r = Inr rt'" for es r rt'
    using that
  proof (induction es arbitrary: r)
    case (Cons e es)
    then obtain r1 where r1: "route_add e r = Inr r1" "route_add_all es r1 = Inr rt'" by auto
    have "table_size r1 = table_size r + 1" by (rule route_add_Inr [OF r1(1)]) simp
    with Cons.IH [OF r1(2)] show ?case by simp
  qed simp
  have paths: "\<forall>e. e \<in> set es \<longrightarrow> canonicalize_http_path (snd (route_key e)) = Inr (snd (route_key e))
         \<and> \<not> in_management_namespace (snd (route_key e))" if "route_add_all es r = Inr rt'" for es r rt'
    using that
  proof (induction es arbitrary: r)
    case (Cons e es)
    then obtain r1 where r1: "route_add e r = Inr r1" "route_add_all es r1 = Inr rt'" by auto
    then obtain c where "check_route e = Inr c" by (auto simp: route_add_def)
    from check_route_canonical [OF this] canonical_idem have "canonicalize_http_path (snd (route_key e)) = Inr (snd (route_key e))
         \<and> \<not> in_management_namespace (snd (route_key e))" by (auto simp: route_key_def)
    with Cons.IH [OF r1(2)] show ?case by auto
  qed simp
  show ?thesis
    using sz [OF added] paths [OF added] routes.built_distinct [of es rt] added
    by (simp add: route_add_all_eq empty_route_table_def)
qed

theorem route_table_wellformed_witness:
  "\<exists>rt. route_add_all [sample_route ''POST'' ''/v1/chat/'', sample_route ''GET'' ''/v1/%63hat''] empty_route_table = Inr rt
     \<and> table_size rt = 2"
proof -
  obtain rt where rt: "route_add_all [sample_route ''POST'' ''/v1/chat/'', sample_route ''GET'' ''/v1/%63hat''] empty_route_table = Inr rt"
    using sample_routes_added by blast
  then have "table_size rt = 2" using route_table_wellformed [OF rt] by simp
  with rt show ?thesis by blast
qed

end
