(* ===== verification/Compiler.thy ===== *)
theory Compiler
  imports Routing
begin

text \<open>
  The runtime compiler: \<^verbatim>\<open>src/config/runtime_compiler.cpp\<close> turns a configuration document into the
  immutable snapshot that serves requests. It relies on the contracts of the two registries and
  of the route table. Shown here: a snapshot holds exactly the selected profiles, every one
  of their routes is found and leads to its upstream, and nothing else is routed; so a
  document with two enabled profiles on the same route never compiles.
\<close>

record runtime_snapshot =
  snap_application :: application_settings
  snap_log_path :: fs_path
  snap_protocols :: protocol_registry
  snap_rules :: rule_registry
  snap_profiles :: "(string \<times> runtime_profile) list"
  snap_routes :: route_table

text \<open>The profiles to run: one that was asked for, or all that are enabled.\<close>

definition select_profiles :: "config_document \<Rightarrow> string option \<Rightarrow> (string \<times> profile_definition) list res" where
  "select_profiles d selected =
     (case selected of
        Some pid \<Rightarrow>
          (case map_of (profiles d) pid of
             None \<Rightarrow> Inl (''selected profile does not exist: '' @ pid)
           | Some p \<Rightarrow>
               res_map (\<lambda>_. [(pid, p)])
                 (res_label ''selected profile is not runnable: '' (validate_profile_definition pid p True)))
      | None \<Rightarrow> Inr (filter (\<lambda>(_, p). profile_enabled p) (profiles d)))"

definition request_route :: "runtime_profile \<Rightarrow> protocol_handler \<Rightarrow> profile_definition \<Rightarrow> route_entry" where
  "request_route profile h d =
     \<lparr>route_profile = Some profile, kind = RequestRoute, route_method = request_method (descriptor h),
      local_path = the (local_request_path (locals d)),
      target = \<lparr>target_base_url = the (base_url (upstream d)), target_path = the (upstream_request_path (upstream d))\<rparr>\<rparr>"

definition usage_route :: "runtime_profile \<Rightarrow> protocol_handler \<Rightarrow> profile_definition \<Rightarrow> route_entry" where
  "usage_route profile h d =
     \<lparr>route_profile = Some profile, kind = UsageRoute, route_method = usage_method (descriptor h),
      local_path = the (local_usage_path (locals d)),
      target = \<lparr>target_base_url = the (base_url (upstream d)), target_path = the (upstream_usage_path (upstream d))\<rparr>\<rparr>"

text \<open>The optional fields are read without a check: a selected profile is complete.\<close>

definition compile_profile ::
    "protocol_registry \<Rightarrow> rule_registry \<Rightarrow> string \<times> profile_definition
     \<Rightarrow> (string \<times> runtime_profile) list \<times> route_table \<Rightarrow> ((string \<times> runtime_profile) list \<times> route_table) res" where
  "compile_profile protos rules sel acc =
     (let (pid, d) = sel; (profs, rt) = acc; name = the (protocol d) in
      case protocol_find protos name of
        None \<Rightarrow> Inl (''profile '' @ pid @ '' uses unknown protocol: '' @ name)
      | Some h \<Rightarrow>
          res_bind (res_label (''profile '' @ pid @ '': '') (registry_validate_profile protos (Some h) pid d)) (\<lambda>_.
          res_bind (res_label (''profile '' @ pid @ '': '') (compile_pipeline rules (profile_rules d) (Some h))) (\<lambda>pipeline.
            let profile = \<lparr>profile_id = pid, handler = Some h, source_enabled = profile_enabled d, request_pipeline = Some pipeline\<rparr>
            in res_bind (route_add (request_route profile h d) rt) (\<lambda>rt.
                 res_map (\<lambda>rt. (map_emplace pid profile profs, rt))
                   (if local_usage_path (locals d) \<noteq> None then route_add (usage_route profile h d) rt else Inr rt)))))"

fun compile_profiles ::
    "protocol_registry \<Rightarrow> rule_registry \<Rightarrow> (string \<times> profile_definition) list
     \<Rightarrow> (string \<times> runtime_profile) list \<times> route_table \<Rightarrow> ((string \<times> runtime_profile) list \<times> route_table) res" where
  "compile_profiles protos rules [] acc = Inr acc"
| "compile_profiles protos rules (s # ss) acc =
     res_bind (compile_profile protos rules s acc) (compile_profiles protos rules ss)"

definition runtime_compile ::
    "fs_path \<Rightarrow> protocol_registry option \<Rightarrow> rule_registry option \<Rightarrow> config_document \<Rightarrow> string option
     \<Rightarrow> runtime_snapshot res" where
  "runtime_compile root protocols rules d selected =
     (if fs_empty root \<or> \<not> fs_rooted root then Inl ''runtime compiler requires an absolute application root''
      else (case protocols of
        None \<Rightarrow> Inl ''runtime compiler requires a protocol registry''
      | Some protos \<Rightarrow>
        (case rules of
           None \<Rightarrow> Inl ''runtime compiler requires a rule registry''
         | Some rs \<Rightarrow>
           res_bind (validate_config_document d) (\<lambda>_.
           res_bind (select_profiles d selected) (\<lambda>sel.
             if sel = [] then Inl ''no enabled profiles; enable a complete profile or use run --profile''
             else
               res_bind (resolve_application_log_path (application d) root) (\<lambda>log.
               res_map (\<lambda>(profs, rt).
                   \<lparr>snap_application = application d, snap_log_path = log, snap_protocols = protos,
                    snap_rules = rs, snap_profiles = profs, snap_routes = rt\<rparr>)
                 (compile_profiles protos rs sel ([], empty_route_table))))))))"

section \<open>The routes of a snapshot\<close>

text \<open>What is compiled of one profile, and the routes it contributes.\<close>

definition compiled_as ::
    "protocol_registry \<Rightarrow> rule_registry \<Rightarrow> string \<times> profile_definition \<Rightarrow> runtime_profile \<Rightarrow> bool" where
  "compiled_as protos rules sel p \<longleftrightarrow>
     (\<exists>h. protocol_find protos (the (protocol (snd sel))) = Some h \<and> profile_id p = fst sel \<and> handler p = Some h
       \<and> source_enabled p = profile_enabled (snd sel)
       \<and> (\<exists>pl. request_pipeline p = Some pl \<and> compile_pipeline rules (profile_rules (snd sel)) (Some h) = Inr pl))"

definition profile_routes :: "profile_definition \<Rightarrow> runtime_profile \<Rightarrow> route_entry list" where
  "profile_routes d p =
     request_route p (the (handler p)) d
     # (if local_usage_path (locals d) \<noteq> None then [usage_route p (the (handler p)) d] else [])"

lemma route_add_all_append:
  "route_add_all (es @ fs) rt = res_bind (route_add_all es rt) (route_add_all fs)"
proof -
  have "route_add_all = routes.add_all" by (intro ext) (rule route_add_all_eq)
  then show ?thesis using routes.add_all_append [of es fs rt] by simp
qed

lemma compile_profile_routes:
  assumes "compile_profile protos rules sel (profs, rt) = Inr (profs', rt')"
  obtains p where "compiled_as protos rules sel p" "profs' = map_emplace (fst sel) p profs"
    "route_add_all (profile_routes (snd sel) p) rt = Inr rt'"
proof -
  obtain pid d where sel: "sel = (pid, d)" by fastforce
  from assms sel obtain h pipeline where h: "protocol_find protos (the (protocol d)) = Some h"
    "compile_pipeline rules (profile_rules d) (Some h) = Inr pipeline"
    by (auto simp: compile_profile_def Let_def split: option.splits)
  let ?p = "\<lparr>profile_id = pid, handler = Some h, source_enabled = profile_enabled d, request_pipeline = Some pipeline\<rparr>"
  from assms sel h have "profs' = map_emplace pid ?p profs" "route_add_all (profile_routes d ?p) rt = Inr rt'"
    by (auto simp: compile_profile_def Let_def profile_routes_def split: if_splits)
  with h sel show ?thesis by (intro that [of ?p]) (simp_all add: compiled_as_def)
qed

lemma compile_profiles_routes:
  "compile_profiles protos rules sel (profs, rt) = Inr (profs', rt') \<Longrightarrow>
     \<exists>ps. list_all2 (compiled_as protos rules) sel ps
       \<and> route_add_all (concat (map2 (\<lambda>s p. profile_routes (snd s) p) sel ps)) rt = Inr rt'
       \<and> profs' = foldl (\<lambda>m (k, v). map_emplace k v m) profs (map2 (\<lambda>s p. (fst s, p)) sel ps)"
proof (induction sel arbitrary: profs rt)
  case (Cons s sel)
  then obtain acc where acc: "compile_profile protos rules s (profs, rt) = Inr acc"
    "compile_profiles protos rules sel acc = Inr (profs', rt')" by auto
  obtain profs1 rt1 where a: "acc = (profs1, rt1)" by fastforce
  obtain p where p: "compiled_as protos rules s p" "profs1 = map_emplace (fst s) p profs"
    "route_add_all (profile_routes (snd s) p) rt = Inr rt1"
    by (rule compile_profile_routes [OF acc(1) [unfolded a]])
  from Cons.IH [OF acc(2) [unfolded a]] obtain ps where ps: "list_all2 (compiled_as protos rules) sel ps"
    "route_add_all (concat (map2 (\<lambda>s p. profile_routes (snd s) p) sel ps)) rt1 = Inr rt'"
    "profs' = foldl (\<lambda>m (k, v). map_emplace k v m) profs1 (map2 (\<lambda>s p. (fst s, p)) sel ps)" by blast
  with p show ?case by (intro exI [of _ "p # ps"]) (simp add: route_add_all_append)
qed simp

lemma emplace_sorted:
  "keys_sorted kvs \<Longrightarrow> (\<And>a b. a \<in> fst ` set acc \<Longrightarrow> b \<in> fst ` set kvs \<Longrightarrow> str_less a b) \<Longrightarrow>
     foldl (\<lambda>m (k, v). map_emplace k v m) acc kvs = acc @ kvs"
proof (induction kvs arbitrary: acc)
  case (Cons kv kvs)
  obtain k v where kv: "kv = (k, v)" by fastforce
  have "map_emplace k v acc = acc @ [(k, v)]" by (rule map_emplace_last) (use Cons.prems kv in auto)
  moreover have "foldl (\<lambda>m (k, v). map_emplace k v m) (acc @ [(k, v)]) kvs = (acc @ [(k, v)]) @ kvs"
  proof (rule Cons.IH)
    show "keys_sorted kvs" using Cons.prems(1) kv by (simp add: keys_sorted_Cons)
    show "str_less a b" if "a \<in> fst ` set (acc @ [(k, v)])" "b \<in> fst ` set kvs" for a b
      using that Cons.prems kv by (auto simp: keys_sorted_Cons)
  qed
  ultimately show ?case by (simp add: kv)
qed simp

lemma select_sorted:
  "keys_sorted (profiles d) \<Longrightarrow> select_profiles d selected = Inr sel \<Longrightarrow> keys_sorted sel"
  by (auto simp: select_profiles_def keys_sorted_filter keys_sorted_Cons split: option.splits)

lemma fst_map2: "length xs = length ys \<Longrightarrow> map fst (map2 (\<lambda>s p. (fst s, p)) xs ys) = map fst xs"
  by (induction xs ys rule: list_induct2) auto

lemma runtime_compile_Inr:
  assumes "runtime_compile root protocols rules d selected = Inr snap"
  obtains protos rs sel ps where "protocols = Some protos" "rules = Some rs"
    "validate_config_document d = Inr ()" "select_profiles d selected = Inr sel" "sel \<noteq> []"
    "resolve_application_log_path (application d) root = Inr (snap_log_path snap)" "fs_rooted root"
    "list_all2 (compiled_as protos rs) sel ps"
    "route_add_all (concat (map2 (\<lambda>s p. profile_routes (snd s) p) sel ps)) empty_route_table = Inr (snap_routes snap)"
    "snap_profiles snap = foldl (\<lambda>m (k, v). map_emplace k v m) [] (map2 (\<lambda>s p. (fst s, p)) sel ps)"
proof -
  from assms obtain protos rs sel log profs rt where c: "protocols = Some protos" "rules = Some rs"
    "validate_config_document d = Inr ()" "select_profiles d selected = Inr sel" "sel \<noteq> []" "fs_rooted root"
    "resolve_application_log_path (application d) root = Inr log"
    "compile_profiles protos rs sel ([], empty_route_table) = Inr (profs, rt)"
    "snap = \<lparr>snap_application = application d, snap_log_path = log, snap_protocols = protos,
                    snap_rules = rs, snap_profiles = profs, snap_routes = rt\<rparr>"
    by (auto simp: runtime_compile_def split: if_splits option.splits)
  from compile_profiles_routes [OF c(8)] c show ?thesis by (auto intro: that)
qed

lemma selected_ok:
  assumes "validate_config_document d = Inr ()" "select_profiles d selected = Inr sel" "(pid, p) \<in> set sel"
  shows "profile_sound pid p \<and> profile_complete p"
proof (cases selected)
  case None
  with assms(2,3) have "(pid, p) \<in> set (profiles d)" "profile_enabled p" by (auto simp: select_profiles_def)
  with validate_profile_ok [OF validate_config_document_ok(3) [OF assms(1) this(1)]] show ?thesis by simp
next
  case (Some i)
  with assms(2,3) have "validate_profile_definition_impl pid p True = Inr ()"
    by (auto simp: select_profiles_def validate_profile_definition_def split: option.splits)
  from validate_profile_ok [OF this] show ?thesis by simp
qed

lemma map2_nth_mem: "i < length xs \<Longrightarrow> length xs = length ys \<Longrightarrow> f (xs ! i) (ys ! i) \<in> set (map2 f xs ys)"
  using nth_mem [of i "map2 f xs ys"] by simp

lemma set_concat_map2:
  assumes "length xs = length ys"
  shows "r \<in> set (concat (map2 f xs ys)) \<longleftrightarrow> (\<exists>i < length xs. r \<in> set (f (xs ! i) (ys ! i)))"
proof -
  have "map2 f xs ys = map (\<lambda>i. f (xs ! i) (ys ! i)) [0..<length xs]"
    by (rule nth_equalityI) (use assms in auto)
  then show ?thesis by auto
qed

text \<open>The routes of the snapshot, seen through its table.\<close>

lemma snapshot_route_find:
  assumes "route_add_all (concat (map2 (\<lambda>s p. profile_routes (snd s) p) sel ps)) empty_route_table = Inr rt"
    and "length sel = length ps"
  shows "route_find rt k = Some e \<longleftrightarrow>
    (\<exists>i r. i < length sel \<and> r \<in> set (profile_routes (snd (sel ! i)) (ps ! i)) \<and> route_key r = k \<and> route_stored r = e)"
  unfolding routes.built_lookup [OF assms(1) [unfolded route_add_all_eq], of k e]
  using set_concat_map2 [OF assms(2), of _ "\<lambda>s p. profile_routes (snd s) p"] by blast


text \<open>A compiled snapshot routes nothing but its profiles: a request that matches leads to a profile
  that was selected, to its request or its usage upstream, and the path it asked for is the
  canonical form of the local path that this profile configures for it, outside the
  management namespace.\<close>

theorem compile_routes_only_selected:
  assumes "runtime_compile root protocols rules d selected = Inr snap"
    and "lookup_status (route_lookup (snap_routes snap) m path) = Matched"
  shows "\<exists>sel pid p rp e. select_profiles d selected = Inr sel \<and> (pid, p) \<in> set sel
    \<and> lookup_entry (route_lookup (snap_routes snap) m path) = Some e
    \<and> route_profile e = Some rp \<and> profile_id rp = pid
    \<and> canonicalize_http_path path = Inr (local_path e) \<and> \<not> in_management_namespace (local_path e)
    \<and> (case kind e of
         RequestRoute \<Rightarrow> target_path (target e) = the (upstream_request_path (upstream p))
           \<and> canonicalize_http_path (the (local_request_path (locals p))) = Inr (local_path e)
       | UsageRoute \<Rightarrow> target_path (target e) = the (upstream_usage_path (upstream p))
           \<and> canonicalize_http_path (the (local_usage_path (locals p))) = Inr (local_path e))
    \<and> target_base_url (target e) = the (base_url (upstream p))"
proof -
  obtain protos rs sel ps where c: "validate_config_document d = Inr ()" "select_profiles d selected = Inr sel"
    "list_all2 (compiled_as protos rs) sel ps"
    "route_add_all (concat (map2 (\<lambda>s p. profile_routes (snd s) p) sel ps)) empty_route_table = Inr (snap_routes snap)"
    by (rule runtime_compile_Inr [OF assms(1)]) blast
  have len: "length sel = length ps" using c(3) by (rule list_all2_lengthD)
  obtain cp e where e: "canonicalize_http_path path = Inr cp"
    "lookup_entry (route_lookup (snap_routes snap) m path) = Some e"
    using route_lookup_matched_path [OF assms(2)] by blast
  with assms(2) have "route_find (snap_routes snap) (m, cp) = Some e" by (simp add: route_lookup_find [symmetric])
  then obtain i r where i: "i < length sel" "r \<in> set (profile_routes (snd (sel ! i)) (ps ! i))"
    "route_key r = (m, cp)" "route_stored r = e"
    unfolding snapshot_route_find [OF c(4) len] by blast
  obtain pid p where s: "sel ! i = (pid, p)" by fastforce
  with i(1) have mem: "(pid, p) \<in> set sel" by (metis nth_mem)
  from list_all2_nthD [OF c(3) i(1)] s have rp: "profile_id (ps ! i) = pid" by (auto simp: compiled_as_def)
  note ok = selected_ok [OF c(1,2) mem]
  have canon: "canonicalize_http_path s' = Inr (canonical_of s') \<and> \<not> in_management_namespace (canonical_of s')"
    if "routable True s'" for s' using that by (auto simp: routable_def canonical_of_def split: sum.splits)
  from ok have paths: "routable True (the (local_request_path (locals p)))"
    "local_usage_path (locals p) \<noteq> None \<Longrightarrow> routable True (the (local_usage_path (locals p)))"
    by (auto simp: profile_sound_def profile_complete_def)
  from i(2) s consider (req) "r = request_route (ps ! i) (the (handler (ps ! i))) p"
    | (use) "local_usage_path (locals p) \<noteq> None" "r = usage_route (ps ! i) (the (handler (ps ! i))) p"
    by (auto simp: profile_routes_def split: if_splits)
  then show ?thesis
  proof cases
    case req
    with i(3,4) canon [OF paths(1)] c(2) mem rp e show ?thesis
      by (intro exI [of _ sel] exI [of _ pid] exI [of _ p] exI [of _ "ps ! i"] exI [of _ e])
        (auto simp: route_stored_def request_route_def route_key_def)
  next
    case use
    with i(3,4) canon [OF paths(2)] c(2) mem rp e show ?thesis
      by (intro exI [of _ sel] exI [of _ pid] exI [of _ p] exI [of _ "ps ! i"] exI [of _ e])
        (auto simp: route_stored_def usage_route_def route_key_def)
  qed
qed

section \<open>An example\<close>

definition sample_protocols :: protocol_registry where
  "sample_protocols = \<lparr>handlers = [(''chat'', chat_handler)], known_specialized = {''remove_tool''}\<rparr>"

lemma sample_compiles:
  "\<exists>snap. runtime_compile (fs_of_string ''/opt'') (Some sample_protocols) (Some sample_registry) sample_document None = Inr snap"
proof -
  have root: "fs_rooted (fs_of_string ''/opt'')" "\<not> fs_empty (fs_of_string ''/opt'')" by code_simp+
  obtain log where log: "resolve_application_log_path (application sample_document) (fs_of_string ''/opt'') = Inr log"
  proof -
    have "resolve_application_log_path default_application_settings (fs_of_string ''/opt'')
      = Inr (fs_of_string ''/opt/logs/ccs-trans.log'')" by code_simp
    then show ?thesis by (intro that) (simp add: sample_document_def make_default_config_document_def)
  qed
  have sel: "select_profiles sample_document None = Inr [(''main'', sample_profile)]"
    by (simp add: select_profiles_def sample_document_def sample_profile_def)
  have find: "protocol_find sample_protocols (the (protocol sample_profile)) = Some chat_handler"
    by (simp add: protocol_find_def sample_protocols_def sample_profile_def)
  have valid: "registry_validate_profile sample_protocols (Some chat_handler) ''main'' sample_profile = Inr ()"
  proof -
    have "validate_profile_definition ''main'' sample_profile True = Inr ()" by code_simp
    then show ?thesis
      by (simp add: registry_validate_profile_def handler_validate_profile_def protocol_find_def sample_protocols_def
          handler_id_def chat_handler_def chat_descriptor_def sample_profile_def empty_profile_def is_known_specialized_rule_def)
  qed
  obtain rules where rules: "compile_pipeline sample_registry (profile_rules sample_profile) (Some chat_handler) = Inr rules"
    using sample_rules_compile by blast
  have "canonicalize_http_path ''/v1/chat'' = Inr ''/v1/chat''" "\<not> in_management_namespace ''/v1/chat''" "valid_method ''POST''"
    by code_simp+
  then have "\<exists>rt. route_add (request_route \<lparr>profile_id = ''main'', handler = Some chat_handler,
      source_enabled = profile_enabled sample_profile, request_pipeline = Some rules\<rparr> chat_handler sample_profile) empty_route_table = Inr rt"
    by (simp add: route_add_def check_route_def request_route_def path_routes_at_def empty_route_table_def Let_def
        chat_handler_def chat_descriptor_def sample_profile_def empty_profile_def)
  then obtain rt where "compile_profile sample_protocols sample_registry (''main'', sample_profile) ([], empty_route_table)
      = Inr (map_emplace ''main'' \<lparr>profile_id = ''main'', handler = Some chat_handler,
          source_enabled = profile_enabled sample_profile, request_pipeline = Some rules\<rparr> [], rt)"
    using find valid rules
    by (fastforce simp: compile_profile_def Let_def sample_profile_def empty_profile_def)
  with root log sel sample_document_valid show ?thesis by (simp add: runtime_compile_def)
qed


lemma sample_lookup:
  "\<exists>snap (h :: protocol_handler). runtime_compile (fs_of_string ''/opt'') (Some sample_protocols) (Some sample_registry) sample_document None = Inr snap
     \<and> lookup_status (route_lookup (snap_routes snap) (request_method (descriptor h)) ''/v1/chat'') = Matched"
proof -
  obtain snap where snap: "runtime_compile (fs_of_string ''/opt'') (Some sample_protocols) (Some sample_registry) sample_document None = Inr snap"
    using sample_compiles by blast
  have sel: "select_profiles sample_document None = Inr [(''main'', sample_profile)]"
    by (simp add: select_profiles_def sample_document_def sample_profile_def)
  obtain ps where c: "list_all2 (compiled_as sample_protocols sample_registry) [(''main'', sample_profile)] ps"
    "route_add_all (concat (map2 (\<lambda>s p. profile_routes (snd s) p) [(''main'', sample_profile)] ps)) empty_route_table = Inr (snap_routes snap)"
    by (rule runtime_compile_Inr [OF snap]) (use sel in auto)
  from c(1) obtain q where q: "ps = [q]" by (cases ps) auto
  let ?h = "the (handler q)" and ?r = "request_route q (the (handler q)) sample_profile"
  have "canonicalize_http_path ''/v1/chat'' = Inr ''/v1/chat''" by code_simp
  then have "route_find (snap_routes snap) (request_method (descriptor ?h), ''/v1/chat'') = Some (route_stored ?r)"
    using q by (subst snapshot_route_find [OF c(2)])
      (auto simp: profile_routes_def route_key_def request_route_def canonical_of_def sample_profile_def intro!: exI [of _ ?r])
  with \<open>canonicalize_http_path ''/v1/chat'' = Inr ''/v1/chat''\<close> snap show ?thesis
    by (intro exI [of _ snap] exI [of _ ?h]) (simp add: route_lookup_find [symmetric])
qed

theorem compile_routes_only_selected_witness:
  "\<exists>snap (h :: protocol_handler) e (rp :: runtime_profile). runtime_compile (fs_of_string ''/opt'') (Some sample_protocols) (Some sample_registry) sample_document None = Inr snap
     \<and> lookup_entry (route_lookup (snap_routes snap) (request_method (descriptor h)) ''/v1/chat'') = Some e
     \<and> route_profile e = Some rp \<and> profile_id rp = ''main''"
proof -
  obtain snap and h :: protocol_handler where snap: "runtime_compile (fs_of_string ''/opt'') (Some sample_protocols) (Some sample_registry) sample_document None = Inr snap"
    and m: "lookup_status (route_lookup (snap_routes snap) (request_method (descriptor h)) ''/v1/chat'') = Matched"
    using sample_lookup by blast
  have sel: "select_profiles sample_document None = Inr [(''main'', sample_profile)]"
    by (simp add: select_profiles_def sample_document_def sample_profile_def)
  from compile_routes_only_selected [OF snap m] obtain pid and rp :: runtime_profile and e where
    "lookup_entry (route_lookup (snap_routes snap) (request_method (descriptor h)) ''/v1/chat'') = Some e"
    "route_profile e = Some rp" "profile_id rp = pid" "pid = ''main''" using sel by auto
  with snap show ?thesis by blast
qed

end
