(* ===== verification/FrameCodec.thy ===== *)
theory FrameCodec
  imports Prelude
begin

text \<open>
  Framing of the GUI pipe (\<^verbatim>\<open>gui_ipc/frame_codec.cpp\<close>): a frame is a four byte little-endian
  length and a UTF-8 payload. The theory holds the UTF-8 check, the encoder and the incremental
  decoder with its buffer, offset and failure flag. Bytes are 8-bit words. The results relate the
  decoder, fed with any chunks, to a specification that cuts the whole stream at once; they bound
  the buffer; and they characterise the accepted byte sequences as the UTF-8 encodings of Unicode
  scalar values.
\<close>

unbundle bit_operations_syntax

section \<open>Model\<close>

type_synonym bytes = "u8 list"

datatype frame_error =
  NoError | EmptyPayload | TooLarge | InvalidUtf8 | Incomplete | DecoderFailed

fun frame_error_name :: "frame_error \<Rightarrow> string" where
  "frame_error_name NoError = ''none''"
| "frame_error_name EmptyPayload = ''empty_payload''"
| "frame_error_name TooLarge = ''too_large''"
| "frame_error_name InvalidUtf8 = ''invalid_utf8''"
| "frame_error_name Incomplete = ''incomplete''"
| "frame_error_name DecoderFailed = ''decoder_failed''"

definition kMaximumFrameBytes :: nat where
  "kMaximumFrameBytes = 16 * 1024 * 1024"

definition read_little_endian_length :: "bytes \<Rightarrow> u32" where
  "read_little_endian_length bs =
     ucast (bs ! 0) OR push_bit 8 (ucast (bs ! 1)) OR push_bit 16 (ucast (bs ! 2))
       OR push_bit 24 (ucast (bs ! 3))"

definition continuation :: "u8 \<Rightarrow> bool" where
  "continuation b \<longleftrightarrow> b AND 0xc0 = 0x80"

text \<open>
  The loop of \<^verbatim>\<open>valid_utf8\<close> moves an index over the content; the argument is the content from the
  index on.
\<close>

fun valid_utf8 :: "bytes \<Rightarrow> bool" where
  "valid_utf8 [] = True"
| "valid_utf8 (first # rest) =
     (if first \<le> 0x7f then valid_utf8 rest
      else if 0xc2 \<le> first \<and> first \<le> 0xdf then
        (case rest of b1 # r \<Rightarrow> continuation b1 \<and> valid_utf8 r | _ \<Rightarrow> False)
      else if 0xe0 \<le> first \<and> first \<le> 0xef then
        (case rest of b1 # b2 # r \<Rightarrow>
           continuation b1 \<and> continuation b2
           \<and> \<not> (first = 0xe0 \<and> b1 < 0xa0 \<or> first = 0xed \<and> b1 \<ge> 0xa0) \<and> valid_utf8 r
         | _ \<Rightarrow> False)
      else if 0xf0 \<le> first \<and> first \<le> 0xf4 then
        (case rest of b1 # b2 # b3 # r \<Rightarrow>
           continuation b1 \<and> continuation b2 \<and> continuation b3
           \<and> \<not> (first = 0xf0 \<and> b1 < 0x90 \<or> first = 0xf4 \<and> b1 \<ge> 0x90) \<and> valid_utf8 r
         | _ \<Rightarrow> False)
      else False)"

definition length_bytes :: "u32 \<Rightarrow> bytes" where
  "length_bytes n = map ucast [n AND 0xff, drop_bit 8 n AND 0xff, drop_bit 16 n AND 0xff, drop_bit 24 n AND 0xff]"

definition encode_frame :: "bytes \<Rightarrow> frame_error + bytes" where
  "encode_frame payload =
     (if payload = [] then Inl EmptyPayload
      else if length payload > kMaximumFrameBytes \<or> length payload > 2 ^ 32 - 1 then Inl TooLarge
      else if \<not> valid_utf8 payload then Inl InvalidUtf8
      else Inr (length_bytes (word_of_nat (length payload)) @ payload))"

record frame_decoder =
  fd_buffer :: bytes
  fd_offset :: nat
  fd_failed :: bool

definition new_decoder :: frame_decoder where
  "new_decoder = \<lparr>fd_buffer = [], fd_offset = 0, fd_failed = False\<rparr>"

definition fail_decoder :: "frame_decoder \<Rightarrow> frame_decoder" where
  "fail_decoder d = d\<lparr>fd_failed := True\<rparr>"

text \<open>The clean-up after the loop of \<^verbatim>\<open>decode_available\<close>.\<close>

definition compact_decoder :: "frame_decoder \<Rightarrow> frame_decoder" where
  "compact_decoder d =
     (if fd_offset d = length (fd_buffer d) then d\<lparr>fd_buffer := [], fd_offset := 0\<rparr>
      else if fd_offset d > 64 * 1024 then
        d\<lparr>fd_buffer := drop (fd_offset d) (fd_buffer d), fd_offset := 0\<rparr>
      else d)"

text \<open>
  The frames are returned in the order they are appended to the vector of the caller; the
  error is \<^term>\<open>NoError\<close> exactly when the C++ function returns true.
\<close>

function decode_available :: "frame_decoder \<Rightarrow> bytes list \<times> frame_error \<times> frame_decoder" where
  "decode_available d =
     (if length (fd_buffer d) - fd_offset d \<ge> 4 then
        (let n = unat (read_little_endian_length (drop (fd_offset d) (fd_buffer d)));
             available = length (fd_buffer d) - fd_offset d - 4;
             view = take n (drop (fd_offset d + 4) (fd_buffer d))
         in if n = 0 then ([], EmptyPayload, fail_decoder d)
            else if n > kMaximumFrameBytes then ([], TooLarge, fail_decoder d)
            else if available < n then ([], NoError, d)
            else if \<not> valid_utf8 view then ([], InvalidUtf8, fail_decoder d)
            else (case decode_available (d\<lparr>fd_offset := fd_offset d + (4 + n)\<rparr>) of
                    (fs, e, d') \<Rightarrow> (view # fs, e, d')))
      else ([], NoError, compact_decoder d))"
  by pat_completeness auto
termination
  by (relation "measure (\<lambda>d. length (fd_buffer d) - fd_offset d)") auto

text \<open>The erasure of the consumed part at the head of the loop of \<^verbatim>\<open>consume\<close>.\<close>

definition erase_consumed :: "frame_decoder \<Rightarrow> frame_decoder" where
  "erase_consumed d =
     (if fd_offset d \<noteq> 0 then d\<lparr>fd_buffer := drop (fd_offset d) (fd_buffer d), fd_offset := 0\<rparr> else d)"

function consume_loop :: "bytes \<Rightarrow> frame_decoder \<Rightarrow> bytes list \<times> frame_error \<times> frame_decoder" where
  "consume_loop bs d =
     (if bs = [] then ([], NoError, d)
      else
        (let d1 = erase_consumed d; maximum = kMaximumFrameBytes + 4
         in if length (fd_buffer d1) > maximum then ([], TooLarge, fail_decoder d1)
            else
              (let count = min (maximum - length (fd_buffer d1)) (length bs);
                   d2 = d1\<lparr>fd_buffer := fd_buffer d1 @ take count bs\<rparr>
               in (case decode_available d2 of (fs, e, d3) \<Rightarrow>
                     if e \<noteq> NoError then (fs, e, d3)
                     else if count = 0 \<and> drop count bs \<noteq> [] then (fs, TooLarge, fail_decoder d3)
                     else (case consume_loop (drop count bs) d3 of
                             (fs', e', d') \<Rightarrow> (fs @ fs', e', d'))))))"
  by pat_completeness auto
termination
  by (relation "measure (\<lambda>(bs, d). length bs)") auto

definition consume :: "bytes \<Rightarrow> frame_decoder \<Rightarrow> bytes list \<times> frame_error \<times> frame_decoder" where
  "consume bs d = (if fd_failed d then ([], DecoderFailed, d) else consume_loop bs d)"

definition finish :: "frame_decoder \<Rightarrow> frame_error" where
  "finish d =
     (if fd_failed d then DecoderFailed
      else if length (fd_buffer d) \<noteq> fd_offset d then Incomplete
      else NoError)"

definition reset :: "frame_decoder \<Rightarrow> frame_decoder" where
  "reset d = d\<lparr>fd_buffer := [], fd_offset := 0, fd_failed := False\<rparr>"

definition buffered_bytes :: "frame_decoder \<Rightarrow> nat" where
  "buffered_bytes d = length (fd_buffer d) - fd_offset d"

declare decode_available.simps [simp del] consume_loop.simps [simp del]

text \<open>A reader that passes chunk after chunk to \<^term>\<open>consume\<close> and stops at the first failure.\<close>

fun feed :: "bytes list \<Rightarrow> frame_decoder \<Rightarrow> bytes list \<times> frame_error \<times> frame_decoder" where
  "feed [] d = ([], NoError, d)"
| "feed (c # cs) d =
     (case consume c d of (fs, e, d') \<Rightarrow>
        if e \<noteq> NoError then (fs, e, d')
        else (case feed cs d' of (fs', e', d'') \<Rightarrow> (fs @ fs', e', d'')))"

section \<open>Specification on the whole stream\<close>

text \<open>
  \<open>cut_stream\<close> cuts a complete byte stream into payloads; the last component is the rest behind the
  last complete frame, from the offending header on when there is an error.
\<close>

function cut_stream :: "bytes \<Rightarrow> bytes list \<times> frame_error \<times> bytes" where
  "cut_stream bs =
     (if length bs < 4 then ([], NoError, bs)
      else
        (let n = unat (read_little_endian_length bs); view = take n (drop 4 bs)
         in if n = 0 then ([], EmptyPayload, bs)
            else if n > kMaximumFrameBytes then ([], TooLarge, bs)
            else if length bs - 4 < n then ([], NoError, bs)
            else if \<not> valid_utf8 view then ([], InvalidUtf8, bs)
            else (case cut_stream (drop (4 + n) bs) of (fs, e, r) \<Rightarrow> (view # fs, e, r))))"
  by pat_completeness auto
termination
  by (relation "measure length") auto

declare cut_stream.simps [simp del]

section \<open>The decoder cuts the stream\<close>

definition pending :: "frame_decoder \<Rightarrow> bytes" where
  "pending d = drop (fd_offset d) (fd_buffer d)"

text \<open>
  The invariant between calls: the flag is clear, the buffer is within its bound, and the
  unconsumed bytes are the beginning of one frame.
\<close>

definition decoder_ok :: "frame_decoder \<Rightarrow> bool" where
  "decoder_ok d \<longleftrightarrow>
     \<not> fd_failed d \<and> fd_offset d \<le> length (fd_buffer d)
     \<and> length (fd_buffer d) \<le> kMaximumFrameBytes + 4
     \<and> cut_stream (pending d) = ([], NoError, pending d)"

lemma read_length_append: "4 \<le> length bs \<Longrightarrow> read_little_endian_length (bs @ cs) = read_little_endian_length bs"
  by (cases bs) (auto simp: read_little_endian_length_def nth_append)

lemma cut_stream_short: "length bs < 4 \<Longrightarrow> cut_stream bs = ([], NoError, bs)"
  by (simp add: cut_stream.simps)

lemma cut_stream_Nil:
  "cut_stream bs = ([], NoError, r) \<Longrightarrow> r = bs \<and> length bs < kMaximumFrameBytes + 4"
  by (subst (asm) cut_stream.simps) (auto simp: Let_def kMaximumFrameBytes_def split: if_splits prod.splits)

lemma cut_stream_Cons:
  "cut_stream bs = (f # fs, e, r) \<Longrightarrow>
     4 \<le> length bs \<and> f = take (unat (read_little_endian_length bs)) (drop 4 bs) \<and> valid_utf8 f \<and> f \<noteq> []
     \<and> length f \<le> kMaximumFrameBytes
     \<and> cut_stream (drop (4 + unat (read_little_endian_length bs)) bs) = (fs, e, r)"
  by (subst (asm) cut_stream.simps) (auto simp: Let_def split: if_splits prod.splits)

lemma cut_stream_rest:
  "cut_stream bs = (fs, NoError, r) \<Longrightarrow> cut_stream r = ([], NoError, r) \<and> length r < kMaximumFrameBytes + 4"
proof (induction fs arbitrary: bs)
  case Nil
  then show ?case using cut_stream_Nil by blast
next
  case (Cons f fs)
  then show ?case using cut_stream_Cons by blast
qed

lemma cut_stream_append:
  assumes "cut_stream bs = (fs, e, r)"
  shows "cut_stream (bs @ cs) =
           (if e = NoError then (case cut_stream (r @ cs) of (fs', e', r') \<Rightarrow> (fs @ fs', e', r'))
            else (fs, e, r @ cs))"
  using assms
proof (induction bs arbitrary: fs rule: cut_stream.induct)
  case (1 bs)
  show ?case
  proof (cases "length bs < 4")
    case True
    with "1.prems" show ?thesis by (auto simp: cut_stream_short split: prod.splits)
  next
    case False
    let ?n = "unat (read_little_endian_length bs)"
    have n: "unat (read_little_endian_length (bs @ cs)) = ?n"
      using False by (simp add: read_length_append)
    show ?thesis
    proof (cases "?n = 0 \<or> ?n > kMaximumFrameBytes \<or> length bs - 4 < ?n")
      case bad: True
      show ?thesis
      proof (cases "?n = 0 \<or> ?n > kMaximumFrameBytes")
        case True
        with "1.prems" False show ?thesis
          by (subst (asm) cut_stream.simps)
             (auto simp: Let_def n cut_stream.simps [of "bs @ cs"] split: if_splits)
      next
        case short: False
        with "1.prems" False bad have "fs = []" "e = NoError" "r = bs"
          by (subst (asm) cut_stream.simps, simp add: Let_def)+
        then show ?thesis by (simp split: prod.split)
      qed
    next
      case big: False
      then have d: "drop (4 + ?n) (bs @ cs) = drop (4 + ?n) bs @ cs"
        and t: "take ?n (drop 4 (bs @ cs)) = take ?n (drop 4 bs)"
        and l: "\<not> length (bs @ cs) - 4 < ?n" "\<not> length (bs @ cs) < 4"
        using False by auto
      show ?thesis
      proof (cases "valid_utf8 (take ?n (drop 4 bs))")
        case False
        with "1.prems" big \<open>\<not> length bs < 4\<close> have "fs = []" "e = InvalidUtf8" "r = bs"
          by (subst (asm) cut_stream.simps, simp add: Let_def)+
        moreover have "cut_stream (bs @ cs) = ([], InvalidUtf8, bs @ cs)"
          using False big \<open>\<not> length bs < 4\<close> t l
          by (subst cut_stream.simps) (simp add: Let_def n del: take_append drop_append length_append)
        ultimately show ?thesis by simp
      next
        case True
        obtain fs1 e1 r1 where rec: "cut_stream (drop (4 + ?n) bs) = (fs1, e1, r1)"
          by (rule prod_cases3)
        have prem: "fs = take ?n (drop 4 bs) # fs1" "e = e1" "r = r1"
          using "1.prems" True big False rec by (subst (asm) cut_stream.simps, simp add: Let_def)+
        have "cut_stream (bs @ cs) =
              (case cut_stream (drop (4 + ?n) bs @ cs) of (fs, e, r) \<Rightarrow> (take ?n (drop 4 bs) # fs, e, r))"
          using True big False t d l by (subst cut_stream.simps) (simp add: Let_def n del: take_append drop_append length_append)
        then show ?thesis
          using "1.IH" [OF False refl refl _ _ _ _] True big rec prem
          by (auto split: prod.splits)
      qed
    qed
  qed
qed

lemma pending_compact [simp]: "fd_offset d \<le> length (fd_buffer d) \<Longrightarrow> pending (compact_decoder d) = pending d"
  by (auto simp: pending_def compact_decoder_def)

lemma compact_bounds:
  "fd_offset d \<le> length (fd_buffer d) \<Longrightarrow>
     fd_offset (compact_decoder d) \<le> length (fd_buffer (compact_decoder d))
     \<and> length (fd_buffer (compact_decoder d)) \<le> length (fd_buffer d)
     \<and> fd_failed (compact_decoder d) = fd_failed d"
  by (auto simp: compact_decoder_def)

lemma fail_decoder_sel [simp]:
  "fd_failed (fail_decoder d)" "fd_buffer (fail_decoder d) = fd_buffer d" "fd_offset (fail_decoder d) = fd_offset d"
  "pending (fail_decoder d) = pending d"
  by (simp_all add: fail_decoder_def pending_def)

lemma decode_available_cut:
  assumes "decode_available d = (fs, e, d')" "fd_offset d \<le> length (fd_buffer d)"
  shows "cut_stream (pending d) = (fs, e, pending d') \<and> fd_offset d' \<le> length (fd_buffer d')
         \<and> length (fd_buffer d') \<le> length (fd_buffer d) \<and> fd_failed d' = (fd_failed d \<or> e \<noteq> NoError)"
  using assms
proof (induction d arbitrary: fs rule: decode_available.induct)
  case (1 d)
  let ?n = "unat (read_little_endian_length (pending d))"
  have len: "length (pending d) = length (fd_buffer d) - fd_offset d" by (simp add: pending_def)
  have view: "take n (drop (fd_offset d + 4) (fd_buffer d)) = take n (drop 4 (pending d))" for n
    by (simp add: pending_def add.commute)
  have head: "read_little_endian_length (drop (fd_offset d) (fd_buffer d)) = read_little_endian_length (pending d)"
    by (simp add: pending_def)
  show ?case
  proof (cases "length (pending d) < 4")
    case True
    with "1.prems" have "fs = []" "e = NoError" "d' = compact_decoder d"
      by (subst (asm) decode_available.simps, simp add: len)+
    with True "1.prems"(2) show ?thesis by (simp add: compact_bounds cut_stream_short)
  next
    case False
    note unf = "1.prems"(1) [unfolded decode_available.simps [of d] head view len [symmetric] Let_def]
    show ?thesis
    proof (cases "?n = 0 \<or> ?n > kMaximumFrameBytes \<or> length (pending d) - 4 < ?n
                  \<or> \<not> valid_utf8 (take ?n (drop 4 (pending d)))")
      case True
      with unf False "1.prems"(2) show ?thesis
        by (subst cut_stream.simps) (auto simp: Let_def split: if_splits)
    next
      case step: False
      let ?d = "d\<lparr>fd_offset := fd_offset d + (4 + ?n)\<rparr>"
      obtain fs1 e1 d1 where rec: "decode_available ?d = (fs1, e1, d1)" by (rule prod_cases3)
      have res: "fs = take ?n (drop 4 (pending d)) # fs1" "e = e1" "d' = d1"
        using unf False step rec by simp_all
      have pend: "pending ?d = drop (4 + ?n) (pending d)" by (simp add: pending_def add.commute)
      have "fd_offset ?d \<le> length (fd_buffer ?d)" using step False "1.prems"(2) len by auto
      moreover have "fd_buffer ?d = fd_buffer d" "fd_failed ?d = fd_failed d" by simp_all
      ultimately have "cut_stream (pending ?d) = (fs1, e1, pending d1) \<and> fd_offset d1 \<le> length (fd_buffer d1)
         \<and> length (fd_buffer d1) \<le> length (fd_buffer d) \<and> fd_failed d1 = (fd_failed d \<or> e1 \<noteq> NoError)"
        using "1.IH" [of ?n _ "take ?n (drop 4 (pending d))" fs1] step False rec res
        by (simp add: len head view)
      then show ?thesis
        using res False step pend by (subst cut_stream.simps) (simp add: Let_def)
    qed
  qed
qed

lemma erase_consumed_sel [simp]:
  "pending (erase_consumed d) = pending d" "fd_failed (erase_consumed d) = fd_failed d"
  "fd_offset (erase_consumed d) = 0" "fd_buffer (erase_consumed d) = pending d"
  by (simp_all add: erase_consumed_def pending_def)

lemma consume_loop_cut:
  assumes "consume_loop bs d = (fs, e, d')" "decoder_ok d"
  shows "(\<exists>r. cut_stream (pending d @ bs) = (fs, e, r) \<and> (e = NoError \<longrightarrow> r = pending d'))
         \<and> (e = NoError \<longrightarrow> decoder_ok d') \<and> fd_failed d' = (e \<noteq> NoError)
         \<and> fd_offset d' \<le> length (fd_buffer d') \<and> length (fd_buffer d') \<le> kMaximumFrameBytes + 4"
  using assms
proof (induction bs d arbitrary: fs rule: consume_loop.induct)
  case (1 bs d)
  let ?p = "pending d"
  define count where "count = min (kMaximumFrameBytes + 4 - length ?p) (length bs)"
  let ?d2 = "(erase_consumed d)\<lparr>fd_buffer := ?p @ take count bs\<rparr>"
  have cut: "cut_stream ?p = ([], NoError, ?p)" and nf: "\<not> fd_failed d"
    using "1.prems"(2) by (auto simp: decoder_ok_def)
  then have room: "length ?p < kMaximumFrameBytes + 4" using cut_stream_rest by blast
  show ?case
  proof (cases "bs = []")
    case True
    with "1.prems" cut show ?thesis by (auto simp: consume_loop.simps decoder_ok_def)
  next
    case False
    obtain fs1 e1 d3 where dec: "decode_available ?d2 = (fs1, e1, d3)" by (rule prod_cases3)
    have pend: "pending ?d2 = ?p @ take count bs" by (simp add: pending_def)
    from decode_available_cut [OF dec] pend
    have c1: "cut_stream (?p @ take count bs) = (fs1, e1, pending d3)"
      and d3: "fd_offset d3 \<le> length (fd_buffer d3)" "length (fd_buffer d3) \<le> length (?p @ take count bs)"
        "fd_failed d3 = (e1 \<noteq> NoError)"
      using nf by auto
    have b3: "length (fd_buffer d3) \<le> kMaximumFrameBytes + 4" using d3(2) room by (simp add: count_def)
    have c0: "count \<noteq> 0" using room False by (auto simp: count_def)
    have unf: "(if e1 \<noteq> NoError then (fs1, e1, d3)
                else case consume_loop (drop count bs) d3 of (fs', e', d') \<Rightarrow> (fs1 @ fs', e', d')) = (fs, e, d')"
      using "1.prems"(1) [unfolded consume_loop.simps [of bs d] Let_def erase_consumed_sel, folded count_def]
        False room dec c0 by (simp split: if_splits)
    have join: "cut_stream (?p @ bs) =
      (if e1 = NoError then (case cut_stream (pending d3 @ drop count bs) of (fs', e', r') \<Rightarrow> (fs1 @ fs', e', r'))
       else (fs1, e1, pending d3 @ drop count bs))"
      using cut_stream_append [OF c1, of "drop count bs"] by simp
    show ?thesis
    proof (cases "e1 = NoError")
      case False
      with unf join d3 b3 show ?thesis by auto
    next
      case True
      obtain fs2 e2 d4 where rec: "consume_loop (drop count bs) d3 = (fs2, e2, d4)" by (rule prod_cases3)
      have ok3: "decoder_ok d3"
        using d3 b3 True cut_stream_rest c1 by (auto simp: decoder_ok_def)
      have res: "fs = fs1 @ fs2" "e = e2" "d' = d4" using unf rec True by simp_all
      have "(\<exists>r. cut_stream (pending d3 @ drop count bs) = (fs2, e2, r) \<and> (e2 = NoError \<longrightarrow> r = pending d4))
         \<and> (e2 = NoError \<longrightarrow> decoder_ok d4) \<and> fd_failed d4 = (e2 \<noteq> NoError)
         \<and> fd_offset d4 \<le> length (fd_buffer d4) \<and> length (fd_buffer d4) \<le> kMaximumFrameBytes + 4"
        using "1.IH" [of "erase_consumed d" "kMaximumFrameBytes + 4" count ?d2 fs1 "(e1, d3)" e1 d3 fs2]
          True ok3 rec res room \<open>bs \<noteq> []\<close> c0 dec by (simp add: count_def)
      then show ?thesis using join True res by auto
    qed
  qed
qed

lemma decoder_ok_new [simp]: "decoder_ok new_decoder"
  by (simp add: decoder_ok_def new_decoder_def pending_def cut_stream_short)

lemma feed_cut:
  assumes "feed cs d = (fs, e, d')" "decoder_ok d"
  shows "(\<exists>r. cut_stream (pending d @ concat cs) = (fs, e, r) \<and> (e = NoError \<longrightarrow> r = pending d'))
         \<and> (e = NoError \<longrightarrow> decoder_ok d') \<and> fd_failed d' = (e \<noteq> NoError)
         \<and> fd_offset d' \<le> length (fd_buffer d') \<and> length (fd_buffer d') \<le> kMaximumFrameBytes + 4"
  using assms
proof (induction cs d arbitrary: fs rule: feed.induct)
  case (1 d)
  then show ?case by (auto simp: decoder_ok_def)
next
  case (2 c cs d)
  obtain fs1 e1 d1 where c: "consume c d = (fs1, e1, d1)" by (rule prod_cases3)
  obtain fs2 e2 d2 where r: "feed cs d1 = (fs2, e2, d2)" by (rule prod_cases3)
  from c "2.prems"(2) have "consume_loop c d = (fs1, e1, d1)" by (simp add: consume_def decoder_ok_def)
  from consume_loop_cut [OF this "2.prems"(2)] obtain r1 where
    c1: "cut_stream (pending d @ c) = (fs1, e1, r1)" "e1 = NoError \<Longrightarrow> r1 = pending d1 \<and> decoder_ok d1"
      "fd_failed d1 = (e1 \<noteq> NoError)" "fd_offset d1 \<le> length (fd_buffer d1)"
      "length (fd_buffer d1) \<le> kMaximumFrameBytes + 4" by blast
  have join: "cut_stream (pending d @ concat (c # cs)) =
      (if e1 = NoError then (case cut_stream (r1 @ concat cs) of (fs', e', r') \<Rightarrow> (fs1 @ fs', e', r'))
       else (fs1, e1, r1 @ concat cs))"
    using cut_stream_append [OF c1(1), of "concat cs"] by simp
  show ?case
  proof (cases "e1 = NoError")
    case True
    then show ?thesis
      using "2.IH" [OF c [symmetric] refl, of fs2] c1 r "2.prems"(1) c join by (auto simp: True)
  next
    case False
    then show ?thesis using c1 "2.prems"(1) c join by auto
  qed
qed

section \<open>Encoding\<close>

lemma bit_and_ff: "bit ((w :: u32) AND 0xff) i \<longleftrightarrow> i < 8 \<and> bit w i"
proof -
  have ff: "(0xff :: u32) = mask 8" by (simp add: mask_numeral)
  show ?thesis unfolding ff by (auto simp: bit_and_iff bit_mask_iff)
qed

lemma read_length_bytes [simp]: "read_little_endian_length (length_bytes n @ p) = n"
proof (rule bit_word_eqI)
  fix i assume "i < LENGTH(32)"
  then have "i < 8 \<or> 8 \<le> i \<and> i < 16 \<or> 16 \<le> i \<and> i < 24 \<or> 24 \<le> i \<and> i < 32" by auto
  then show "bit (read_little_endian_length (length_bytes n @ p)) i = bit n i"
    by (elim disjE)
       (auto simp: read_little_endian_length_def length_bytes_def bit_or_iff bit_push_bit_iff
         bit_ucast_iff bit_and_ff bit_drop_bit_eq)
qed

lemma length_length_bytes [simp]: "length (length_bytes n) = 4"
  by (simp add: length_bytes_def)

lemma encode_frame_small:
  "payload \<noteq> [] \<Longrightarrow> length payload \<le> 1000 \<Longrightarrow> valid_utf8 payload \<Longrightarrow>
   encode_frame payload = Inr (length_bytes (word_of_nat (length payload)) @ payload)"
  by (simp add: encode_frame_def kMaximumFrameBytes_def)

lemma cut_stream_encoded:
  assumes "encode_frame p = Inr f"
  shows "cut_stream (f @ bs) = (case cut_stream bs of (fs, e, r) \<Rightarrow> (p # fs, e, r))"
proof -
  from assms have p: "p \<noteq> []" "length p \<le> kMaximumFrameBytes" "length p \<le> 2 ^ 32 - 1" "valid_utf8 p"
    and f: "f = length_bytes (word_of_nat (length p)) @ p"
    by (auto simp: encode_frame_def split: if_splits)
  then have "unat (read_little_endian_length (f @ bs)) = length p"
    by (simp add: unat_of_nat)
  with p f show ?thesis by (subst cut_stream.simps) (simp add: Let_def)
qed

lemma cut_stream_frames:
  "list_all2 (\<lambda>p f. encode_frame p = Inr f) ps fs \<Longrightarrow> cut_stream (concat fs) = (ps, NoError, [])"
  by (induction rule: list_all2_induct) (simp_all add: cut_stream_encoded cut_stream_short)

text \<open>
  C16: The decoder does not depend on how the stream is cut into chunks. Feeding the chunks one
  after the other gives the payloads and the error of cutting the whole stream at once, also for
  malformed streams, and the buffer never grows over one maximal frame with its header.
\<close>
theorem decoder_chunk_independent:
  "(case feed cs new_decoder of (fs, e, d) \<Rightarrow> (fs, e, length (fd_buffer d) \<le> kMaximumFrameBytes + 4)) =
   (case cut_stream (concat cs) of (fs, e, r) \<Rightarrow> (fs, e, True))"
proof -
  obtain fs e d where f: "feed cs new_decoder = (fs, e, d)" by (rule prod_cases3)
  have "pending new_decoder = []" by (simp add: pending_def new_decoder_def)
  with feed_cut [OF f] f show ?thesis by auto
qed

lemma feed_frames:
  assumes "list_all2 (\<lambda>p f. encode_frame p = Inr f) ps frames" "concat cs = concat frames"
  shows "\<exists>d. feed cs new_decoder = (ps, NoError, d) \<and> finish d = NoError \<and> buffered_bytes d = 0"
proof -
  obtain fs e d where f: "feed cs new_decoder = (fs, e, d)" by (rule prod_cases3)
  have "pending new_decoder = []" by (simp add: pending_def new_decoder_def)
  with feed_cut [OF f] cut_stream_frames [OF assms(1)] assms(2)
  have "fs = ps" "e = NoError" "pending d = []" "decoder_ok d" by auto
  then show ?thesis using f by (auto simp: finish_def buffered_bytes_def pending_def decoder_ok_def)
qed

text \<open>
  Whatever the chunks in which the frames of a sequence of payloads arrive, the decoder
  returns exactly these payloads in order, reports no error, and \<^verbatim>\<open>finish\<close> succeeds.
\<close>
theorem frame_roundtrip:
  assumes "list_all2 (\<lambda>p f. encode_frame p = Inr f) ps frames" "concat cs = concat frames"
  shows "\<exists>d. feed cs new_decoder = (ps, NoError, d) \<and> finish d = NoError \<and> buffered_bytes d = 0"
  using assms by (rule feed_frames)

theorem frame_roundtrip_witness:
  "\<exists>d. feed [[2, 0], [0, 0, 0x68], [0x69, 1, 0, 0, 0, 0x21]] new_decoder = ([[0x68, 0x69], [0x21]], NoError, d)
       \<and> finish d = NoError \<and> buffered_bytes d = 0"
proof -
  have "encode_frame [0x68, 0x69] = Inr [2, 0, 0, 0, 0x68, 0x69]" "encode_frame [0x21] = Inr [1, 0, 0, 0, 0x21]"
    by (simp_all add: encode_frame_def kMaximumFrameBytes_def length_bytes_def)
  then show ?thesis by (intro frame_roundtrip [of _ "[[2, 0, 0, 0, 0x68, 0x69], [1, 0, 0, 0, 0x21]]"]) simp_all
qed

section \<open>UTF-8\<close>

text \<open>The encoding of RFC 3629 and its domain, the Unicode scalar values.\<close>

definition unicode_scalar :: "nat \<Rightarrow> bool" where
  "unicode_scalar c \<longleftrightarrow> c < 0x110000 \<and> \<not> (0xd800 \<le> c \<and> c < 0xe000)"

definition byte_of :: "nat \<Rightarrow> u8" where
  "byte_of n = word_of_nat n"

definition utf8_encode :: "nat \<Rightarrow> bytes" where
  "utf8_encode c =
     (if c < 0x80 then [byte_of c]
      else if c < 0x800 then [byte_of (0xc0 + c div 64), byte_of (0x80 + c mod 64)]
      else if c < 0x10000 then
        [byte_of (0xe0 + c div 64 div 64), byte_of (0x80 + c div 64 mod 64), byte_of (0x80 + c mod 64)]
      else [byte_of (0xf0 + c div 64 div 64 div 64), byte_of (0x80 + c div 64 div 64 mod 64),
            byte_of (0x80 + c div 64 mod 64), byte_of (0x80 + c mod 64)])"

lemma unat_byte_of [simp]: "n < 256 \<Longrightarrow> unat (byte_of n) = n"
  by (simp add: byte_of_def unat_of_nat)

lemma byte_of_unat [simp]: "byte_of (unat b) = b"
  by (simp add: byte_of_def)

lemma byte_less: "unat (b :: u8) < 256"
  using unsigned_less [of b] by simp

lemma continuation_table:
  "list_all (\<lambda>n. continuation (word_of_nat n) \<longleftrightarrow> 128 \<le> n \<and> n < 192) [0..<256]"
  by code_simp

lemma continuation_iff: "continuation b \<longleftrightarrow> 128 \<le> unat b \<and> unat b < 192"
proof -
  have "continuation (word_of_nat (unat b)) \<longleftrightarrow> 128 \<le> unat b \<and> unat b < 192"
    using continuation_table byte_less [of b] unfolding list_all_iff by (metis atLeast0LessThan lessThan_iff set_upt)
  then show ?thesis by simp
qed

lemmas byte_order = word_le_nat_alt word_less_nat_alt word_unat_eq_iff continuation_iff

text \<open>One step of the check, by the number of bytes the first byte announces.\<close>

lemma valid_utf8_step1: "unat a < 0x80 \<Longrightarrow> valid_utf8 (a # r) = valid_utf8 r"
  by (simp add: byte_order)

lemma valid_utf8_step2:
  "0xc2 \<le> unat a \<Longrightarrow> unat a \<le> 0xdf \<Longrightarrow> valid_utf8 (a # b # r) = (continuation b \<and> valid_utf8 r)"
  by (simp add: byte_order)

lemma valid_utf8_step3:
  "0xe0 \<le> unat a \<Longrightarrow> unat a \<le> 0xef \<Longrightarrow>
   valid_utf8 (a # b # c # r) =
     (continuation b \<and> continuation c \<and> (unat a = 0xe0 \<longrightarrow> 0xa0 \<le> unat b) \<and> (unat a = 0xed \<longrightarrow> unat b < 0xa0) \<and> valid_utf8 r)"
  by (auto simp: byte_order)

lemma valid_utf8_step4:
  "0xf0 \<le> unat a \<Longrightarrow> unat a \<le> 0xf4 \<Longrightarrow>
   valid_utf8 (a # b # c # d # r) =
     (continuation b \<and> continuation c \<and> continuation d \<and> (unat a = 0xf0 \<longrightarrow> 0x90 \<le> unat b)
      \<and> (unat a = 0xf4 \<longrightarrow> unat b < 0x90) \<and> valid_utf8 r)"
  by (auto simp: byte_order)

lemma valid_utf8_encode:
  assumes "unicode_scalar c"
  shows "valid_utf8 (utf8_encode c @ r) = valid_utf8 r"
proof -
  have c: "c < 0x110000" "\<not> (0xd800 \<le> c \<and> c < 0xe000)" using assms by (auto simp: unicode_scalar_def)
  have 1: "c < 0x80 \<Longrightarrow> ?thesis"
    by (simp add: utf8_encode_def valid_utf8_step1 del: valid_utf8.simps)
  have 2: "\<not> c < 0x80 \<Longrightarrow> c < 0x800 \<Longrightarrow> ?thesis"
    by (simp add: utf8_encode_def valid_utf8_step2 continuation_iff div_le_mono le_div_geq del: valid_utf8.simps)
  have 3: ?thesis if "\<not> c < 0x800" "c < 0x10000"
  proof -
    define x y z where "x = c div 64 div 64" and "y = c div 64 mod 64" and "z = c mod 64"
    then have "c = (x * 64 + y) * 64 + z" and l: "y < 64" "z < 64" by simp_all
    then have e: "c = 4096 * x + 64 * y + z" by simp
    from e that(2) have "x < 16" by linarith
    moreover from e l that(1) have "x = 0 \<Longrightarrow> 32 \<le> y" by linarith
    moreover from e l c(2) have "x = 13 \<Longrightarrow> y < 32" by linarith
    ultimately show ?thesis
      using that l unfolding utf8_encode_def x_def [symmetric] y_def [symmetric] z_def [symmetric]
      by (auto simp: valid_utf8_step3 continuation_iff simp del: valid_utf8.simps)
  qed
  have 4: ?thesis if "\<not> c < 0x10000"
  proof -
    define w x y z where "w = c div 64 div 64 div 64" and "x = c div 64 div 64 mod 64"
      and "y = c div 64 mod 64" and "z = c mod 64"
    then have "c = ((w * 64 + x) * 64 + y) * 64 + z" and l: "x < 64" "y < 64" "z < 64" by simp_all
    then have e: "c = 262144 * w + 4096 * x + 64 * y + z" by simp
    from e c(1) have "w < 5" by linarith
    moreover from e l that have "w = 0 \<Longrightarrow> 16 \<le> x" by linarith
    moreover from e l c(1) have "w = 4 \<Longrightarrow> x < 16" by linarith
    ultimately show ?thesis
      using that l unfolding utf8_encode_def w_def [symmetric] x_def [symmetric] y_def [symmetric] z_def [symmetric]
      by (auto simp: valid_utf8_step4 continuation_iff simp del: valid_utf8.simps)
  qed
  show ?thesis using 1 2 3 4 by linarith
qed

lemma radix64: "y < 64 \<Longrightarrow> (x * 64 + y) div 64 = (x :: nat)" "y < 64 \<Longrightarrow> (x * 64 + y) mod 64 = (y :: nat)"
  by (simp_all add: mod_mult_self3)

lemma utf8_encode_2:
  "0xc2 \<le> unat a \<Longrightarrow> unat a \<le> 0xdf \<Longrightarrow> continuation b \<Longrightarrow>
   \<exists>c. unicode_scalar c \<and> utf8_encode c = [a, b]"
proof -
  assume a: "0xc2 \<le> unat a" "unat a \<le> 0xdf" "continuation b"
  let ?c = "(unat a - 0xc0) * 64 + (unat b - 0x80)"
  have l: "unat b - 0x80 < 64" "0x80 \<le> unat b" using a by (auto simp: continuation_iff)
  note radix64 [OF l(1), of "unat a - 0xc0"]
  moreover have "0x80 \<le> ?c" using a l by linarith
  moreover have "?c < 0x800" using a l by linarith
  ultimately have "unicode_scalar ?c \<and> utf8_encode ?c = [a, b]"
    using a l by (simp add: utf8_encode_def unicode_scalar_def)
  then show ?thesis by blast
qed

lemma utf8_encode_3:
  "0xe0 \<le> unat a \<Longrightarrow> unat a \<le> 0xef \<Longrightarrow> continuation b \<Longrightarrow> continuation c
   \<Longrightarrow> (unat a = 0xe0 \<longrightarrow> 0xa0 \<le> unat b) \<Longrightarrow> (unat a = 0xed \<longrightarrow> unat b < 0xa0) \<Longrightarrow>
   \<exists>x. unicode_scalar x \<and> utf8_encode x = [a, b, c]"
proof -
  assume a: "0xe0 \<le> unat a" "unat a \<le> 0xef" "continuation b" "continuation c"
    "unat a = 0xe0 \<longrightarrow> 0xa0 \<le> unat b" "unat a = 0xed \<longrightarrow> unat b < 0xa0"
  define p q s where "p = unat a - 0xe0" and "q = unat b - 0x80" and "s = unat c - 0x80"
  have l: "q < 64" "s < 64" "p < 16" and un: "unat a = 0xe0 + p" "unat b = 0x80 + q" "unat c = 0x80 + s"
    using a by (auto simp: continuation_iff p_def q_def s_def)
  let ?x = "(p * 64 + q) * 64 + s"
  note d = radix64 [OF l(2), of "p * 64 + q"] radix64 [OF l(1), of p]
  have b: "p = 0 \<Longrightarrow> 32 \<le> q" "p = 13 \<Longrightarrow> q < 32" using a un by auto
  have f: "?x = 4096 * p + 64 * q + s" by simp
  have r: "0x800 \<le> ?x" unfolding f using b l by (cases "p = 0") auto
  have r2: "?x < 0x10000" unfolding f using l by linarith
  have r3: "\<not> (0xd800 \<le> ?x \<and> ?x < 0xe000)" unfolding f using b l by (cases p "13 :: nat" rule: linorder_cases) auto
  have "utf8_encode ?x = [byte_of (unat a), byte_of (unat b), byte_of (unat c)]"
    unfolding utf8_encode_def d un using r r2 by simp
  with r2 r3 have "unicode_scalar ?x \<and> utf8_encode ?x = [a, b, c]" by (simp add: unicode_scalar_def)
  then show ?thesis by blast
qed

lemma utf8_encode_4:
  "0xf0 \<le> unat a \<Longrightarrow> unat a \<le> 0xf4 \<Longrightarrow> continuation b \<Longrightarrow> continuation c \<Longrightarrow> continuation d
   \<Longrightarrow> (unat a = 0xf0 \<longrightarrow> 0x90 \<le> unat b) \<Longrightarrow> (unat a = 0xf4 \<longrightarrow> unat b < 0x90) \<Longrightarrow>
   \<exists>x. unicode_scalar x \<and> utf8_encode x = [a, b, c, d]"
proof -
  assume a: "0xf0 \<le> unat a" "unat a \<le> 0xf4" "continuation b" "continuation c" "continuation d"
    "unat a = 0xf0 \<longrightarrow> 0x90 \<le> unat b" "unat a = 0xf4 \<longrightarrow> unat b < 0x90"
  define p q s t where "p = unat a - 0xf0" and "q = unat b - 0x80" and "s = unat c - 0x80" and "t = unat d - 0x80"
  have l: "q < 64" "s < 64" "t < 64" "p < 5"
    and un: "unat a = 0xf0 + p" "unat b = 0x80 + q" "unat c = 0x80 + s" "unat d = 0x80 + t"
    using a by (auto simp: continuation_iff p_def q_def s_def t_def)
  let ?y = "p * 64 + q" let ?z = "?y * 64 + s" let ?x = "?z * 64 + t"
  note d = radix64 [OF l(3), of ?z] radix64 [OF l(2), of ?y] radix64 [OF l(1), of p]
  have b: "p = 0 \<Longrightarrow> 16 \<le> q" "p = 4 \<Longrightarrow> q < 16" using a un by auto
  have f: "?x = 262144 * p + 4096 * q + 64 * s + t" by simp
  have r: "0x10000 \<le> ?x" unfolding f using b l by (cases "p = 0") auto
  have r2: "?x < 0x110000" unfolding f using b l by (cases "p = 4") auto
  have "utf8_encode ?x = [byte_of (unat a), byte_of (unat b), byte_of (unat c), byte_of (unat d)]"
    unfolding utf8_encode_def d un using r by simp
  with r r2 have "unicode_scalar ?x \<and> utf8_encode ?x = [a, b, c, d]" by (simp add: unicode_scalar_def)
  then show ?thesis by blast
qed

lemma valid_utf8_head:
  assumes "valid_utf8 bs" "bs \<noteq> []"
  shows "\<exists>c r. unicode_scalar c \<and> bs = utf8_encode c @ r \<and> valid_utf8 r"
proof -
  obtain a r where bs: "bs = a # r" using assms(2) by (cases bs) auto
  consider "unat a < 0x80" | "0xc2 \<le> unat a" "unat a \<le> 0xdf" | "0xe0 \<le> unat a" "unat a \<le> 0xef"
    | "0xf0 \<le> unat a" "unat a \<le> 0xf4"
    using assms(1) bs by (auto simp: byte_order split: if_splits)
  then show ?thesis
  proof cases
    case 1
    then have "unicode_scalar (unat a)" "utf8_encode (unat a) = [a]"
      by (auto simp: unicode_scalar_def utf8_encode_def)
    then show ?thesis using assms(1) bs valid_utf8_step1 [OF 1] by auto
  next
    case 2
    then obtain b r' where "r = b # r'" using assms(1) bs by (auto simp: byte_order split: if_splits list.splits)
    with 2 assms(1) bs utf8_encode_2 [OF 2, of b] show ?thesis
      by (auto simp: valid_utf8_step2 simp del: valid_utf8.simps)
  next
    case 3
    then obtain b c r' where "r = b # c # r'"
      using assms(1) bs by (auto simp: byte_order split: if_splits list.splits)
    with 3 assms(1) bs utf8_encode_3 [OF 3, of b c] show ?thesis
      by (auto simp: valid_utf8_step3 simp del: valid_utf8.simps)
  next
    case 4
    then obtain b c d r' where "r = b # c # d # r'"
      using assms(1) bs by (auto simp: byte_order split: if_splits list.splits)
    with 4 assms(1) bs utf8_encode_4 [OF 4, of b c d] show ?thesis
      by (auto simp: valid_utf8_step4 simp del: valid_utf8.simps)
  qed
qed

lemma utf8_encode_ne [simp]: "utf8_encode c \<noteq> []"
  by (simp add: utf8_encode_def)

text \<open>
  C29: \<^verbatim>\<open>valid_utf8\<close> accepts exactly the concatenations of RFC 3629 encodings of Unicode scalar
  values: no overlong form, no surrogate, nothing beyond U+10FFFF, no truncated sequence.
\<close>
theorem valid_utf8_exact:
  "valid_utf8 bs \<longleftrightarrow> (\<exists>cs. list_all unicode_scalar cs \<and> bs = concat (map utf8_encode cs))"
proof
  assume "valid_utf8 bs"
  then show "\<exists>cs. list_all unicode_scalar cs \<and> bs = concat (map utf8_encode cs)"
  proof (induction "length bs" arbitrary: bs rule: less_induct)
    case less
    show ?case
    proof (cases "bs = []")
      case True
      then show ?thesis by (intro exI [of _ "[]"]) simp
    next
      case False
      then obtain c r where c: "unicode_scalar c" "bs = utf8_encode c @ r" "valid_utf8 r"
        using valid_utf8_head less.prems by blast
      then obtain cs where "list_all unicode_scalar cs" "r = concat (map utf8_encode cs)"
        using less.hyps [of r] by auto
      with c show ?thesis by (intro exI [of _ "c # cs"]) simp
    qed
  qed
next
  assume "\<exists>cs. list_all unicode_scalar cs \<and> bs = concat (map utf8_encode cs)"
  then obtain cs where "list_all unicode_scalar cs" "bs = concat (map utf8_encode cs)" by blast
  then show "valid_utf8 bs"
    by (induction cs arbitrary: bs) (simp_all add: valid_utf8_encode)
qed

end
