(* ===== verification/GuiTypes.thy ===== *)
theory GuiTypes
  imports Prelude
begin

text \<open>
  Types of the GUI pipe (\<^verbatim>\<open>gui_ipc/protocol_types.hpp\<close>, \<^verbatim>\<open>protocol_types.cpp\<close>): message kinds,
  result and error codes and commands with their wire names, the envelope and its validation, the
  handshake records, and the state the tray process replicates to the GUI process.
\<close>

section \<open>Enumerations and their names\<close>

datatype message_kind =
  Hello | HelloResult | Activate | Shutdown | Ping | Pong | SnapshotRequest | Snapshot
  | StateChanged | Command | CommandStatus | MaintenanceRequest | MaintenanceResult

datatype result_code =
  Accepted | Succeeded | Rejected | Failed | Cancelled | SavedPendingRuntimeApply

datatype error_code =
  ErrorNone | MalformedFrame | MalformedMessage | UnsupportedProtocol | VersionMismatch
  | SourceMismatch | AuthenticationFailed | SessionMismatch | SequenceRejected | RevisionStale
  | Busy | InvalidArgument | ProfileNotFound | ProfileAlreadyExists | ValidationFailed
  | RouteCollision | RepositoryStale | DraftStale | PersistenceFailed | RuntimeApplyFailed
  | ServiceUnavailable | UnsavedChangesDecisionRequired | MigrationRequired
  | ReplacementConfirmationRequired | IpcBackpressure | Disconnected | Internal

datatype gui_command =
  Refresh | StartService | StopService | ReloadService | QuitApplication | ApplyDraft
  | DiscardDraft | ReloadDraft | SelectProfile | CreateProfile | RemoveProfile | SaveProfile
  | SetProfileEnabled | MoveProfile | ReplaceRulesText | FormatRulesText
  | UpdateApplicationFields | SetLightweightMode | StorageStatus | MigrateStorage | AddRule
  | RemoveRule | SetRuleEnabled | MoveRule | UpdateRuleOptions | PreviewRules

datatype unsaved_decision = ApplyUnsaved | DiscardUnsaved | CancelUnsaved

datatype maintenance_command = QueryVersion | RequestShutdown | WaitForRelease

text \<open>The two searches of the tables, \<^verbatim>\<open>enum_name\<close> and \<^verbatim>\<open>parse_enum\<close>.\<close>

fun enum_name :: "('a \<times> string) list \<Rightarrow> 'a \<Rightarrow> string" where
  "enum_name [] v = ''unknown''"
| "enum_name ((candidate, name) # more) v = (if candidate = v then name else enum_name more v)"

fun parse_enum :: "('a \<times> string) list \<Rightarrow> string \<Rightarrow> 'a option" where
  "parse_enum [] s = None"
| "parse_enum ((candidate, name) # more) s = (if s = name then Some candidate else parse_enum more s)"

definition kMessageKinds :: "(message_kind \<times> string) list" where
  "kMessageKinds =
     [(Hello, ''hello''), (HelloResult, ''hello_result''), (Activate, ''activate''),
      (Shutdown, ''shutdown''), (Ping, ''ping''), (Pong, ''pong''),
      (SnapshotRequest, ''snapshot_request''), (Snapshot, ''snapshot''),
      (StateChanged, ''state_changed''), (Command, ''command''), (CommandStatus, ''command_status''),
      (MaintenanceRequest, ''maintenance_request''), (MaintenanceResult, ''maintenance_result'')]"

definition kResultCodes :: "(result_code \<times> string) list" where
  "kResultCodes =
     [(Accepted, ''accepted''), (Succeeded, ''succeeded''), (Rejected, ''rejected''),
      (Failed, ''failed''), (Cancelled, ''cancelled''),
      (SavedPendingRuntimeApply, ''saved_pending_runtime_apply'')]"

definition kErrorCodes :: "(error_code \<times> string) list" where
  "kErrorCodes =
     [(ErrorNone, ''none''), (MalformedFrame, ''malformed_frame''),
      (MalformedMessage, ''malformed_message''), (UnsupportedProtocol, ''unsupported_protocol''),
      (VersionMismatch, ''version_mismatch''), (SourceMismatch, ''source_mismatch''),
      (AuthenticationFailed, ''authentication_failed''), (SessionMismatch, ''session_mismatch''),
      (SequenceRejected, ''sequence_rejected''), (RevisionStale, ''revision_stale''), (Busy, ''busy''),
      (InvalidArgument, ''invalid_argument''), (ProfileNotFound, ''profile_not_found''),
      (ProfileAlreadyExists, ''profile_already_exists''), (ValidationFailed, ''validation_failed''),
      (RouteCollision, ''route_collision''), (RepositoryStale, ''repository_stale''),
      (DraftStale, ''draft_stale''), (PersistenceFailed, ''persistence_failed''),
      (RuntimeApplyFailed, ''runtime_apply_failed''), (ServiceUnavailable, ''service_unavailable''),
      (UnsavedChangesDecisionRequired, ''unsaved_changes_decision_required''),
      (MigrationRequired, ''migration_required''),
      (ReplacementConfirmationRequired, ''replacement_confirmation_required''),
      (IpcBackpressure, ''ipc_backpressure''), (Disconnected, ''disconnected''), (Internal, ''internal'')]"

definition kGuiCommands :: "(gui_command \<times> string) list" where
  "kGuiCommands =
     [(Refresh, ''refresh''), (StartService, ''start''), (StopService, ''stop''),
      (ReloadService, ''reload''), (QuitApplication, ''quit_application''), (ApplyDraft, ''apply''),
      (DiscardDraft, ''discard''), (ReloadDraft, ''reload_draft''), (SelectProfile, ''select''),
      (CreateProfile, ''create''), (RemoveProfile, ''remove''), (SaveProfile, ''save''),
      (SetProfileEnabled, ''set_enabled''), (MoveProfile, ''move''),
      (ReplaceRulesText, ''replace_text''), (FormatRulesText, ''format_text''),
      (UpdateApplicationFields, ''update_application_fields''),
      (SetLightweightMode, ''set_lightweight_mode''), (StorageStatus, ''storage_status''),
      (MigrateStorage, ''migrate''), (AddRule, ''add_rule''), (RemoveRule, ''remove_rule''),
      (SetRuleEnabled, ''set_rule_enabled''), (MoveRule, ''move_rule''),
      (UpdateRuleOptions, ''update_rule_options''), (PreviewRules, ''preview_rules'')]"

definition kUnsavedDecisions :: "(unsaved_decision \<times> string) list" where
  "kUnsavedDecisions =
     [(ApplyUnsaved, ''apply''), (DiscardUnsaved, ''discard''), (CancelUnsaved, ''cancel'')]"

definition kMaintenanceCommands :: "(maintenance_command \<times> string) list" where
  "kMaintenanceCommands =
     [(QueryVersion, ''query_version''), (RequestShutdown, ''request_shutdown''),
      (WaitForRelease, ''wait_for_release'')]"

definition message_kind_name :: "message_kind \<Rightarrow> string" where
  "message_kind_name = enum_name kMessageKinds"

definition result_code_name :: "result_code \<Rightarrow> string" where
  "result_code_name = enum_name kResultCodes"

definition error_code_name :: "error_code \<Rightarrow> string" where
  "error_code_name = enum_name kErrorCodes"

definition gui_command_name :: "gui_command \<Rightarrow> string" where
  "gui_command_name = enum_name kGuiCommands"

definition unsaved_decision_name :: "unsaved_decision \<Rightarrow> string" where
  "unsaved_decision_name = enum_name kUnsavedDecisions"

definition maintenance_command_name :: "maintenance_command \<Rightarrow> string" where
  "maintenance_command_name = enum_name kMaintenanceCommands"

definition parse_message_kind :: "string \<Rightarrow> message_kind option" where
  "parse_message_kind = parse_enum kMessageKinds"

definition parse_result_code :: "string \<Rightarrow> result_code option" where
  "parse_result_code = parse_enum kResultCodes"

definition parse_error_code :: "string \<Rightarrow> error_code option" where
  "parse_error_code = parse_enum kErrorCodes"

definition parse_gui_command :: "string \<Rightarrow> gui_command option" where
  "parse_gui_command = parse_enum kGuiCommands"

definition parse_unsaved_decision :: "string \<Rightarrow> unsaved_decision option" where
  "parse_unsaved_decision = parse_enum kUnsavedDecisions"

definition parse_maintenance_command :: "string \<Rightarrow> maintenance_command option" where
  "parse_maintenance_command = parse_enum kMaintenanceCommands"

section \<open>Messages\<close>

definition kProtocol :: string where
  "kProtocol = ''ccs-trans.gui-ipc/v1''"

definition kMaintenanceProtocol :: string where
  "kMaintenanceProtocol = ''ccs-trans.maintenance-ipc/v1''"

record envelope =
  ev_protocol :: string
  ev_kind :: message_kind
  ev_request_id :: string
  ev_session_id :: string
  ev_sequence :: u64
  ev_base_revision :: string
  ev_source_commit :: string
  ev_result :: "result_code option"
  ev_error_code :: "error_code option"
  ev_payload_json :: string

definition new_envelope :: envelope where
  "new_envelope =
     \<lparr>ev_protocol = kProtocol, ev_kind = Ping, ev_request_id = [], ev_session_id = [], ev_sequence = 0,
      ev_base_revision = [], ev_source_commit = [], ev_result = None, ev_error_code = None,
      ev_payload_json = ''{}''\<rparr>"

record hello =
  hl_version :: string
  hl_source_commit :: string
  hl_instance_identity :: string
  hl_handshake_token :: string
  hl_process_id :: u64

record hello_result =
  hr_accepted :: bool
  hr_version :: string
  hr_source_commit :: string
  hr_session_id :: string
  hr_state_revision :: u64
  hr_error :: error_code
  hr_detail :: string

definition validate_envelope :: "envelope \<Rightarrow> unit res" where
  "validate_envelope e =
     (let maintenance = (ev_kind e = MaintenanceRequest \<or> ev_kind e = MaintenanceResult);
          expected_protocol = (if maintenance then kMaintenanceProtocol else kProtocol)
      in if ev_protocol e \<noteq> expected_protocol then Inl ''unsupported IPC protocol''
         else if ev_request_id e = [] then Inl ''IPC request_id must not be empty''
         else if ev_payload_json e = [] then Inl ''IPC payload must not be empty''
         else if ev_kind e = Hello then
           (if ev_session_id e \<noteq> [] \<or> ev_sequence e \<noteq> 0
            then Inl ''hello must not claim a session or sequence'' else Inr ())
         else if ev_session_id e = [] then Inl ''IPC session_id must not be empty after hello''
         else if ev_kind e \<noteq> HelloResult \<and> ev_sequence e = 0
           then Inl ''IPC sequence must be positive after hello''
         else if (ev_kind e = HelloResult \<or> ev_kind e = CommandStatus \<or> ev_kind e = MaintenanceResult)
                 \<and> ev_result e = None
           then Inl ''IPC result message is missing result''
         else Inr ())"

section \<open>The replicated state\<close>

datatype field_value = FieldString string | FieldUnsigned u64 | FieldBool bool

record application_status =
  as_state :: string
  as_listener_host :: string
  as_listener_port :: u16
  as_last_error :: string
  as_last_exit_code :: u32

record storage_status =
  ss_state :: string
  ss_database_exists :: bool
  ss_detail :: string
  ss_database_path :: string
  ss_backup_directory :: string

record field_state =
  fs_key :: string
  fs_scope :: string
  fs_input_kind :: string
  fs_required :: bool
  fs_minimum :: "u64 option"
  fs_maximum :: "u64 option"
  fs_enum_values :: "string list"
  fs_display_name_key :: string
  fs_apply_impact :: string
  fs_value :: "field_value option"

record profile_summary =
  ps_key :: u64
  ps_id :: string
  ps_enabled :: bool
  ps_protocol :: "string option"
  ps_readiness :: string
  ps_status_detail :: string
  ps_rule_count :: u64
  ps_enabled_rule_count :: u64

record profile_editor =
  pe_key :: u64
  pe_profile_id :: string
  pe_fields :: "field_state list"

record rules_diagnostic =
  rd_message :: string
  rd_line :: u64
  rd_column :: u64
  rd_rule_id :: string
  rd_rule_type :: string
  rd_option :: string

record rules_editor =
  re_profile_key :: u64
  re_profile_id :: string
  re_text :: string
  re_diagnostic :: "rules_diagnostic option"

record draft_status =
  ds_phase :: string
  ds_runtime_apply_pending :: bool
  ds_revision :: u64
  ds_base_revision :: string

record command_status =
  cs_sequence :: u64
  cs_command :: string
  cs_outcome :: result_code
  cs_error :: error_code
  cs_profile_id :: string
  cs_field :: string
  cs_detail :: string
  cs_recovery_command :: "string option"

record selection =
  se_profile_id :: "string option"
  se_profile_key :: "u64 option"

record snapshot =
  sn_revision :: u64
  sn_application :: application_status
  sn_profiles :: "profile_summary list"
  sn_application_fields :: "field_state list"
  sn_selection :: selection
  sn_profile_editor :: "profile_editor option"
  sn_rules_editor :: "rules_editor option"
  sn_draft :: draft_status
  sn_last_command :: "command_status option"
  sn_storage :: storage_status
  sn_lightweight_mode :: bool
  sn_command_pending :: bool

record state_delta =
  sd_from_revision :: u64
  sd_revision :: u64
  sd_application :: "application_status option"
  sd_profiles :: "profile_summary list option"
  sd_application_fields :: "field_state list option"
  sd_selection :: "selection option"
  sd_profile_editor_changed :: bool
  sd_profile_editor :: "profile_editor option"
  sd_rules_editor_changed :: bool
  sd_rules_editor :: "rules_editor option"
  sd_draft :: "draft_status option"
  sd_last_command_changed :: bool
  sd_last_command :: "command_status option"
  sd_storage :: "storage_status option"
  sd_lightweight_mode :: "bool option"
  sd_command_pending :: "bool option"

definition empty_delta :: "u64 \<Rightarrow> u64 \<Rightarrow> state_delta" where
  "empty_delta from to =
     \<lparr>sd_from_revision = from, sd_revision = to, sd_application = None, sd_profiles = None,
      sd_application_fields = None, sd_selection = None, sd_profile_editor_changed = False,
      sd_profile_editor = None, sd_rules_editor_changed = False, sd_rules_editor = None,
      sd_draft = None, sd_last_command_changed = False, sd_last_command = None, sd_storage = None,
      sd_lightweight_mode = None, sd_command_pending = None\<rparr>"

definition delta_empty :: "state_delta \<Rightarrow> bool" where
  "delta_empty d \<longleftrightarrow>
     sd_application d = None \<and> sd_profiles d = None \<and> sd_application_fields d = None
     \<and> sd_selection d = None \<and> \<not> sd_profile_editor_changed d \<and> \<not> sd_rules_editor_changed d
     \<and> sd_draft d = None \<and> \<not> sd_last_command_changed d \<and> sd_storage d = None
     \<and> sd_lightweight_mode d = None \<and> sd_command_pending d = None"

section \<open>Wire names\<close>

lemma parse_enum_name:
  "v \<in> fst ` set table \<Longrightarrow> distinct (map snd table) \<Longrightarrow> parse_enum table (enum_name table v) = Some v"
proof (induction table v rule: enum_name.induct)
  case (2 candidate name more v)
  have "enum_name more v \<in> snd ` set more" if "v \<in> fst ` set more"
    using that by (induction more v rule: enum_name.induct) auto
  with 2 show ?case by (auto simp: image_iff)
qed simp

lemma parse_enum_Some: "parse_enum table s = Some v \<Longrightarrow> distinct (map fst table) \<Longrightarrow> enum_name table v = s"
proof (induction table s rule: parse_enum.induct)
  case (2 candidate name more s)
  have "v \<in> fst ` set more" if "parse_enum more s = Some v"
    using that by (induction more s rule: parse_enum.induct) (auto split: if_splits)
  with 2 show ?case by (auto split: if_splits)
qed simp

text \<open>A table of names is good if it lists every value once, under different names.\<close>

definition table_complete :: "('a \<times> string) list \<Rightarrow> bool" where
  "table_complete table \<longleftrightarrow> distinct (map fst table) \<and> distinct (map snd table) \<and> fst ` set table = UNIV"

lemma table_iso:
  "table_complete table \<Longrightarrow> parse_enum table s = Some v \<longleftrightarrow> s = enum_name table v"
  using parse_enum_name [of v table] parse_enum_Some [of table s v] by (auto simp: table_complete_def)

lemma table_completeI:
  "(\<And>v. v \<in> fst ` set table) \<Longrightarrow> distinct (map fst table) \<Longrightarrow> distinct (map snd table) \<Longrightarrow> table_complete table"
  by (auto simp: table_complete_def)

lemma kMessageKinds_complete: "table_complete kMessageKinds"
  by (rule table_completeI, case_tac v) (simp_all add: kMessageKinds_def)

lemma kResultCodes_complete: "table_complete kResultCodes"
  by (rule table_completeI, case_tac v) (simp_all add: kResultCodes_def)

lemma kErrorCodes_complete: "table_complete kErrorCodes"
  by (rule table_completeI, case_tac v) (simp_all add: kErrorCodes_def)

lemma kGuiCommands_complete: "table_complete kGuiCommands"
  by (rule table_completeI, case_tac v) (simp_all add: kGuiCommands_def)

lemma kUnsavedDecisions_complete: "table_complete kUnsavedDecisions"
  by (rule table_completeI, case_tac v) (simp_all add: kUnsavedDecisions_def)

lemma kMaintenanceCommands_complete: "table_complete kMaintenanceCommands"
  by (rule table_completeI, case_tac v) (simp_all add: kMaintenanceCommands_def)

lemmas tables_complete = kMessageKinds_complete kResultCodes_complete kErrorCodes_complete
  kGuiCommands_complete kUnsavedDecisions_complete kMaintenanceCommands_complete

text \<open>
  Every wire name of the protocol is the name of exactly one value: for each of the six
  enumerations parsing a string succeeds with a value exactly when the string is its name.
\<close>
theorem wire_names_iso:
  "(parse_message_kind s = Some k \<longleftrightarrow> s = message_kind_name k)
   \<and> (parse_result_code s = Some r \<longleftrightarrow> s = result_code_name r)
   \<and> (parse_error_code s = Some e \<longleftrightarrow> s = error_code_name e)
   \<and> (parse_gui_command s = Some c \<longleftrightarrow> s = gui_command_name c)
   \<and> (parse_unsaved_decision s = Some u \<longleftrightarrow> s = unsaved_decision_name u)
   \<and> (parse_maintenance_command s = Some m \<longleftrightarrow> s = maintenance_command_name m)"
  by (simp add: parse_message_kind_def message_kind_name_def parse_result_code_def result_code_name_def
      parse_error_code_def error_code_name_def parse_gui_command_def gui_command_name_def
      parse_unsaved_decision_def unsaved_decision_name_def parse_maintenance_command_def
      maintenance_command_name_def table_iso tables_complete)

end
