(* ===== verification/Session.thy ===== *)
theory Session
  imports GuiTypes
begin

text \<open>
  Sessions of the GUI pipe (\<^verbatim>\<open>gui_ipc/session.cpp\<close>): the bounded outbound queue with coalescing, the
  server side of a session with its one-time handshake and message sequence, and the tracker
  of the replicated state on the client side. The mutex of the queue makes its operations atomic;
  \<^verbatim>\<open>wait_pop\<close> is the state change after the wait, which with an expired timeout sees whatever the
  queue holds.
\<close>

unbundle bit_operations_syntax

section \<open>Outbound queue\<close>

record outbound_item =
  oi_envelope :: envelope
  oi_coalescing_key :: string

record outbound_queue =
  oq_capacity :: nat
  oq_items :: "outbound_item list"
  oq_peak_pending :: nat
  oq_rejected :: u64
  oq_coalesced :: u64
  oq_closed :: bool

definition require_capacity :: "nat \<Rightarrow> nat res" where
  "require_capacity capacity =
     (if capacity = 0 then Inl ''GUI IPC outbound queue capacity must be positive'' else Inr capacity)"

definition new_outbound_queue :: "nat \<Rightarrow> outbound_queue res" where
  "new_outbound_queue capacity =
     res_map (\<lambda>c. \<lparr>oq_capacity = c, oq_items = [], oq_peak_pending = 0, oq_rejected = 0, oq_coalesced = 0,
                   oq_closed = False\<rparr>) (require_capacity capacity)"

text \<open>The search from the back and the replacement of the envelope that is found.\<close>

fun replace_last :: "string \<Rightarrow> envelope \<Rightarrow> outbound_item list \<Rightarrow> outbound_item list option" where
  "replace_last key e [] = None"
| "replace_last key e (item # items) =
     (case replace_last key e items of
        Some items' \<Rightarrow> Some (item # items')
      | None \<Rightarrow> if oi_coalescing_key item = key then Some (item\<lparr>oi_envelope := e\<rparr> # items) else None)"

definition append_item :: "envelope \<Rightarrow> string \<Rightarrow> outbound_queue \<Rightarrow> bool \<times> outbound_queue" where
  "append_item e key q =
     (if length (oq_items q) \<ge> oq_capacity q then (False, q\<lparr>oq_rejected := oq_rejected q + 1\<rparr>)
      else (let items = oq_items q @ [\<lparr>oi_envelope = e, oi_coalescing_key = key\<rparr>]
            in (True, q\<lparr>oq_items := items, oq_peak_pending := max (oq_peak_pending q) (length items)\<rparr>)))"

definition push :: "envelope \<Rightarrow> string \<Rightarrow> outbound_queue \<Rightarrow> bool \<times> outbound_queue" where
  "push e key q =
     (if oq_closed q then (False, q\<lparr>oq_rejected := oq_rejected q + 1\<rparr>)
      else if key \<noteq> [] then
        (case replace_last key e (oq_items q) of
           Some items \<Rightarrow> (True, q\<lparr>oq_items := items, oq_coalesced := oq_coalesced q + 1\<rparr>)
         | None \<Rightarrow> append_item e key q)
      else append_item e key q)"

definition wait_pop :: "outbound_queue \<Rightarrow> outbound_item option \<times> outbound_queue" where
  "wait_pop q =
     (case oq_items q of
        [] \<Rightarrow> (None, q)
      | item # items \<Rightarrow> (Some item, q\<lparr>oq_items := items\<rparr>))"

definition queue_close :: "outbound_queue \<Rightarrow> outbound_queue" where
  "queue_close q = q\<lparr>oq_closed := True\<rparr>"

definition queue_reset :: "outbound_queue \<Rightarrow> outbound_queue" where
  "queue_reset q = q\<lparr>oq_items := [], oq_closed := False\<rparr>"

section \<open>Server session\<close>

record server_session_policy =
  sp_version :: string
  sp_source_commit :: string
  sp_instance_identity :: string
  sp_handshake_token :: string
  sp_session_id :: string
  sp_expected_process_id :: "u64 option"

record server_session =
  sv_policy :: server_session_policy
  sv_last_client_sequence :: u64
  sv_next_server_sequence :: u64
  sv_authenticated :: bool
  sv_token_consumed :: bool

text \<open>A validation is accepted, or rejected with a code and a detail.\<close>

type_synonym session_validation = "(error_code \<times> string) option"

definition new_session :: "server_session_policy \<Rightarrow> server_session" where
  "new_session p =
     \<lparr>sv_policy = p, sv_last_client_sequence = 0, sv_next_server_sequence = 1,
      sv_authenticated = False, sv_token_consumed = False\<rparr>"

text \<open>The comparison runs over the longer argument and folds the differences of all bytes.\<close>

definition byte_at :: "string \<Rightarrow> nat \<Rightarrow> u64" where
  "byte_at s i = (if i < length s then word_of_nat (code (s ! i)) else 0)"

definition constant_time_equal :: "string \<Rightarrow> string \<Rightarrow> bool" where
  "constant_time_equal left right =
     (fold (\<lambda>i difference. difference OR (byte_at left i XOR byte_at right i))
        [0..<max (length left) (length right)]
        (word_of_nat (length left) XOR word_of_nat (length right) :: u64) = 0)"

text \<open>The checks of \<^verbatim>\<open>accept_hello\<close> in their order, as the rejection they give.\<close>

definition check_hello :: "server_session \<Rightarrow> envelope \<Rightarrow> hello \<Rightarrow> u64 \<Rightarrow> session_validation" where
  "check_hello s e h actual_process_id =
     (let p = sv_policy s;
          envelope_error = (case validate_envelope e of Inl m \<Rightarrow> m | Inr _ \<Rightarrow> [])
      in if \<not> is_ok (validate_envelope e) \<or> ev_kind e \<noteq> Hello then
           Some (MalformedMessage,
                 if envelope_error = [] then ''the first GUI IPC message must be hello'' else envelope_error)
         else if sv_authenticated s \<or> sv_token_consumed s then
           Some (AuthenticationFailed, ''the one-time GUI handshake has already been consumed'')
         else if hl_version h \<noteq> sp_version p then
           Some (VersionMismatch, ''GUI and tray versions do not match'')
         else if hl_source_commit h \<noteq> sp_source_commit p \<or> ev_source_commit e \<noteq> sp_source_commit p then
           Some (SourceMismatch, ''GUI and tray source commits do not match'')
         else if hl_instance_identity h \<noteq> sp_instance_identity p then
           Some (AuthenticationFailed, ''GUI instance identity does not match the tray'')
         else if \<not> constant_time_equal (hl_handshake_token h) (sp_handshake_token p) then
           Some (AuthenticationFailed, ''GUI handshake token is invalid'')
         else if hl_process_id h \<noteq> actual_process_id
                 \<or> (case sp_expected_process_id p of Some expected \<Rightarrow> expected \<noteq> actual_process_id | None \<Rightarrow> False) then
           Some (AuthenticationFailed, ''GUI process identity does not match the named-pipe client'')
         else None)"

definition accept_hello ::
  "envelope \<Rightarrow> hello \<Rightarrow> u64 \<Rightarrow> u64 \<Rightarrow> server_session \<Rightarrow> session_validation \<times> hello_result \<times> server_session" where
  "accept_hello e h actual_process_id state_revision s =
     (let p = sv_policy s;
          result = \<lparr>hr_accepted = False, hr_version = sp_version p, hr_source_commit = sp_source_commit p,
                    hr_session_id = sp_session_id p, hr_state_revision = state_revision,
                    hr_error = ErrorNone, hr_detail = []\<rparr>
      in case check_hello s e h actual_process_id of
           Some (err, detail) \<Rightarrow> (Some (err, detail), result\<lparr>hr_error := err, hr_detail := detail\<rparr>, s)
         | None \<Rightarrow>
             (None, result\<lparr>hr_accepted := True\<rparr>,
              s\<lparr>sv_authenticated := True, sv_token_consumed := True,
                sv_policy := p\<lparr>sp_handshake_token := []\<rparr>,
                sv_last_client_sequence := 0, sv_next_server_sequence := 1\<rparr>))"

definition accept_message :: "envelope \<Rightarrow> server_session \<Rightarrow> session_validation \<times> server_session" where
  "accept_message e s =
     (if \<not> sv_authenticated s then
        (Some (AuthenticationFailed, ''GUI IPC session has not completed hello''), s)
      else (case validate_envelope e of
        Inl m \<Rightarrow> (Some (MalformedMessage, m), s)
      | Inr _ \<Rightarrow>
          if ev_protocol e \<noteq> kProtocol then
            (Some (UnsupportedProtocol, ''unsupported GUI IPC protocol''), s)
          else if ev_source_commit e \<noteq> sp_source_commit (sv_policy s) then
            (Some (SourceMismatch, ''GUI IPC source commit changed during session''), s)
          else if ev_session_id e \<noteq> sp_session_id (sv_policy s) then
            (Some (SessionMismatch, ''GUI IPC session_id does not match''), s)
          else if ev_sequence e \<noteq> sv_last_client_sequence s + 1 then
            (Some (SequenceRejected,
               if ev_sequence e \<le> sv_last_client_sequence s
               then ''GUI IPC sequence is duplicate or stale''
               else ''GUI IPC sequence contains a gap''), s)
          else (None, s\<lparr>sv_last_client_sequence := ev_sequence e\<rparr>)))"

definition next_server_sequence :: "server_session \<Rightarrow> u64 \<times> server_session" where
  "next_server_sequence s =
     (sv_next_server_sequence s, s\<lparr>sv_next_server_sequence := sv_next_server_sequence s + 1\<rparr>)"

definition session_disconnect :: "server_session \<Rightarrow> server_session" where
  "session_disconnect s =
     s\<lparr>sv_authenticated := False, sv_last_client_sequence := 0, sv_next_server_sequence := 1\<rparr>"

section \<open>Client state tracker\<close>

record state_tracker =
  tr_snapshot :: "snapshot option"
  tr_connected :: bool
  tr_snapshot_required :: bool

definition new_tracker :: state_tracker where
  "new_tracker = \<lparr>tr_snapshot = None, tr_connected = False, tr_snapshot_required = True\<rparr>"

definition accept_snapshot :: "snapshot \<Rightarrow> state_tracker \<Rightarrow> string option \<times> state_tracker" where
  "accept_snapshot s t =
     (if sn_revision s = 0 then
        (Some ''GUI IPC snapshot revision must be positive'', t\<lparr>tr_snapshot_required := True\<rparr>)
      else (None, t\<lparr>tr_snapshot := Some s, tr_connected := True, tr_snapshot_required := False\<rparr>))"

definition update_opt :: "'a option \<Rightarrow> 'a \<Rightarrow> 'a" where
  "update_opt new old = (case new of Some x \<Rightarrow> x | None \<Rightarrow> old)"

definition patch_snapshot :: "state_delta \<Rightarrow> snapshot \<Rightarrow> snapshot" where
  "patch_snapshot d s =
     \<lparr>sn_revision = sd_revision d,
      sn_application = update_opt (sd_application d) (sn_application s),
      sn_profiles = update_opt (sd_profiles d) (sn_profiles s),
      sn_application_fields = update_opt (sd_application_fields d) (sn_application_fields s),
      sn_selection = update_opt (sd_selection d) (sn_selection s),
      sn_profile_editor = (if sd_profile_editor_changed d then sd_profile_editor d else sn_profile_editor s),
      sn_rules_editor = (if sd_rules_editor_changed d then sd_rules_editor d else sn_rules_editor s),
      sn_draft = update_opt (sd_draft d) (sn_draft s),
      sn_last_command = (if sd_last_command_changed d then sd_last_command d else sn_last_command s),
      sn_storage = update_opt (sd_storage d) (sn_storage s),
      sn_lightweight_mode = update_opt (sd_lightweight_mode d) (sn_lightweight_mode s),
      sn_command_pending = update_opt (sd_command_pending d) (sn_command_pending s)\<rparr>"

definition apply_delta :: "state_delta \<Rightarrow> state_tracker \<Rightarrow> string option \<times> state_tracker" where
  "apply_delta d t =
     (case (if tr_snapshot_required t then None else tr_snapshot t) of
        None \<Rightarrow> (Some ''a complete GUI IPC snapshot is required before state deltas'',
                 t\<lparr>tr_snapshot_required := True\<rparr>)
      | Some s \<Rightarrow>
          if sd_from_revision d \<noteq> sn_revision s \<or> sd_revision d \<le> sd_from_revision d \<or> delta_empty d then
            (Some ''GUI IPC state revision gap requires a new snapshot'', t\<lparr>tr_snapshot_required := True\<rparr>)
          else (None, t\<lparr>tr_snapshot := Some (patch_snapshot d s)\<rparr>))"

definition tracker_disconnect :: "state_tracker \<Rightarrow> state_tracker" where
  "tracker_disconnect t = t\<lparr>tr_connected := False, tr_snapshot_required := True\<rparr>"

section \<open>Delivery of the queue\<close>

datatype queue_op = Push envelope string | Pop | Close

text \<open>A run of the queue, with the items it accepted and the items it delivered.\<close>

fun queue_run ::
  "queue_op list \<Rightarrow> outbound_queue \<Rightarrow> outbound_item list \<times> outbound_item list \<times> outbound_queue" where
  "queue_run [] q = ([], [], q)"
| "queue_run (Push e key # ops) q =
     (case push e key q of (ok, q1) \<Rightarrow> case queue_run ops q1 of (acc, del, q2) \<Rightarrow>
        (if ok then \<lparr>oi_envelope = e, oi_coalescing_key = key\<rparr> # acc else acc, del, q2))"
| "queue_run (Pop # ops) q =
     (case wait_pop q of (item, q1) \<Rightarrow> case queue_run ops q1 of (acc, del, q2) \<Rightarrow>
        (acc, (case item of Some i \<Rightarrow> i # del | None \<Rightarrow> del), q2))"
| "queue_run (Close # ops) q = queue_run ops (queue_close q)"

definition with_key :: "string \<Rightarrow> outbound_item list \<Rightarrow> outbound_item list" where
  "with_key key = filter (\<lambda>i. oi_coalescing_key i = key)"

definition latest :: "string \<Rightarrow> outbound_item list \<Rightarrow> envelope option" where
  "latest key items =
     (if with_key key items = [] then None else Some (oi_envelope (last (with_key key items))))"

definition queue_ok :: "outbound_queue \<Rightarrow> bool" where
  "queue_ok q \<longleftrightarrow>
     length (oq_items q) \<le> oq_peak_pending q \<and> oq_peak_pending q \<le> oq_capacity q
     \<and> (\<forall>key. key \<noteq> [] \<longrightarrow> length (with_key key (oq_items q)) \<le> 1)"

lemma with_key_simps [simp]:
  "with_key key [] = []"
  "with_key key (i # is) = (if oi_coalescing_key i = key then i # with_key key is else with_key key is)"
  "with_key key (xs @ ys) = with_key key xs @ with_key key ys"
  by (simp_all add: with_key_def)

lemma replace_last_None: "replace_last key e items = None \<longleftrightarrow> with_key key items = []"
  by (induction items) (auto split: option.splits)

lemma replace_last_Some:
  assumes "replace_last key e items = Some items'"
  shows "length items' = length items \<and> (\<forall>k. k \<noteq> key \<longrightarrow> with_key k items' = with_key k items)
         \<and> with_key key items' = butlast (with_key key items) @ [\<lparr>oi_envelope = e, oi_coalescing_key = key\<rparr>]
         \<and> with_key key items \<noteq> []"
  using assms
proof (induction items arbitrary: items')
  case (Cons i items)
  show ?case
  proof (cases "replace_last key e items")
    case None
    then have "with_key key items = []" by (simp add: replace_last_None)
    with None show ?thesis using Cons.prems by (cases i) (auto split: if_splits)
  next
    case (Some xs)
    then show ?thesis using Cons.prems Cons.IH [OF Some] by auto
  qed
qed simp

text \<open>The three ways a push can end.\<close>

lemma push_cases [consumes 1, case_names rejected coalesced appended]:
  assumes "push e key q = (ok, q')"
  obtains "\<not> ok" "q' = q\<lparr>oq_rejected := oq_rejected q + 1\<rparr>"
  | items where "ok" "key \<noteq> []" "replace_last key e (oq_items q) = Some items"
      "q' = q\<lparr>oq_items := items, oq_coalesced := oq_coalesced q + 1\<rparr>"
  | "ok" "key = [] \<or> with_key key (oq_items q) = []" "length (oq_items q) < oq_capacity q"
      "q' = q\<lparr>oq_items := oq_items q @ [\<lparr>oi_envelope = e, oi_coalescing_key = key\<rparr>],
              oq_peak_pending := max (oq_peak_pending q) (Suc (length (oq_items q)))\<rparr>"
proof (cases "replace_last key e (oq_items q)")
  case None
  then have "with_key key (oq_items q) = []" by (simp add: replace_last_None)
  with None that assms show ?thesis
    by (auto simp: push_def append_item_def Let_def split: if_splits)
next
  case (Some items)
  with that assms show ?thesis by (auto simp: push_def append_item_def Let_def split: if_splits)
qed

lemma push_ok:
  assumes "queue_ok q" "push e key q = (ok, q')"
  shows "queue_ok q' \<and> oq_capacity q' = oq_capacity q"
  using assms(2)
proof (cases rule: push_cases)
  case (coalesced items)
  note r = replace_last_Some [OF coalesced(3)]
  then have "length (with_key k items) = length (with_key k (oq_items q))" for k
    by (cases "k = key") simp_all
  with r assms(1) coalesced(4) show ?thesis by (simp add: queue_ok_def)
qed (use assms(1) in \<open>auto simp: queue_ok_def\<close>)

lemma push_keeps:
  assumes "push e key q = (True, q')"
  shows "\<exists>xs. with_key key (oq_items q') = xs @ [\<lparr>oi_envelope = e, oi_coalescing_key = key\<rparr>]
           \<and> (key = [] \<longrightarrow> xs = with_key [] (oq_items q))"
    and "k \<noteq> key \<Longrightarrow> with_key k (oq_items q') = with_key k (oq_items q)"
  using assms by (cases rule: push_cases; auto dest!: replace_last_Some)+

lemma latest_append: "latest k (xs @ ys) = (if latest k ys = None then latest k xs else latest k ys)"
  by (simp add: latest_def)

lemma latest_Cons:
  "latest k (i # xs) =
     (if latest k xs = None then if oi_coalescing_key i = k then Some (oi_envelope i) else None else latest k xs)"
  by (simp add: latest_def)

lemma push_latest:
  assumes "push e key q = (True, q')"
  shows "latest k (oq_items q' @ acc) = latest k (oq_items q @ \<lparr>oi_envelope = e, oi_coalescing_key = key\<rparr> # acc)"
proof (cases "k = key")
  case True
  with push_keeps(1) [OF assms] show ?thesis by (auto simp: latest_def)
next
  case False
  with push_keeps(2) [OF assms False] show ?thesis by (simp add: latest_def)
qed

lemma queue_run_delivery:
  assumes "queue_run ops q = (acc, del, q')" "queue_ok q"
  shows "with_key [] (del @ oq_items q') = with_key [] (oq_items q @ acc)
         \<and> (\<forall>k. latest k (del @ oq_items q') = latest k (oq_items q @ acc))
         \<and> queue_ok q' \<and> oq_capacity q' = oq_capacity q"
  using assms
proof (induction ops q arbitrary: acc del q' rule: queue_run.induct)
  case (1 q)
  then show ?case by simp
next
  case (2 e key ops q)
  obtain ok q1 where p: "push e key q = (ok, q1)" by (rule prod.exhaust)
  obtain acc1 del1 q2 where r: "queue_run ops q1 = (acc1, del1, q2)" by (rule prod_cases3)
  note ih = "2.IH" [OF p [symmetric] r] push_ok [OF "2.prems"(2) p]
  show ?case
  proof (cases ok)
    case True
    with p have t: "push e key q = (True, q1)" by simp
    have "with_key [] (oq_items q1) @ with_key [] acc1 =
          with_key [] (oq_items q @ \<lparr>oi_envelope = e, oi_coalescing_key = key\<rparr> # acc1)"
      using push_keeps(1) [OF t] push_keeps(2) [OF t, of "[]"] by (cases "key = []") auto
    with ih "2.prems"(1) p r True push_latest [OF t] show ?thesis by auto
  next
    case False
    from p have "oq_items q1 = oq_items q"
      by (cases rule: push_cases) (use False in auto)
    with ih "2.prems"(1) p r False show ?thesis by auto
  qed
next
  case (3 ops q)
  obtain item q1 where p: "wait_pop q = (item, q1)" by (rule prod.exhaust)
  obtain acc1 del1 q2 where r: "queue_run ops q1 = (acc1, del1, q2)" by (rule prod_cases3)
  have q1: "queue_ok q1" "oq_capacity q1 = oq_capacity q"
    using p "3.prems"(2) by (auto simp: wait_pop_def queue_ok_def split: list.splits if_splits)
  note ih = "3.IH" [OF p [symmetric] r q1(1)]
  show ?case
  proof (cases "oq_items q")
    case Nil
    with p have "item = None" "q1 = q" by (simp_all add: wait_pop_def)
    with ih r p "3.prems"(1) show ?thesis by auto
  next
    case (Cons i items)
    with p have "item = Some i" "oq_items q1 = items" by (auto simp: wait_pop_def)
    with Cons ih q1 r p "3.prems"(1) show ?thesis by (auto simp: latest_Cons)
  qed
next
  case (4 ops q)
  have c: "oq_items (queue_close q) = oq_items q" "oq_capacity (queue_close q) = oq_capacity q"
    "queue_ok (queue_close q) = queue_ok q"
    by (simp_all add: queue_close_def queue_ok_def)
  from "4.prems" c have "queue_run ops (queue_close q) = (acc, del, q')" "queue_ok (queue_close q)" by simp_all
  from "4.IH" [OF this] show ?case unfolding c .
qed


definition sample_envelope :: "string \<Rightarrow> envelope" where
  "sample_envelope request = new_envelope\<lparr>ev_request_id := request\<rparr>"


section \<open>The one-time handshake and the message sequence\<close>

lemma word_fold_or:
  "fold (\<lambda>i d. d OR f i) is (d :: u64) = 0 \<longleftrightarrow> d = 0 \<and> (\<forall>i \<in> set is. f i = 0)"
proof (induction "is" arbitrary: d)
  case (Cons i "is")
  have "d OR f i = 0 \<longleftrightarrow> d = 0 \<and> f i = 0" by (metis or_eq_0_iff)
  with Cons show ?case by auto
qed simp

text \<open>The comparison without early exit decides equality (lengths are those of \<^verbatim>\<open>size_t\<close>).\<close>

lemma constant_time_equal_iff:
  assumes "length left < 2 ^ 64" "length right < 2 ^ 64"
  shows "constant_time_equal left right \<longleftrightarrow> left = right"
proof -
  have xor0: "a XOR b = 0 \<longleftrightarrow> a = b" for a b :: u64
  proof
    assume "a XOR b = 0"
    moreover have "(a XOR b) XOR b = a" by (simp only: xor.assoc xor_self_eq xor.right_neutral)
    ultimately show "a = b" by simp
  qed simp
  have len: "(word_of_nat (length left) :: u64) = word_of_nat (length right) \<longleftrightarrow> length left = length right"
    using assms by (simp add: word_of_nat_eq_iff take_bit_nat_eq_self)
  have chr: "(word_of_nat (code c) :: u64) = word_of_nat (code d) \<longleftrightarrow> c = d" for c d
  proof -
    have "code x < 2 ^ 64" for x :: char using code_less [of x] by (rule less_trans) simp
    then show ?thesis by (simp add: word_of_nat_eq_iff take_bit_nat_eq_self)
  qed
  have eq: "constant_time_equal left right \<longleftrightarrow> length left = length right
      \<and> (\<forall>i < max (length left) (length right). byte_at left i = byte_at right i)"
    unfolding constant_time_equal_def word_fold_or xor0 len by auto
  show ?thesis
  proof
    assume "constant_time_equal left right"
    with eq have l: "length left = length right" and b: "\<And>i. i < length left \<Longrightarrow> byte_at left i = byte_at right i" by auto
    from l show "left = right"
    proof (rule nth_equalityI)
      fix i assume "i < length left"
      with b [of i] l chr show "left ! i = right ! i" by (simp add: byte_at_def)
    qed
  next
    assume "left = right"
    then show "constant_time_equal left right" unfolding eq by simp
  qed
qed

datatype session_event =
  HelloEvent envelope hello u64 u64
  | MessageEvent envelope
  | SendEvent
  | DisconnectEvent

text \<open>A run of a session, with the accepted handshakes and the accepted messages.\<close>

fun session_run ::
  "session_event list \<Rightarrow> server_session \<Rightarrow> (envelope \<times> hello \<times> u64) list \<times> envelope list \<times> server_session" where
  "session_run [] s = ([], [], s)"
| "session_run (HelloEvent e h pid revn # evs) s =
     (case accept_hello e h pid revn s of (v, r, s1) \<Rightarrow> case session_run evs s1 of (hs, ms, s2) \<Rightarrow>
        (if v = None then (e, h, pid) # hs else hs, ms, s2))"
| "session_run (MessageEvent e # evs) s =
     (case accept_message e s of (v, s1) \<Rightarrow> case session_run evs s1 of (hs, ms, s2) \<Rightarrow>
        (hs, if v = None then e # ms else ms, s2))"
| "session_run (SendEvent # evs) s = session_run evs (snd (next_server_sequence s))"
| "session_run (DisconnectEvent # evs) s = session_run evs (session_disconnect s)"

definition hello_genuine :: "server_session_policy \<Rightarrow> envelope \<times> hello \<times> u64 \<Rightarrow> bool" where
  "hello_genuine p x \<longleftrightarrow>
     (case x of (e, h, pid) \<Rightarrow>
        hl_version h = sp_version p \<and> hl_source_commit h = sp_source_commit p
        \<and> ev_source_commit e = sp_source_commit p \<and> hl_instance_identity h = sp_instance_identity p
        \<and> constant_time_equal (hl_handshake_token h) (sp_handshake_token p) \<and> hl_process_id h = pid
        \<and> (sp_expected_process_id p = None \<or> sp_expected_process_id p = Some pid)
        \<and> ev_kind e = Hello)"

definition message_genuine :: "server_session_policy \<Rightarrow> envelope \<Rightarrow> bool" where
  "message_genuine p e \<longleftrightarrow>
     validate_envelope e = Inr () \<and> ev_source_commit e = sp_source_commit p
     \<and> ev_session_id e = sp_session_id p \<and> ev_protocol e = kProtocol"

lemma accept_message_Some: "fst (accept_message e s) \<noteq> None \<Longrightarrow> snd (accept_message e s) = s"
  by (auto simp: accept_message_def split: sum.splits if_splits)

lemma accept_message_None:
  "fst (accept_message e s) = None \<Longrightarrow>
     sv_authenticated s \<and> message_genuine (sv_policy s) e \<and> ev_sequence e = sv_last_client_sequence s + 1
     \<and> snd (accept_message e s) = s\<lparr>sv_last_client_sequence := ev_sequence e\<rparr>"
  by (auto simp: accept_message_def message_genuine_def split: sum.splits if_splits)

lemma accept_hello_cases:
  obtains (rejected) err r where "accept_hello e h pid revn s = (Some err, r, s)"
  | (accepted) r where "check_hello s e h pid = None"
      "accept_hello e h pid revn s = (None, r, s\<lparr>sv_authenticated := True, sv_token_consumed := True,
         sv_policy := (sv_policy s)\<lparr>sp_handshake_token := []\<rparr>, sv_last_client_sequence := 0, sv_next_server_sequence := 1\<rparr>)"
  by (cases "check_hello s e h pid") (auto simp: accept_hello_def Let_def)

lemma check_hello_None:
  "check_hello s e h pid = None \<Longrightarrow> hello_genuine (sv_policy s) (e, h, pid) \<and> \<not> sv_authenticated s \<and> \<not> sv_token_consumed s"
  by (auto simp: check_hello_def hello_genuine_def Let_def split: if_splits option.splits)

lemma session_run_dead:
  "session_run evs s = (hs, ms, s') \<Longrightarrow> \<not> sv_authenticated s \<Longrightarrow> sv_token_consumed s \<Longrightarrow>
     hs = [] \<and> ms = [] \<and> \<not> sv_authenticated s'"
proof (induction evs s arbitrary: hs ms s' rule: session_run.induct)
  case (2 e h pid revn evs s)
  obtain err r where "accept_hello e h pid revn s = (Some err, r, s)"
    using 2 check_hello_None [of s e h pid] by (cases rule: accept_hello_cases [of e h pid revn s]) auto
  with 2 show ?case by (auto split: prod.splits)
next
  case (3 e evs s)
  then show ?case using accept_message_None [of e s] accept_message_Some [of e s]
    by (cases "accept_message e s") (auto split: prod.splits if_splits)
qed (auto simp: next_server_sequence_def session_disconnect_def)

lemma session_run_live:
  assumes "session_run evs s = (hs, ms, s')" "sv_authenticated s" "sv_token_consumed s"
  shows "hs = [] \<and> list_all (message_genuine (sv_policy s)) ms
         \<and> map ev_sequence ms = map (\<lambda>i. sv_last_client_sequence s + 1 + word_of_nat i) [0..<length ms]"
  using assms
proof (induction evs s arbitrary: hs ms s' rule: session_run.induct)
  case (2 e h pid revn evs s)
  obtain err r where "accept_hello e h pid revn s = (Some err, r, s)"
    using "2.prems" check_hello_None [of s e h pid] by (cases rule: accept_hello_cases [of e h pid revn s]) auto
  with 2 show ?case by (auto split: prod.splits)
next
  case (3 e evs s)
  obtain v s1 where v: "accept_message e s = (v, s1)" by (rule prod.exhaust)
  obtain hs1 ms1 s2 where r: "session_run evs s1 = (hs1, ms1, s2)" by (rule prod_cases3)
  show ?case
  proof (cases v)
    case (Some x)
    with v accept_message_Some [of e s] have "s1 = s" by simp
    with 3 v r Some show ?thesis by auto
  next
    case None
    with v accept_message_None [of e s]
    have g: "message_genuine (sv_policy s) e" "ev_sequence e = sv_last_client_sequence s + 1"
      and s1: "s1 = s\<lparr>sv_last_client_sequence := ev_sequence e\<rparr>" by simp_all
    then have ih: "hs1 = []" "list_all (message_genuine (sv_policy s)) ms1"
      "map ev_sequence ms1 = map (\<lambda>i. ev_sequence e + 1 + word_of_nat i) [0..<length ms1]"
      using "3.IH" [OF v [symmetric] r] "3.prems" r by auto
    have "map ev_sequence (e # ms1) = map (\<lambda>i. sv_last_client_sequence s + 1 + word_of_nat i) [0..<length (e # ms1)]"
      using ih(3) g(2) by (simp add: map_upt_Suc add.assoc del: upt_Suc)
    with ih g "3.prems" v r None show ?thesis by auto
  qed
next
  case (4 evs s)
  then show ?case by (simp add: next_server_sequence_def)
next
  case (5 evs s)
  then show ?case using session_run_dead [of evs "session_disconnect s" hs ms] by (auto simp: session_disconnect_def)
qed simp

lemma message_genuine_token [simp]: "message_genuine (p\<lparr>sp_handshake_token := t\<rparr>) = message_genuine p"
  by (rule ext) (simp add: message_genuine_def)

lemma session_run_fresh:
  assumes "session_run evs s = (hs, ms, s')" "\<not> sv_authenticated s" "\<not> sv_token_consumed s"
  shows "length hs \<le> 1 \<and> list_all (hello_genuine (sv_policy s)) hs \<and> (ms \<noteq> [] \<longrightarrow> hs \<noteq> [])
         \<and> list_all (message_genuine (sv_policy s)) ms
         \<and> map ev_sequence ms = map (\<lambda>i. 1 + word_of_nat i) [0..<length ms]"
  using assms
proof (induction evs s arbitrary: hs ms s' rule: session_run.induct)
  case (2 e h pid revn evs s)
  show ?case
  proof (cases rule: accept_hello_cases [of e h pid revn s])
    case (rejected err r)
    with 2 show ?thesis by (auto split: prod.splits)
  next
    case (accepted r)
    let ?s = "s\<lparr>sv_authenticated := True, sv_token_consumed := True,
      sv_policy := (sv_policy s)\<lparr>sp_handshake_token := []\<rparr>, sv_last_client_sequence := 0, sv_next_server_sequence := 1\<rparr>"
    obtain hs1 ms1 s2 where r: "session_run evs ?s = (hs1, ms1, s2)" by (rule prod_cases3)
    from session_run_live [OF r] check_hello_None [OF accepted(1)] r accepted(2) "2.prems"(1)
    show ?thesis by auto
  qed
next
  case (3 e evs s)
  obtain v s1 where v: "accept_message e s = (v, s1)" by (rule prod.exhaust)
  with "3.prems" accept_message_None [of e s] accept_message_Some [of e s] have "v \<noteq> None" "s1 = s"
    by (cases v; simp)+
  with 3 v show ?case by (auto split: prod.splits)
next
  case (4 evs s)
  then show ?case by (simp add: next_server_sequence_def)
next
  case (5 evs s)
  then show ?case by (simp add: session_disconnect_def)
qed simp

text \<open>
  C30: In every history of handshakes, messages, sends and disconnects of one server session at most
  one handshake is accepted, and it carries the version, source commit, instance identity, token and
  process of the policy. Messages are accepted only after it, all belong to the session, and their
  sequence numbers are exactly 1, 2, 3, ...: nothing is replayed, skipped or reordered.
\<close>
theorem session_handshake_once:
  assumes "session_run evs (new_session p) = (hellos, messages, s)"
    and "length (sp_handshake_token p) < 2 ^ 64" "\<forall>(e, h, pid) \<in> set hellos. length (hl_handshake_token h) < 2 ^ 64"
  shows "length hellos \<le> 1
         \<and> (\<forall>(e, h, pid) \<in> set hellos. hl_handshake_token h = sp_handshake_token p \<and> hello_genuine p (e, h, pid))
         \<and> (messages \<noteq> [] \<longrightarrow> hellos \<noteq> []) \<and> list_all (message_genuine p) messages
         \<and> map ev_sequence messages = map (\<lambda>i. 1 + word_of_nat i) [0..<length messages]"
proof -
  have "sv_policy (new_session p) = p" by (simp add: new_session_def)
  note run = session_run_fresh [OF assms(1), unfolded this]
  then have *: "length hellos \<le> 1" "list_all (hello_genuine p) hellos" "messages \<noteq> [] \<longrightarrow> hellos \<noteq> []"
    "list_all (message_genuine p) messages" "map ev_sequence messages = map (\<lambda>i. 1 + word_of_nat i) [0..<length messages]"
    by (simp_all add: new_session_def)
  moreover have "hl_handshake_token h = sp_handshake_token p" if "(e, h, pid) \<in> set hellos" for e h pid
  proof -
    from that *(2) have "constant_time_equal (hl_handshake_token h) (sp_handshake_token p)"
      by (auto simp: list_all_iff hello_genuine_def)
    with that assms(2,3) constant_time_equal_iff show ?thesis by blast
  qed
  ultimately show ?thesis by (auto simp: list_all_iff)
qed

definition sample_policy :: server_session_policy where
  "sample_policy =
     \<lparr>sp_version = ''1'', sp_source_commit = ''c'', sp_instance_identity = ''i'', sp_handshake_token = ''tok'',
      sp_session_id = ''s'', sp_expected_process_id = Some 7\<rparr>"

definition sample_hello :: session_event where
  "sample_hello =
     HelloEvent (new_envelope\<lparr>ev_kind := Hello, ev_request_id := ''hello'', ev_source_commit := ''c''\<rparr>)
       \<lparr>hl_version = ''1'', hl_source_commit = ''c'', hl_instance_identity = ''i'', hl_handshake_token = ''tok'',
        hl_process_id = 7\<rparr> 7 1"

definition sample_message :: "u64 \<Rightarrow> envelope" where
  "sample_message n =
     new_envelope\<lparr>ev_kind := Ping, ev_request_id := ''p'', ev_source_commit := ''c'', ev_session_id := ''s'', ev_sequence := n\<rparr>"

theorem session_handshake_once_witness:
  "\<exists>hellos s. session_run [MessageEvent (sample_message 1), sample_hello, MessageEvent (sample_message 1),
       MessageEvent (sample_message 1), MessageEvent (sample_message 2), sample_hello, DisconnectEvent, sample_hello]
       (new_session sample_policy) = (hellos, [sample_message 1, sample_message 2], s) \<and> length hellos \<le> 1"
proof -
  let ?evs = "[MessageEvent (sample_message 1), sample_hello, MessageEvent (sample_message 1),
       MessageEvent (sample_message 1), MessageEvent (sample_message 2), sample_hello, DisconnectEvent, sample_hello]"
  obtain hs ms s where r: "session_run ?evs (new_session sample_policy) = (hs, ms, s)" by (rule prod_cases3)
  have "fst (session_run ?evs (new_session sample_policy)) =
      [(new_envelope\<lparr>ev_kind := Hello, ev_request_id := ''hello'', ev_source_commit := ''c''\<rparr>,
        \<lparr>hl_version = ''1'', hl_source_commit = ''c'', hl_instance_identity = ''i'', hl_handshake_token = ''tok'',
         hl_process_id = 7\<rparr>, 7)]
    \<and> fst (snd (session_run ?evs (new_session sample_policy))) = [sample_message 1, sample_message 2]"
    by code_simp
  with r have hs: "hs = [(new_envelope\<lparr>ev_kind := Hello, ev_request_id := ''hello'', ev_source_commit := ''c''\<rparr>,
        \<lparr>hl_version = ''1'', hl_source_commit = ''c'', hl_instance_identity = ''i'', hl_handshake_token = ''tok'',
         hl_process_id = 7\<rparr>, 7)]" and ms: "ms = [sample_message 1, sample_message 2]" by simp_all
  from session_handshake_once [OF r] hs have "length hs \<le> 1" by (simp add: sample_policy_def)
  with r ms show ?thesis by auto
qed

end
