(* ===== verification/Replication.thy ===== *)
theory Replication
  imports FrameCodec Session
begin

text \<open>
  Replication of the state from the tray process to the GUI process: the difference of two states
  (\<^verbatim>\<open>build_gui_state_delta\<close> in \<^verbatim>\<open>gui_snapshot_builder.cpp\<close>), the outbound channel with its job
  queue and writer thread (\<^verbatim>\<open>gui_outbound_channel.cpp\<close>), and the receiving side of the client
  (\<^verbatim>\<open>gui_ipc_client.cpp\<close>). The JSON texts of the messages and the result of a write to the pipe
  are parameters. Every operation of the channel holds its mutex, so a history is a sequence of
  operations, one of which is an iteration of the writer thread.
\<close>

section \<open>Model\<close>

record gui_codec =
  serialize_envelope :: "envelope \<Rightarrow> string res"
  parse_envelope :: "string \<Rightarrow> envelope res"
  serialize_snapshot :: "snapshot \<Rightarrow> string res"
  parse_snapshot :: "string \<Rightarrow> snapshot res"
  serialize_state_delta :: "state_delta \<Rightarrow> string res"
  parse_state_delta :: "string \<Rightarrow> state_delta res"
  parse_command_status :: "string \<Rightarrow> command_status res"

definition changed :: "'a \<Rightarrow> 'a \<Rightarrow> 'a option" where
  "changed previous current = (if previous \<noteq> current then Some current else None)"

definition build_gui_state_delta :: "snapshot \<Rightarrow> snapshot \<Rightarrow> state_delta" where
  "build_gui_state_delta previous current =
     \<lparr>sd_from_revision = sn_revision previous, sd_revision = sn_revision current,
      sd_application = changed (sn_application previous) (sn_application current),
      sd_profiles = changed (sn_profiles previous) (sn_profiles current),
      sd_application_fields = changed (sn_application_fields previous) (sn_application_fields current),
      sd_selection = changed (sn_selection previous) (sn_selection current),
      sd_profile_editor_changed = (sn_profile_editor previous \<noteq> sn_profile_editor current),
      sd_profile_editor =
        (if sn_profile_editor previous \<noteq> sn_profile_editor current then sn_profile_editor current else None),
      sd_rules_editor_changed = (sn_rules_editor previous \<noteq> sn_rules_editor current),
      sd_rules_editor =
        (if sn_rules_editor previous \<noteq> sn_rules_editor current then sn_rules_editor current else None),
      sd_draft = changed (sn_draft previous) (sn_draft current),
      sd_last_command_changed = (sn_last_command previous \<noteq> sn_last_command current),
      sd_last_command =
        (if sn_last_command previous \<noteq> sn_last_command current then sn_last_command current else None),
      sd_storage = changed (sn_storage previous) (sn_storage current),
      sd_lightweight_mode = changed (sn_lightweight_mode previous) (sn_lightweight_mode current),
      sd_command_pending = changed (sn_command_pending previous) (sn_command_pending current)\<rparr>"

subsection \<open>Outbound channel\<close>

datatype channel_job = EnvelopeJob envelope | SnapshotJob envelope snapshot | StateJob

record outbound_channel =
  ch_session_id :: string
  ch_source_commit :: string
  ch_capacity :: nat
  ch_jobs :: "channel_job list"
  ch_latest_state :: "snapshot option"
  ch_sent_state :: "snapshot option"
  ch_peak_pending :: nat
  ch_rejected :: u64
  ch_coalesced :: u64
  ch_state_queued :: bool
  ch_closed :: bool
  ch_drain :: bool
  ch_writer_failed :: bool

definition new_outbound_channel :: "string \<Rightarrow> string \<Rightarrow> nat \<Rightarrow> outbound_channel res" where
  "new_outbound_channel session_id source_commit capacity =
     (if capacity = 0 then Inl ''GUI outbound channel capacity must be positive''
      else Inr \<lparr>ch_session_id = session_id, ch_source_commit = source_commit, ch_capacity = capacity,
                ch_jobs = [], ch_latest_state = None, ch_sent_state = None, ch_peak_pending = 0,
                ch_rejected = 0, ch_coalesced = 0, ch_state_queued = False, ch_closed = False,
                ch_drain = False, ch_writer_failed = False\<rparr>)"

definition add_job :: "channel_job \<Rightarrow> outbound_channel \<Rightarrow> outbound_channel" where
  "add_job job ch =
     ch\<lparr>ch_jobs := ch_jobs ch @ [job], ch_peak_pending := max (ch_peak_pending ch) (length (ch_jobs ch) + 1)\<rparr>"

definition push_job :: "channel_job \<Rightarrow> outbound_channel \<Rightarrow> bool \<times> outbound_channel" where
  "push_job job ch =
     (if ch_closed ch \<or> length (ch_jobs ch) \<ge> ch_capacity ch then (False, ch\<lparr>ch_rejected := ch_rejected ch + 1\<rparr>)
      else (True, add_job job ch))"

definition enqueue :: "envelope \<Rightarrow> outbound_channel \<Rightarrow> bool \<times> outbound_channel" where
  "enqueue e ch = push_job (EnvelopeJob e) ch"

definition enqueue_snapshot :: "string \<Rightarrow> snapshot \<Rightarrow> outbound_channel \<Rightarrow> bool \<times> outbound_channel" where
  "enqueue_snapshot request_id s ch =
     push_job (SnapshotJob (new_envelope\<lparr>ev_kind := Snapshot, ev_request_id := request_id,
                             ev_base_revision := ds_base_revision (sn_draft s)\<rparr>) s) ch"

definition publish_state :: "snapshot \<Rightarrow> outbound_channel \<Rightarrow> bool \<times> outbound_channel" where
  "publish_state s ch =
     (if ch_closed ch then (False, ch\<lparr>ch_rejected := ch_rejected ch + 1\<rparr>)
      else
        (let ch1 = ch\<lparr>ch_latest_state := Some s\<rparr>
         in if ch_state_queued ch then (True, ch1\<lparr>ch_coalesced := ch_coalesced ch + 1\<rparr>)
            else if length (ch_jobs ch) \<ge> ch_capacity ch then (False, ch1\<lparr>ch_rejected := ch_rejected ch + 1\<rparr>)
            else (True, (add_job StateJob ch1)\<lparr>ch_state_queued := True\<rparr>)))"

definition close_after_drain :: "outbound_channel \<Rightarrow> outbound_channel" where
  "close_after_drain ch = ch\<lparr>ch_closed := True, ch_drain := True\<rparr>"

definition channel_stop :: "outbound_channel \<Rightarrow> outbound_channel" where
  "channel_stop ch = ch\<lparr>ch_closed := True, ch_drain := False, ch_jobs := [], ch_state_queued := False\<rparr>"

definition report_failure :: "outbound_channel \<Rightarrow> outbound_channel" where
  "report_failure ch = (channel_stop ch)\<lparr>ch_writer_failed := True\<rparr>"

text \<open>
  A job becomes an envelope and, for a job that carries state, the new baseline. The error is empty
  when there is nothing to send.
\<close>

definition prepare_job ::
  "gui_codec \<Rightarrow> channel_job \<Rightarrow> outbound_channel \<Rightarrow> (envelope \<times> snapshot option) res" where
  "prepare_job codec job ch =
     (case job of
        EnvelopeJob e \<Rightarrow> Inr (e, None)
      | SnapshotJob e s \<Rightarrow>
          res_map (\<lambda>payload. (e\<lparr>ev_payload_json := payload\<rparr>, Some s)) (serialize_snapshot codec s)
      | StateJob \<Rightarrow>
          (case ch_latest_state ch of
             None \<Rightarrow> Inl []
           | Some target \<Rightarrow>
               (case ch_sent_state ch of
                  None \<Rightarrow>
                    res_map (\<lambda>payload. (new_envelope\<lparr>ev_kind := Snapshot, ev_request_id := ''state-snapshot'',
                        ev_base_revision := ds_base_revision (sn_draft target), ev_payload_json := payload\<rparr>, Some target))
                      (serialize_snapshot codec target)
                | Some sent \<Rightarrow>
                    (let delta = build_gui_state_delta sent target
                     in if delta_empty delta then Inl []
                        else res_map (\<lambda>payload. (new_envelope\<lparr>ev_kind := StateChanged, ev_request_id := ''state-changed'',
                               ev_base_revision := ds_base_revision (sn_draft target), ev_payload_json := payload\<rparr>, Some target))
                             (serialize_state_delta codec delta)))))"

definition bytes_of_string :: "string \<Rightarrow> bytes" where
  "bytes_of_string = map (\<lambda>c. word_of_nat (code c))"

text \<open>
  \<^verbatim>\<open>fault\<close> is the error of \<^verbatim>\<open>write_all\<close>, if it fails. The sequence number is taken from the
  session before anything can fail.
\<close>

definition write_envelope ::
  "gui_codec \<Rightarrow> string option \<Rightarrow> envelope \<Rightarrow> outbound_channel \<Rightarrow> server_session \<Rightarrow> bytes res \<times> server_session" where
  "write_envelope codec fault e ch ss =
     (let e1 = e\<lparr>ev_session_id := ch_session_id ch, ev_source_commit := ch_source_commit ch\<rparr>;
          (e2, ss') = (if ev_kind e1 \<noteq> HelloResult
                       then (case next_server_sequence ss of (n, ss1) \<Rightarrow> (e1\<lparr>ev_sequence := n\<rparr>, ss1))
                       else (e1, ss))
      in (res_bind (serialize_envelope codec e2) (\<lambda>content.
            case encode_frame (bytes_of_string content) of
              Inl frame_error \<Rightarrow> Inl (''failed to frame GUI IPC output: '' @ frame_error_name frame_error)
            | Inr frame \<Rightarrow> (case fault of Some err \<Rightarrow> Inl err | None \<Rightarrow> Inr frame)), ss'))"

text \<open>
  One iteration of \<^verbatim>\<open>run\<close>, with the frame it wrote. With an empty queue the thread waits or returns;
  closed without draining it returns.
\<close>

definition writer_step ::
  "gui_codec \<Rightarrow> string option \<Rightarrow> outbound_channel \<Rightarrow> server_session \<Rightarrow> bytes option \<times> outbound_channel \<times> server_session" where
  "writer_step codec fault ch ss =
     (case ch_jobs ch of
        [] \<Rightarrow> (None, ch, ss)
      | job # jobs \<Rightarrow>
          if ch_closed ch \<and> \<not> ch_drain ch then (None, ch, ss)
          else
            (let ch1 = ch\<lparr>ch_jobs := jobs, ch_state_queued := (ch_state_queued ch \<and> job \<noteq> StateJob)\<rparr>
             in case prepare_job codec job ch1 of
                  Inl err \<Rightarrow> (None, if err \<noteq> [] then report_failure ch1 else ch1, ss)
                | Inr (e, baseline) \<Rightarrow>
                    (case write_envelope codec fault e ch1 ss of
                       (Inl err, ss') \<Rightarrow> (None, report_failure ch1, ss')
                     | (Inr frame, ss') \<Rightarrow>
                         (Some frame, if baseline \<noteq> None then ch1\<lparr>ch_sent_state := baseline\<rparr> else ch1, ss'))))"

subsection \<open>Client\<close>

record gui_client =
  cl_source_commit :: string
  cl_session_id :: string
  cl_next_server_sequence :: u64
  cl_tracker :: state_tracker
  cl_ready :: bool
  cl_last_command :: "(string \<times> command_status) option"
  cl_snapshot_requests :: nat

definition validate_server_envelope :: "envelope \<Rightarrow> gui_client \<Rightarrow> gui_client res" where
  "validate_server_envelope e c =
     (if ev_protocol e \<noteq> kProtocol \<or> ev_source_commit e \<noteq> cl_source_commit c \<or> ev_session_id e \<noteq> cl_session_id c
      then Inl ''GUI IPC server identity changed during the session''
      else if ev_sequence e \<noteq> cl_next_server_sequence c
      then Inl ''GUI IPC server sequence is not contiguous''
      else Inr (c\<lparr>cl_next_server_sequence := cl_next_server_sequence c + 1\<rparr>))"

text \<open>
  The client asks for a snapshot when a difference does not fit; the request itself, written to the
  socket, is only counted here.
\<close>

definition handle_authenticated :: "gui_codec \<Rightarrow> envelope \<Rightarrow> gui_client \<Rightarrow> gui_client res" where
  "handle_authenticated codec e c =
     (case ev_kind e of
        Snapshot \<Rightarrow>
          res_bind (parse_snapshot codec (ev_payload_json e)) (\<lambda>s.
            case accept_snapshot s (cl_tracker c) of
              (Some err, t) \<Rightarrow> Inl err
            | (None, t) \<Rightarrow> Inr (c\<lparr>cl_tracker := t, cl_ready := True\<rparr>))
      | StateChanged \<Rightarrow>
          res_bind (parse_state_delta codec (ev_payload_json e)) (\<lambda>d.
            case apply_delta d (cl_tracker c) of
              (Some err, t) \<Rightarrow> Inr (c\<lparr>cl_tracker := t, cl_snapshot_requests := cl_snapshot_requests c + 1\<rparr>)
            | (None, t) \<Rightarrow> Inr (c\<lparr>cl_tracker := t\<rparr>))
      | CommandStatus \<Rightarrow>
          res_map (\<lambda>status. c\<lparr>cl_last_command := Some (ev_request_id e, status)\<rparr>)
            (parse_command_status codec (ev_payload_json e))
      | Activate \<Rightarrow> Inr c
      | Shutdown \<Rightarrow> Inr c
      | Pong \<Rightarrow> Inr c
      | _ \<Rightarrow> Inl ''tray sent a message kind that is invalid for a GUI client'')"

definition string_of_bytes :: "bytes \<Rightarrow> string" where
  "string_of_bytes = map (\<lambda>b. char_of (unat b))"

definition handle_frame :: "gui_codec \<Rightarrow> bytes \<Rightarrow> gui_client \<Rightarrow> gui_client res" where
  "handle_frame codec payload c =
     res_bind (parse_envelope codec (string_of_bytes payload)) (\<lambda>e.
       res_bind (validate_server_envelope e c) (handle_authenticated codec e))"

fun handle_frames :: "gui_codec \<Rightarrow> bytes list \<Rightarrow> gui_client \<Rightarrow> gui_client res" where
  "handle_frames codec [] c = Inr c"
| "handle_frames codec (f # fs) c = res_bind (handle_frame codec f c) (handle_frames codec fs)"

section \<open>Differences\<close>

definition same_content :: "snapshot \<Rightarrow> snapshot \<Rightarrow> bool" where
  "same_content s t \<longleftrightarrow> s\<lparr>sn_revision := sn_revision t\<rparr> = t"

lemma update_changed [simp]: "update_opt (changed a b) a = b"
  by (simp add: update_opt_def changed_def)

lemma patch_build: "patch_snapshot (build_gui_state_delta s t) s = t"
  by (simp add: patch_snapshot_def build_gui_state_delta_def)

lemma delta_empty_build: "delta_empty (build_gui_state_delta s t) \<longleftrightarrow> same_content s t"
  by (cases s; cases t) (auto simp: delta_empty_def build_gui_state_delta_def changed_def same_content_def)

lemma same_content_refl [simp]: "same_content s s"
  by (simp add: same_content_def)

lemma same_content_trans: "same_content s t \<Longrightarrow> same_content t u \<Longrightarrow> same_content s u"
  by (cases s; cases t; cases u) (simp add: same_content_def)

section \<open>Histories\<close>

datatype channel_event =
  EnqueueEvent envelope
  | SnapshotEvent string snapshot
  | PublishEvent snapshot
  | WriterEvent "string option"
  | DrainEvent
  | StopEvent

definition channel_step ::
  "gui_codec \<Rightarrow> channel_event \<Rightarrow> outbound_channel \<Rightarrow> server_session \<Rightarrow> bytes option \<times> outbound_channel \<times> server_session" where
  "channel_step codec ev ch ss =
     (case ev of
        EnqueueEvent e \<Rightarrow> (None, snd (enqueue e ch), ss)
      | SnapshotEvent request s \<Rightarrow> (None, snd (enqueue_snapshot request s ch), ss)
      | PublishEvent s \<Rightarrow> (None, snd (publish_state s ch), ss)
      | WriterEvent fault \<Rightarrow> writer_step codec fault ch ss
      | DrainEvent \<Rightarrow> (None, close_after_drain ch, ss)
      | StopEvent \<Rightarrow> (None, channel_stop ch, ss))"

text \<open>A history, with the frames that were written to the pipe.\<close>

fun channel_run ::
  "gui_codec \<Rightarrow> channel_event list \<Rightarrow> outbound_channel \<Rightarrow> server_session \<Rightarrow> bytes list \<times> outbound_channel \<times> server_session" where
  "channel_run codec [] ch ss = ([], ch, ss)"
| "channel_run codec (ev # evs) ch ss =
     (case channel_step codec ev ch ss of (out, ch1, ss1) \<Rightarrow>
        case channel_run codec evs ch1 ss1 of (frames, ch2, ss2) \<Rightarrow>
          ((case out of Some f \<Rightarrow> f # frames | None \<Rightarrow> frames), ch2, ss2))"

text \<open>What the producers have to respect: revisions are positive and grow with every new state, and
  the envelopes they send are of the kinds a client accepts.\<close>

definition precedes :: "snapshot \<Rightarrow> snapshot \<Rightarrow> bool" where
  "precedes s t \<longleftrightarrow> sn_revision s < sn_revision t \<or> s = t"

fun event_state :: "channel_event \<Rightarrow> snapshot list" where
  "event_state (SnapshotEvent request s) = [s]"
| "event_state (PublishEvent s) = [s]"
| "event_state ev = []"

definition client_envelope :: "gui_codec \<Rightarrow> envelope \<Rightarrow> bool" where
  "client_envelope codec e \<longleftrightarrow>
     ev_protocol e = kProtocol
     \<and> (ev_kind e = Activate \<or> ev_kind e = Shutdown \<or> ev_kind e = Pong
        \<or> ev_kind e = CommandStatus \<and> is_ok (parse_command_status codec (ev_payload_json e)))"

fun event_ok :: "gui_codec \<Rightarrow> channel_event \<Rightarrow> bool" where
  "event_ok codec (EnqueueEvent e) = client_envelope codec e"
| "event_ok codec (SnapshotEvent request s) = (sn_revision s \<noteq> 0)"
| "event_ok codec (PublishEvent s) = (sn_revision s \<noteq> 0)"
| "event_ok codec ev = True"

definition history_ok :: "gui_codec \<Rightarrow> channel_event list \<Rightarrow> bool" where
  "history_ok codec evs \<longleftrightarrow>
     list_all (event_ok codec) evs \<and> sorted_wrt precedes (concat (map event_state evs))"

text \<open>What the theorems ask of the JSON codec: a text that was produced parses back, and a
  failure has a message.\<close>

definition codec_ok :: "gui_codec \<Rightarrow> bool" where
  "codec_ok codec \<longleftrightarrow>
     (\<forall>e t. serialize_envelope codec e = Inr t \<longrightarrow> parse_envelope codec t = Inr e)
     \<and> (\<forall>s t. serialize_snapshot codec s = Inr t \<longrightarrow> parse_snapshot codec t = Inr s)
     \<and> (\<forall>d t. serialize_state_delta codec d = Inr t \<longrightarrow> parse_state_delta codec t = Inr d)
     \<and> (\<forall>s. serialize_snapshot codec s \<noteq> Inl []) \<and> (\<forall>d. serialize_state_delta codec d \<noteq> Inl [])"

section \<open>Invariant of the channel\<close>

fun job_ok :: "gui_codec \<Rightarrow> snapshot set \<Rightarrow> channel_job \<Rightarrow> bool" where
  "job_ok codec S (EnvelopeJob e) = client_envelope codec e"
| "job_ok codec S (SnapshotJob e s) = (s \<in> S \<and> ev_kind e = Snapshot \<and> ev_protocol e = kProtocol)"
| "job_ok codec S StateJob = True"

fun job_before :: "snapshot \<Rightarrow> channel_job \<Rightarrow> bool" where
  "job_before t (SnapshotJob e s) = precedes s t"
| "job_before t (EnvelopeJob e) = True"
| "job_before t StateJob = False"

text \<open>
  At most one state job is queued; the baseline and the snapshots queued before it are not newer
  than the state it will send.
\<close>

definition state_queue_ok :: "outbound_channel \<Rightarrow> bool" where
  "state_queue_ok ch \<longleftrightarrow>
     (if ch_state_queued ch then
        (\<exists>pre post t. ch_jobs ch = pre @ StateJob # post \<and> StateJob \<notin> set post
           \<and> ch_latest_state ch = Some t \<and> list_all (job_before t) pre
           \<and> (\<forall>s. ch_sent_state ch = Some s \<longrightarrow> precedes s t))
      else StateJob \<notin> set (ch_jobs ch))"

definition channel_ok :: "gui_codec \<Rightarrow> snapshot set \<Rightarrow> outbound_channel \<Rightarrow> bool" where
  "channel_ok codec S ch \<longleftrightarrow>
     list_all (job_ok codec S) (ch_jobs ch) \<and> set_option (ch_latest_state ch) \<subseteq> S
     \<and> set_option (ch_sent_state ch) \<subseteq> S \<and> (\<forall>s \<in> S. sn_revision s \<noteq> 0) \<and> state_queue_ok ch
     \<and> (ch_writer_failed ch \<longrightarrow> ch_jobs ch = [] \<and> ch_closed ch)"

text \<open>The client agrees with the server on the session, the sequence and the baseline.\<close>

definition in_step :: "outbound_channel \<Rightarrow> server_session \<Rightarrow> gui_client \<Rightarrow> bool" where
  "in_step ch ss c \<longleftrightarrow>
     cl_source_commit c = ch_source_commit ch \<and> cl_session_id c = ch_session_id ch
     \<and> (ch_writer_failed ch \<or> cl_next_server_sequence c = sv_next_server_sequence ss)
     \<and> tr_snapshot (cl_tracker c) = ch_sent_state ch
     \<and> (ch_sent_state ch \<noteq> None \<longrightarrow> \<not> tr_snapshot_required (cl_tracker c))"

lemma precedes_refl [simp]: "precedes s s"
  by (simp add: precedes_def)

lemma job_ok_mono: "job_ok codec S job \<Longrightarrow> S \<subseteq> T \<Longrightarrow> job_ok codec T job"
  by (cases job) auto

lemma channel_ok_mono:
  "channel_ok codec S ch \<Longrightarrow> S \<subseteq> T \<Longrightarrow> \<forall>s \<in> T. sn_revision s \<noteq> 0 \<Longrightarrow> channel_ok codec T ch"
  unfolding channel_ok_def by (auto simp: list_all_iff intro: job_ok_mono)

lemma state_queuedI:
  "ch_state_queued ch \<Longrightarrow> ch_jobs ch = pre @ StateJob # post \<Longrightarrow> StateJob \<notin> set post \<Longrightarrow> ch_latest_state ch = Some t
   \<Longrightarrow> list_all (job_before t) pre \<Longrightarrow> (\<And>s. ch_sent_state ch = Some s \<Longrightarrow> precedes s t) \<Longrightarrow> state_queue_ok ch"
  unfolding state_queue_ok_def by auto

lemma state_queuedE:
  assumes "state_queue_ok ch" "ch_state_queued ch"
  obtains pre post t where "ch_jobs ch = pre @ StateJob # post" "StateJob \<notin> set post" "ch_latest_state ch = Some t"
    "list_all (job_before t) pre" "\<And>s. ch_sent_state ch = Some s \<Longrightarrow> precedes s t"
  using assms unfolding state_queue_ok_def by auto

lemma state_not_queued: "\<not> ch_state_queued ch \<Longrightarrow> state_queue_ok ch \<longleftrightarrow> StateJob \<notin> set (ch_jobs ch)"
  by (simp add: state_queue_ok_def)

lemma state_queue_add:
  assumes "state_queue_ok ch" "job \<noteq> StateJob"
  shows "state_queue_ok (add_job job ch)"
proof (cases "ch_state_queued ch")
  case True
  with assms(1) obtain pre post t where q: "ch_jobs ch = pre @ StateJob # post" "StateJob \<notin> set post"
    "ch_latest_state ch = Some t" "list_all (job_before t) pre" "\<And>s. ch_sent_state ch = Some s \<Longrightarrow> precedes s t"
    by (rule state_queuedE) blast
  show ?thesis
    by (rule state_queuedI [of _ pre "post @ [job]" t]) (use q True assms(2) in \<open>auto simp: add_job_def\<close>)
next
  case False
  with assms show ?thesis by (simp add: add_job_def state_queue_ok_def)
qed

lemma state_queue_counters [simp]:
  "state_queue_ok (ch\<lparr>ch_rejected := r\<rparr>) = state_queue_ok ch"
  "state_queue_ok (ch\<lparr>ch_coalesced := r\<rparr>) = state_queue_ok ch"
  "state_queue_ok (ch\<lparr>ch_closed := b\<rparr>) = state_queue_ok ch"
  "state_queue_ok (ch\<lparr>ch_drain := b\<rparr>) = state_queue_ok ch"
  "state_queue_ok (ch\<lparr>ch_writer_failed := b\<rparr>) = state_queue_ok ch"
  by (simp_all add: state_queue_ok_def)

lemma push_job_ok:
  assumes "channel_ok codec S ch" "job_ok codec S job" "job \<noteq> StateJob"
  shows "channel_ok codec S (snd (push_job job ch))"
  using assms state_queue_add [of ch job]
  by (auto simp: push_job_def channel_ok_def add_job_def)

text \<open>A new state is not older than any state the channel has seen.\<close>

lemma job_before_new: "job_ok codec S job \<Longrightarrow> job \<noteq> StateJob \<Longrightarrow> \<forall>t \<in> S. precedes t s \<Longrightarrow> job_before s job"
  by (cases job) auto

lemma publish_ok:
  assumes ok: "channel_ok codec S ch" and "s \<in> S" and new: "\<forall>t \<in> S. precedes t s"
  shows "channel_ok codec S (snd (publish_state s ch))"
proof -
  let ?ch1 = "ch\<lparr>ch_latest_state := Some s\<rparr>"
  have sent: "precedes t s" if "ch_sent_state ch = Some t" for t
    using ok new that by (auto simp: channel_ok_def)
  have jobs: "list_all (job_ok codec S) (ch_jobs ch)" and sq: "state_queue_ok ch"
    using ok by (simp_all add: channel_ok_def)
  consider "ch_closed ch" | "\<not> ch_closed ch" "ch_state_queued ch"
    | "\<not> ch_closed ch" "\<not> ch_state_queued ch" "length (ch_jobs ch) \<ge> ch_capacity ch"
    | "\<not> ch_closed ch" "\<not> ch_state_queued ch" "length (ch_jobs ch) < ch_capacity ch" by linarith
  then show ?thesis
  proof cases
    case 1
    with ok show ?thesis by (simp add: publish_state_def channel_ok_def)
  next
    case 2
    from sq 2(2) obtain pre post t where q: "ch_jobs ch = pre @ StateJob # post" "StateJob \<notin> set post"
      "list_all (job_before t) pre" by (rule state_queuedE) blast
    then have "list_all (job_before s) pre"
      using jobs new by (auto simp: list_all_iff intro!: job_before_new)
    then have "state_queue_ok ?ch1"
      using q 2(2) sent by (intro state_queuedI [of _ pre post s]) auto
    with 2 ok \<open>s \<in> S\<close> show ?thesis by (simp add: publish_state_def channel_ok_def)
  next
    case 3
    with sq have "state_queue_ok ?ch1" by (simp add: state_queue_ok_def)
    with 3 ok \<open>s \<in> S\<close> show ?thesis by (simp add: publish_state_def channel_ok_def)
  next
    case 4
    then have "StateJob \<notin> set (ch_jobs ch)" using sq by (simp add: state_queue_ok_def)
    then have "list_all (job_before s) (ch_jobs ch)"
      using jobs new by (auto simp: list_all_iff intro!: job_before_new)
    then have "state_queue_ok ((add_job StateJob ?ch1)\<lparr>ch_state_queued := True\<rparr>)"
      using sent by (intro state_queuedI [of _ "ch_jobs ch" "[]" s]) (auto simp: add_job_def)
    with 4 ok \<open>s \<in> S\<close> show ?thesis
      by (auto simp: publish_state_def channel_ok_def add_job_def)
  qed
qed

section \<open>A step of the writer and the client\<close>

lemma string_of_bytes_of_string [simp]: "string_of_bytes (bytes_of_string s) = s"
proof -
  have "code c mod 256 = code c" for c :: char using code_less [of c] by simp
  then show ?thesis by (simp add: string_of_bytes_def bytes_of_string_def unat_of_nat comp_def)
qed

definition pop_job :: "outbound_channel \<Rightarrow> outbound_channel" where
  "pop_job ch = ch\<lparr>ch_jobs := tl (ch_jobs ch), ch_state_queued := (ch_state_queued ch \<and> hd (ch_jobs ch) \<noteq> StateJob)\<rparr>"

lemma pop_job_ok:
  assumes "channel_ok codec S ch" "ch_jobs ch = job # jobs"
  shows "channel_ok codec S (pop_job ch)"
proof -
  have "state_queue_ok (pop_job ch)"
  proof (cases "ch_state_queued ch")
    case True
    with assms obtain pre post t where q: "job # jobs = pre @ StateJob # post" "StateJob \<notin> set post"
      "ch_latest_state ch = Some t" "list_all (job_before t) pre" "\<And>s. ch_sent_state ch = Some s \<Longrightarrow> precedes s t"
      unfolding channel_ok_def using state_queuedE by metis
    show ?thesis
    proof (cases pre)
      case Nil
      with q True assms(2) show ?thesis by (simp add: pop_job_def state_queue_ok_def)
    next
      case (Cons a pre')
      with q have "job \<noteq> StateJob" by auto
      then show ?thesis
        by (intro state_queuedI [of _ pre' post t]) (use q True assms(2) Cons in \<open>auto simp: pop_job_def\<close>)
    qed
  next
    case False
    with assms show ?thesis by (simp add: pop_job_def channel_ok_def state_queue_ok_def)
  qed
  with assms show ?thesis by (auto simp: channel_ok_def pop_job_def)
qed

lemma sent_state_ok:
  assumes "channel_ok codec S ch" "s \<in> S" "\<And>t. ch_state_queued ch \<Longrightarrow> ch_latest_state ch = Some t \<Longrightarrow> precedes s t"
  shows "channel_ok codec S (ch\<lparr>ch_sent_state := Some s\<rparr>)"
proof -
  have "state_queue_ok (ch\<lparr>ch_sent_state := Some s\<rparr>)"
  proof (cases "ch_state_queued ch")
    case True
    with assms(1) obtain pre post t where q: "ch_jobs ch = pre @ StateJob # post" "StateJob \<notin> set post"
      "ch_latest_state ch = Some t" "list_all (job_before t) pre" "\<And>s. ch_sent_state ch = Some s \<Longrightarrow> precedes s t"
      unfolding channel_ok_def using state_queuedE by metis
    show ?thesis
      by (rule state_queuedI [of _ pre post t]) (use q True assms(3) in auto)
  next
    case False
    with assms(1) show ?thesis by (simp add: channel_ok_def state_queue_ok_def)
  qed
  with assms(1,2) show ?thesis by (simp add: channel_ok_def)
qed

lemma channel_stop_ok: "channel_ok codec S ch \<Longrightarrow> channel_ok codec S (channel_stop ch)"
  by (simp add: channel_ok_def channel_stop_def state_not_queued)

lemma report_failure_ok: "channel_ok codec S ch \<Longrightarrow> channel_ok codec S (report_failure ch)"
  using channel_stop_ok [of codec S ch]
  by (simp add: channel_ok_def report_failure_def) (simp add: channel_stop_def)

lemma report_failure_in_step:
  "in_step ch ss c \<Longrightarrow> in_step (report_failure ch) ss' c"
  by (simp add: in_step_def report_failure_def channel_stop_def)

text \<open>A written envelope reaches the client, which finds its session and sequence in order.\<close>

lemma write_envelope_received:
  assumes "write_envelope codec fault e ch ss = (Inr f, ss')" "codec_ok codec" "in_step ch ss c"
    "\<not> ch_writer_failed ch" "ev_protocol e = kProtocol" "ev_kind e \<noteq> HelloResult"
  shows "\<exists>payload e'. encode_frame payload = Inr f
           \<and> handle_frame codec payload c =
               handle_authenticated codec e' (c\<lparr>cl_next_server_sequence := cl_next_server_sequence c + 1\<rparr>)
           \<and> ev_kind e' = ev_kind e \<and> ev_payload_json e' = ev_payload_json e
           \<and> sv_next_server_sequence ss' = cl_next_server_sequence c + 1"
proof -
  let ?e = "e\<lparr>ev_session_id := ch_session_id ch, ev_source_commit := ch_source_commit ch,
              ev_sequence := sv_next_server_sequence ss\<rparr>"
  from assms(1,6) obtain content where ser: "serialize_envelope codec ?e = Inr content"
    and enc: "encode_frame (bytes_of_string content) = Inr f"
    and ss': "ss' = ss\<lparr>sv_next_server_sequence := sv_next_server_sequence ss + 1\<rparr>"
    by (cases "serialize_envelope codec ?e"; cases "encode_frame (bytes_of_string (projr (serialize_envelope codec ?e)))";
        cases fault) (auto simp: write_envelope_def next_server_sequence_def Let_def)
  from ser assms(2) have "parse_envelope codec content = Inr ?e" by (simp add: codec_ok_def)
  moreover have "validate_server_envelope ?e c = Inr (c\<lparr>cl_next_server_sequence := cl_next_server_sequence c + 1\<rparr>)"
    using assms(3,4,5) by (simp add: validate_server_envelope_def in_step_def)
  ultimately have "handle_frame codec (bytes_of_string content) c =
      handle_authenticated codec ?e (c\<lparr>cl_next_server_sequence := cl_next_server_sequence c + 1\<rparr>)"
    by (simp add: handle_frame_def)
  with enc ss' assms(3,4) show ?thesis
    by (intro exI [of _ "bytes_of_string content"] exI [of _ ?e]) (simp add: in_step_def)
qed

text \<open>What the client does with the state a writer sends.\<close>

lemma client_takes_snapshot:
  assumes "parse_snapshot codec (ev_payload_json e) = Inr s" "ev_kind e = Snapshot" "sn_revision s \<noteq> 0"
  shows "\<exists>c'. handle_authenticated codec e c = Inr c' \<and> tr_snapshot (cl_tracker c') = Some s
           \<and> \<not> tr_snapshot_required (cl_tracker c') \<and> cl_source_commit c' = cl_source_commit c
           \<and> cl_session_id c' = cl_session_id c \<and> cl_next_server_sequence c' = cl_next_server_sequence c
           \<and> cl_snapshot_requests c' = cl_snapshot_requests c"
  using assms by (simp add: handle_authenticated_def accept_snapshot_def)

lemma client_takes_delta:
  assumes "parse_state_delta codec (ev_payload_json e) = Inr (build_gui_state_delta s t)" "ev_kind e = StateChanged"
    "tr_snapshot (cl_tracker c) = Some s" "\<not> tr_snapshot_required (cl_tracker c)"
    "sn_revision s < sn_revision t" "\<not> same_content s t"
  shows "\<exists>c'. handle_authenticated codec e c = Inr c' \<and> tr_snapshot (cl_tracker c') = Some t
           \<and> \<not> tr_snapshot_required (cl_tracker c') \<and> cl_source_commit c' = cl_source_commit c
           \<and> cl_session_id c' = cl_session_id c \<and> cl_next_server_sequence c' = cl_next_server_sequence c
           \<and> cl_snapshot_requests c' = cl_snapshot_requests c"
proof -
  have "apply_delta (build_gui_state_delta s t) (cl_tracker c) = (None, (cl_tracker c)\<lparr>tr_snapshot := Some t\<rparr>)"
    using assms(3-6) by (simp add: apply_delta_def patch_build delta_empty_build)
       (simp add: build_gui_state_delta_def not_le)
  with assms show ?thesis by (simp add: handle_authenticated_def)
qed

lemma client_takes_envelope:
  assumes "client_envelope codec e" "ev_kind e' = ev_kind e" "ev_payload_json e' = ev_payload_json e"
  shows "\<exists>c'. handle_authenticated codec e' c = Inr c' \<and> cl_tracker c' = cl_tracker c
           \<and> cl_source_commit c' = cl_source_commit c
           \<and> cl_session_id c' = cl_session_id c \<and> cl_next_server_sequence c' = cl_next_server_sequence c
           \<and> cl_snapshot_requests c' = cl_snapshot_requests c"
  using assms
  by (auto simp: client_envelope_def handle_authenticated_def is_ok_def split: sum.splits)

text \<open>The jobs a writer prepares, by kind.\<close>

lemma prepare_job_cases:
  assumes "prepare_job codec job ch = Inr (e, baseline)"
  obtains (envelope) "job = EnvelopeJob e" "baseline = None"
  | (snapshot) e0 s payload where "job = SnapshotJob e0 s" "baseline = Some s" "serialize_snapshot codec s = Inr payload"
      "e = e0\<lparr>ev_payload_json := payload\<rparr>"
  | (first) s payload where "job = StateJob" "ch_latest_state ch = Some s" "ch_sent_state ch = None" "baseline = Some s"
      "serialize_snapshot codec s = Inr payload" "ev_kind e = Snapshot" "ev_payload_json e = payload" "ev_protocol e = kProtocol"
  | (delta) s t payload where "job = StateJob" "ch_latest_state ch = Some t" "ch_sent_state ch = Some s" "baseline = Some t"
      "serialize_state_delta codec (build_gui_state_delta s t) = Inr payload" "\<not> same_content s t"
      "ev_kind e = StateChanged" "ev_payload_json e = payload" "ev_protocol e = kProtocol"
proof (cases job)
  case (EnvelopeJob x)
  with assms envelope show ?thesis by (simp add: prepare_job_def)
next
  case (SnapshotJob x s)
  with assms snapshot show ?thesis by (auto simp: prepare_job_def)
next
  case StateJob
  note unf = assms [unfolded prepare_job_def StateJob channel_job.case]
  show ?thesis
  proof (cases "ch_latest_state ch")
    case None
    with unf show ?thesis by simp
  next
    case latest: (Some t)
    show ?thesis
    proof (cases "ch_sent_state ch")
      case None
      with unf latest obtain payload where "serialize_snapshot codec t = Inr payload" "baseline = Some t"
        "e = new_envelope\<lparr>ev_kind := Snapshot, ev_request_id := ''state-snapshot'',
               ev_base_revision := ds_base_revision (sn_draft t), ev_payload_json := payload\<rparr>" by auto
      with None latest StateJob first show ?thesis by (simp add: new_envelope_def)
    next
      case (Some s)
      with unf latest obtain payload where "serialize_state_delta codec (build_gui_state_delta s t) = Inr payload"
        "baseline = Some t" "\<not> same_content s t"
        "e = new_envelope\<lparr>ev_kind := StateChanged, ev_request_id := ''state-changed'',
               ev_base_revision := ds_base_revision (sn_draft t), ev_payload_json := payload\<rparr>"
        by (auto simp: Let_def delta_empty_build split: if_splits)
      with Some latest StateJob delta show ?thesis by (simp add: new_envelope_def)
    qed
  qed
qed

lemma writer_step_pop:
  assumes "ch_jobs ch = job # jobs" "\<not> (ch_closed ch \<and> \<not> ch_drain ch)"
  shows "writer_step codec fault ch ss =
     (case prepare_job codec job (pop_job ch) of
        Inl err \<Rightarrow> (None, if err \<noteq> [] then report_failure (pop_job ch) else pop_job ch, ss)
      | Inr (e, baseline) \<Rightarrow>
          (case write_envelope codec fault e (pop_job ch) ss of
             (Inl err, ss') \<Rightarrow> (None, report_failure (pop_job ch), ss')
           | (Inr frame, ss') \<Rightarrow>
               (Some frame, if baseline \<noteq> None then (pop_job ch)\<lparr>ch_sent_state := baseline\<rparr> else pop_job ch, ss')))"
proof -
  have eq: "pop_job ch = ch\<lparr>ch_jobs := jobs, ch_state_queued := (ch_state_queued ch \<and> job \<noteq> StateJob)\<rparr>"
    using assms(1) by (simp add: pop_job_def)
  show ?thesis
    unfolding writer_step_def Let_def eq assms(1) list.case if_not_P [OF assms(2)] by (rule refl)
qed

text \<open>The baseline a job of the queue establishes is a state the channel has seen, and not newer than
  the state a queued state job would send.\<close>

lemma prepared_baseline:
  assumes "prepare_job codec job (pop_job ch) = Inr (e, Some s)" "ch_jobs ch = job # jobs" "channel_ok codec S ch"
  shows "s \<in> S \<and> (\<forall>t. ch_state_queued (pop_job ch) \<longrightarrow> ch_latest_state (pop_job ch) = Some t \<longrightarrow> precedes s t)"
  using assms(1)
proof (cases rule: prepare_job_cases)
  case (snapshot e0 s' payload)
  have "precedes s t" if q: "ch_state_queued ch" "ch_latest_state ch = Some t" for t
  proof -
    from q assms(3) obtain pre post where "ch_jobs ch = pre @ StateJob # post" "list_all (job_before t) pre"
      unfolding channel_ok_def by (metis state_queuedE option.inject)
    with assms(2) snapshot show ?thesis by (cases pre) auto
  qed
  with snapshot assms(2,3) show ?thesis by (auto simp: channel_ok_def pop_job_def)
qed (use assms(2,3) in \<open>auto simp: channel_ok_def pop_job_def\<close>)

lemma state_job_newer:
  assumes "ch_jobs ch = StateJob # jobs" "channel_ok codec S ch" "ch_latest_state ch = Some t" "ch_sent_state ch = Some s"
  shows "precedes s t"
proof -
  from assms(1,2) have "ch_state_queued ch"
    by (auto simp: channel_ok_def state_queue_ok_def split: if_splits)
  with assms(2,3,4) show ?thesis unfolding channel_ok_def by (metis state_queuedE option.inject)
qed

lemma job_followed:
  assumes prep: "prepare_job codec job (pop_job ch) = Inr (e, baseline)" and jobs: "ch_jobs ch = job # jobs"
    and ok: "channel_ok codec S ch" and inst: "in_step ch ss c" and codec: "codec_ok codec"
    and w: "write_envelope codec fault e (pop_job ch) ss = (Inr frame, ss')"
  shows "\<exists>payload c'. encode_frame payload = Inr frame \<and> handle_frame codec payload c = Inr c'
           \<and> in_step (if baseline \<noteq> None then (pop_job ch)\<lparr>ch_sent_state := baseline\<rparr> else pop_job ch) ss' c'
           \<and> cl_snapshot_requests c' = cl_snapshot_requests c"
proof -
  have nf: "\<not> ch_writer_failed (pop_job ch)" using ok jobs by (simp add: channel_ok_def pop_job_def)
  have inst1: "in_step (pop_job ch) ss c" using inst by (simp add: in_step_def pop_job_def)
  have jok: "job_ok codec S job" and S: "\<And>s. s \<in> S \<Longrightarrow> sn_revision s \<noteq> 0"
    using ok jobs by (simp_all add: channel_ok_def)
  let ?c = "c\<lparr>cl_next_server_sequence := cl_next_server_sequence c + 1\<rparr>"
  from prep have kinds: "ev_protocol e = kProtocol \<and> ev_kind e \<noteq> HelloResult"
    by (cases rule: prepare_job_cases) (use jok in \<open>auto simp: client_envelope_def\<close>)
  from write_envelope_received [OF w codec inst1 nf] kinds obtain payload e' where
    enc: "encode_frame payload = Inr frame" and hf: "handle_frame codec payload c = handle_authenticated codec e' ?c"
    and e': "ev_kind e' = ev_kind e" "ev_payload_json e' = ev_payload_json e"
    and seq: "sv_next_server_sequence ss' = cl_next_server_sequence c + 1" by blast
  have "\<exists>c'. handle_authenticated codec e' ?c = Inr c'
      \<and> in_step (if baseline \<noteq> None then (pop_job ch)\<lparr>ch_sent_state := baseline\<rparr> else pop_job ch) ss' c'
      \<and> cl_snapshot_requests c' = cl_snapshot_requests c"
    using prep
  proof (cases rule: prepare_job_cases)
    case envelope
    with client_takes_envelope [of codec e e' ?c] e' jok inst1 seq show ?thesis
      by (auto simp: in_step_def)
  next
    case (snapshot e0 s payload')
    with codec e' have "parse_snapshot codec (ev_payload_json e') = Inr s" by (simp add: codec_ok_def)
    with client_takes_snapshot [of codec e' s ?c] e' jok S snapshot inst1 seq show ?thesis
      by (auto simp: in_step_def)
  next
    case (first s payload')
    with codec e' have "parse_snapshot codec (ev_payload_json e') = Inr s" by (simp add: codec_ok_def)
    moreover have "s \<in> S" using prepared_baseline prep jobs ok first(4) by blast
    ultimately show ?thesis
      using client_takes_snapshot [of codec e' s ?c] e' S first inst1 seq by (auto simp: in_step_def)
  next
    case (delta s t payload')
    with codec e' have p: "parse_state_delta codec (ev_payload_json e') = Inr (build_gui_state_delta s t)"
      by (simp add: codec_ok_def)
    have l: "ch_latest_state ch = Some t" "ch_sent_state ch = Some s" using delta by (simp_all add: pop_job_def)
    with state_job_newer jobs ok delta(1) have "precedes s t" by blast
    with delta(6) have "sn_revision s < sn_revision t" by (auto simp: precedes_def)
    moreover have "tr_snapshot (cl_tracker ?c) = Some s" "\<not> tr_snapshot_required (cl_tracker ?c)"
      using inst l by (simp_all add: in_step_def)
    ultimately show ?thesis
      using client_takes_delta [OF p, of ?c] e' delta inst1 seq by (auto simp: in_step_def)
  qed
  with enc hf show ?thesis by auto
qed

text \<open>
  One iteration of the writer keeps the invariant, and the client follows: it accepts what was
  written and its snapshot is the new baseline.
\<close>

definition followed :: "gui_codec \<Rightarrow> bytes option \<Rightarrow> outbound_channel \<Rightarrow> server_session \<Rightarrow> gui_client \<Rightarrow> bool" where
  "followed codec out ch ss c \<longleftrightarrow>
     (case out of
        None \<Rightarrow> in_step ch ss c
      | Some f \<Rightarrow> (\<exists>payload c'. encode_frame payload = Inr f \<and> handle_frame codec payload c = Inr c'
           \<and> in_step ch ss c' \<and> cl_snapshot_requests c' = cl_snapshot_requests c))"

lemma writer_step_followed:
  assumes step: "writer_step codec fault ch ss = (out, ch', ss')"
    and ok: "channel_ok codec S ch" and inst: "in_step ch ss c" and codec: "codec_ok codec"
  shows "channel_ok codec S ch' \<and> followed codec out ch' ss' c"
proof (cases "ch_jobs ch = [] \<or> ch_closed ch \<and> \<not> ch_drain ch")
  case True
  with step ok inst show ?thesis by (auto simp: writer_step_def followed_def split: list.splits)
next
  case False
  then obtain job jobs where jobs: "ch_jobs ch = job # jobs" by (cases "ch_jobs ch") auto
  note pop = pop_job_ok [OF ok jobs]
  have inst1: "in_step (pop_job ch) ss c" using inst by (simp add: in_step_def pop_job_def)
  from False have nc: "\<not> (ch_closed ch \<and> \<not> ch_drain ch)" by simp
  note unf = step [unfolded writer_step_pop [OF jobs nc]]
  show ?thesis
  proof (cases "prepare_job codec job (pop_job ch)")
    case (Inl err)
    with unf pop inst1 show ?thesis
      by (auto simp: followed_def report_failure_ok report_failure_in_step split: if_splits)
  next
    case (Inr eb)
    obtain e baseline where eb: "eb = (e, baseline)" by (rule prod.exhaust)
    obtain w ss1 where w: "write_envelope codec fault e (pop_job ch) ss = (w, ss1)" by (rule prod.exhaust)
    show ?thesis
    proof (cases w)
      case (Inl err)
      with unf Inr eb w pop inst1 show ?thesis
        by (auto simp: followed_def report_failure_ok report_failure_in_step)
    next
      case f: (Inr frame)
      have out: "out = Some frame" "ss' = ss1"
        "ch' = (if baseline \<noteq> None then (pop_job ch)\<lparr>ch_sent_state := baseline\<rparr> else pop_job ch)"
        using unf Inr eb w f by simp_all
      have "channel_ok codec S ch'"
        using out(3) pop sent_state_ok [OF pop] prepared_baseline [OF _ jobs ok] Inr eb
        by (cases baseline) auto
      with job_followed [OF Inr [unfolded eb] jobs ok inst codec w [unfolded f]] out show ?thesis
        by (simp add: followed_def)
    qed
  qed
qed

section \<open>Histories are followed\<close>

lemma push_job_in_step [simp]: "in_step (snd (push_job job ch)) ss c = in_step ch ss c"
  by (simp add: push_job_def in_step_def add_job_def)

lemma publish_in_step [simp]: "in_step (snd (publish_state s ch)) ss c = in_step ch ss c"
  by (simp add: publish_state_def in_step_def add_job_def Let_def)

lemma channel_step_followed:
  assumes "channel_step codec ev ch ss = (out, ch', ss')" "channel_ok codec S ch" "in_step ch ss c" "codec_ok codec"
    "event_ok codec ev" "\<forall>t \<in> S. \<forall>s \<in> set (event_state ev). precedes t s"
  shows "channel_ok codec (S \<union> set (event_state ev)) ch' \<and> followed codec out ch' ss' c"
proof (cases ev)
  case (EnqueueEvent e)
  with assms show ?thesis
    using push_job_ok [OF assms(2), of "EnvelopeJob e"] by (auto simp: channel_step_def followed_def enqueue_def)
next
  case (SnapshotEvent request s)
  have "channel_ok codec (insert s S) ch"
    using assms(2,5) SnapshotEvent by (intro channel_ok_mono [OF assms(2)]) (auto simp: channel_ok_def)
  with assms SnapshotEvent show ?thesis
    using push_job_ok [of codec "insert s S" ch "SnapshotJob _ s"]
    by (auto simp: channel_step_def followed_def enqueue_snapshot_def new_envelope_def)
next
  case (PublishEvent s)
  have "channel_ok codec (insert s S) ch"
    using assms(2,5) PublishEvent by (intro channel_ok_mono [OF assms(2)]) (auto simp: channel_ok_def)
  with assms PublishEvent show ?thesis
    using publish_ok [of codec "insert s S" ch s] by (auto simp: channel_step_def followed_def)
next
  case (WriterEvent fault)
  with assms show ?thesis using writer_step_followed by (auto simp: channel_step_def)
next
  case DrainEvent
  with assms show ?thesis
    by (auto simp: channel_step_def followed_def close_after_drain_def in_step_def channel_ok_def)
next
  case StopEvent
  with assms show ?thesis
    using channel_stop_ok [OF assms(2)]
    by (auto simp: channel_step_def followed_def) (simp add: channel_stop_def in_step_def)
qed

lemma history_ok_Cons:
  "history_ok codec (ev # evs) \<longleftrightarrow> event_ok codec ev \<and> history_ok codec evs
     \<and> sorted_wrt precedes (event_state ev)
     \<and> (\<forall>s \<in> set (event_state ev). \<forall>t \<in> set (concat (map event_state evs)). precedes s t)"
  by (auto simp: history_ok_def sorted_wrt_append)

lemma channel_run_followed:
  assumes "channel_run codec evs ch ss = (frames, ch', ss')" "channel_ok codec S ch" "in_step ch ss c" "codec_ok codec"
    "history_ok codec evs" "\<forall>t \<in> S. \<forall>s \<in> set (concat (map event_state evs)). precedes t s"
  shows "channel_ok codec (S \<union> set (concat (map event_state evs))) ch'
         \<and> (\<exists>payloads c'. list_all2 (\<lambda>p f. encode_frame p = Inr f) payloads frames
              \<and> handle_frames codec payloads c = Inr c' \<and> in_step ch' ss' c'
              \<and> cl_snapshot_requests c' = cl_snapshot_requests c)"
  using assms
proof (induction evs arbitrary: ch ss frames S c ch' ss')
  case Nil
  then show ?case by (auto intro!: exI [of _ "[]"])
next
  case (Cons ev evs)
  obtain out ch1 ss1 where st: "channel_step codec ev ch ss = (out, ch1, ss1)" by (rule prod_cases3)
  obtain fs ch2 ss2 where r: "channel_run codec evs ch1 ss1 = (fs, ch2, ss2)" by (rule prod_cases3)
  have res: "ch' = ch2" "ss' = ss2" "frames = (case out of Some f \<Rightarrow> f # fs | None \<Rightarrow> fs)"
    using Cons.prems(1) st r by simp_all
  note h = Cons.prems(5) [unfolded history_ok_Cons]
  have one: "channel_ok codec (S \<union> set (event_state ev)) ch1 \<and> followed codec out ch1 ss1 c"
    using channel_step_followed [OF st Cons.prems(2,3,4)] h Cons.prems(6) by auto
  have ord: "\<forall>t \<in> S \<union> set (event_state ev). \<forall>s \<in> set (concat (map event_state evs)). precedes t s"
    using h Cons.prems(6) by auto
  note ih = Cons.IH [OF r conjunct1 [OF one] _ Cons.prems(4) _ ord]
  show ?case
  proof (cases out)
    case None
    with one have "in_step ch1 ss1 c" by (simp add: followed_def)
    from ih [OF this] h res None show ?thesis by (auto simp: Un_assoc)
  next
    case (Some f)
    with one obtain payload c1 where f: "encode_frame payload = Inr f" "handle_frame codec payload c = Inr c1"
      "in_step ch1 ss1 c1" "cl_snapshot_requests c1 = cl_snapshot_requests c" by (auto simp: followed_def)
    from ih [OF f(3)] h obtain ps c' where "list_all2 (\<lambda>p f. encode_frame p = Inr f) ps fs"
      "handle_frames codec ps c1 = Inr c'" "in_step ch2 ss2 c'" "cl_snapshot_requests c' = cl_snapshot_requests c1"
      "channel_ok codec (S \<union> set (event_state ev) \<union> set (concat (map event_state evs))) ch2" by blast
    with f res Some show ?thesis by (auto intro!: exI [of _ "payload # ps"] exI [of _ c'] simp: Un_assoc)
  qed
qed

definition new_client :: "string \<Rightarrow> string \<Rightarrow> gui_client" where
  "new_client source_commit session_id =
     \<lparr>cl_source_commit = source_commit, cl_session_id = session_id, cl_next_server_sequence = 1,
      cl_tracker = new_tracker, cl_ready = False, cl_last_command = None, cl_snapshot_requests = 0\<rparr>"

lemma new_channel_ok:
  assumes "new_outbound_channel session_id source_commit capacity = Inr ch" "sv_next_server_sequence ss = 1"
  shows "channel_ok codec {} ch \<and> in_step ch ss (new_client source_commit session_id)"
  using assms
  by (auto simp: new_outbound_channel_def channel_ok_def state_queue_ok_def in_step_def new_client_def new_tracker_def
      split: if_splits)


section \<open>The newest state arrives\<close>

fun queued_states :: "channel_job list \<Rightarrow> snapshot list" where
  "queued_states [] = []"
| "queued_states (SnapshotJob e s # jobs) = s # queued_states jobs"
| "queued_states (EnvelopeJob e # jobs) = queued_states jobs"
| "queued_states (StateJob # jobs) = queued_states jobs"

lemma queued_states_append [simp]: "queued_states (xs @ ys) = queued_states xs @ queued_states ys"
  by (induction xs rule: queued_states.induct) simp_all

text \<open>The state the client has once the queue is empty, if nothing is added.\<close>

definition target_state :: "outbound_channel \<Rightarrow> snapshot option" where
  "target_state ch =
     (if StateJob \<in> set (ch_jobs ch) then ch_latest_state ch
      else if queued_states (ch_jobs ch) \<noteq> [] then Some (last (queued_states (ch_jobs ch)))
      else ch_sent_state ch)"

definition no_overtaking :: "outbound_channel \<Rightarrow> bool" where
  "no_overtaking ch \<longleftrightarrow> (\<forall>pre post. ch_jobs ch = pre @ StateJob # post \<longrightarrow> queued_states post = [])"

definition will_reach :: "snapshot option \<Rightarrow> outbound_channel \<Rightarrow> bool" where
  "will_reach L ch \<longleftrightarrow>
     no_overtaking ch \<and> (\<forall>l. L = Some l \<longrightarrow> (\<exists>s. target_state ch = Some s \<and> same_content s l))
     \<and> (ch_closed ch \<longrightarrow> ch_drain ch \<or> ch_writer_failed ch)"

text \<open>
  A tame history: every state handed to the channel is accepted, no snapshot is queued while a
  state job is waiting, and the channel is not stopped.
\<close>

fun tame_event :: "channel_event \<Rightarrow> outbound_channel \<Rightarrow> bool" where
  "tame_event (SnapshotEvent request s) ch \<longleftrightarrow> fst (enqueue_snapshot request s ch) \<and> \<not> ch_state_queued ch"
| "tame_event (PublishEvent s) ch \<longleftrightarrow> fst (publish_state s ch)"
| "tame_event StopEvent ch \<longleftrightarrow> False"
| "tame_event ev ch \<longleftrightarrow> True"

fun tame :: "gui_codec \<Rightarrow> channel_event list \<Rightarrow> outbound_channel \<Rightarrow> server_session \<Rightarrow> bool" where
  "tame codec [] ch ss = True"
| "tame codec (ev # evs) ch ss =
     (tame_event ev ch \<and> (case channel_step codec ev ch ss of (out, ch1, ss1) \<Rightarrow> tame codec evs ch1 ss1))"

definition newer_state :: "snapshot option \<Rightarrow> channel_event \<Rightarrow> snapshot option" where
  "newer_state L ev = (case event_state ev of [] \<Rightarrow> L | s # _ \<Rightarrow> Some s)"

lemma queued_iff: "channel_ok codec S ch \<Longrightarrow> StateJob \<in> set (ch_jobs ch) \<longleftrightarrow> ch_state_queued ch"
  by (auto simp: channel_ok_def state_queue_ok_def split: if_splits)

lemma no_overtaking_add:
  assumes "no_overtaking ch" "queued_states [job] = [] \<or> StateJob \<notin> set (ch_jobs ch)"
  shows "no_overtaking (add_job job ch)"
  unfolding no_overtaking_def
proof (intro allI impI)
  fix pre post assume "ch_jobs (add_job job ch) = pre @ StateJob # post"
  then have eq: "ch_jobs ch @ [job] = pre @ StateJob # post" by (simp add: add_job_def)
  show "queued_states post = []"
  proof (cases post rule: rev_cases)
    case (snoc post' x)
    with eq have "ch_jobs ch = pre @ StateJob # post'" "x = job" by (simp_all add: append_eq_append_conv2 flip: append.assoc)
    with assms snoc show ?thesis by (auto simp: no_overtaking_def)
  qed simp
qed

lemma push_will_reach:
  assumes "will_reach L ch" "fst (push_job job ch)" "job \<noteq> StateJob"
    "queued_states [job] = [] \<or> StateJob \<notin> set (ch_jobs ch)"
  shows "will_reach (case queued_states [job] of [] \<Rightarrow> L | s # _ \<Rightarrow> Some s) (snd (push_job job ch))"
proof -
  from assms(2) have "snd (push_job job ch) = add_job job ch" "\<not> ch_closed ch"
    by (auto simp: push_job_def split: if_splits)
  moreover have "target_state (add_job job ch) =
      (case queued_states [job] of [] \<Rightarrow> target_state ch | s # _ \<Rightarrow> Some s)"
    using assms(3,4) by (cases job) (auto simp: target_state_def add_job_def)
  ultimately show ?thesis
    using assms no_overtaking_add [of ch job]
    by (cases job) (auto simp: will_reach_def add_job_def)
qed

lemma publish_will_reach:
  assumes "will_reach L ch" "fst (publish_state s ch)" "channel_ok codec S ch"
  shows "will_reach (Some s) (snd (publish_state s ch))"
proof (cases "ch_state_queued ch")
  case True
  with assms queued_iff [OF assms(3)] show ?thesis
    by (auto simp: will_reach_def publish_state_def target_state_def no_overtaking_def Let_def split: if_splits)
next
  case False
  let ?ch1 = "ch\<lparr>ch_latest_state := Some s\<rparr>"
  have "no_overtaking ?ch1" using assms(1) by (simp add: will_reach_def no_overtaking_def)
  then have "no_overtaking (add_job StateJob ?ch1)" by (rule no_overtaking_add) simp
  then have n: "no_overtaking ((add_job StateJob ?ch1)\<lparr>ch_state_queued := True\<rparr>)" by (simp add: no_overtaking_def)
  from assms(2) False have "\<not> ch_closed ch" "snd (publish_state s ch) = (add_job StateJob ?ch1)\<lparr>ch_state_queued := True\<rparr>"
    by (auto simp: publish_state_def Let_def split: if_splits)
  with n show ?thesis by (auto simp: will_reach_def target_state_def add_job_def)
qed

lemma pop_no_overtaking: "no_overtaking ch \<Longrightarrow> ch_jobs ch = job # jobs \<Longrightarrow> no_overtaking (pop_job ch)"
  unfolding no_overtaking_def pop_job_def by (auto dest: spec [of _ "job # _"])

lemma writer_step_failed:
  "ch_writer_failed ch \<Longrightarrow> channel_ok codec S ch \<Longrightarrow> writer_step codec fault ch ss = (None, ch, ss)"
  by (simp add: writer_step_def channel_ok_def)

text \<open>The cases of an iteration that neither waits nor fails.\<close>

lemma writer_step_progress:
  assumes "writer_step codec fault ch ss = (out, ch', ss')" "ch_jobs ch = job # jobs"
    "\<not> (ch_closed ch \<and> \<not> ch_drain ch)" "\<not> ch_writer_failed ch'"
  obtains (skipped) "prepare_job codec job (pop_job ch) = Inl []" "ch' = pop_job ch"
  | (sent) e baseline where "prepare_job codec job (pop_job ch) = Inr (e, baseline)"
      "ch' = (if baseline \<noteq> None then (pop_job ch)\<lparr>ch_sent_state := baseline\<rparr> else pop_job ch)"
proof -
  note unf = assms(1) [unfolded writer_step_pop [OF assms(2,3)]]
  have rf: "ch_writer_failed (report_failure x)" for x by (simp add: report_failure_def)
  show ?thesis
  proof (cases "prepare_job codec job (pop_job ch)")
    case (Inl err)
    with unf assms(4) rf skipped show ?thesis by (auto split: if_splits)
  next
    case (Inr eb)
    with unf assms(4) rf sent show ?thesis by (cases eb) (auto split: prod.splits sum.splits)
  qed
qed

lemma prepare_skipped:
  assumes "prepare_job codec job ch = Inl []" "codec_ok codec" "ch_latest_state ch = Some t"
  shows "job = StateJob \<and> (\<exists>s. ch_sent_state ch = Some s \<and> same_content s t)"
proof (cases job)
  case (SnapshotJob e s)
  with assms show ?thesis by (cases "serialize_snapshot codec s") (auto simp: prepare_job_def codec_ok_def)
next
  case StateJob
  with assms show ?thesis
    by (cases "ch_sent_state ch"; cases "serialize_snapshot codec t")
       (auto simp: prepare_job_def codec_ok_def Let_def delta_empty_build split: if_splits sum.splits)
qed (use assms in \<open>simp add: prepare_job_def\<close>)

lemma state_job_latest:
  assumes "ch_jobs ch = StateJob # jobs" "channel_ok codec S ch"
  obtains t where "ch_latest_state ch = Some t" "StateJob \<notin> set jobs"
proof -
  have q: "ch_state_queued ch" using queued_iff [OF assms(2)] assms(1) by simp
  have "state_queue_ok ch" using assms(2) by (simp add: channel_ok_def)
  from this q obtain pre post t where *: "ch_jobs ch = pre @ StateJob # post" "StateJob \<notin> set post" "ch_latest_state ch = Some t"
    "list_all (job_before t) pre" by (rule state_queuedE) blast
  then have "pre = []" using assms(1) by (cases pre) auto
  with * assms(1) that show ?thesis by auto
qed

lemma writer_will_reach:
  assumes step: "writer_step codec fault ch ss = (out, ch', ss')" and reach: "will_reach L ch"
    and ok: "channel_ok codec S ch" and codec: "codec_ok codec" and nf: "\<not> ch_writer_failed ch'"
  shows "will_reach L ch' \<and> ch_jobs ch' = tl (ch_jobs ch)"
proof (cases "ch_jobs ch")
  case Nil
  with step reach show ?thesis by (simp add: writer_step_def)
next
  case (Cons job jobs)
  have nf0: "\<not> ch_writer_failed ch" using writer_step_failed [OF _ ok] step nf by auto
  with reach have nc: "\<not> (ch_closed ch \<and> \<not> ch_drain ch)" by (auto simp: will_reach_def)
  have no: "no_overtaking (pop_job ch)" using pop_no_overtaking reach Cons by (auto simp: will_reach_def)
  have jobs': "ch_jobs (pop_job ch) = jobs" using Cons by (simp add: pop_job_def)
  have drain: "ch_closed (pop_job ch) \<longrightarrow> ch_drain (pop_job ch) \<or> ch_writer_failed (pop_job ch)"
    using reach by (simp add: will_reach_def pop_job_def)
  have state: "\<exists>t. ch_latest_state ch = Some t \<and> StateJob \<notin> set jobs \<and> queued_states jobs = [] \<and> target_state ch = Some t"
    if "job = StateJob"
  proof -
    from that Cons ok obtain t where "ch_latest_state ch = Some t" "StateJob \<notin> set jobs" by (metis state_job_latest)
    moreover have "queued_states jobs = []"
      using reach Cons that by (auto simp: will_reach_def no_overtaking_def dest: spec [of _ "[]"])
    ultimately show ?thesis using that Cons by (simp add: target_state_def)
  qed
  from step Cons nc nf show ?thesis
  proof (cases rule: writer_step_progress)
    case skipped
    have "job = StateJob"
      using skipped(1) codec by (cases job; simp add: prepare_job_def codec_ok_def)
    with state obtain t where t: "ch_latest_state ch = Some t" "StateJob \<notin> set jobs" "queued_states jobs = []"
      "target_state ch = Some t" by blast
    from prepare_skipped [OF skipped(1) codec] t(1) obtain s where "ch_sent_state ch = Some s" "same_content s t"
      by (auto simp: pop_job_def)
    with t jobs' have "target_state (pop_job ch) = Some s" by (simp add: target_state_def) (simp add: pop_job_def)
    with t reach no drain jobs' skipped(2) \<open>same_content s t\<close> show ?thesis
      by (auto simp: will_reach_def Cons intro: same_content_trans)
  next
    case (sent e baseline)
    have "target_state ch' = target_state ch"
      using sent(1)
    proof (cases rule: prepare_job_cases)
      case envelope
      with sent(2) Cons jobs' show ?thesis by (simp add: target_state_def) (simp add: pop_job_def)
    next
      case (snapshot e0 s payload)
      with sent(2) Cons jobs' show ?thesis by (simp add: target_state_def) (simp add: pop_job_def)
    next
      case (first s payload)
      with sent(2) state jobs' show ?thesis by (auto simp: target_state_def) (simp_all add: pop_job_def)
    next
      case (delta s t payload)
      with sent(2) state jobs' show ?thesis by (auto simp: target_state_def) (simp_all add: pop_job_def)
    qed
    moreover have "ch_jobs ch' = jobs" "no_overtaking ch'" using sent(2) jobs' no by (simp_all add: no_overtaking_def)
    moreover have "ch_closed ch' \<longrightarrow> ch_drain ch' \<or> ch_writer_failed ch'" using sent(2) drain by simp
    ultimately show ?thesis using reach Cons by (simp add: will_reach_def)
  qed
qed

lemma channel_step_will_reach:
  assumes "channel_step codec ev ch ss = (out, ch', ss')" "will_reach L ch" "channel_ok codec S ch" "codec_ok codec"
    "\<not> ch_writer_failed ch'" "tame_event ev ch"
  shows "will_reach (newer_state L ev) ch'"
proof (cases ev)
  case (EnqueueEvent e)
  then have ch': "ch' = snd (push_job (EnvelopeJob e) ch)" using assms(1) by (simp add: channel_step_def enqueue_def)
  show ?thesis
  proof (cases "fst (push_job (EnvelopeJob e) ch)")
    case True
    with push_will_reach [OF assms(2) True] ch' EnqueueEvent show ?thesis by (simp add: newer_state_def)
  next
    case False
    with ch' assms(2) EnqueueEvent show ?thesis
      by (auto simp: push_job_def will_reach_def newer_state_def target_state_def no_overtaking_def split: if_splits)
  qed
next
  case (SnapshotEvent request s)
  with assms(1,6) queued_iff [OF assms(3)] show ?thesis
    by (auto simp: channel_step_def enqueue_snapshot_def newer_state_def dest: push_will_reach [OF assms(2)])
next
  case (PublishEvent s)
  with assms publish_will_reach [OF assms(2) _ assms(3)] show ?thesis by (auto simp: channel_step_def newer_state_def)
next
  case (WriterEvent fault)
  with assms writer_will_reach [OF _ assms(2,3,4,5)] show ?thesis by (simp add: channel_step_def newer_state_def)
next
  case DrainEvent
  with assms show ?thesis
    by (auto simp: channel_step_def newer_state_def close_after_drain_def will_reach_def target_state_def no_overtaking_def)
next
  case StopEvent
  with assms show ?thesis by simp
qed

lemma writer_step_keeps_failed:
  "writer_step codec fault ch ss = (out, ch', ss') \<Longrightarrow> ch_writer_failed ch \<Longrightarrow> ch_writer_failed ch'"
  by (auto simp: writer_step_def Let_def report_failure_def split: list.splits if_splits sum.splits prod.splits)

lemma channel_step_keeps_failed:
  "channel_step codec ev ch ss = (out, ch', ss') \<Longrightarrow> ch_writer_failed ch \<Longrightarrow> ch_writer_failed ch'"
  using writer_step_keeps_failed
  by (cases ev) (auto simp: channel_step_def enqueue_def enqueue_snapshot_def push_job_def publish_state_def
      close_after_drain_def channel_stop_def add_job_def Let_def split: if_splits)

lemma channel_run_keeps_failed:
  "channel_run codec evs ch ss = (frames, ch', ss') \<Longrightarrow> ch_writer_failed ch \<Longrightarrow> ch_writer_failed ch'"
  by (induction evs arbitrary: ch ss frames)
     (auto split: prod.splits dest: channel_step_keeps_failed)

lemma channel_run_will_reach:
  assumes "channel_run codec evs ch ss = (frames, ch', ss')" "channel_ok codec S ch" "in_step ch ss c" "codec_ok codec"
    "history_ok codec evs" "\<forall>t \<in> S. \<forall>s \<in> set (concat (map event_state evs)). precedes t s"
    "will_reach L ch" "tame codec evs ch ss" "\<not> ch_writer_failed ch'"
  shows "will_reach (fold (\<lambda>ev L. newer_state L ev) evs L) ch'"
  using assms
proof (induction evs arbitrary: ch ss frames S c L)
  case (Cons ev evs)
  obtain out ch1 ss1 where st: "channel_step codec ev ch ss = (out, ch1, ss1)" by (rule prod_cases3)
  obtain fs where r: "channel_run codec evs ch1 ss1 = (fs, ch', ss')"
    using Cons.prems(1) st by (auto split: prod.splits)
  have nf: "\<not> ch_writer_failed ch1" using channel_run_keeps_failed [OF r] Cons.prems(9) by blast
  note h = Cons.prems(5) [unfolded history_ok_Cons]
  have one: "channel_ok codec (S \<union> set (event_state ev)) ch1" "followed codec out ch1 ss1 c"
    using channel_step_followed [OF st Cons.prems(2,3,4)] h Cons.prems(6) by auto
  obtain c1 where c1: "in_step ch1 ss1 c1" using one(2) by (cases out) (auto simp: followed_def)
  have "will_reach (newer_state L ev) ch1"
    using channel_step_will_reach [OF st Cons.prems(7,2,4) nf] Cons.prems(8) by simp
  from Cons.IH [OF r one(1) c1 Cons.prems(4) _ _ this] h Cons.prems(6,8,9) st show ?case by auto
qed simp

text \<open>Iterations of the writer empty the queue, one job each.\<close>

lemma writer_drains:
  assumes "channel_run codec (replicate n (WriterEvent None)) ch ss = (frames, ch', ss')" "channel_ok codec S ch"
    "in_step ch ss c" "codec_ok codec" "will_reach L ch" "\<not> ch_writer_failed ch'"
  shows "will_reach L ch' \<and> ch_jobs ch' = drop n (ch_jobs ch)"
  using assms
proof (induction n arbitrary: ch ss frames c)
  case (Suc n)
  obtain out ch1 ss1 where st: "writer_step codec None ch ss = (out, ch1, ss1)" by (rule prod_cases3)
  obtain fs where r: "channel_run codec (replicate n (WriterEvent None)) ch1 ss1 = (fs, ch', ss')"
    using Suc.prems(1) st by (auto simp: channel_step_def split: prod.splits)
  have nf: "\<not> ch_writer_failed ch1" using channel_run_keeps_failed [OF r] Suc.prems(6) by blast
  note one = writer_step_followed [OF st Suc.prems(2,3,4)] writer_will_reach [OF st Suc.prems(5,2,4) nf]
  obtain c1 where "in_step ch1 ss1 c1" using one(1) by (cases out) (auto simp: followed_def)
  with Suc.IH [OF r _ _ Suc.prems(4) _ Suc.prems(6)] one show ?case by (auto simp: drop_Suc)
qed simp

lemma channel_run_append:
  "channel_run codec (evs @ evs') ch ss =
     (case channel_run codec evs ch ss of (fs, ch1, ss1) \<Rightarrow>
        case channel_run codec evs' ch1 ss1 of (fs', ch2, ss2) \<Rightarrow> (fs @ fs', ch2, ss2))"
  by (induction evs arbitrary: ch ss) (auto split: prod.splits option.splits)

lemma fold_newer_state:
  "fold (\<lambda>ev L. newer_state L ev) evs L =
     (if concat (map event_state evs) = [] then L else Some (last (concat (map event_state evs))))"
proof (induction evs arbitrary: L)
  case (Cons ev evs)
  then show ?case by (cases ev) (auto simp: newer_state_def)
qed simp

text \<open>Example data: three states, and a codec that can carry them.\<close>

definition sample_state :: "u64 \<Rightarrow> string \<Rightarrow> snapshot" where
  "sample_state revision state =
     \<lparr>sn_revision = revision,
      sn_application = \<lparr>as_state = state, as_listener_host = [], as_listener_port = 0, as_last_error = [], as_last_exit_code = 0\<rparr>,
      sn_profiles = [], sn_application_fields = [], sn_selection = \<lparr>se_profile_id = None, se_profile_key = None\<rparr>,
      sn_profile_editor = None, sn_rules_editor = None,
      sn_draft = \<lparr>ds_phase = [], ds_runtime_apply_pending = False, ds_revision = 0, ds_base_revision = []\<rparr>,
      sn_last_command = None,
      sn_storage = \<lparr>ss_state = [], ss_database_exists = False, ss_detail = [], ss_database_path = [], ss_backup_directory = []\<rparr>,
      sn_lightweight_mode = True, sn_command_pending = False\<rparr>"

text \<open>Texts for finitely many values, by their position in a list.\<close>

fun table_text :: "'a list \<Rightarrow> 'a \<Rightarrow> string res" where
  "table_text [] x = Inl ''unsupported''"
| "table_text (y # ys) x = (if x = y then Inr ''a'' else res_map ((#) (CHR ''b'')) (table_text ys x))"

fun table_value :: "'a list \<Rightarrow> string \<Rightarrow> 'a res" where
  "table_value [] t = Inl ''malformed''"
| "table_value (y # ys) t =
     (if t = ''a'' then Inr y else case t of c # t' \<Rightarrow> table_value ys t' | [] \<Rightarrow> Inl ''malformed'')"

lemma table_text_value: "table_text xs x = Inr t \<Longrightarrow> table_value xs t = Inr x"
proof (induction xs arbitrary: t)
  case (Cons y ys)
  have "t' \<noteq> []" if "table_text ys x = Inr t'" for t'
    using that by (induction ys arbitrary: t') (auto split: if_splits)
  with Cons show ?case by (fastforce split: if_splits)
qed simp

lemma table_text_error: "table_text xs x \<noteq> Inl []"
  by (induction xs) auto

definition table_codec :: "envelope list \<Rightarrow> snapshot list \<Rightarrow> state_delta list \<Rightarrow> gui_codec" where
  "table_codec es ss ds =
     \<lparr>serialize_envelope = table_text es, parse_envelope = table_value es,
      serialize_snapshot = table_text ss, parse_snapshot = table_value ss,
      serialize_state_delta = table_text ds, parse_state_delta = table_value ds,
      parse_command_status = (\<lambda>t. Inl ''unsupported'')\<rparr>"

lemma table_codec_ok: "codec_ok (table_codec es ss ds)"
  by (auto simp: codec_ok_def table_codec_def table_text_value table_text_error)

definition sample_sent :: "message_kind \<Rightarrow> string \<Rightarrow> u64 \<Rightarrow> string \<Rightarrow> envelope" where
  "sample_sent kind request sequence payload =
     new_envelope\<lparr>ev_kind := kind, ev_request_id := request, ev_session_id := ''s'', ev_source_commit := ''c'',
       ev_sequence := sequence, ev_payload_json := payload\<rparr>"

definition sample_codec :: gui_codec where
  "sample_codec =
     table_codec [sample_sent Snapshot ''state-snapshot'' 1 ''a'', sample_sent StateChanged ''state-changed'' 2 ''a'',
                  sample_sent Snapshot ''state-snapshot'' 1 ''bba'', sample_sent Snapshot ''r'' 2 ''ba'']
       [sample_state 1 ''x'', sample_state 2 ''y'', sample_state 3 ''z'']
       [build_gui_state_delta (sample_state 1 ''x'') (sample_state 2 ''y'')]"


definition sample_history :: "channel_event list" where
  "sample_history = [PublishEvent (sample_state 1 ''x''), WriterEvent None, PublishEvent (sample_state 2 ''y'')]"

definition sample_channel :: outbound_channel where
  "sample_channel = \<lparr>ch_session_id = ''s'', ch_source_commit = ''c'', ch_capacity = 4,
                ch_jobs = [], ch_latest_state = None, ch_sent_state = None, ch_peak_pending = 0,
                ch_rejected = 0, ch_coalesced = 0, ch_state_queued = False, ch_closed = False,
                ch_drain = False, ch_writer_failed = False\<rparr>"

lemma sample_channel_new: "new_outbound_channel ''s'' ''c'' 4 = Inr sample_channel"
  by (simp add: new_outbound_channel_def sample_channel_def)

lemma sample_state_base [simp]: "ds_base_revision (sn_draft (sample_state r x)) = []"
  by (simp add: sample_state_def)

lemma sample_state_eq [simp]: "sample_state r x = sample_state r' x' \<longleftrightarrow> r = r' \<and> x = x'"
  by (auto simp: sample_state_def)

lemma sample_state_same [simp]: "same_content (sample_state r x) (sample_state r' x') \<longleftrightarrow> x = x'"
  by (auto simp: sample_state_def same_content_def)

lemma sample_state_revision [simp]: "sn_revision (sample_state r x) = r"
  by (simp add: sample_state_def)

lemmas run_simps = channel_step_def publish_state_def enqueue_snapshot_def push_job_def add_job_def Let_def writer_step_def
  prepare_job_def write_envelope_def next_server_sequence_def sample_channel_def new_session_def
  sample_codec_def table_codec_def sample_sent_def new_envelope_def bytes_of_string_def encode_frame_small length_bytes_def
  delta_empty_build

lemma sample_run:
  "channel_run sample_codec sample_history sample_channel (new_session sample_policy) =
     ([[1, 0, 0, 0, 97]],
      sample_channel\<lparr>ch_jobs := [StateJob], ch_latest_state := Some (sample_state 2 ''y''),
        ch_sent_state := Some (sample_state 1 ''x''), ch_peak_pending := 1, ch_state_queued := True\<rparr>,
      (new_session sample_policy)\<lparr>sv_next_server_sequence := 2\<rparr>)"
  by (simp add: sample_history_def run_simps)

lemma sample_drain:
  "channel_run sample_codec [WriterEvent None]
     (sample_channel\<lparr>ch_jobs := [StateJob], ch_latest_state := Some (sample_state 2 ''y''),
        ch_sent_state := Some (sample_state 1 ''x''), ch_peak_pending := 1, ch_state_queued := True\<rparr>)
     ((new_session sample_policy)\<lparr>sv_next_server_sequence := 2\<rparr>) =
     ([[2, 0, 0, 0, 98, 97]],
      sample_channel\<lparr>ch_latest_state := Some (sample_state 2 ''y''),
        ch_sent_state := Some (sample_state 2 ''y''), ch_peak_pending := 1\<rparr>,
      (new_session sample_policy)\<lparr>sv_next_server_sequence := 3\<rparr>)"
  by (simp add: run_simps)

lemma sample_history_ok: "history_ok codec sample_history"
  by (simp add: history_ok_def sample_history_def precedes_def)

lemma sample_tame: "tame sample_codec sample_history sample_channel (new_session sample_policy)"
  by (simp add: sample_history_def run_simps)



lemma sample_chars [simp]: "char_of (97 :: nat) = CHR ''a''" "char_of (98 :: nat) = CHR ''b''"
  by code_simp+

text \<open>
  The hypothesis on snapshots is needed. When a snapshot is queued behind a waiting state job and a
  newer state is then merged into that job, the newer state is sent first and the older snapshot
  last: the queue is empty, yet the client keeps the older state until the next change.
\<close>
lemma snapshot_overtaken:
  "\<exists>evs frames ch ss payloads c. history_ok sample_codec evs
     \<and> channel_run sample_codec evs sample_channel (new_session sample_policy) = (frames, ch, ss)
     \<and> ch_jobs ch = [] \<and> \<not> ch_writer_failed ch \<and> ch_latest_state ch = Some (sample_state 3 ''z'')
     \<and> list_all2 (\<lambda>p f. encode_frame p = Inr f) payloads frames
     \<and> handle_frames sample_codec payloads (new_client ''c'' ''s'') = Inr c
     \<and> tr_snapshot (cl_tracker c) = Some (sample_state 2 ''y'')"
proof -
  let ?evs = "[PublishEvent (sample_state 1 ''x''), SnapshotEvent ''r'' (sample_state 2 ''y''),
    PublishEvent (sample_state 3 ''z''), WriterEvent None, WriterEvent None]"
  have "history_ok sample_codec ?evs" by (simp add: history_ok_def precedes_def)
  moreover have "channel_run sample_codec ?evs sample_channel (new_session sample_policy) =
    ([[3, 0, 0, 0, 98, 98, 97], [4, 0, 0, 0, 98, 98, 98, 97]],
     sample_channel\<lparr>ch_latest_state := Some (sample_state 3 ''z''), ch_sent_state := Some (sample_state 2 ''y''),
       ch_peak_pending := 2, ch_coalesced := 1\<rparr>, (new_session sample_policy)\<lparr>sv_next_server_sequence := 3\<rparr>)"
    by (simp add: run_simps)
  moreover have "list_all2 (\<lambda>p f. encode_frame p = Inr f) [[98, 98, 97], [98, 98, 98, 97]]
     [[3, 0, 0, 0, 98, 98, 97], [4, 0, 0, 0, 98, 98, 98, 97]]"
    by (simp add: encode_frame_small length_bytes_def)
  moreover have "\<exists>c. handle_frames sample_codec [[98, 98, 97], [98, 98, 98, 97]] (new_client ''c'' ''s'') = Inr c
     \<and> tr_snapshot (cl_tracker c) = Some (sample_state 2 ''y'')"
    by (simp add: handle_frame_def string_of_bytes_def run_simps validate_server_envelope_def handle_authenticated_def
      new_client_def new_tracker_def accept_snapshot_def)
  moreover have "ch_jobs (sample_channel\<lparr>ch_latest_state := Some (sample_state 3 ''z''), ch_sent_state := Some (sample_state 2 ''y''),
       ch_peak_pending := 2, ch_coalesced := 1\<rparr>) = []
    \<and> \<not> ch_writer_failed (sample_channel\<lparr>ch_latest_state := Some (sample_state 3 ''z''), ch_sent_state := Some (sample_state 2 ''y''),
       ch_peak_pending := 2, ch_coalesced := 1\<rparr>)
    \<and> ch_latest_state (sample_channel\<lparr>ch_latest_state := Some (sample_state 3 ''z''), ch_sent_state := Some (sample_state 2 ''y''),
       ch_peak_pending := 2, ch_coalesced := 1\<rparr>) = Some (sample_state 3 ''z'')"
    by (simp add: sample_channel_def)
  ultimately show ?thesis by blast
qed
end
