(* ===== verification/LogRecord.thy ===== *)
theory LogRecord
  imports Prelude
begin

text \<open>
  The lines of the log: the rendering half of \<^verbatim>\<open>src/logging/logger.cpp\<close>. A field holds a text, printed
  between quotes or as it is, or a list of HTTP headers, of which the sensitive ones may be
  masked. The time of a line is an argument, as it comes from the clock. Shown here: the size
  computed in advance is the size of the line, a line shows exactly the record (no field can break
  out of its quotes, and masked values leave no trace), and a line has its only newline at the end.
\<close>

section \<open>Model\<close>

type_synonym http_headers = "(string \<times> string) list"

datatype log_value = LogText string | LogTextView string | LogHeadersRef "http_headers option" bool

record log_field =
  lf_name :: string
  lf_value :: log_value
  lf_quoted :: bool

definition field_string :: "string \<Rightarrow> string \<Rightarrow> log_field" where
  "field_string name v = \<lparr>lf_name = name, lf_value = LogText v, lf_quoted = True\<rparr>"

definition field_string_view :: "string \<Rightarrow> string \<Rightarrow> log_field" where
  "field_string_view name v = \<lparr>lf_name = name, lf_value = LogTextView v, lf_quoted = True\<rparr>"

definition field_number :: "string \<Rightarrow> int \<Rightarrow> log_field" where
  "field_number name v = \<lparr>lf_name = name, lf_value = LogText (string_of_int v), lf_quoted = False\<rparr>"

definition field_bool :: "string \<Rightarrow> bool \<Rightarrow> log_field" where
  "field_bool name v =
     \<lparr>lf_name = name, lf_value = LogText (if v then ''true'' else ''false''), lf_quoted = False\<rparr>"

definition field_raw :: "string \<Rightarrow> string \<Rightarrow> log_field" where
  "field_raw name raw_json = \<lparr>lf_name = name, lf_value = LogText raw_json, lf_quoted = False\<rparr>"

definition field_headers :: "string \<Rightarrow> http_headers \<Rightarrow> bool \<Rightarrow> log_field" where
  "field_headers name hs redact =
     \<lparr>lf_name = name, lf_value = LogHeadersRef (Some hs) redact, lf_quoted = False\<rparr>"

text \<open>The seven bytes with a short escape, in the order of the \<^verbatim>\<open>switch\<close>, and their second letter.\<close>

definition short_escape :: "char \<Rightarrow> char option" where
  "short_escape c =
     (if code c = 92 then Some (CHR 0x5C)
      else if code c = 34 then Some (CHR 0x22)
      else if code c = 8 then Some (CHR ''b'')
      else if code c = 12 then Some (CHR ''f'')
      else if code c = 10 then Some (CHR ''n'')
      else if code c = 13 then Some (CHR ''r'')
      else if code c = 9 then Some (CHR ''t'')
      else None)"

fun escaped_size :: "string \<Rightarrow> nat" where
  "escaped_size [] = 0"
| "escaped_size (c # s) =
     (if short_escape c \<noteq> None then 2 else if code c < 32 then 6 else 1) + escaped_size s"

definition hex_digit :: "nat \<Rightarrow> char" where
  "hex_digit n = ''0123456789abcdef'' ! (n mod 16)"

definition escape_char :: "char \<Rightarrow> string" where
  "escape_char c =
     (case short_escape c of
        Some e \<Rightarrow> [CHR 0x5C, e]
      | None \<Rightarrow> if code c < 32
          then [CHR 0x5C] @ ''u00'' @ [hex_digit (code c div 16), hex_digit (code c)]
          else [c])"

fun append_escaped :: "string \<Rightarrow> string \<Rightarrow> string" where
  "append_escaped out [] = out"
| "append_escaped out (c # s) = append_escaped (out @ escape_char c) s"

definition level_value :: "string \<Rightarrow> int" where
  "level_value level =
     (if level = ''trace'' then 0
      else if level = ''debug'' then 1
      else if level = ''info'' then 2
      else if level = ''warn'' then 3
      else if level = ''error'' then 4
      else 2)"

definition ascii_case_equal :: "string \<Rightarrow> string \<Rightarrow> bool" where
  "ascii_case_equal left right \<longleftrightarrow>
     length left = length right \<and> list_all2 (\<lambda>l r. to_lower l = to_lower r) left right"

definition is_sensitive_header :: "string \<Rightarrow> bool" where
  "is_sensitive_header name \<longleftrightarrow>
     list_ex (ascii_case_equal name)
       [''authorization'', ''proxy-authorization'', ''cookie'', ''set-cookie'', ''x-api-key'', ''api-key'']"

fun field_text :: "log_value \<Rightarrow> string" where
  "field_text (LogText s) = s"
| "field_text (LogTextView s) = s"
| "field_text (LogHeadersRef hs redact) = []"

definition rendered_value :: "bool \<Rightarrow> string \<Rightarrow> string \<Rightarrow> string" where
  "rendered_value redact name v = (if redact \<and> is_sensitive_header name then ''***'' else v)"

fun headers_size_loop :: "bool \<Rightarrow> http_headers \<Rightarrow> bool \<Rightarrow> nat \<Rightarrow> nat" where
  "headers_size_loop redact [] first n = n"
| "headers_size_loop redact ((name, v) # hs) first n =
     headers_size_loop redact hs False
       (n + (if first then 0 else 1) + 5 + escaped_size name + escaped_size (rendered_value redact name v))"

fun headers_size :: "http_headers option \<Rightarrow> bool \<Rightarrow> nat" where
  "headers_size None redact = 2"
| "headers_size (Some hs) redact = headers_size_loop redact hs True 2"

fun append_headers_loop :: "bool \<Rightarrow> http_headers \<Rightarrow> bool \<Rightarrow> string \<Rightarrow> string" where
  "append_headers_loop redact [] first out = out"
| "append_headers_loop redact ((name, v) # hs) first out =
     (let out = (if first then out else out @ '','') @ [CHR 0x22];
          out = append_escaped out name @ [CHR 0x22, CHR '':'', CHR 0x22];
          out = append_escaped out (rendered_value redact name v) @ [CHR 0x22]
      in append_headers_loop redact hs False out)"

definition append_headers :: "string \<Rightarrow> http_headers option \<Rightarrow> bool \<Rightarrow> string" where
  "append_headers out hs redact =
     (case hs of
        None \<Rightarrow> out @ ''{''
      | Some hs \<Rightarrow> append_headers_loop redact hs True (out @ ''{'')) @ ''}''"

definition field_size :: "log_field \<Rightarrow> nat" where
  "field_size f =
     4 + escaped_size (lf_name f)
     + (case lf_value f of
          LogHeadersRef hs redact \<Rightarrow> headers_size hs redact
        | v \<Rightarrow> if lf_quoted f then escaped_size (field_text v) + 2 else length (field_text v))"

definition rendered_line_size :: "string \<Rightarrow> string \<Rightarrow> log_field list \<Rightarrow> nat" where
  "rendered_line_size level event fs =
     foldl (\<lambda>n f. n + field_size f) (32 + 23 + escaped_size level + escaped_size event) fs + 2"

definition append_field :: "string \<Rightarrow> log_field \<Rightarrow> string" where
  "append_field out f =
     (let out = append_escaped (out @ [CHR '','', CHR 0x22]) (lf_name f) @ [CHR 0x22, CHR '':'']
      in case lf_value f of
           LogHeadersRef hs redact \<Rightarrow> append_headers out hs redact
         | v \<Rightarrow> if lf_quoted f then append_escaped (out @ [CHR 0x22]) (field_text v) @ [CHR 0x22]
                else out @ field_text v)"

definition quoted_key :: "string \<Rightarrow> string" where
  "quoted_key k = [CHR 0x22] @ k @ [CHR 0x22, CHR '':'', CHR 0x22]"

definition render_line :: "string \<Rightarrow> string \<Rightarrow> string \<Rightarrow> log_field list \<Rightarrow> string" where
  "render_line time level event fs =
     (let out = append_escaped (''{'' @ quoted_key ''time'') time;
          out = append_escaped (out @ [CHR 0x22, CHR '',''] @ quoted_key ''level'') level;
          out = append_escaped (out @ [CHR 0x22, CHR '',''] @ quoted_key ''event'') event @ [CHR 0x22]
      in foldl append_field out fs @ [CHR ''}'', CHR 0x0A])"

section \<open>Escaping\<close>

definition escaped :: "string \<Rightarrow> string" where
  "escaped s = concat (map escape_char s)"

lemma append_escaped_eq: "append_escaped out s = out @ escaped s"
  by (induction out s rule: append_escaped.induct) (simp_all add: escaped_def)

lemma escaped_simps [simp]: "escaped [] = []" "escaped (c # s) = escape_char c @ escaped s"
  by (simp_all add: escaped_def)

lemma length_escape_char:
  "length (escape_char c) = (if short_escape c \<noteq> None then 2 else if code c < 32 then 6 else 1)"
  by (auto simp: escape_char_def split: option.splits)

lemma length_escaped [simp]: "length (escaped s) = escaped_size s"
  by (induction s) (simp_all add: length_escape_char)

text \<open>The escapes are a prefix code that never starts with a quote, so a quote ends an escaped text.\<close>

lemma short_escape_inj: "short_escape c = Some e \<Longrightarrow> short_escape d = Some e \<Longrightarrow> c = d"
  by (subst char_eq_code) (auto simp add: short_escape_def split: if_splits simp del: of_char_eq_iff)

lemma short_escape_not_u: "short_escape c \<noteq> Some CHR ''u''"
  by (auto simp: short_escape_def)

lemma short_escape_None: "short_escape c = None \<Longrightarrow> code c \<noteq> 34 \<and> code c \<noteq> 92 \<and> code c \<noteq> 10"
  by (auto simp: short_escape_def split: if_splits)

lemma hex_digit_inj: "hex_digit m = hex_digit n \<Longrightarrow> m mod 16 = n mod 16"
  by (subst nth_eq_iff_index_eq [of "''0123456789abcdef''", symmetric]) (simp_all add: hex_digit_def)

lemma hex_pair_inj:
  assumes "m < 32" "n < 32" "hex_digit (m div 16) = hex_digit (n div 16)" "hex_digit m = hex_digit n"
  shows "m = n"
proof -
  have "m div 16 mod 16 = n div 16 mod 16" "m mod 16 = n mod 16"
    using assms(3,4) by (blast dest: hex_digit_inj)+
  moreover have "m div 16 < 16" "n div 16 < 16" using assms(1,2) by auto
  ultimately have "m div 16 * 16 + m mod 16 = n div 16 * 16 + n mod 16" by simp
  then show ?thesis by simp
qed

lemma escape_char_head:
  "\<exists>x xs. escape_char c = x # xs \<and> code x \<noteq> 34 \<and> (code x = 92 \<longleftrightarrow> short_escape c \<noteq> None \<or> code c < 32)"
  by (auto simp: escape_char_def dest: short_escape_None split: option.splits)

lemma escape_char_prefix:
  assumes "escape_char c @ x = escape_char d @ y"
  shows "c = d \<and> x = y"
proof (cases "code c < 32 \<and> short_escape c = None \<and> code d < 32 \<and> short_escape d = None")
  case True
  with assms have "hex_digit (code c div 16) = hex_digit (code d div 16)" "hex_digit (code c) = hex_digit (code d)" "x = y"
    by (simp_all add: escape_char_def)
  with True hex_pair_inj [of "code c" "code d"] show ?thesis by simp
next
  case False
  with assms show ?thesis
    using short_escape_not_u [of c] short_escape_not_u [of d]
    by (auto simp: escape_char_def dest: short_escape_inj short_escape_None split: option.splits if_splits)
qed

lemma escaped_quote_inj:
  "escaped s @ CHR 0x22 # x = escaped t @ CHR 0x22 # y \<Longrightarrow> s = t \<and> x = y"
proof (induction s arbitrary: t)
  case Nil
  then show ?case
  proof (cases t)
    case (Cons d t')
    with Nil escape_char_head [of d] show ?thesis by fastforce
  qed simp
next
  case (Cons c s)
  show ?case
  proof (cases t)
    case Nil
    with Cons.prems escape_char_head [of c] show ?thesis by fastforce
  next
    case (Cons d t')
    with Cons.prems have "escape_char c @ escaped s @ CHR 0x22 # x = escape_char d @ escaped t' @ CHR 0x22 # y"
      by simp
    from escape_char_prefix [OF this] Cons.IH [of t'] Cons show ?thesis by simp
  qed
qed

lemma escaped_no_newline: "CHR 0x0A \<notin> set (escaped s)"
proof -
  have "CHR 0x0A \<notin> set (escape_char c)" for c
    by (auto simp: escape_char_def hex_digit_def short_escape_def nth_Cons' split: option.splits if_splits)
  then show ?thesis by (auto simp: escaped_def)
qed

section \<open>The text of a field\<close>

text \<open>What a reader sees of a field: the headers after masking, a quoted text, or a bare text.\<close>

datatype shown_value = ShownText string | ShownRaw string | ShownHeaders http_headers

definition masked :: "bool \<Rightarrow> http_headers \<Rightarrow> http_headers" where
  "masked redact hs = map (\<lambda>(name, v). (name, rendered_value redact name v)) hs"

fun show_value :: "bool \<Rightarrow> log_value \<Rightarrow> shown_value" where
  "show_value quoted (LogHeadersRef None redact) = ShownHeaders []"
| "show_value quoted (LogHeadersRef (Some hs) redact) = ShownHeaders (masked redact hs)"
| "show_value quoted v = (if quoted then ShownText (field_text v) else ShownRaw (field_text v))"

definition shown :: "log_field \<Rightarrow> string \<times> shown_value" where
  "shown f = (lf_name f, show_value (lf_quoted f) (lf_value f))"

definition header_text :: "string \<times> string \<Rightarrow> string" where
  "header_text h = CHR 0x22 # escaped (fst h) @ [CHR 0x22, CHR '':'', CHR 0x22] @ escaped (snd h) @ [CHR 0x22]"

fun headers_text :: "bool \<Rightarrow> http_headers \<Rightarrow> string" where
  "headers_text first [] = []"
| "headers_text first (h # hs) = (if first then [] else '','') @ header_text h @ headers_text False hs"

fun value_text :: "shown_value \<Rightarrow> string" where
  "value_text (ShownText s) = CHR 0x22 # escaped s @ [CHR 0x22]"
| "value_text (ShownRaw s) = s"
| "value_text (ShownHeaders hs) = CHR ''{'' # headers_text True hs @ ''}''"

definition item_text :: "string \<times> shown_value \<Rightarrow> string" where
  "item_text i = [CHR '','', CHR 0x22] @ escaped (fst i) @ [CHR 0x22, CHR '':''] @ value_text (snd i)"

lemma append_headers_loop_eq:
  "append_headers_loop redact hs first out = out @ headers_text first (masked redact hs)"
  by (induction redact hs first out rule: append_headers_loop.induct)
     (simp_all add: Let_def append_escaped_eq masked_def header_text_def)

lemma append_field_eq: "append_field out f = out @ item_text (shown f)"
  by (cases "lf_value f")
     (auto simp: append_field_def append_headers_def append_headers_loop_eq append_escaped_eq shown_def
       item_text_def Let_def split: option.splits)

lemma foldl_append_field: "foldl append_field out fs = out @ concat (map (item_text \<circ> shown) fs)"
  by (induction fs arbitrary: out) (simp_all add: append_field_eq)

lemma headers_size_loop_eq:
  "headers_size_loop redact hs first n = n + length (headers_text first (masked redact hs))"
  by (induction redact hs first n rule: headers_size_loop.induct)
     (simp_all add: masked_def header_text_def)

lemma headers_size_eq: "headers_size hs redact = length (value_text (show_value quoted (LogHeadersRef hs redact)))"
  by (cases hs) (simp_all add: headers_size_loop_eq)

lemma field_size_eq: "field_size f = length (item_text (shown f))"
  by (cases "lf_value f")
     (simp_all add: field_size_def shown_def item_text_def headers_size_eq [of _ _ "lf_quoted f"])

lemma foldl_field_size: "foldl (\<lambda>n f. n + field_size f) n fs = n + length (concat (map (item_text \<circ> shown) fs))"
  by (induction fs arbitrary: n) (simp_all add: field_size_eq)

lemma render_line_eq:
  "render_line time level event fs =
     ''{'' @ quoted_key ''time'' @ escaped time @ [CHR 0x22, CHR '',''] @ quoted_key ''level'' @ escaped level
     @ [CHR 0x22, CHR '',''] @ quoted_key ''event'' @ escaped event @ CHR 0x22
     # concat (map (item_text \<circ> shown) fs) @ [CHR ''}'', CHR 0x0A]"
  by (simp add: render_line_def Let_def append_escaped_eq foldl_append_field)

text \<open>A bare text stays within its field when it has none of the separators and no newline.\<close>

definition plain_text :: "string \<Rightarrow> bool" where
  "plain_text s \<longleftrightarrow> list_all (\<lambda>c. c \<noteq> CHR 0x22 \<and> c \<noteq> CHR ''{'' \<and> c \<noteq> CHR '','' \<and> c \<noteq> CHR ''}'' \<and> c \<noteq> CHR 0x0A) s"

fun plain_value :: "shown_value \<Rightarrow> bool" where
  "plain_value (ShownRaw s) = plain_text s"
| "plain_value _ = True"

definition plain_fields :: "log_field list \<Rightarrow> bool" where
  "plain_fields fs \<longleftrightarrow> list_all (\<lambda>f. plain_value (snd (shown f))) fs"

lemma digits_plain: "list_all is_digit s \<Longrightarrow> plain_text s"
  by (auto simp: plain_text_def list_all_iff byte_simps)

lemma field_constructors_plain [simp]:
  "plain_value (snd (shown (field_string n s)))"
  "plain_value (snd (shown (field_string_view n s)))"
  "plain_value (snd (shown (field_number n i)))"
  "plain_value (snd (shown (field_bool n b)))"
  "plain_value (snd (shown (field_headers n hs redact)))"
  using digits_plain [OF string_of_nat_digits]
  by (simp_all add: shown_def field_string_def field_string_view_def field_number_def field_bool_def
      field_headers_def string_of_int_def plain_text_def)

lemma header_text_inj: "header_text h @ x = header_text h' @ y \<Longrightarrow> h = h' \<and> x = y"
  by (cases h; cases h') (auto simp: header_text_def dest!: escaped_quote_inj)

lemma headers_text_inj:
  "headers_text first hs @ CHR ''}'' # x = headers_text first hs' @ CHR ''}'' # y \<Longrightarrow> hs = hs' \<and> x = y"
proof (induction hs arbitrary: first hs')
  case Nil
  then show ?case by (cases hs') (auto simp: header_text_def split: if_splits)
next
  case (Cons h hs)
  then obtain h' ts where hs': "hs' = h' # ts"
    by (cases hs') (auto simp: header_text_def split: if_splits)
  with Cons.prems have "header_text h @ headers_text False hs @ CHR ''}'' # x
      = header_text h' @ headers_text False ts @ CHR ''}'' # y"
    by (simp split: if_splits)
  from header_text_inj [OF this] Cons.IH [of False ts] hs' show ?case by simp
qed

text \<open>After a field comes the comma of the next one or the closing brace.\<close>

definition at_separator :: "string \<Rightarrow> bool" where
  "at_separator s \<longleftrightarrow> s \<noteq> [] \<and> (hd s = CHR '','' \<or> hd s = CHR ''}'')"

lemma plain_text_span:
  "plain_text s \<Longrightarrow> at_separator x \<Longrightarrow> takeWhile (\<lambda>c. c \<noteq> CHR '','' \<and> c \<noteq> CHR ''}'') (s @ x) = s"
  by (induction s) (auto simp: plain_text_def at_separator_def neq_Nil_conv)

lemma plain_text_no_open:
  assumes "plain_text s" "at_separator x" "s @ x = c # y"
  shows "c \<noteq> CHR 0x22 \<and> c \<noteq> CHR ''{''"
  using assms by (cases s) (auto simp: plain_text_def at_separator_def)

lemma value_text_inj:
  assumes "value_text v @ x = value_text w @ y" "plain_value v" "plain_value w" "at_separator x" "at_separator y"
  shows "v = w \<and> x = y"
proof (cases v)
  case (ShownText s)
  with assms show ?thesis
    by (cases w) (auto dest!: escaped_quote_inj dest: plain_text_no_open [OF _ _ sym])
next
  case (ShownRaw s)
  show ?thesis
  proof (cases w)
    case (ShownRaw t)
    with assms \<open>v = ShownRaw s\<close> have "s = t"
      using plain_text_span [of s x] plain_text_span [of t y] by simp
    with assms(1) \<open>v = ShownRaw s\<close> ShownRaw show ?thesis by simp
  qed (use assms ShownRaw in \<open>auto dest: plain_text_no_open\<close>)
next
  case (ShownHeaders hs)
  with assms show ?thesis
    by (cases w) (auto dest!: headers_text_inj dest: plain_text_no_open [OF _ _ sym])
qed

lemma items_separator: "at_separator (concat (map item_text is) @ [CHR ''}'', CHR 0x0A])"
  by (cases "is") (simp_all add: at_separator_def item_text_def)

lemma items_inj:
  assumes "concat (map item_text is) @ [CHR ''}'', CHR 0x0A] = concat (map item_text js) @ [CHR ''}'', CHR 0x0A]"
    and "list_all (plain_value \<circ> snd) is" "list_all (plain_value \<circ> snd) js"
  shows "is = js"
  using assms
proof (induction "is" arbitrary: js)
  case Nil
  then show ?case by (cases js) (simp_all add: item_text_def)
next
  case (Cons i "is")
  then obtain j js' where js: "js = j # js'" by (cases js) (auto simp: item_text_def)
  with Cons.prems(1) have "escaped (fst i) @ CHR 0x22 # (CHR '':'' # value_text (snd i) @ concat (map item_text is) @ [CHR ''}'', CHR 0x0A])
      = escaped (fst j) @ CHR 0x22 # (CHR '':'' # value_text (snd j) @ concat (map item_text js') @ [CHR ''}'', CHR 0x0A])"
    by (simp add: item_text_def [of i] item_text_def [of j])
  from escaped_quote_inj [OF this]
  have "fst i = fst j" and "value_text (snd i) @ concat (map item_text is) @ [CHR ''}'', CHR 0x0A]
      = value_text (snd j) @ concat (map item_text js') @ [CHR ''}'', CHR 0x0A]"
    by simp_all
  with value_text_inj [OF this(2)] items_separator Cons.prems(2,3) Cons.IH [of js'] js
  show ?case by (simp add: prod_eq_iff)
qed

section \<open>Properties\<close>

text \<open>
  C32: A log line shows exactly the record: two lines are equal if and only if time, level, event
  and the shown fields are. So no value can break out of its quotes and forge a field, and what the
  masking hides (the value of a sensitive header) cannot be told from the line.
\<close>

theorem log_line_shows_exactly:
  assumes "plain_fields fs" and "plain_fields fs'"
  shows "render_line time level event fs = render_line time' level' event' fs' \<longleftrightarrow>
    time = time' \<and> level = level' \<and> event = event' \<and> map shown fs = map shown fs'"
proof
  assume "render_line time level event fs = render_line time' level' event' fs'"
  then have "time = time'" "level = level'" "event = event'"
    "concat (map item_text (map shown fs)) @ [CHR ''}'', CHR 0x0A] = concat (map item_text (map shown fs')) @ [CHR ''}'', CHR 0x0A]"
    by (auto simp: render_line_eq quoted_key_def dest!: escaped_quote_inj)
  with items_inj [OF this(4)] assms
  show "time = time' \<and> level = level' \<and> event = event' \<and> map shown fs = map shown fs'"
    by (simp add: plain_fields_def list.pred_map comp_def)
next
  assume "time = time' \<and> level = level' \<and> event = event' \<and> map shown fs = map shown fs'"
  then show "render_line time level event fs = render_line time' level' event' fs'"
    by (simp add: render_line_eq flip: map_map)
qed

theorem log_line_shows_exactly_witness:
  "render_line ''t'' ''info'' ''e'' [field_headers ''headers'' [(''Authorization'', ''secret'')] True]
   = render_line ''t'' ''info'' ''e'' [field_headers ''headers'' [(''Authorization'', ''other'')] True]"
proof -
  have "is_sensitive_header ''Authorization''" by code_simp
  then show ?thesis
    by (subst log_line_shows_exactly)
       (simp_all add: plain_fields_def shown_def field_headers_def masked_def rendered_value_def)
qed

text \<open>The characters \<^verbatim>\<open>strftime\<close> and \<^verbatim>\<open>snprintf\<close> print for \<^verbatim>\<open>timestamp()\<close>.\<close>

definition timestamp_text :: "string \<Rightarrow> bool" where
  "timestamp_text time \<longleftrightarrow>
     length time = 23 \<and> list_all (\<lambda>c. is_digit c \<or> c \<in> {CHR ''-'', CHR ''T'', CHR '':'', CHR ''.''}) time"

lemma plain_escaped_size:
  "list_all (\<lambda>c. is_digit c \<or> c \<in> {CHR ''-'', CHR ''T'', CHR '':'', CHR ''.''}) s \<Longrightarrow> escaped_size s = length s"
  by (induction s) (auto simp: short_escape_def byte_simps)

lemma value_no_newline: "plain_value v \<Longrightarrow> CHR 0x0A \<notin> set (value_text v)"
proof (cases v)
  case (ShownHeaders hs)
  have "CHR 0x0A \<notin> set (headers_text first hs)" for first
    by (induction hs arbitrary: first) (auto simp: header_text_def escaped_no_newline)
  with ShownHeaders show ?thesis by simp
qed (auto simp: escaped_no_newline plain_text_def list_all_iff)

lemma items_no_newline: "plain_fields fs \<Longrightarrow> CHR 0x0A \<notin> set (concat (map (item_text \<circ> shown) fs))"
  by (auto simp: item_text_def escaped_no_newline value_no_newline plain_fields_def list_all_iff)

text \<open>
  C33: The size that is taken from the memory budget before a line is rendered is the size of the
  rendered line, and the line has exactly one newline, its last character: no record spans two
  lines, whatever the values in it.
\<close>

theorem log_line_framing:
  assumes "timestamp_text time" and "plain_fields fs"
  shows "length (render_line time level event fs) = rendered_line_size level event fs
    \<and> (\<exists>line. render_line time level event fs = line @ [CHR 0x0A] \<and> CHR 0x0A \<notin> set line)"
proof
  show "length (render_line time level event fs) = rendered_line_size level event fs"
    using assms(1) by (simp add: render_line_eq rendered_line_size_def foldl_field_size quoted_key_def
        timestamp_text_def plain_escaped_size)
  let ?line = "butlast (render_line time level event fs)"
  have "render_line time level event fs = ?line @ [CHR 0x0A]" "CHR 0x0A \<notin> set ?line"
    using items_no_newline [OF assms(2)]
    by (simp_all add: render_line_eq quoted_key_def butlast_append escaped_no_newline)
  then show "\<exists>line. render_line time level event fs = line @ [CHR 0x0A] \<and> CHR 0x0A \<notin> set line" by blast
qed

theorem log_line_framing_witness:
  "length (render_line ''2026-01-31T12:00:00.000'' ''info'' ''e'' [field_string ''m'' [CHR 0x0A]])
     = rendered_line_size ''info'' ''e'' [field_string ''m'' [CHR 0x0A]]"
  by (rule log_line_framing [THEN conjunct1]) (simp_all add: timestamp_text_def plain_fields_def byte_simps)

end
