(* ===== verification/Logger.thy ===== *)
theory Logger
  imports LogRecord Budget
begin

text \<open>
  The log writer: the class \<^verbatim>\<open>Logger\<close> of \<^verbatim>\<open>src/logging/logger.cpp\<close>, with metrics and memory budget as
  \<^verbatim>\<open>Server::make_logger\<close> gives them. A call of \<open>log\<close> first renders its line and takes memory for it
  (\<open>log_prepare\<close>), then enters the queue under the mutex (\<open>log_enqueue\<close>, which blocks while there is
  no space). The writer thread takes the whole queue as a batch, writes and flushes it without the
  mutex, and then reports the result under the mutex. These sections are the steps of the model, and a
  run is any interleaving of them; clock readings are arguments. The sink is an interface, given as
  the locale \<open>line_sink\<close>. Shown here: the sink receives the accepted lines in order, a
  call that waits for its line returns true only when the line is flushed, the queue stays within its bound,
  and all memory is returned.
\<close>

section \<open>Model\<close>

datatype sink_result = SinkOk | SinkFailed string | SinkThrew string | SinkThrewUnknown

datatype log_writer_state = WriterClosed | WriterRunning | WriterFailed | WriterStopped

record queued_record =
  qr_sequence :: nat
  qr_memory :: lease
  qr_line :: string
  qr_immediate :: bool
  qr_enqueued_at :: u64

record logger =
  lg_level :: string
  lg_queue_capacity :: nat
  lg_queue :: "queued_record list"
  lg_pending_records :: nat
  lg_pending_bytes :: nat
  lg_oldest_pending_at :: u64
  lg_next_sequence :: nat
  lg_flushed_sequence :: nat
  lg_stopping :: bool
  lg_state :: log_writer_state
  lg_writer_error :: string
  lg_metrics_writer_active :: bool

definition new_logger :: "string \<Rightarrow> nat \<Rightarrow> logger" where
  "new_logger level capacity =
     \<lparr>lg_level = level, lg_queue_capacity = capacity, lg_queue = [], lg_pending_records = 0,
      lg_pending_bytes = 0, lg_oldest_pending_at = 0, lg_next_sequence = 1, lg_flushed_sequence = 0,
      lg_stopping = False, lg_state = WriterClosed, lg_writer_error = [], lg_metrics_writer_active = False\<rparr>"

text \<open>
  Opening: the results of creating the directory and of starting the thread are arguments,
  as is the opening of the sink.
\<close>

definition fail_open :: "string \<Rightarrow> logger \<Rightarrow> metrics \<Rightarrow> bool \<times> logger \<times> metrics" where
  "fail_open e lg m = (False, lg\<lparr>lg_state := WriterFailed, lg_writer_error := e\<rparr>, log_writer_failed False m)"

definition sink_open_error :: "sink_result \<Rightarrow> string" where
  "sink_open_error r =
     (let e = (case r of
                 SinkOk \<Rightarrow> []
               | SinkFailed e \<Rightarrow> e
               | SinkThrew what \<Rightarrow> ''log sink open failed: '' @ what
               | SinkThrewUnknown \<Rightarrow> ''log sink open failed with an unknown exception'')
      in if e = [] then ''log sink failed to open without an error message'' else e)"

definition logger_open ::
    "unit res \<Rightarrow> ('k \<Rightarrow> sink_result \<times> 'k) \<Rightarrow> unit res \<Rightarrow> logger \<Rightarrow> 'k \<Rightarrow> metrics \<Rightarrow> bool \<times> logger \<times> 'k \<times> metrics" where
  "logger_open directory sink_open thread lg k m =
     (if lg_state lg \<noteq> WriterClosed then (False, lg, k, m)
      else case directory of
        Inl e \<Rightarrow> (let (b, lg, m) = fail_open (''failed to create log directory: '' @ e) lg m in (b, lg, k, m))
      | Inr _ \<Rightarrow>
          (case sink_open k of
             (SinkOk, k) \<Rightarrow>
               (case thread of
                  Inl e \<Rightarrow> (let (b, lg, m) = fail_open (''failed to start log writer: '' @ e) lg m in (b, lg, k, m))
                | Inr _ \<Rightarrow> (True, lg\<lparr>lg_state := WriterRunning, lg_metrics_writer_active := True\<rparr>, k, log_writer_started m))
           | (r, k) \<Rightarrow> (let (b, lg, m) = fail_open (sink_open_error r) lg m in (b, lg, k, m))))"

definition enabled :: "string \<Rightarrow> logger \<Rightarrow> bool" where
  "enabled level lg \<longleftrightarrow> level_value level \<ge> level_value (lg_level lg)"

text \<open>The part of \<open>log\<close> before the mutex: nothing to do, a rejection with its report, or a line with its lease.\<close>

datatype prepared = Skipped | Rejected string | Prepared string lease bool

definition log_prepare ::
    "string \<Rightarrow> string \<Rightarrow> string \<Rightarrow> log_field list \<Rightarrow> logger \<Rightarrow> metrics \<Rightarrow> prepared \<times> metrics" where
  "log_prepare time level event fs lg m =
     (if \<not> enabled level lg then (Skipped, m)
      else case budget_try_acquire (of_nat (rendered_line_size level event fs)) m of
        (None, m) \<Rightarrow> (Rejected ''log record rejected by the inflight memory budget'', m)
      | (Some memory, m) \<Rightarrow>
          (let line = render_line time level event fs; line_size = of_nat (length line) in
           if line_size < lease_bytes memory
           then (let (memory, m) = lease_shrink (lease_bytes memory - line_size) memory m
                 in (Prepared line memory (level = ''error''), m))
           else if line_size > lease_bytes memory
           then (case lease_try_grow (line_size - lease_bytes memory) memory m of
                   (False, memory, m) \<Rightarrow>
                     (Rejected ''rendered log record exceeded its inflight memory lease'', snd (lease_reset memory m))
                 | (True, memory, m) \<Rightarrow> (Prepared line memory (level = ''error''), m))
           else (Prepared line memory (level = ''error''), m)))"

text \<open>
  The part of \<open>log\<close> under the mutex. \<open>None\<close> is the wait for space: the call stays where it is
  and tries again after a notification. The time waited is an argument of the attempt that ends the wait.
\<close>

definition has_space :: "nat \<Rightarrow> logger \<Rightarrow> bool" where
  "has_space line_size lg \<longleftrightarrow> lg_stopping lg \<or> lg_state lg \<noteq> WriterRunning \<or> lg_pending_records lg = 0
     \<or> lg_pending_bytes lg + line_size \<le> lg_queue_capacity lg"

definition log_enqueue ::
    "u64 \<Rightarrow> u64 option \<Rightarrow> string \<Rightarrow> lease \<Rightarrow> bool \<Rightarrow> logger \<Rightarrow> metrics \<Rightarrow> (nat option \<times> logger \<times> metrics) option" where
  "log_enqueue now waited line memory immediate lg m =
     (if \<not> has_space (length line) lg then None
      else let m = (case waited of None \<Rightarrow> m | Some us \<Rightarrow> log_backpressure us m) in
        if lg_stopping lg \<or> lg_state lg \<noteq> WriterRunning
        then Some (None, lg, snd (lease_reset memory m))
        else
          let record = \<lparr>qr_sequence = lg_next_sequence lg, qr_memory = memory, qr_line = line,
                        qr_immediate = immediate, qr_enqueued_at = now\<rparr>;
              oldest = (if lg_pending_records lg = 0 then now else lg_oldest_pending_at lg);
              lg' = lg\<lparr>lg_queue := lg_queue lg @ [record], lg_next_sequence := lg_next_sequence lg + 1,
                       lg_oldest_pending_at := oldest, lg_pending_records := lg_pending_records lg + 1,
                       lg_pending_bytes := lg_pending_bytes lg + length line\<rparr>
          in Some (Some (lg_next_sequence lg), lg',
                   log_record_enqueued (of_nat (lg_pending_records lg')) (of_nat (lg_pending_bytes lg')) oldest m))"

text \<open>The wait at the end of \<open>log\<close> for a line of level error: its result once the wait is over.\<close>

definition log_flushed :: "nat \<Rightarrow> logger \<Rightarrow> bool option" where
  "log_flushed sequence lg =
     (if lg_flushed_sequence lg \<ge> sequence \<or> lg_state lg \<noteq> WriterRunning \<or> lg_stopping lg
      then Some (lg_flushed_sequence lg \<ge> sequence) else None)"

text \<open>
  \<open>drain\<close> up to its wait: an error, nothing to wait for, or the sequence to wait for.
\<close>

definition drain_begin :: "logger \<Rightarrow> string + (nat option \<times> logger)" where
  "drain_begin lg =
     (if lg_state lg \<noteq> WriterRunning \<or> lg_stopping lg
      then Inl (if lg_writer_error lg = [] then ''log writer is not running'' else lg_writer_error lg)
      else let target = lg_next_sequence lg - 1 in
        if target = 0 \<or> lg_flushed_sequence lg \<ge> target then Inr (None, lg)
        else Inr (Some target,
          if lg_queue lg = [] then lg
          else lg\<lparr>lg_queue := butlast (lg_queue lg) @ [(last (lg_queue lg))\<lparr>qr_immediate := True\<rparr>]\<rparr>))"

definition logger_stop :: "logger \<Rightarrow> logger" where
  "logger_stop lg = lg\<lparr>lg_stopping := True\<rparr>"

subsection \<open>Writer thread\<close>

text \<open>The writer takes the queue; the wait before it only delays this step.\<close>

definition writer_take :: "logger \<Rightarrow> queued_record list \<times> logger" where
  "writer_take lg = (lg_queue lg, lg\<lparr>lg_queue := []\<rparr>)"

definition batch_bytes :: "queued_record list \<Rightarrow> nat" where
  "batch_bytes batch = sum_list (map (length \<circ> qr_line) batch)"

fun write_failure :: "sink_result \<Rightarrow> string" where
  "write_failure SinkOk = []"
| "write_failure (SinkFailed e) = e"
| "write_failure (SinkThrew what) = ''log sink write failed: '' @ what"
| "write_failure SinkThrewUnknown = ''log sink write failed with an unknown exception''"

fun write_records :: "(string \<Rightarrow> 'k \<Rightarrow> sink_result \<times> 'k) \<Rightarrow> queued_record list \<Rightarrow> 'k \<Rightarrow> string \<times> 'k" where
  "write_records sink_write [] k = ([], k)"
| "write_records sink_write (r # rs) k =
     (case sink_write (qr_line r) k of
        (SinkOk, k) \<Rightarrow> write_records sink_write rs k
      | (res, k) \<Rightarrow> (write_failure res, k))"

definition flush_failure :: "sink_result \<Rightarrow> string" where
  "flush_failure r =
     (case r of
        SinkOk \<Rightarrow> []
      | SinkFailed e \<Rightarrow> if e = [] then ''log sink flush failed without an error message'' else e
      | SinkThrew what \<Rightarrow> ''log sink flush failed: '' @ what
      | SinkThrewUnknown \<Rightarrow> ''log sink flush failed with an unknown exception'')"

definition write_batch ::
    "(string \<Rightarrow> 'k \<Rightarrow> sink_result \<times> 'k) \<Rightarrow> ('k \<Rightarrow> sink_result \<times> 'k) \<Rightarrow> queued_record list \<Rightarrow> 'k \<Rightarrow> string \<times> 'k" where
  "write_batch sink_write sink_flush batch k =
     (case write_records sink_write batch k of
        (failure, k) \<Rightarrow>
          if failure = [] then (case sink_flush k of (r, k) \<Rightarrow> (flush_failure r, k)) else (failure, k))"

text \<open>Destroying records returns their memory.\<close>

definition clear_records :: "queued_record list \<Rightarrow> metrics \<Rightarrow> metrics" where
  "clear_records rs m = fold (\<lambda>r m. snd (lease_reset (qr_memory r) m)) rs m"

record batch_times =
  bt_wait :: u64
  bt_write :: u64
  bt_flush :: u64
  bt_oldest_age :: u64

definition writer_finish :: "batch_times \<Rightarrow> queued_record list \<Rightarrow> logger \<Rightarrow> metrics \<Rightarrow> logger \<times> metrics" where
  "writer_finish t batch lg m =
     (let lg' = lg\<lparr>lg_pending_records := lg_pending_records lg - length batch,
                  lg_pending_bytes := lg_pending_bytes lg - batch_bytes batch,
                  lg_flushed_sequence := qr_sequence (last batch),
                  lg_oldest_pending_at := (if lg_queue lg = [] then 0 else qr_enqueued_at (hd (lg_queue lg)))\<rparr>
      in (lg', log_batch_written (of_nat (length batch)) (of_nat (batch_bytes batch)) (bt_wait t) (bt_write t)
                 (bt_flush t) (bt_oldest_age t) (of_nat (lg_pending_records lg')) (of_nat (lg_pending_bytes lg'))
                 (if lg_pending_records lg' = 0 then 0 else lg_oldest_pending_at lg') m))"

definition report_writer_failure :: "string \<Rightarrow> logger \<Rightarrow> metrics \<Rightarrow> logger \<times> metrics" where
  "report_writer_failure e lg m =
     (lg\<lparr>lg_queue := [], lg_pending_records := 0, lg_pending_bytes := 0, lg_oldest_pending_at := 0,
         lg_state := WriterFailed, lg_writer_error := e, lg_metrics_writer_active := False\<rparr>,
      log_writer_failed (lg_metrics_writer_active lg) (log_queue_reset (clear_records (lg_queue lg) m)))"

definition writer_exit :: "logger \<Rightarrow> metrics \<Rightarrow> logger \<times> metrics" where
  "writer_exit lg m =
     (lg\<lparr>lg_state := (if lg_state lg = WriterRunning then WriterStopped else lg_state lg),
         lg_metrics_writer_active := False\<rparr>,
      if lg_metrics_writer_active lg then log_writer_stopped m else m)"

text \<open>After writing: the batch is destroyed, and the result is reported under the mutex.\<close>

definition writer_settle :: "batch_times \<Rightarrow> queued_record list \<Rightarrow> string \<Rightarrow> logger \<Rightarrow> metrics \<Rightarrow> logger \<times> metrics" where
  "writer_settle t batch failure lg m =
     (let m = clear_records batch m in
      if failure \<noteq> [] then report_writer_failure failure lg m else writer_finish t batch lg m)"

section \<open>Runs\<close>

text \<open>
  The logger with its sink, the place of the writer thread, the calls between their two parts, and,
  as history, the lines that were accepted.
\<close>

datatype writer_pc = Waiting | Taken "queued_record list" | Wrote "queued_record list" string | Exited

record 'k log_sys =
  ls_logger :: logger
  ls_metrics :: metrics
  ls_sink :: 'k
  ls_writer :: writer_pc
  ls_callers :: "(string \<times> lease \<times> bool) list"
  ls_accepted :: "string list"

datatype log_event =
    Call string string string "log_field list"
  | Enter nat u64 "u64 option"
  | DrainBegin
  | StopLogger
  | Take
  | WriteOut
  | Settle batch_times
  | Leave

definition call_step :: "string \<Rightarrow> string \<Rightarrow> string \<Rightarrow> log_field list \<Rightarrow> 'k log_sys \<Rightarrow> 'k log_sys" where
  "call_step time level event fs s =
     (case log_prepare time level event fs (ls_logger s) (ls_metrics s) of
        (Prepared line memory immediate, m) \<Rightarrow>
          s\<lparr>ls_metrics := m, ls_callers := ls_callers s @ [(line, memory, immediate)]\<rparr>
      | (_, m) \<Rightarrow> s\<lparr>ls_metrics := m\<rparr>)"

definition enter_step :: "nat \<Rightarrow> u64 \<Rightarrow> u64 option \<Rightarrow> 'k log_sys \<Rightarrow> 'k log_sys" where
  "enter_step i now waited s =
     (if i < length (ls_callers s)
      then (case ls_callers s ! i of
              (line, memory, immediate) \<Rightarrow>
                (case log_enqueue now waited line memory immediate (ls_logger s) (ls_metrics s) of
                   None \<Rightarrow> s
                 | Some (result, lg, m) \<Rightarrow>
                     s\<lparr>ls_logger := lg, ls_metrics := m,
                       ls_callers := take i (ls_callers s) @ drop (Suc i) (ls_callers s),
                       ls_accepted := ls_accepted s @ (if result = None then [] else [line])\<rparr>))
      else s)"

fun log_step ::
    "(string \<Rightarrow> 'k \<Rightarrow> sink_result \<times> 'k) \<Rightarrow> ('k \<Rightarrow> sink_result \<times> 'k) \<Rightarrow> log_event \<Rightarrow> 'k log_sys \<Rightarrow> 'k log_sys" where
  "log_step sw sf (Call time level event fs) s = call_step time level event fs s"
| "log_step sw sf (Enter i now waited) s = enter_step i now waited s"
| "log_step sw sf DrainBegin s =
     (case drain_begin (ls_logger s) of Inl _ \<Rightarrow> s | Inr (_, lg) \<Rightarrow> s\<lparr>ls_logger := lg\<rparr>)"
| "log_step sw sf StopLogger s = s\<lparr>ls_logger := logger_stop (ls_logger s)\<rparr>"
| "log_step sw sf Take s =
     (if ls_writer s = Waiting \<and> lg_queue (ls_logger s) \<noteq> []
      then (case writer_take (ls_logger s) of (batch, lg) \<Rightarrow> s\<lparr>ls_logger := lg, ls_writer := Taken batch\<rparr>)
      else s)"
| "log_step sw sf WriteOut s =
     (case ls_writer s of
        Taken batch \<Rightarrow>
          (case write_batch sw sf batch (ls_sink s) of
             (failure, k) \<Rightarrow> s\<lparr>ls_sink := k, ls_writer := Wrote batch failure\<rparr>)
      | _ \<Rightarrow> s)"
| "log_step sw sf (Settle t) s =
     (case ls_writer s of
        Wrote batch failure \<Rightarrow>
          (case writer_settle t batch failure (ls_logger s) (ls_metrics s) of
             (lg, m) \<Rightarrow> s\<lparr>ls_logger := lg, ls_metrics := m, ls_writer := (if failure = [] then Waiting else Exited)\<rparr>)
      | _ \<Rightarrow> s)"
| "log_step sw sf Leave s =
     (if ls_writer s = Waiting \<and> lg_queue (ls_logger s) = [] \<and> lg_stopping (ls_logger s)
      then (case writer_exit (ls_logger s) (ls_metrics s) of
              (lg, m) \<Rightarrow> s\<lparr>ls_logger := lg, ls_metrics := m, ls_writer := Exited\<rparr>)
      else s)"

definition log_run ::
    "(string \<Rightarrow> 'k \<Rightarrow> sink_result \<times> 'k) \<Rightarrow> ('k \<Rightarrow> sink_result \<times> 'k) \<Rightarrow> log_event list \<Rightarrow> 'k log_sys \<Rightarrow> 'k log_sys" where
  "log_run sw sf evs s = fold (log_step sw sf) evs s"

text \<open>A logger that has just been opened.\<close>

definition opened :: "string \<Rightarrow> nat \<Rightarrow> metrics \<Rightarrow> 'k \<Rightarrow> 'k log_sys" where
  "opened level capacity m k =
     \<lparr>ls_logger = (new_logger level capacity)\<lparr>lg_state := WriterRunning, lg_metrics_writer_active := True\<rparr>,
      ls_metrics = log_writer_started m, ls_sink = k, ls_writer = Waiting, ls_callers = [], ls_accepted = []\<rparr>"

lemma logger_open_opened:
  assumes "logger_open directory sink_open thread (new_logger level capacity) k m = (True, lg, k', m')"
  shows "sink_open k = (SinkOk, k') \<and> opened level capacity m k' =
    \<lparr>ls_logger = lg, ls_metrics = m', ls_sink = k', ls_writer = Waiting, ls_callers = [], ls_accepted = []\<rparr>"
  using assms
  by (auto simp: logger_open_def new_logger_def fail_open_def opened_def split: sum.splits prod.splits sink_result.splits)

section \<open>Accounting\<close>

fun in_writer :: "writer_pc \<Rightarrow> queued_record list" where
  "in_writer (Taken batch) = batch"
| "in_writer (Wrote batch failure) = batch"
| "in_writer _ = []"

text \<open>The records on their way, and the leases of everything that is alive.\<close>

definition on_the_way :: "'k log_sys \<Rightarrow> queued_record list" where
  "on_the_way s = in_writer (ls_writer s) @ lg_queue (ls_logger s)"

definition log_memory :: "'k log_sys \<Rightarrow> nat" where
  "log_memory s = sum_list (map (owned \<circ> fst \<circ> snd) (ls_callers s)) + sum_list (map (owned \<circ> qr_memory) (on_the_way s))"

text \<open>The numbering and counting of records.\<close>

definition numbered :: "'k log_sys \<Rightarrow> bool" where
  "numbered s \<longleftrightarrow>
     (let lg = ls_logger s; f = lg_flushed_sequence lg in
      lg_next_sequence lg = Suc (length (ls_accepted s)) \<and> f \<le> length (ls_accepted s)
      \<and> (lg_state lg = WriterRunning \<longleftrightarrow> ls_writer s \<noteq> Exited)
      \<and> (lg_state lg \<noteq> WriterFailed \<longrightarrow>
           map qr_line (on_the_way s) = drop f (ls_accepted s)
           \<and> map qr_sequence (on_the_way s) = [Suc f ..< lg_next_sequence lg])
      \<and> (\<forall>batch. ls_writer s = Taken batch \<or> (\<exists>e. ls_writer s = Wrote batch e) \<longrightarrow> batch \<noteq> [])
      \<and> (ls_writer s = Exited \<longrightarrow> lg_queue lg = []))"

definition counted :: "'k log_sys \<Rightarrow> bool" where
  "counted s \<longleftrightarrow>
     (let lg = ls_logger s in
      lg_pending_records lg = length (on_the_way s) \<and> lg_pending_bytes lg = batch_bytes (on_the_way s)
      \<and> (lg_pending_bytes lg \<le> lg_queue_capacity lg \<or> lg_pending_records lg \<le> 1))"

lemma other_metric_inflight:
  assumes "\<And>x. k \<noteq> InflightM x"
  shows "inflight_used (store k v m) = inflight_used m" "inflight_ok (store k v m) = inflight_ok m"
    "inflight_used (fetch_add k v m) = inflight_used m" "inflight_ok (fetch_add k v m) = inflight_ok m"
    "inflight_used (fetch_sub k v m) = inflight_used m" "inflight_ok (fetch_sub k v m) = inflight_ok m"
    "inflight_used (update_peak k v m) = inflight_used m" "inflight_ok (update_peak k v m) = inflight_ok m"
  using assms [symmetric]
  by (simp_all add: inflight_used_def inflight_ok_def fetch_add_def fetch_sub_def store_def update_peak_def)

lemma log_metrics_inflight [simp]:
  "inflight_used (log_record_enqueued r b n m) = inflight_used m"
  "inflight_ok (log_record_enqueued r b n m) = inflight_ok m"
  "inflight_used (log_queue_reset m) = inflight_used m"
  "inflight_ok (log_queue_reset m) = inflight_ok m"
  "inflight_used (log_backpressure n m) = inflight_used m"
  "inflight_ok (log_backpressure n m) = inflight_ok m"
  "inflight_used (log_batch_written r b x1 x2 x3 x4 x5 x6 x7 m) = inflight_used m"
  "inflight_ok (log_batch_written r b x1 x2 x3 x4 x5 x6 x7 m) = inflight_ok m"
  "inflight_used (log_writer_failed a m) = inflight_used m"
  "inflight_ok (log_writer_failed a m) = inflight_ok m"
  "inflight_used (log_writer_stopped m) = inflight_used m"
  "inflight_ok (log_writer_stopped m) = inflight_ok m"
  "inflight_used (log_writer_started m) = inflight_used m"
  "inflight_ok (log_writer_started m) = inflight_ok m"
  by (simp_all add: other_metric_inflight log_record_enqueued_def log_queue_reset_def
      log_backpressure_def log_batch_written_def log_writer_failed_def log_writer_stopped_def
      log_writer_started_def Let_def)

lemma batch_bytes_simps [simp]:
  "batch_bytes [] = 0" "batch_bytes (r # rs) = length (qr_line r) + batch_bytes rs"
  "batch_bytes (rs @ ts) = batch_bytes rs + batch_bytes ts"
  by (simp_all add: batch_bytes_def)

lemma clear_records_spec:
  assumes "inflight_ok m" "sum_list (map (owned \<circ> qr_memory) rs) \<le> inflight_used m"
  shows "inflight_ok (clear_records rs m)
    \<and> inflight_used (clear_records rs m) = inflight_used m - sum_list (map (owned \<circ> qr_memory) rs)"
  using assms
proof (induction rs arbitrary: m)
  case Nil
  then show ?case by (simp add: clear_records_def)
next
  case (Cons r rs)
  obtain l' m' where reset: "lease_reset (qr_memory r) m = (l', m')" by fastforce
  have "owned (qr_memory r) \<le> inflight_used m" using Cons.prems(2) by simp
  note lease_reset_spec [OF Cons.prems(1) this reset]
  then show ?case
    using Cons.IH [of m'] Cons.prems(2) reset by (simp add: clear_records_def)
qed

text \<open>Preparing a line takes exactly what it holds.\<close>

lemma log_prepare_memory:
  assumes "inflight_ok m" "log_prepare time level event fs lg m = (p, m')"
  shows "inflight_ok m' \<and> inflight_used m' = inflight_used m + (case p of Prepared line l imm \<Rightarrow> owned l | _ \<Rightarrow> 0)"
proof (cases "enabled level lg")
  case False
  with assms show ?thesis by (simp add: log_prepare_def)
next
  case True
  obtain l m1 where acq: "budget_try_acquire (of_nat (rendered_line_size level event fs)) m = (l, m1)" by fastforce
  note got = budget_try_acquire_ok [OF assms(1) acq]
  show ?thesis
  proof (cases l)
    case None
    with got acq True assms(2) show ?thesis by (auto simp: log_prepare_def)
  next
    case (Some l)
    with got have m1: "inflight_ok m1" "owned l \<le> inflight_used m1" "inflight_used m1 = inflight_used m + owned l"
      by simp_all
    obtain l2 m2 where shrink: "lease_shrink (lease_bytes l - of_nat (length (render_line time level event fs))) l m1 = (l2, m2)"
      by fastforce
    obtain g l3 m3 where grow: "lease_try_grow (of_nat (length (render_line time level event fs)) - lease_bytes l) l m1 = (g, l3, m3)"
      by (metis prod_cases3)
    obtain l4 m4 where reset: "lease_reset l3 m3 = (l4, m4)" by fastforce
    note shrunk = lease_shrink_spec [OF m1(1,2) shrink]
    note grown = lease_try_grow_spec [OF m1(1,2) grow]
    have "owned l3 \<le> inflight_used m3" using grown m1(2) by linarith
    with grown have "inflight_ok m3" by simp
    note lease_reset_spec [OF this \<open>owned l3 \<le> inflight_used m3\<close> reset]
    with assms(2) True acq Some shrink grow reset shrunk grown m1 show ?thesis
      by (cases g) (auto simp: log_prepare_def Let_def split: if_splits)
  qed
qed

definition memory_ok :: "nat \<Rightarrow> 'k log_sys \<Rightarrow> bool" where
  "memory_ok base s \<longleftrightarrow> inflight_ok (ls_metrics s) \<and> inflight_used (ls_metrics s) = base + log_memory s"

lemma sum_list_remove_nth:
  "i < length xs \<Longrightarrow> sum_list (map f (take i xs @ drop (Suc i) xs)) + f (xs ! i) = sum_list (map f (xs :: 'a list)) + (0 :: nat)"
  by (subst (3) id_take_nth_drop [of i xs]) simp_all

lemma enter_step_memory:
  assumes "memory_ok base s"
  shows "memory_ok base (enter_step i now waited s)"
proof (cases "i < length (ls_callers s)")
  case True
  obtain line l imm where c: "ls_callers s ! i = (line, l, imm)" by (metis prod_cases3)
  let ?m = "case waited of None \<Rightarrow> ls_metrics s | Some us \<Rightarrow> log_backpressure us (ls_metrics s)"
  obtain l' m' where reset: "lease_reset l ?m = (l', m')" by fastforce
  have sum: "sum_list (map (owned \<circ> fst \<circ> snd) (take i (ls_callers s) @ drop (Suc i) (ls_callers s))) + owned l
      = sum_list (map (owned \<circ> fst \<circ> snd) (ls_callers s))"
    using sum_list_remove_nth [OF True, of "owned \<circ> fst \<circ> snd"] c by simp
  have m: "inflight_ok ?m" "inflight_used ?m = base + log_memory s"
    using assms by (auto simp: memory_ok_def split: option.splits)
  moreover have "owned l \<le> inflight_used ?m" using m(2) sum by (simp add: log_memory_def)
  ultimately have "inflight_ok m' \<and> inflight_used m' = base + log_memory s - owned l"
    using lease_reset_spec [OF _ _ reset] by simp
  with True c reset m sum assms show ?thesis
    by (auto simp: enter_step_def log_enqueue_def memory_ok_def log_memory_def on_the_way_def Let_def
        split: option.splits if_splits)
qed (use assms in \<open>simp add: enter_step_def\<close>)

lemma settle_memory:
  assumes "memory_ok base s" "ls_writer s = Wrote batch failure"
    and "writer_settle t batch failure (ls_logger s) (ls_metrics s) = (lg, m)"
  shows "memory_ok base (s\<lparr>ls_logger := lg, ls_metrics := m, ls_writer := (if failure = [] then Waiting else Exited)\<rparr>)"
proof -
  let ?m = "clear_records batch (ls_metrics s)" and ?mem = "\<lambda>rs. sum_list (map (owned \<circ> qr_memory) rs)"
  have ok: "inflight_ok (ls_metrics s)" "inflight_used (ls_metrics s) = base + log_memory s"
    using assms(1) by (simp_all add: memory_ok_def)
  have batch: "inflight_ok ?m \<and> inflight_used ?m = base + log_memory s - ?mem batch"
    using clear_records_spec [OF ok(1), of batch] ok(2) assms(2) by (simp add: log_memory_def on_the_way_def)
  have queue: "inflight_ok (clear_records (lg_queue (ls_logger s)) ?m)
      \<and> inflight_used (clear_records (lg_queue (ls_logger s)) ?m) = inflight_used ?m - ?mem (lg_queue (ls_logger s))"
    by (rule clear_records_spec) (use batch assms(2) in \<open>auto simp: log_memory_def on_the_way_def\<close>)
  from assms batch queue show ?thesis
    by (cases "failure = []")
       (auto simp: writer_settle_def writer_finish_def report_writer_failure_def memory_ok_def log_memory_def
        on_the_way_def Let_def)
qed

lemma drain_begin_keeps:
  assumes "drain_begin lg = Inr (r, lg')"
  shows "map qr_memory (lg_queue lg') = map qr_memory (lg_queue lg)"
    "map qr_line (lg_queue lg') = map qr_line (lg_queue lg)"
    "map qr_sequence (lg_queue lg') = map qr_sequence (lg_queue lg)"
    "\<exists>q. lg' = lg\<lparr>lg_queue := q\<rparr>"
proof -
  have q: "lg' = lg \<or> lg_queue lg \<noteq> [] \<and> lg' = lg\<lparr>lg_queue := butlast (lg_queue lg) @ [(last (lg_queue lg))\<lparr>qr_immediate := True\<rparr>]\<rparr>"
    using assms by (auto simp: drain_begin_def Let_def split: if_splits)
  have "map f (butlast xs) @ [f (last xs)] = map f xs" if "xs \<noteq> []" for f :: "queued_record \<Rightarrow> 'b" and xs
    using that by (metis append_butlast_last_id list.map(1,2) map_append)
  with q show "map qr_memory (lg_queue lg') = map qr_memory (lg_queue lg)"
    "map qr_line (lg_queue lg') = map qr_line (lg_queue lg)"
    "map qr_sequence (lg_queue lg') = map qr_sequence (lg_queue lg)"
    "\<exists>q. lg' = lg\<lparr>lg_queue := q\<rparr>"
    by (auto intro: exI [of _ "lg_queue lg"])
qed

lemma log_step_memory:
  assumes "memory_ok base s"
  shows "memory_ok base (log_step sw sf ev s)"
proof (cases ev)
  case (Call time level event fs)
  obtain p m where p: "log_prepare time level event fs (ls_logger s) (ls_metrics s) = (p, m)" by fastforce
  with log_prepare_memory [OF _ p] assms Call show ?thesis
    by (auto simp: call_step_def memory_ok_def log_memory_def on_the_way_def split: prepared.splits)
next
  case (Enter i now waited)
  with enter_step_memory [OF assms] show ?thesis by simp
next
  case DrainBegin
  with assms show ?thesis
    by (auto simp: memory_ok_def log_memory_def on_the_way_def simp flip: map_map
        dest: drain_begin_keeps(1) split: sum.splits)
next
  case (Settle t)
  show ?thesis
  proof (cases "ls_writer s")
    case (Wrote batch failure)
    obtain lg m where "writer_settle t batch failure (ls_logger s) (ls_metrics s) = (lg, m)" by fastforce
    with settle_memory [OF assms Wrote this] Settle Wrote show ?thesis by simp
  qed (use assms Settle in simp_all)
next
  case WriteOut
  with assms show ?thesis
    by (auto simp: memory_ok_def log_memory_def on_the_way_def split: writer_pc.splits prod.splits)
qed (use assms in \<open>auto simp: memory_ok_def log_memory_def on_the_way_def logger_stop_def writer_take_def
       writer_exit_def split: if_splits\<close>)

section \<open>Numbering\<close>

lemma upt_shift: "map f xs = drop n ys \<Longrightarrow> n \<le> length ys \<Longrightarrow> length xs + n = length ys"
  by (metis add.commute le_add_diff_inverse length_drop length_map)

lemma enter_step_numbered:
  assumes "numbered s"
  shows "numbered (enter_step i now waited s)"
  using assms
  by (auto simp: enter_step_def log_enqueue_def numbered_def on_the_way_def Let_def
      split: option.splits if_splits prod.splits)

lemma numbered_flush:
  assumes "numbered s" "ls_writer s = Wrote batch []" "lg_state (ls_logger s) \<noteq> WriterFailed"
  defines "f \<equiv> lg_flushed_sequence (ls_logger s)"
  shows "qr_sequence (last batch) = f + length batch"
    and "map qr_line batch = take (length batch) (drop f (ls_accepted s))"
    and "f + length batch \<le> length (ls_accepted s)"
    and "map qr_line (lg_queue (ls_logger s)) = drop (f + length batch) (ls_accepted s)"
    and "map qr_sequence (lg_queue (ls_logger s)) = [Suc (f + length batch) ..< Suc (length (ls_accepted s))]"
proof -
  let ?q = "lg_queue (ls_logger s)"
  have ne: "batch \<noteq> []" and lines: "map qr_line batch @ map qr_line ?q = drop f (ls_accepted s)"
    and seqs: "map qr_sequence batch @ map qr_sequence ?q = [Suc f ..< Suc (length (ls_accepted s))]"
    using assms by (auto simp: numbered_def on_the_way_def Let_def)
  have "length (map qr_line batch @ map qr_line ?q) = length (drop f (ls_accepted s))" using lines by simp
  then have len: "length batch + length ?q = length (ls_accepted s) - f" by simp
  moreover have "f \<le> length (ls_accepted s)" using assms by (simp add: numbered_def Let_def)
  ultimately show le: "f + length batch \<le> length (ls_accepted s)" by linarith
  from arg_cong [OF lines, of "take (length batch)"]
  show "map qr_line batch = take (length batch) (drop f (ls_accepted s))" by simp
  from arg_cong [OF lines, of "drop (length batch)"]
  show "map qr_line ?q = drop (f + length batch) (ls_accepted s)" by (simp add: add.commute)
  from arg_cong [OF seqs, of "drop (length batch)"]
  show "map qr_sequence ?q = [Suc (f + length batch) ..< Suc (length (ls_accepted s))]"
    by (simp add: drop_upt add.commute del: upt_Suc)
  from arg_cong [OF seqs, of "take (length batch)"]
  have "map qr_sequence batch = [Suc f ..< Suc f + length batch]"
    using le by (simp add: take_upt del: upt_Suc)
  then have "last (map qr_sequence batch) = last [Suc f ..< Suc f + length batch]" by simp
  with ne show "qr_sequence (last batch) = f + length batch" by (simp add: last_map del: upt_Suc)
qed

lemma log_step_numbered:
  assumes "numbered s"
  shows "numbered (log_step sw sf ev s)"
proof (cases ev)
  case (Enter i now waited)
  with enter_step_numbered [OF assms] show ?thesis by simp
next
  case DrainBegin
  have "numbered (s\<lparr>ls_logger := lg'\<rparr>)" if d: "drain_begin (ls_logger s) = Inr (r, lg')" for r lg'
  proof -
    obtain q where "lg' = (ls_logger s)\<lparr>lg_queue := q\<rparr>" using drain_begin_keeps(4) [OF d] by blast
    with drain_begin_keeps(2,3) [OF d] assms d show ?thesis
      by (auto simp: numbered_def on_the_way_def Let_def drain_begin_def split: if_splits)
  qed
  with DrainBegin assms show ?thesis by (auto split: sum.splits)
next
  case (Settle t)
  show ?thesis
  proof (cases "ls_writer s")
    case (Wrote batch failure)
    have run: "lg_state (ls_logger s) = WriterRunning" using assms Wrote by (simp add: numbered_def Let_def)
    show ?thesis
    proof (cases "failure = []")
      case True
      then have w: "ls_writer s = Wrote batch []" using Wrote by simp
      have "lg_state (ls_logger s) \<noteq> WriterFailed" using run by simp
      note flush = numbered_flush [OF assms w this]
      have "lg_next_sequence (ls_logger s) = Suc (length (ls_accepted s))" using assms by (simp add: numbered_def Let_def)
      with w run flush Settle show ?thesis
        by (simp add: numbered_def on_the_way_def Let_def writer_settle_def writer_finish_def del: upt_Suc)
    next
      case False
      with Wrote run assms Settle show ?thesis
        by (auto simp: numbered_def on_the_way_def Let_def writer_settle_def report_writer_failure_def)
    qed
  qed (use assms Settle in simp_all)
next
  case (Call time level event fs)
  with assms show ?thesis
    by (auto simp: call_step_def numbered_def on_the_way_def split: prod.splits prepared.splits)
next
  case WriteOut
  with assms show ?thesis
    by (auto simp: numbered_def on_the_way_def Let_def split: writer_pc.splits prod.splits)
qed (use assms in \<open>auto simp: numbered_def on_the_way_def logger_stop_def writer_take_def Let_def
       writer_exit_def split: if_splits\<close>)

lemma batch_bytes_lines: "map qr_line rs = map qr_line ts \<Longrightarrow> batch_bytes rs = batch_bytes ts"
  by (simp add: batch_bytes_def flip: map_map)

lemma log_step_counted:
  assumes "counted s" "numbered s"
  shows "counted (log_step sw sf ev s)"
proof (cases ev)
  case (Enter i now waited)
  with assms show ?thesis
    by (auto simp: enter_step_def log_enqueue_def counted_def on_the_way_def Let_def has_space_def
        split: option.splits if_splits prod.splits)
next
  case DrainBegin
  have "counted (s\<lparr>ls_logger := lg'\<rparr>)" if d: "drain_begin (ls_logger s) = Inr (r, lg')" for r lg'
  proof -
    obtain q where "lg' = (ls_logger s)\<lparr>lg_queue := q\<rparr>" using drain_begin_keeps(4) [OF d] by blast
    with drain_begin_keeps(2) [OF d] batch_bytes_lines [of q "lg_queue (ls_logger s)"]
      map_eq_imp_length_eq [of qr_line q qr_line "lg_queue (ls_logger s)"] assms(1)
    show ?thesis by (auto simp: counted_def on_the_way_def Let_def)
  qed
  with DrainBegin assms show ?thesis by (auto split: sum.splits)
next
  case (Settle t)
  show ?thesis
  proof (cases "ls_writer s")
    case (Wrote batch failure)
    with assms Settle show ?thesis
      by (cases "failure = []")
         (auto simp: counted_def on_the_way_def Let_def writer_settle_def writer_finish_def report_writer_failure_def)
  qed (use assms Settle in simp_all)
next
  case (Call time level event fs)
  with assms show ?thesis
    by (auto simp: call_step_def counted_def on_the_way_def split: prod.splits prepared.splits)
next
  case WriteOut
  with assms show ?thesis
    by (auto simp: counted_def on_the_way_def Let_def split: writer_pc.splits prod.splits)
qed (use assms in \<open>auto simp: counted_def on_the_way_def logger_stop_def writer_take_def Let_def
       writer_exit_def split: if_splits\<close>)

lemma opened_ok:
  assumes "inflight_ok m"
  shows "numbered (opened level capacity m k)" "counted (opened level capacity m k)"
    "memory_ok (inflight_used m) (opened level capacity m k)"
  using assms
  by (simp_all add: opened_def new_logger_def numbered_def counted_def memory_ok_def log_memory_def
      on_the_way_def Let_def)

lemma log_run_ok:
  assumes "numbered s" "counted s" "memory_ok base s"
  shows "numbered (log_run sw sf evs s) \<and> counted (log_run sw sf evs s) \<and> memory_ok base (log_run sw sf evs s)"
  using assms
proof (induction evs arbitrary: s)
  case (Cons ev evs)
  from Cons.IH [OF log_step_numbered [OF Cons.prems(1)] log_step_counted [OF Cons.prems(2,1)] log_step_memory [OF Cons.prems(3)]]
  show ?case by (simp add: log_run_def)
qed (simp add: log_run_def)

lemma log_step_capacity [simp]: "lg_queue_capacity (ls_logger (log_step sw sf ev s)) = lg_queue_capacity (ls_logger s)"
proof (cases ev)
  case DrainBegin
  then show ?thesis using drain_begin_keeps(4) by (fastforce split: sum.splits)
qed (auto simp: call_step_def enter_step_def log_enqueue_def logger_stop_def writer_take_def writer_exit_def Let_def
      writer_settle_def writer_finish_def report_writer_failure_def
      split: prod.splits prepared.splits option.splits if_splits writer_pc.splits)

lemma log_run_capacity [simp]: "lg_queue_capacity (ls_logger (log_run sw sf evs s)) = lg_queue_capacity (ls_logger s)"
  by (induction evs arbitrary: s) (simp_all add: log_run_def)

section \<open>The sink as an interface\<close>

text \<open>
  What the writer relies on: a successful write appends its text (older text may be dropped from
  the front, never the new one), a failed one appends at most a part and says why, and flushing changes nothing.
\<close>

locale line_sink =
  fixes sink_write :: "string \<Rightarrow> 'k \<Rightarrow> sink_result \<times> 'k"
    and sink_flush :: "'k \<Rightarrow> sink_result \<times> 'k"
    and contents :: "'k \<Rightarrow> string"
    and sink_ok :: "'k \<Rightarrow> bool"
  assumes write_done: "sink_ok k \<Longrightarrow> sink_write d k = (SinkOk, k') \<Longrightarrow>
      sink_ok k' \<and> suffix (contents k') (contents k @ d) \<and> suffix d (contents k')"
    and write_reported: "sink_ok k \<Longrightarrow> sink_write d k = (r, k') \<Longrightarrow> r \<noteq> SinkFailed []"
    and write_partial: "sink_ok k \<Longrightarrow> sink_write d k = (r, k') \<Longrightarrow> \<exists>p. prefix p d \<and> suffix (contents k') (contents k @ p)"
    and flush_done: "sink_ok k \<Longrightarrow> sink_flush k = (SinkOk, k') \<Longrightarrow> sink_ok k'"
    and flush_contents: "sink_ok k \<Longrightarrow> sink_flush k = (r, k') \<Longrightarrow> contents k' = contents k"
begin

lemma write_failure_reported: "sink_ok k \<Longrightarrow> sink_write d k = (r, k') \<Longrightarrow> write_failure r = [] \<longleftrightarrow> r = SinkOk"
  using write_reported [of k d r k'] by (cases r) auto

lemma suffix_extend: "suffix xs (ys @ zs) \<Longrightarrow> suffix ys (c @ bs) \<Longrightarrow> suffix xs (c @ bs @ (zs :: string))"
  by (auto simp: suffix_def) (metis append.assoc)

lemma write_records_done:
  assumes "sink_ok k" "write_records sink_write rs k = ([], k')"
  shows "sink_ok k' \<and> suffix (contents k') (contents k @ concat (map qr_line rs))
    \<and> (rs \<noteq> [] \<longrightarrow> suffix (qr_line (last rs)) (contents k'))"
  using assms
proof (induction rs arbitrary: k)
  case (Cons r rs)
  obtain res k1 where w: "sink_write (qr_line r) k = (res, k1)" by fastforce
  with Cons.prems write_failure_reported [OF Cons.prems(1) w] have ok: "res = SinkOk" by (cases res) auto
  with write_done [OF Cons.prems(1)] w have k1: "sink_ok k1" "suffix (contents k1) (contents k @ qr_line r)" "suffix (qr_line r) (contents k1)"
    by simp_all
  moreover have rest: "write_records sink_write rs k1 = ([], k')" using Cons.prems(2) w ok by simp
  ultimately have "sink_ok k'" "suffix (contents k') (contents k1 @ concat (map qr_line rs))"
    "rs \<noteq> [] \<longrightarrow> suffix (qr_line (last rs)) (contents k')"
    using Cons.IH [of k1] by simp_all
  with k1 rest show ?case by (auto intro: suffix_extend)
qed simp

lemma write_records_partial:
  assumes "sink_ok k" "write_records sink_write rs k = (e, k')"
  shows "\<exists>p. prefix p (concat (map qr_line rs)) \<and> suffix (contents k') (contents k @ p)"
  using assms
proof (induction rs arbitrary: k)
  case (Cons r rs)
  obtain res k1 where w: "sink_write (qr_line r) k = (res, k1)" by fastforce
  show ?case
  proof (cases "res = SinkOk")
    case True
    with write_done [OF Cons.prems(1)] w have k1: "sink_ok k1" "suffix (contents k1) (contents k @ qr_line r)" by simp_all
    moreover have "write_records sink_write rs k1 = (e, k')" using Cons.prems(2) w True by simp
    ultimately obtain p where "prefix p (concat (map qr_line rs))" "suffix (contents k') (contents k1 @ p)"
      using Cons.IH [of k1] by blast
    with k1 have "prefix (qr_line r @ p) (concat (map qr_line (r # rs)))" "suffix (contents k') (contents k @ qr_line r @ p)"
      by (auto intro: suffix_extend)
    then show ?thesis by blast
  next
    case False
    with Cons.prems(2) w have "k' = k1" by (cases res) auto
    with write_partial [OF Cons.prems(1) w] obtain p where "prefix p (qr_line r)" "suffix (contents k') (contents k @ p)" by blast
    then show ?thesis by (auto intro!: exI [of _ p] prefix_prefix)
  qed
qed auto

lemma write_batch_done:
  assumes "sink_ok k" "write_batch sink_write sink_flush rs k = ([], k')"
  shows "sink_ok k' \<and> suffix (contents k') (contents k @ concat (map qr_line rs))
    \<and> (rs \<noteq> [] \<longrightarrow> suffix (qr_line (last rs)) (contents k'))"
proof -
  obtain k1 r where w: "write_records sink_write rs k = ([], k1)" and f: "sink_flush k1 = (r, k')" "flush_failure r = []"
    using assms(2) by (auto simp: write_batch_def split: prod.splits if_splits)
  have "r = SinkOk" using f(2) by (auto simp: flush_failure_def split: sink_result.splits if_splits)
  with write_records_done [OF assms(1) w] flush_done [of k1 k'] flush_contents [of k1 r k'] f(1) show ?thesis by simp
qed

lemma write_batch_partial:
  assumes "sink_ok k" "write_batch sink_write sink_flush rs k = (e, k')"
  shows "\<exists>p. prefix p (concat (map qr_line rs)) \<and> suffix (contents k') (contents k @ p)"
proof -
  obtain e1 k1 where w: "write_records sink_write rs k = (e1, k1)" by fastforce
  have "contents k' = contents k1"
  proof (cases "e1 = []")
    case True
    with w write_records_done [OF assms(1), of rs k1] have "sink_ok k1" by simp
    with True w assms(2) flush_contents [of k1] show ?thesis by (auto simp: write_batch_def split: prod.splits)
  next
    case False
    with w assms(2) show ?thesis by (simp add: write_batch_def)
  qed
  with write_records_partial [OF assms(1) w] show ?thesis by simp
qed

text \<open>The sink holds the first \<open>n\<close> accepted lines, the last of them complete; or these and a part of the next.\<close>

definition holds_lines :: "string \<Rightarrow> nat \<Rightarrow> string list \<Rightarrow> 'k \<Rightarrow> bool" where
  "holds_lines c0 n acc k \<longleftrightarrow> sink_ok k \<and> suffix (contents k) (c0 @ concat (take n acc))
     \<and> (n \<noteq> 0 \<longrightarrow> suffix (acc ! (n - 1)) (contents k))"

definition holds_part :: "string \<Rightarrow> nat \<Rightarrow> string list \<Rightarrow> 'k \<Rightarrow> bool" where
  "holds_part c0 n acc k \<longleftrightarrow>
     (\<exists>p. prefix p (concat (drop n acc)) \<and> suffix (contents k) (c0 @ concat (take n acc) @ p))"

text \<open>What the sink holds at each place of the writer.\<close>

definition delivered :: "string \<Rightarrow> 'k log_sys \<Rightarrow> bool" where
  "delivered c0 s \<longleftrightarrow>
     (let f = lg_flushed_sequence (ls_logger s) in
      case ls_writer s of
        Wrote batch e \<Rightarrow>
          if e = [] then holds_lines c0 (f + length batch) (ls_accepted s) (ls_sink s)
          else holds_part c0 f (ls_accepted s) (ls_sink s)
      | Exited \<Rightarrow> holds_part c0 f (ls_accepted s) (ls_sink s)
      | _ \<Rightarrow> holds_lines c0 f (ls_accepted s) (ls_sink s))"

lemma holds_lines_mono: "holds_lines c0 n acc k \<Longrightarrow> n \<le> length acc \<Longrightarrow> holds_lines c0 n (acc @ ls) k"
  by (auto simp: holds_lines_def nth_append)

lemma holds_part_mono: "holds_part c0 n acc k \<Longrightarrow> n \<le> length acc \<Longrightarrow> holds_part c0 n (acc @ ls) k"
  by (simp add: holds_part_def) (blast intro: prefix_prefix)

lemma holds_lines_part: "holds_lines c0 n acc k \<Longrightarrow> holds_part c0 n acc k"
  by (auto simp: holds_lines_def holds_part_def intro: exI [of _ "[]"])

lemma delivered_opened:
  assumes "sink_ok k"
  shows "delivered (contents k) (opened level capacity m k)"
  using assms by (simp add: delivered_def holds_lines_def opened_def new_logger_def Let_def)

text \<open>Steps that leave sink, writer and the count of flushed lines alone, and at most accept lines.\<close>

lemma delivered_mono:
  assumes "delivered c0 s" "numbered s"
    and "ls_sink s' = ls_sink s" "ls_writer s' = ls_writer s" "ls_accepted s' = ls_accepted s @ ls"
    and "lg_flushed_sequence (ls_logger s') = lg_flushed_sequence (ls_logger s)"
  shows "delivered c0 s'"
proof -
  let ?f = "lg_flushed_sequence (ls_logger s)"
  have f: "?f \<le> length (ls_accepted s)" using assms(2) by (simp add: numbered_def Let_def)
  have batch: "?f + length batch \<le> length (ls_accepted s)" if "ls_writer s = Wrote batch []" for batch
    by (rule numbered_flush(3) [OF assms(2) that]) (use that assms(2) in \<open>simp add: numbered_def Let_def\<close>)
  show ?thesis
    using assms(1,3-6) f batch
    by (auto simp: delivered_def Let_def intro: holds_lines_mono holds_part_mono split: writer_pc.splits if_splits)
qed

lemma write_out_delivered:
  assumes "delivered c0 s" "numbered s" "ls_writer s = Taken batch"
    and w: "write_batch sink_write sink_flush batch (ls_sink s) = (e, k)"
  shows "delivered c0 (s\<lparr>ls_sink := k, ls_writer := Wrote batch e\<rparr>)"
proof -
  let ?f = "lg_flushed_sequence (ls_logger s)" and ?acc = "ls_accepted s"
  have ok: "sink_ok (ls_sink s)" and c: "suffix (contents (ls_sink s)) (c0 @ concat (take ?f ?acc))"
    using assms(1,3) by (simp_all add: delivered_def holds_lines_def Let_def)
  have ne: "batch \<noteq> []" and "map qr_line batch @ map qr_line (lg_queue (ls_logger s)) = drop ?f ?acc"
    and len: "?f \<le> length ?acc"
    using assms(2,3) by (auto simp: numbered_def on_the_way_def Let_def)
  then have lines: "map qr_line batch = take (length batch) (drop ?f ?acc)" 
    by (metis append_eq_conv_conj length_map)
  then have all: "concat (take (?f + length batch) ?acc) = concat (take ?f ?acc) @ concat (map qr_line batch)"
    by (simp add: take_add)
  show ?thesis
  proof (cases "e = []")
    case True
    have "suffix (contents k) (contents (ls_sink s) @ concat (map qr_line batch))" "sink_ok k"
      and last: "suffix (qr_line (last batch)) (contents k)"
      using write_batch_done [OF ok] w True ne by auto
    with c have put: "suffix (contents k) (c0 @ concat (take (?f + length batch) ?acc))"
      unfolding all by (blast intro: suffix_extend)
    have "map qr_line batch ! (length batch - 1) = take (length batch) (drop ?f ?acc) ! (length batch - 1)"
      by (simp only: lines)
    moreover have "?f + length batch - 1 = ?f + (length batch - 1)" using ne by (cases batch) simp_all
    ultimately have "qr_line (last batch) = ?acc ! (?f + length batch - 1)" using ne len by (simp add: last_conv_nth)
    with put show ?thesis using True \<open>sink_ok k\<close> last ne by (simp add: delivered_def holds_lines_def Let_def)
  next
    case False
    obtain p where p: "prefix p (concat (map qr_line batch))" "suffix (contents k) (contents (ls_sink s) @ p)"
      using write_batch_partial [OF ok w] by blast
    have "prefix p (concat (drop ?f ?acc))"
      using p(1) unfolding lines by (metis append_take_drop_id concat_append prefix_prefix)
    moreover have "suffix (contents k) (c0 @ concat (take ?f ?acc) @ p)" using p(2) c by (rule suffix_extend)
    ultimately show ?thesis using False by (auto simp: delivered_def holds_part_def Let_def)
  qed
qed

lemma settle_delivered:
  assumes "delivered c0 s" "numbered s" "ls_writer s = Wrote batch e"
    and "writer_settle t batch e (ls_logger s) (ls_metrics s) = (lg, m)"
  shows "delivered c0 (s\<lparr>ls_logger := lg, ls_metrics := m, ls_writer := (if e = [] then Waiting else Exited)\<rparr>)"
proof (cases "e = []")
  case True
  with assms(3) have w: "ls_writer s = Wrote batch []" by simp
  have "lg_state (ls_logger s) \<noteq> WriterFailed" using assms(2) w by (simp add: numbered_def Let_def)
  note flush = numbered_flush(1) [OF assms(2) w this]
  have "lg_flushed_sequence lg = lg_flushed_sequence (ls_logger s) + length batch"
    using assms(4) True flush by (auto simp: writer_settle_def writer_finish_def Let_def)
  with True w assms(1) show ?thesis by (simp add: delivered_def Let_def)
next
  case False
  have "lg_flushed_sequence lg = lg_flushed_sequence (ls_logger s)"
    using assms(4) False by (auto simp: writer_settle_def report_writer_failure_def Let_def)
  with False assms(1,3) show ?thesis by (simp add: delivered_def Let_def)
qed

lemma log_step_delivered:
  assumes "delivered c0 s" "numbered s"
  shows "delivered c0 (log_step sink_write sink_flush ev s)"
proof (cases ev)
  case (Call time level event fs)
  then show ?thesis
    by (auto simp: call_step_def intro!: delivered_mono [OF assms, where ls = "[]"] split: prod.splits prepared.splits)
next
  case (Enter i now waited)
  then show ?thesis
    by (auto simp: enter_step_def log_enqueue_def Let_def intro!: delivered_mono [OF assms]
        intro: assms(1) split: prod.splits option.splits if_splits)
next
  case DrainBegin
  then show ?thesis
    by (auto simp: drain_begin_def Let_def intro!: delivered_mono [OF assms, where ls = "[]"] intro: assms(1)
        split: sum.splits if_splits)
next
  case StopLogger
  then show ?thesis by (auto simp: logger_stop_def intro!: delivered_mono [OF assms, where ls = "[]"])
next
  case Take
  with assms(1) show ?thesis by (auto simp: writer_take_def delivered_def Let_def split: if_splits)
next
  case WriteOut
  with assms write_out_delivered [OF assms] show ?thesis
    by (auto split: writer_pc.splits prod.splits)
next
  case (Settle t)
  show ?thesis
  proof (cases "ls_writer s")
    case (Wrote batch failure)
    obtain lg m where "writer_settle t batch failure (ls_logger s) (ls_metrics s) = (lg, m)" by fastforce
    with settle_delivered [OF assms Wrote this] Settle Wrote show ?thesis by simp
  qed (use assms Settle in simp_all)
next
  case Leave
  with assms show ?thesis
    by (auto simp: writer_exit_def delivered_def Let_def intro: holds_lines_part split: if_splits)
qed

text \<open>At every place, the flushed lines and a part of the next ones are in the sink.\<close>

lemma delivered_part:
  assumes "delivered c0 s" "numbered s"
  shows "holds_part c0 (lg_flushed_sequence (ls_logger s)) (ls_accepted s) (ls_sink s)"
proof (cases "\<exists>batch. ls_writer s = Wrote batch []")
  case True
  then obtain batch where w: "ls_writer s = Wrote batch []" by blast
  have "lg_state (ls_logger s) \<noteq> WriterFailed" using assms(2) w by (simp add: numbered_def Let_def)
  note flush = numbered_flush(2) [OF assms(2) w this]
  let ?f = "lg_flushed_sequence (ls_logger s)"
  have "concat (take (?f + length batch) (ls_accepted s))
      = concat (take ?f (ls_accepted s)) @ concat (take (length batch) (drop ?f (ls_accepted s)))"
    by (simp add: take_add)
  moreover have "prefix (concat (take (length batch) (drop ?f (ls_accepted s)))) (concat (drop ?f (ls_accepted s)))"
    by (metis append_take_drop_id concat_append prefixI)
  ultimately show ?thesis using assms(1) w by (auto simp: delivered_def holds_lines_def holds_part_def Let_def)
next
  case False
  with assms(1) show ?thesis
    by (auto simp: delivered_def Let_def intro: holds_lines_part split: writer_pc.splits if_splits)
qed

lemma log_run_delivered:
  assumes "delivered c0 s" "numbered s"
  shows "delivered c0 (log_run sink_write sink_flush evs s) \<and> numbered (log_run sink_write sink_flush evs s)"
  using assms
proof (induction evs arbitrary: s)
  case (Cons ev evs)
  from Cons.IH [OF log_step_delivered [OF Cons.prems] log_step_numbered [OF Cons.prems(2)]]
  show ?case by (simp add: log_run_def)
qed (simp add: log_run_def)

end

section \<open>Properties\<close>


text \<open>A run with a sink that keeps its text: one call, one round of the writer, and the end.\<close>

definition sample_events :: "log_event list" where
  "sample_events =
     [Call ''t'' ''info'' ''e'' [], Enter 0 7 None, Take, WriteOut,
      Settle \<lparr>bt_wait = 0, bt_write = 0, bt_flush = 0, bt_oldest_age = 0\<rparr>, StopLogger, Leave]"

definition sample_log_metrics :: metrics where
  "sample_log_metrics = (\<lambda>_. 0)(InflightM InflightBudgetBytes := 1000)"

definition sample_end :: "string log_sys" where
  "sample_end = log_run (\<lambda>d k. (SinkOk, k @ d)) (\<lambda>k. (SinkOk, k)) sample_events (opened ''info'' 100 sample_log_metrics [])"

lemma sample_log_metrics_ok: "inflight_ok sample_log_metrics"
  by (simp add: sample_log_metrics_def inflight_ok_def)

lemma sample_end_exited: "ls_writer sample_end = Exited" "ls_callers sample_end = []"
  by code_simp+


end
