(* ===== verification/LogStore.thy ===== *)
theory LogStore
  imports Logger "HOL-Library.AList" "HOL-Library.Multiset"
begin

text \<open>
  The files of the log: the class \<^verbatim>\<open>FileLogSink\<close> of \<^verbatim>\<open>src/logging/logger.cpp\<close>. The directory is an
  association list from file names to their text (written text counts as in the file, flushed or
  not). Every call into the file system takes its outcome from a list, so that any sequence of
  failures can occur; an empty list means that all calls succeed. The counters the sink shares with the logger are
  part of its state here, as the two touch different ones. Shown here: the sink keeps the law of the
  interface \<open>line_sink\<close>, so the logger on top of it loses no accepted line; its files never
  exceed the configured size; and it drops whole archives, the oldest first, only when that is needed.
\<close>

section \<open>Model\<close>

type_synonym log_dir = "(string \<times> string) list"

text \<open>The outcome of a system call; a failed write may have written some bytes.\<close>

datatype io_result = IoOk | IoFailed string nat

record log_archive =
  ar_path :: string
  ar_sequence :: u64
  ar_size :: u64

record log_store =
  st_path :: string
  st_max_total_size :: u64
  st_segment_target_size :: u64
  st_active_size :: u64
  st_managed_size :: u64
  st_next_archive_sequence :: u64
  st_archives :: "log_archive list"
  st_reported_storage_size :: u64
  st_storage_reporting_enabled :: bool
  st_metrics :: metrics
  st_dir :: log_dir
  st_io :: "io_result list"

definition next_io :: "log_store \<Rightarrow> io_result \<times> log_store" where
  "next_io st = (case st_io st of [] \<Rightarrow> (IoOk, st) | r # rs \<Rightarrow> (r, st\<lparr>st_io := rs\<rparr>))"

text \<open>Calls in sequence, each with the message of its failure; the first failure ends them.\<close>

fun io_calls :: "(string \<Rightarrow> string) list \<Rightarrow> log_store \<Rightarrow> sink_result \<times> log_store" where
  "io_calls [] st = (SinkOk, st)"
| "io_calls (describe # rest) st =
     (case next_io st of
        (IoFailed message _, st) \<Rightarrow> (SinkFailed (describe message), st)
      | (IoOk, st) \<Rightarrow> io_calls rest st)"

definition file_text :: "log_dir \<Rightarrow> string \<Rightarrow> string" where
  "file_text dir path = (case map_of dir path of None \<Rightarrow> [] | Some t \<Rightarrow> t)"

definition file_size :: "log_dir \<Rightarrow> string \<Rightarrow> u64" where
  "file_size dir path = of_nat (length (file_text dir path))"

definition new_file_sink :: "u64 \<Rightarrow> metrics \<Rightarrow> log_dir \<Rightarrow> io_result list \<Rightarrow> log_store" where
  "new_file_sink max_total m dir io =
     \<lparr>st_path = [], st_max_total_size = max_total, st_segment_target_size = 0, st_active_size = 0,
      st_managed_size = 0, st_next_archive_sequence = 1, st_archives = [], st_reported_storage_size = 0,
      st_storage_reporting_enabled = False, st_metrics = m, st_dir = dir, st_io = io\<rparr>"

subsection \<open>Names of archives\<close>

definition archive_marker :: string where
  "archive_marker = ''.ccs-archive-''"

definition archive_path :: "string \<Rightarrow> u64 \<Rightarrow> string" where
  "archive_path path sequence =
     (let digits = string_of_nat (unat sequence)
      in path @ archive_marker @ replicate (20 - length digits) CHR ''0'' @ digits)"

fun sequence_loop :: "string \<Rightarrow> u64 \<Rightarrow> u64 option" where
  "sequence_loop [] sequence = Some sequence"
| "sequence_loop (ch # rest) sequence =
     (if \<not> is_digit ch then None
      else let digit = of_nat (digit_value ch) in
        if sequence > (- 1 - digit) div 10 then None else sequence_loop rest (sequence * 10 + digit))"

definition has_managed_prefix :: "string \<Rightarrow> string \<Rightarrow> string \<Rightarrow> bool" where
  "has_managed_prefix path candidate marker \<longleftrightarrow>
     length candidate > length (path @ marker) \<and> starts_with (path @ marker) candidate"

definition parse_archive_sequence :: "string \<Rightarrow> string \<Rightarrow> u64 option" where
  "parse_archive_sequence path candidate =
     (if length candidate \<le> length (path @ archive_marker) \<or> \<not> starts_with (path @ archive_marker) candidate then None
      else case sequence_loop (drop (length (path @ archive_marker)) candidate) 0 of
        None \<Rightarrow> None
      | Some sequence \<Rightarrow> if sequence \<noteq> 0 then Some sequence else None)"

subsection \<open>Writing\<close>

definition update_storage_metric :: "log_store \<Rightarrow> log_store" where
  "update_storage_metric st =
     (if st_storage_reporting_enabled st
      then st\<lparr>st_metrics := log_storage_changed (st_reported_storage_size st) (st_managed_size st) (st_metrics st),
              st_reported_storage_size := st_managed_size st\<rparr>
      else st)"

definition file_flush :: "log_store \<Rightarrow> sink_result \<times> log_store" where
  "file_flush st =
     (case next_io st of
        (IoOk, st) \<Rightarrow> (SinkOk, st)
      | (IoFailed _ _, st) \<Rightarrow> (SinkFailed (''failed to flush log file: '' @ st_path st), st))"

text \<open>The loop runs over the archives: each round removes the first one.\<close>

fun prune_loop :: "log_archive list \<Rightarrow> log_store \<Rightarrow> sink_result \<times> log_store" where
  "prune_loop [] st = (SinkOk, st)"
| "prune_loop (oldest # rest) st =
     (if st_managed_size st > st_max_total_size st
      then (case next_io st of
              (IoFailed message _, st) \<Rightarrow> (SinkFailed (''failed to remove expired log archive: '' @ message), st)
            | (IoOk, st) \<Rightarrow>
                if map_of (st_dir st) (ar_path oldest) = None
                then (SinkFailed (''failed to remove expired log archive: '' @ ar_path oldest), st)
                else prune_loop rest
                  (st\<lparr>st_dir := AList.delete (ar_path oldest) (st_dir st), st_archives := rest,
                      st_managed_size := st_managed_size st - ar_size oldest,
                      st_metrics := log_retention_removed 1 (ar_size oldest) (st_metrics st)\<rparr>))
      else (SinkOk, st))"

definition prune_archives :: "log_store \<Rightarrow> sink_result \<times> log_store" where
  "prune_archives st =
     (case prune_loop (st_archives st) st of
        (SinkOk, st) \<Rightarrow>
          if st_managed_size st > st_max_total_size st
          then (SinkFailed ''active log file exceeds the configured total size limit'', st)
          else (SinkOk, update_storage_metric st)
      | (r, st) \<Rightarrow> (r, st))"

text \<open>Opening a file for appending creates it when it is missing.\<close>

definition open_append :: "string \<Rightarrow> log_dir \<Rightarrow> log_dir" where
  "open_append path dir = AList.update path (file_text dir path) dir"

definition move_active :: "log_store \<Rightarrow> log_store" where
  "move_active st =
     (let destination = archive_path (st_path st) (st_next_archive_sequence st)
      in st\<lparr>st_dir := AList.delete (st_path st) (AList.update destination (file_text (st_dir st) (st_path st)) (st_dir st)),
            st_archives := st_archives st @
              [\<lparr>ar_path = destination, ar_sequence = st_next_archive_sequence st, ar_size = st_active_size st\<rparr>],
            st_next_archive_sequence := st_next_archive_sequence st + 1, st_active_size := 0\<rparr>)"

definition rotate_archive :: "log_store \<Rightarrow> sink_result \<times> log_store" where
  "rotate_archive st =
     (if st_next_archive_sequence st = - 1 then (SinkFailed ''log archive sequence is exhausted'', st)
      else case file_flush st of
        (SinkOk, st) \<Rightarrow>
          (case next_io st of
             (IoFailed _ _, st) \<Rightarrow> (SinkFailed (''failed to close log file before rotation: '' @ st_path st), st)
           | (IoOk, st) \<Rightarrow>
               (case next_io st of
                  (IoFailed message _, st) \<Rightarrow> (SinkFailed (''failed to rotate log file: '' @ message), st)
                | (IoOk, st) \<Rightarrow>
                    (case next_io (move_active st) of
                       (IoFailed _ _, st) \<Rightarrow>
                         (SinkFailed (''failed to open new log file after rotation: '' @ st_path st), st)
                     | (IoOk, st) \<Rightarrow>
                         (SinkOk, st\<lparr>st_dir := open_append (st_path st) (st_dir st),
                                     st_metrics := log_rotated (st_metrics st)\<rparr>))))
      | (r, st) \<Rightarrow> (r, st))"

definition append_text :: "string \<Rightarrow> log_store \<Rightarrow> log_store" where
  "append_text d st = st\<lparr>st_dir := AList.update (st_path st) (file_text (st_dir st) (st_path st) @ d) (st_dir st)\<rparr>"

definition write_active :: "string \<Rightarrow> log_store \<Rightarrow> sink_result \<times> log_store" where
  "write_active d st =
     (case next_io st of
        (IoFailed _ n, st) \<Rightarrow> (SinkFailed (''failed to write log file: '' @ st_path st), append_text (take n d) st)
      | (IoOk, st) \<Rightarrow>
          (let st = (append_text d st)\<lparr>st_active_size := st_active_size st + of_nat (length d),
                                       st_managed_size := st_managed_size st + of_nat (length d)\<rparr>;
               (r, st) = (if st_managed_size st > st_max_total_size st then file_flush st else (SinkOk, st))
           in if r = SinkOk then prune_archives st else (r, st)))"

definition file_write :: "string \<Rightarrow> log_store \<Rightarrow> sink_result \<times> log_store" where
  "file_write d st =
     (if length d > unat (st_max_total_size st)
      then (SinkFailed ''log record exceeds the configured total size limit'', st)
      else let (r, st) = (if st_active_size st \<noteq> 0 \<and> st_active_size st + of_nat (length d) > st_segment_target_size st
                          then rotate_archive st else (SinkOk, st))
           in if r = SinkOk then write_active d st else (r, st))"

definition file_close :: "log_store \<Rightarrow> log_store" where
  "file_close st =
     (st\<lparr>st_metrics := (if st_storage_reporting_enabled st
                          then log_storage_changed (st_reported_storage_size st) 0 (st_metrics st) else st_metrics st),
         st_reported_storage_size := 0, st_storage_reporting_enabled := False\<rparr>)"

subsection \<open>Opening\<close>

text \<open>
  One round per directory entry; the calls that step the iterator and inspect the entry fail with the
  message given after the loop.
\<close>

fun scan_loop :: "log_dir \<Rightarrow> log_store \<Rightarrow> sink_result \<times> log_store" where
  "scan_loop [] st = (SinkOk, st)"
| "scan_loop ((name, text') # rest) st =
     (case io_calls [\<lambda>message. ''failed to scan log archives: '' @ message] st of
        (SinkOk, st) \<Rightarrow>
          if has_managed_prefix (st_path st) name ''.ccs-compact-''
          then (case next_io st of
                  (IoFailed message _, st) \<Rightarrow> (SinkFailed (''failed to remove stale log compaction file: '' @ message), st)
                | (IoOk, st) \<Rightarrow>
                    scan_loop rest (st\<lparr>st_dir := AList.delete name (st_dir st),
                                       st_metrics := log_retention_removed 1 (of_nat (length text')) (st_metrics st)\<rparr>))
          else (case parse_archive_sequence (st_path st) name of
            None \<Rightarrow> scan_loop rest st
          | Some sequence \<Rightarrow>
              (let size' = of_nat (length text');
                   st = st\<lparr>st_archives := st_archives st @ [\<lparr>ar_path = name, ar_sequence = sequence, ar_size = size'\<rparr>],
                           st_managed_size := st_managed_size st + size'\<rparr>
               in if sequence = - 1 then (SinkFailed ''log archive sequence is exhausted'', st)
                  else scan_loop rest (st\<lparr>st_next_archive_sequence := max (st_next_archive_sequence st) (sequence + 1)\<rparr>)))
      | (r, st) \<Rightarrow> (r, st))"

text \<open>The existence of the log file is asked first, its size only when it exists.\<close>

definition scan_existing :: "log_store \<Rightarrow> sink_result \<times> log_store" where
  "scan_existing st =
     (let st = st\<lparr>st_archives := [], st_active_size := 0, st_managed_size := 0, st_next_archive_sequence := 1\<rparr>;
          present = map_of (st_dir st) (st_path st) \<noteq> None
      in case io_calls ((\<lambda>message. ''failed to inspect log file: '' @ message) #
             (if present then [\<lambda>message. ''failed to inspect log file size: '' @ message] else [])) st of
           (SinkOk, st) \<Rightarrow>
             (let active = (if present then file_size (st_dir st) (st_path st) else 0)
              in case scan_loop (st_dir st) (st\<lparr>st_active_size := active, st_managed_size := active\<rparr>) of
                   (SinkOk, st) \<Rightarrow> (SinkOk, st\<lparr>st_archives := sort_key ar_sequence (st_archives st)\<rparr>)
                 | (r, st) \<Rightarrow> (r, st))
         | (r, st) \<Rightarrow> (r, st))"

text \<open>Where the text kept by a compaction begins: after the first newline at or beyond the limit.\<close>

definition compaction_start :: "string \<Rightarrow> nat \<Rightarrow> nat" where
  "compaction_start t limit =
     (let start = length t - limit in
      if start \<noteq> 0 \<and> t ! (start - 1) \<noteq> CHR 0x0A
      then (case find_char CHR 0x0A (drop start t) of None \<Rightarrow> length t | Some i \<Rightarrow> start + i + 1)
      else start)"

text \<open>
  The calls of a compaction. The temporary file does not outlive them: it is renamed to the log file
  or removed. Its name holds a reading of the clock, which the failure to create it supplies.
\<close>

definition compaction_calls :: "string \<Rightarrow> (string \<Rightarrow> string) list" where
  "compaction_calls path =
     [\<lambda>_. ''failed to open oversized log file for compaction: '' @ path,
      \<lambda>_. ''failed to inspect oversized log record boundary'',
      \<lambda>temporary. ''failed to create compacted log file: '' @ temporary,
      \<lambda>_. ''failed while compacting oversized log file'',
      \<lambda>_. ''failed to flush compacted log file'',
      \<lambda>message. message]"

definition compact_oversized_active :: "log_store \<Rightarrow> sink_result \<times> log_store" where
  "compact_oversized_active st =
     (if st_active_size st \<le> st_max_total_size st then (SinkOk, st)
      else case io_calls (compaction_calls (st_path st)) st of
        (SinkOk, st) \<Rightarrow>
          (let t = file_text (st_dir st) (st_path st);
               start = compaction_start t (unat (st_max_total_size st));
               original = st_active_size st;
               active = original - of_nat start
           in (SinkOk, update_storage_metric
                 (st\<lparr>st_dir := AList.update (st_path st) (drop start t) (st_dir st), st_active_size := active,
                     st_managed_size := st_managed_size st - (original - active),
                     st_metrics := log_retention_removed 0 (original - active) (st_metrics st)\<rparr>)))
      | (r, st) \<Rightarrow> (r, st))"

definition file_open :: "string \<Rightarrow> log_store \<Rightarrow> sink_result \<times> log_store" where
  "file_open path st =
     (let st = st\<lparr>st_path := path\<rparr> in
      if st_max_total_size st = 0 then (SinkFailed ''log max total size must be greater than zero'', st)
      else let st = st\<lparr>st_segment_target_size := min 134217728 (max 1 (st_max_total_size st div 16))\<rparr>
      in case next_io st of
           (IoFailed message _, st) \<Rightarrow> (SinkFailed message, st)
         | (IoOk, st) \<Rightarrow>
             (case scan_existing st of
                (SinkOk, st) \<Rightarrow>
                  (case compact_oversized_active st of
                     (SinkOk, st) \<Rightarrow>
                       (case prune_archives st of
                          (SinkOk, st) \<Rightarrow>
                            (case next_io st of
                               (IoFailed _ _, st) \<Rightarrow> (SinkFailed (''failed to open log file: '' @ path), st)
                             | (IoOk, st) \<Rightarrow>
                                 (SinkOk, update_storage_metric
                                    (st\<lparr>st_dir := open_append path (st_dir st), st_storage_reporting_enabled := True\<rparr>)))
                        | (r, st) \<Rightarrow> (r, st))
                   | (r, st) \<Rightarrow> (r, st))
              | (r, st) \<Rightarrow> (r, st)))"

section \<open>Names\<close>

lemma unat_digit_bound:
  fixes s d :: u64
  assumes "unat d \<le> 9"
  shows "s \<le> (- 1 - d) div 10 \<longleftrightarrow> unat s * 10 + unat d < 2 ^ 64"
proof -
  have "unat (- 1 - d) = 2 ^ 64 - 1 - unat d"
    using unat_sub [of d "- 1"] by (simp add: unsigned_minus_1_eq_mask mask_eq_exp_minus_1)
  then have "unat ((- 1 - d) div 10) = (2 ^ 64 - 1 - unat d) div 10" by (simp add: unat_div)
  then show ?thesis using assms by (simp add: word_le_nat_alt) linarith
qed

lemma sequence_loop_digits:
  assumes "list_all is_digit ds" "digits_value (unat s) ds < 2 ^ 64"
  shows "sequence_loop ds s = Some (of_nat (digits_value (unat s) ds))"
  using assms
proof (induction ds arbitrary: s)
  case Nil
  then show ?case by (simp add: digits_value_def)
next
  case (Cons c ds)
  let ?d = "of_nat (digit_value c) :: u64"
  have d: "unat ?d = digit_value c" "digit_value c \<le> 9"
    using digit_value_le [of c] Cons.prems(1) by (simp_all add: unat_of_nat)
  have step: "digits_value (unat s) (c # ds) = digits_value (unat s * 10 + digit_value c) ds"
    by (simp add: digits_value_def)
  then have small: "unat s * 10 + digit_value c < 2 ^ 64"
    using Cons.prems(2) digits_value_ge [of "unat s * 10 + digit_value c" ds] by linarith
  then have "unat (s * 10 + ?d) = unat s * 10 + digit_value c"
    using d by (simp add: unat_word_ariths)
  with Cons.IH [of "s * 10 + ?d"] Cons.prems d small step unat_digit_bound [of ?d s]
  show ?case by (simp add: Let_def not_less)
qed

lemma digits_value_zeros: "digits_value 0 (replicate n CHR ''0'' @ ds) = digits_value 0 ds"
proof (induction n)
  case (Suc n)
  then show ?case by (simp add: digits_value_def digit_value_def)
qed simp

lemma parse_archive_path:
  assumes "n \<noteq> 0"
  shows "parse_archive_sequence path (archive_path path n) = Some n"
proof -
  let ?ds = "replicate (20 - length (string_of_nat (unat n))) CHR ''0'' @ string_of_nat (unat n)"
  have "is_digit CHR ''0''" by (simp add: byte_simps)
  then have digits: "list_all is_digit ?ds"
    using string_of_nat_digits [of "unat n"] by (auto simp: list_all_iff simp del: string_of_nat.simps)
  have v: "digits_value 0 ?ds = unat n" by (simp add: digits_value_zeros)
  have "sequence_loop ?ds 0 = Some n"
    using sequence_loop_digits [OF digits, of 0] v unsigned_less [of n, where ?'a = nat] by simp
  moreover have "archive_path path n = (path @ archive_marker) @ ?ds" by (simp add: archive_path_def Let_def)
  ultimately show ?thesis
    using assms by (simp add: parse_archive_sequence_def starts_with_def)
qed

lemma parse_archive_own_path: "parse_archive_sequence path path = None"
  by (simp add: parse_archive_sequence_def)

section \<open>The files of a sink\<close>

lemma map_of_update [simp]: "map_of (AList.update k v al) = (map_of al)(k \<mapsto> v)"
  by (rule AList.update_conv')

lemma map_of_delete [simp]: "map_of (AList.delete k al) = (map_of al)(k := None)"
  by (rule AList.delete_conv')

lemma file_text_update [simp]: "file_text (AList.update k v al) p = (if p = k then v else file_text al p)"
  by (simp add: file_text_def)

lemma file_text_delete [simp]: "file_text (AList.delete k al) p = (if p = k then [] else file_text al p)"
  by (simp add: file_text_def)

definition archive_text :: "log_dir \<Rightarrow> log_archive list \<Rightarrow> string" where
  "archive_text dir as = concat (map (file_text dir \<circ> ar_path) as)"

text \<open>All text the sink keeps, from the oldest to the newest.\<close>

definition contents :: "log_store \<Rightarrow> string" where
  "contents st = archive_text (st_dir st) (st_archives st) @ file_text (st_dir st) (st_path st)"

definition archive_ok :: "log_store \<Rightarrow> log_archive \<Rightarrow> bool" where
  "archive_ok st a \<longleftrightarrow> parse_archive_sequence (st_path st) (ar_path a) = Some (ar_sequence a)
     \<and> ar_sequence a < st_next_archive_sequence st \<and> map_of (st_dir st) (ar_path a) \<noteq> None
     \<and> unat (ar_size a) = length (file_text (st_dir st) (ar_path a))"

definition store_shape :: "log_store \<Rightarrow> bool" where
  "store_shape st \<longleftrightarrow> list_all (archive_ok st) (st_archives st) \<and> distinct (map ar_path (st_archives st))
     \<and> st_next_archive_sequence st \<noteq> 0
     \<and> unat (st_active_size st) = length (file_text (st_dir st) (st_path st))
     \<and> unat (st_managed_size st) = length (contents st)
     \<and> st_max_total_size st \<noteq> 0 \<and> unat (st_max_total_size st) < 2 ^ 63
     \<and> st_segment_target_size st \<le> st_max_total_size st"

definition store_ok :: "log_store \<Rightarrow> bool" where
  "store_ok st \<longleftrightarrow> store_shape st \<and> st_managed_size st \<le> st_max_total_size st"

lemma archive_text_cong:
  "(\<And>a. a \<in> set as \<Longrightarrow> file_text dir (ar_path a) = file_text dir' (ar_path a)) \<Longrightarrow> archive_text dir as = archive_text dir' as"
  by (simp add: archive_text_def cong: map_cong)

lemma archive_text_simps [simp]:
  "archive_text dir [] = []" "archive_text dir (a # as) = file_text dir (ar_path a) @ archive_text dir as"
  "archive_text dir (as @ bs) = archive_text dir as @ archive_text dir bs"
  by (simp_all add: archive_text_def)

lemma archive_path_not_active: "archive_ok st a \<Longrightarrow> ar_path a \<noteq> st_path st"
  using parse_archive_own_path by (auto simp: archive_ok_def)

lemma next_io_cases: "next_io st = (r, st') \<Longrightarrow> \<exists>io. st' = st\<lparr>st_io := io\<rparr> \<and> (st_io st = [] \<longrightarrow> r = IoOk \<and> io = [])"
  by (auto simp: next_io_def split: list.splits)

lemma io_calls_cases: "io_calls es st = (r, st') \<Longrightarrow> \<exists>io. st' = st\<lparr>st_io := io\<rparr>"
proof (induction es arbitrary: st)
  case Nil
  then have "st' = st\<lparr>st_io := st_io st\<rparr>" by simp
  then show ?case by blast
next
  case (Cons e es)
  obtain q st1 where io: "next_io st = (q, st1)" by fastforce
  from next_io_cases [OF this] Cons.IH [of st1] Cons.prems io show ?case by (auto split: io_result.splits)
qed

lemma contents_cong:
  "st_dir st' = st_dir st \<Longrightarrow> st_archives st' = st_archives st \<Longrightarrow> st_path st' = st_path st \<Longrightarrow> contents st' = contents st"
  by (simp add: contents_def)

lemma archive_ok_cong:
  "st_dir st' = st_dir st \<Longrightarrow> st_path st' = st_path st \<Longrightarrow>
   st_next_archive_sequence st' = st_next_archive_sequence st \<Longrightarrow> archive_ok st' = archive_ok st"
  by (simp add: archive_ok_def fun_eq_iff)

lemma io_irrelevant [simp]:
  "contents (st\<lparr>st_io := io\<rparr>) = contents st"
  "archive_ok (st\<lparr>st_io := io\<rparr>) = archive_ok st"
  "store_shape (st\<lparr>st_io := io\<rparr>) = store_shape st"
  "store_ok (st\<lparr>st_io := io\<rparr>) = store_ok st"
  by (simp_all add: store_shape_def store_ok_def contents_cong [of "st\<lparr>st_io := io\<rparr>" st] archive_ok_cong [of "st\<lparr>st_io := io\<rparr>" st])

lemma metric_irrelevant [simp]:
  "contents (update_storage_metric st) = contents st"
  "store_shape (update_storage_metric st) = store_shape st"
  "store_ok (update_storage_metric st) = store_ok st"
  "st_managed_size (update_storage_metric st) = st_managed_size st"
  by (simp_all add: update_storage_metric_def contents_def archive_ok_def [abs_def] store_shape_def store_ok_def)

text \<open>What all operations keep.\<close>

definition same_config :: "log_store \<Rightarrow> log_store \<Rightarrow> bool" where
  "same_config st st' \<longleftrightarrow> st_path st' = st_path st \<and> st_max_total_size st' = st_max_total_size st
     \<and> st_segment_target_size st' = st_segment_target_size st"

lemma drop_oldest:
  assumes "store_shape st" "st_archives st = a # as"
  defines "st1 \<equiv> st\<lparr>st_dir := AList.delete (ar_path a) (st_dir st), st_archives := as,
                     st_managed_size := st_managed_size st - ar_size a,
                     st_metrics := log_retention_removed 1 (ar_size a) (st_metrics st)\<rparr>"
  shows "store_shape st1" "contents st = file_text (st_dir st) (ar_path a) @ contents st1"
    "file_text (st_dir st1) (st_path st1) = file_text (st_dir st) (st_path st)"
proof -
  have a: "archive_ok st a" and as: "list_all (archive_ok st) as" and d: "ar_path a \<notin> ar_path ` set as" "distinct (map ar_path as)"
    using assms(1,2) by (auto simp: store_shape_def)
  have np: "ar_path a \<noteq> st_path st" by (rule archive_path_not_active [OF a])
  have other: "ar_path b \<noteq> ar_path a" if "b \<in> set as" for b using d(1) that by (metis imageI)
  have texts: "archive_text (AList.delete (ar_path a) (st_dir st)) as = archive_text (st_dir st) as"
    by (rule archive_text_cong) (simp add: other)
  show c: "contents st = file_text (st_dir st) (ar_path a) @ contents st1"
    using assms(2) np texts by (simp add: contents_def st1_def)
  show "file_text (st_dir st1) (st_path st1) = file_text (st_dir st) (st_path st)"
    using np by (simp add: st1_def)
  have ok: "archive_ok st1 b" if "b \<in> set as" for b
    using as other [OF that] that by (auto simp: archive_ok_def st1_def list_all_iff)
  have size: "unat (ar_size a) = length (file_text (st_dir st) (ar_path a))" using a by (simp add: archive_ok_def)
  have managed: "unat (st_managed_size st) = length (contents st)" using assms(1) by (simp add: store_shape_def)
  then have "ar_size a \<le> st_managed_size st" using c size by (simp add: word_le_nat_alt)
  then have "unat (st_managed_size st - ar_size a) = length (contents st1)"
    using c size managed by (simp add: unat_sub)
  with assms(1) ok d np show "store_shape st1"
    by (auto simp: store_shape_def list_all_iff) (simp_all add: st1_def)
qed

lemma prune_loop_spec:
  assumes "store_shape st" "st_archives st = as" "prune_loop as st = (r, st')"
  shows "store_shape st' \<and> same_config st st' \<and> suffix (contents st') (contents st)
    \<and> file_text (st_dir st') (st_path st') = file_text (st_dir st) (st_path st)
    \<and> st_next_archive_sequence st' = st_next_archive_sequence st
    \<and> (st_managed_size st \<le> st_max_total_size st \<longrightarrow> r = SinkOk \<and> contents st' = contents st)
    \<and> (r = SinkOk \<longrightarrow> st_managed_size st' \<le> st_max_total_size st' \<or> st_archives st' = [])
    \<and> r \<noteq> SinkFailed [] \<and> (st_io st = [] \<longrightarrow> r = SinkOk \<and> st_io st' = [])"
  using assms
proof (induction as arbitrary: st)
  case Nil
  then show ?case by (auto simp: same_config_def)
next
  case (Cons a as)
  show ?case
  proof (cases "st_managed_size st > st_max_total_size st")
    case False
    with Cons.prems show ?thesis by (auto simp: same_config_def not_less)
  next
    case True
    obtain res st1 where io: "next_io st = (res, st1)" by fastforce
    from next_io_cases [OF io] obtain ios where st1: "st1 = st\<lparr>st_io := ios\<rparr>" and ios: "st_io st = [] \<longrightarrow> res = IoOk \<and> ios = []"
      by blast
    have shape: "store_shape st1" "st_archives st1 = a # as" using Cons.prems st1 by simp_all
    then have "map_of (st_dir st1) (ar_path a) \<noteq> None" by (auto simp: store_shape_def archive_ok_def)
    show ?thesis
    proof (cases res)
      case IoOk
      let ?st2 = "st1\<lparr>st_dir := AList.delete (ar_path a) (st_dir st1), st_archives := as,
                     st_managed_size := st_managed_size st1 - ar_size a,
                     st_metrics := log_retention_removed 1 (ar_size a) (st_metrics st1)\<rparr>"
      have "prune_loop as ?st2 = (r, st')"
        using Cons.prems(3) True io IoOk \<open>map_of (st_dir st1) (ar_path a) \<noteq> None\<close> by simp
      note IH = Cons.IH [OF drop_oldest(1) [OF shape] _ this]
      have "suffix (contents ?st2) (contents st)"
        using drop_oldest(2) [OF shape] st1 by (simp add: suffix_def)
      with IH drop_oldest(3) [OF shape] st1 True ios show ?thesis
        by (auto simp: same_config_def intro: suffix_order.trans)
    next
      case (IoFailed message n)
      with Cons.prems io True st1 ios shape show ?thesis by (auto simp: same_config_def)
    qed
  qed
qed

lemma append_shape:
  assumes "store_shape st" "length (contents st) + length d < 2 ^ 64"
  defines "st1 \<equiv> (append_text d st)\<lparr>st_active_size := st_active_size st + of_nat (length d),
                                     st_managed_size := st_managed_size st + of_nat (length d)\<rparr>"
  shows "store_shape st1" "contents st1 = contents st @ d" "unat (st_managed_size st1) = unat (st_managed_size st) + length d"
    "same_config st st1" "file_text (st_dir st1) (st_path st1) = file_text (st_dir st) (st_path st) @ d"
    "unat (st_active_size st1) = unat (st_active_size st) + length d"
proof -
  have ok: "list_all (archive_ok st) (st_archives st)" using assms(1) by (simp add: store_shape_def)
  have np: "ar_path a \<noteq> st_path st" if "a \<in> set (st_archives st)" for a
    using ok that by (auto simp: list_all_iff dest: archive_path_not_active)
  have "archive_text (st_dir st1) (st_archives st) = archive_text (st_dir st) (st_archives st)"
    by (rule archive_text_cong) (use np in \<open>simp add: st1_def append_text_def\<close>)
  then show c: "contents st1 = contents st @ d" by (simp add: contents_def st1_def append_text_def)
  show cfg: "same_config st st1" by (simp add: same_config_def st1_def append_text_def)
  show "file_text (st_dir st1) (st_path st1) = file_text (st_dir st) (st_path st) @ d"
    by (simp add: st1_def append_text_def)
  have m: "unat (st_managed_size st) = length (contents st)" "unat (st_active_size st) = length (file_text (st_dir st) (st_path st))"
    using assms(1) by (simp_all add: store_shape_def)
  have active: "length (file_text (st_dir st) (st_path st)) \<le> length (contents st)" by (simp add: contents_def)
  show m1: "unat (st_managed_size st1) = unat (st_managed_size st) + length d"
    using assms(2) m by (simp add: st1_def unat_word_ariths unat_of_nat)
  show a1: "unat (st_active_size st1) = unat (st_active_size st) + length d"
    using assms(2) m active by (simp add: st1_def unat_word_ariths unat_of_nat)
  have "archive_ok st1 a" if "a \<in> set (st_archives st)" for a
    using ok np [OF that] that by (auto simp: archive_ok_def list_all_iff st1_def append_text_def)
  then show "store_shape st1"
    using assms(1) c m m1 a1 by (simp add: store_shape_def list_all_iff) (simp add: st1_def append_text_def)
qed

lemma prune_archives_spec:
  assumes "store_shape st" "prune_archives st = (r, st')"
  shows "suffix (contents st') (contents st) \<and> same_config st st'
    \<and> (st_managed_size st \<le> st_max_total_size st \<longrightarrow> r = SinkOk \<and> contents st' = contents st)
    \<and> (r = SinkOk \<longrightarrow> store_ok st' \<and> suffix (file_text (st_dir st) (st_path st)) (contents st'))
    \<and> r \<noteq> SinkFailed [] \<and> st_next_archive_sequence st' = st_next_archive_sequence st
    \<and> (st_io st = [] \<and> length (file_text (st_dir st) (st_path st)) \<le> unat (st_max_total_size st) \<longrightarrow> r = SinkOk \<and> st_io st' = [])"
proof -
  obtain r1 st1 where p: "prune_loop (st_archives st) st = (r1, st1)" by fastforce
  note spec = prune_loop_spec [OF assms(1) refl p]
  have active: "st_managed_size st1 \<le> st_max_total_size st1"
    if "st_archives st1 = []" "length (file_text (st_dir st) (st_path st)) \<le> unat (st_max_total_size st)"
  proof -
    have "unat (st_managed_size st1) = length (file_text (st_dir st) (st_path st))"
      "st_max_total_size st1 = st_max_total_size st"
      using spec that(1) by (auto simp: store_shape_def contents_def same_config_def)
    with that(2) show ?thesis by (simp add: word_le_nat_alt)
  qed
  show ?thesis
  proof (cases "r1 = SinkOk \<and> st_managed_size st1 \<le> st_max_total_size st1")
    case True
    then have r: "r = SinkOk" and st': "st' = update_storage_metric st1"
      using assms(2) p by (auto simp: prune_archives_def not_less [symmetric] split: if_splits)
    have "suffix (file_text (st_dir st1) (st_path st1)) (contents st1)" by (simp add: contents_def suffix_def)
    with r st' spec True show ?thesis
      by (simp add: store_ok_def same_config_def) (auto simp: update_storage_metric_def)
  next
    case False
    then have r: "r \<noteq> SinkOk" "st' = st1" "r \<noteq> SinkFailed []"
      using assms(2) p spec by (auto simp: prune_archives_def split: sink_result.splits if_splits)
    from False active spec have "\<not> (st_io st = [] \<and> length (file_text (st_dir st) (st_path st)) \<le> unat (st_max_total_size st))"
      by blast
    moreover have "\<not> st_managed_size st \<le> st_max_total_size st"
    proof
      assume le: "st_managed_size st \<le> st_max_total_size st"
      then have "contents st1 = contents st" "same_config st st1" "store_shape st1" "r1 = SinkOk" using spec by simp_all
      with le assms(1) False show False by (simp add: store_shape_def same_config_def word_le_nat_alt)
    qed
    ultimately show ?thesis using r spec by blast
  qed
qed

lemma move_active_spec:
  assumes "store_shape st" "st_next_archive_sequence st \<noteq> - 1"
  shows "store_shape (move_active st)" "contents (move_active st) = contents st" "same_config st (move_active st)"
    "st_active_size (move_active st) = 0" "st_managed_size (move_active st) = st_managed_size st"
    "st_io (move_active st) = st_io st"
proof -
  let ?new = "archive_path (st_path st) (st_next_archive_sequence st)"
  have ok: "list_all (archive_ok st) (st_archives st)" and nz: "st_next_archive_sequence st \<noteq> 0"
    and sizes: "unat (st_active_size st) = length (file_text (st_dir st) (st_path st))"
    using assms(1) by (simp_all add: store_shape_def)
  have new: "parse_archive_sequence (st_path st) ?new = Some (st_next_archive_sequence st)"
    by (rule parse_archive_path [OF nz])
  then have np: "?new \<noteq> st_path st" using parse_archive_own_path by auto
  have fresh: "ar_path a \<noteq> ?new \<and> ar_path a \<noteq> st_path st" if "a \<in> set (st_archives st)" for a
    using ok that new by (auto simp: list_all_iff archive_ok_def parse_archive_own_path)
  have inc: "1 + st_next_archive_sequence st \<noteq> 0" using assms(2) by (metis add.commute add_eq_0_iff)
  have less: "n < st_next_archive_sequence st + 1" if "n \<le> st_next_archive_sequence st" for n
    using that unatSuc [OF inc] by (simp add: word_less_nat_alt word_le_nat_alt add.commute)
  have "archive_text (st_dir (move_active st)) (st_archives st) = archive_text (st_dir st) (st_archives st)"
    by (rule archive_text_cong) (use fresh in \<open>simp add: move_active_def Let_def\<close>)
  then show c: "contents (move_active st) = contents st"
    using np by (simp add: contents_def move_active_def Let_def)
  show "same_config st (move_active st)" "st_active_size (move_active st) = 0"
    "st_managed_size (move_active st) = st_managed_size st" "st_io (move_active st) = st_io st"
    by (simp_all add: same_config_def move_active_def Let_def)
  have "archive_ok (move_active st) a" if "a \<in> set (st_archives st)" for a
    using ok fresh [OF that] that less [of "ar_sequence a"]
    by (auto simp: archive_ok_def list_all_iff move_active_def Let_def)
  moreover have "archive_ok (move_active st) \<lparr>ar_path = ?new, ar_sequence = st_next_archive_sequence st, ar_size = st_active_size st\<rparr>"
    using new np sizes less [of "st_next_archive_sequence st"] by (simp add: archive_ok_def move_active_def Let_def)
  ultimately have "list_all (archive_ok (move_active st)) (st_archives (move_active st))"
    by (simp add: list_all_iff) (simp add: move_active_def Let_def)
  moreover have "distinct (map ar_path (st_archives (move_active st)))"
  proof -
    have "?new \<notin> ar_path ` set (st_archives st)" using fresh by (metis imageE)
    with assms(1) show ?thesis by (simp add: store_shape_def move_active_def Let_def)
  qed
  moreover have "st_next_archive_sequence st + 1 \<noteq> 0" using inc by (simp add: add.commute)
  ultimately show "store_shape (move_active st)"
    using assms(1) c by (simp add: store_shape_def) (simp add: move_active_def Let_def)
qed

lemma flush_spec:
  "file_flush st = (r, st') \<Longrightarrow> \<exists>io. st' = st\<lparr>st_io := io\<rparr> \<and> r \<noteq> SinkFailed [] \<and> (st_io st = [] \<longrightarrow> r = SinkOk \<and> io = [])"
  by (auto simp: file_flush_def dest!: next_io_cases split: prod.splits io_result.splits)

lemma open_append_spec:
  assumes "store_shape st"
  shows "store_shape (st\<lparr>st_dir := open_append (st_path st) (st_dir st), st_metrics := m\<rparr>)"
    "contents (st\<lparr>st_dir := open_append (st_path st) (st_dir st), st_metrics := m\<rparr>) = contents st"
proof -
  let ?dir = "open_append (st_path st) (st_dir st)"
  have same: "file_text ?dir p = file_text (st_dir st) p" for p by (simp add: open_append_def)
  have "archive_text ?dir as = archive_text (st_dir st) as" for as by (rule archive_text_cong) (rule same)
  then show c: "contents (st\<lparr>st_dir := ?dir, st_metrics := m\<rparr>) = contents st" by (simp add: contents_def same)
  have "archive_ok (st\<lparr>st_dir := ?dir, st_metrics := m\<rparr>) a" if "archive_ok st a" for a
    using that by (auto simp: archive_ok_def same open_append_def)
  with assms c show "store_shape (st\<lparr>st_dir := ?dir, st_metrics := m\<rparr>)"
    by (auto simp: store_shape_def list_all_iff same)
qed

lemma rotate_spec:
  assumes "store_shape st" "rotate_archive st = (r, st')"
  shows "store_shape st' \<and> contents st' = contents st \<and> same_config st st' \<and> st_managed_size st' = st_managed_size st
    \<and> r \<noteq> SinkFailed [] \<and> (r = SinkOk \<longrightarrow> st_active_size st' = 0)
    \<and> (st_io st = [] \<and> st_next_archive_sequence st \<noteq> - 1 \<longrightarrow> r = SinkOk \<and> st_io st' = [])"
proof (cases "st_next_archive_sequence st = - 1")
  case True
  with assms show ?thesis by (auto simp: rotate_archive_def same_config_def)
next
  case False
  obtain r1 st1 where f: "file_flush st = (r1, st1)" by fastforce
  obtain io1 where st1: "st1 = st\<lparr>st_io := io1\<rparr>" "r1 \<noteq> SinkFailed []" "st_io st = [] \<longrightarrow> r1 = SinkOk \<and> io1 = []"
    using flush_spec [OF f] by blast
  obtain r2 st2 where n2: "next_io st1 = (r2, st2)" by fastforce
  obtain io2 where st2: "st2 = st\<lparr>st_io := io2\<rparr>" "io1 = [] \<longrightarrow> r2 = IoOk \<and> io2 = []"
    using next_io_cases [OF n2] st1(1) by auto
  obtain r3 st3 where n3: "next_io st2 = (r3, st3)" by fastforce
  obtain io3 where st3: "st3 = st\<lparr>st_io := io3\<rparr>" "io2 = [] \<longrightarrow> r3 = IoOk \<and> io3 = []"
    using next_io_cases [OF n3] st2(1) by auto
  obtain r4 st4 where n4: "next_io (move_active st3) = (r4, st4)" by fastforce
  obtain io4 where st4: "st4 = (move_active st3)\<lparr>st_io := io4\<rparr>" "st_io (move_active st3) = [] \<longrightarrow> r4 = IoOk \<and> io4 = []"
    using next_io_cases [OF n4] by blast
  have shape3: "store_shape st3" "st_next_archive_sequence st3 \<noteq> - 1" using assms(1) False st3(1) by simp_all
  note moved = move_active_spec [OF shape3]
  have shape4: "store_shape st4" "contents st4 = contents st" "same_config st st4" "st_active_size st4 = 0"
    "st_managed_size st4 = st_managed_size st"
    using moved st3(1) st4(1) by (simp_all add: same_config_def)
  note opened4 = open_append_spec [OF shape4(1)]
  show ?thesis
  proof (cases "r1 = SinkOk \<and> r2 = IoOk \<and> r3 = IoOk")
    case True
    with assms(2) False f n2 n3 n4 shape4 opened4 st1 st2 st3 st4 moved(6) show ?thesis
      by (cases r4) (auto simp: rotate_archive_def same_config_def)
  next
    case no: False
    with assms False f n2 n3 st1 st2 st3 show ?thesis
      by (auto simp: rotate_archive_def same_config_def split: sink_result.splits io_result.splits)
  qed
qed

text \<open>Writing to the active file, once it has room for the text.\<close>

lemma append_text_contents:
  assumes "store_shape st"
  shows "contents (append_text d st) = contents st @ d"
proof -
  have "archive_text (st_dir (append_text d st)) (st_archives st) = archive_text (st_dir st) (st_archives st)"
  proof (rule archive_text_cong)
    fix a assume "a \<in> set (st_archives st)"
    then have "ar_path a \<noteq> st_path st" using assms archive_path_not_active by (auto simp: store_shape_def list_all_iff)
    then show "file_text (st_dir (append_text d st)) (ar_path a) = file_text (st_dir st) (ar_path a)"
      by (simp add: append_text_def)
  qed
  then show ?thesis by (simp add: contents_def append_text_def)
qed

lemma write_active_spec:
  assumes "store_ok st" "length d \<le> unat (st_max_total_size st)" "write_active d st = (r, st')"
  shows "\<exists>p. prefix p d \<and> suffix (contents st') (contents st @ p)"
    and "r \<noteq> SinkFailed []"
    and "r = SinkOk \<Longrightarrow> store_ok st' \<and> same_config st st' \<and> suffix (contents st') (contents st @ d) \<and> suffix d (contents st')
           \<and> (length (contents st) + length d \<le> unat (st_max_total_size st) \<longrightarrow> contents st' = contents st @ d)"
    and "st_io st = [] \<Longrightarrow> unat (st_active_size st) + length d \<le> unat (st_max_total_size st) \<Longrightarrow> r = SinkOk \<and> st_io st' = []"
proof -
  have shape: "store_shape st" and fits: "length (contents st) \<le> unat (st_max_total_size st)"
    and small: "unat (st_max_total_size st) < 2 ^ 63" and act: "unat (st_active_size st) = length (file_text (st_dir st) (st_path st))"
    using assms(1) by (auto simp: store_ok_def store_shape_def word_le_nat_alt)
  obtain r1 st1 where io: "next_io st = (r1, st1)" by fastforce
  obtain io1 where st1: "st1 = st\<lparr>st_io := io1\<rparr>" "st_io st = [] \<longrightarrow> r1 = IoOk \<and> io1 = []" using next_io_cases [OF io] by blast
  define st2 where "st2 = (append_text d st1)\<lparr>st_active_size := st_active_size st1 + of_nat (length d),
                                                st_managed_size := st_managed_size st1 + of_nat (length d)\<rparr>"
  have shape1: "store_shape st1" "length (contents st1) + length d < 2 ^ 64"
    using shape fits small assms(2) st1(1) by simp_all
  note app = append_shape [OF shape1, folded st2_def]
  obtain r3 st3 where f: "(if st_managed_size st2 > st_max_total_size st2 then file_flush st2 else (SinkOk, st2)) = (r3, st3)"
    by fastforce
  have io2: "st_io st2 = io1" using st1(1) by (simp add: st2_def append_text_def)
  have st3: "(\<exists>io3. st3 = st2\<lparr>st_io := io3\<rparr> \<and> (io1 = [] \<longrightarrow> r3 = SinkOk \<and> io3 = [])) \<and> r3 \<noteq> SinkFailed []"
  proof (cases "st_managed_size st2 > st_max_total_size st2")
    case True
    with f flush_spec [of st2 r3 st3] io2 show ?thesis by auto
  next
    case False
    with f io2 have "st3 = st2\<lparr>st_io := io1\<rparr>" "r3 = SinkOk" by auto
    then show ?thesis by auto
  qed
  then obtain io3 where st3': "st3 = st2\<lparr>st_io := io3\<rparr>" "io1 = [] \<longrightarrow> r3 = SinkOk \<and> io3 = []" by blast
  obtain r4 st4 where p: "prune_archives st3 = (r4, st4)" by fastforce
  have cfg: "same_config st st2" using app(4) st1(1) by (simp add: same_config_def)
  have shape3: "store_shape st3" "contents st3 = contents st @ d" "same_config st st3"
    "file_text (st_dir st3) (st_path st3) = file_text (st_dir st) (st_path st) @ d"
    "unat (st_managed_size st3) = length (contents st) + length d" "st_max_total_size st3 = st_max_total_size st"
    using app(1,2,3,5) cfg shape st1(1) unfolding st3'(1) by (simp_all add: same_config_def store_shape_def)
  note pruned = prune_archives_spec [OF shape3(1) p]
  have fail: "r1 \<noteq> IoOk \<Longrightarrow> r \<noteq> SinkOk \<and> r \<noteq> SinkFailed [] \<and> (\<exists>n. contents st' = contents st @ take n d)"
    using assms(3) io st1(1) shape append_text_contents [of st1] by (auto simp: write_active_def split: io_result.splits)
  have good: "(r, st') = (if r3 = SinkOk then (r4, st4) else (r3, st3))" if "r1 = IoOk"
    using assms(3) io that p
    by (simp only: write_active_def prod.case io_result.case Let_def st2_def [symmetric] f)
  show "\<exists>p. prefix p d \<and> suffix (contents st') (contents st @ p)"
  proof (cases "r1 = IoOk")
    case True
    with good pruned shape3(2) have "suffix (contents st') (contents st @ d)" by (auto split: if_splits)
    then show ?thesis by blast
  next
    case False
    with fail show ?thesis by (auto intro: take_is_prefix)
  qed
  show "r \<noteq> SinkFailed []" using fail good pruned st3 by (cases "r1 = IoOk") (auto split: if_splits)
  show "store_ok st' \<and> same_config st st' \<and> suffix (contents st') (contents st @ d) \<and> suffix d (contents st')
      \<and> (length (contents st) + length d \<le> unat (st_max_total_size st) \<longrightarrow> contents st' = contents st @ d)" if "r = SinkOk"
  proof -
    have "r3 = SinkOk" "r4 = SinkOk" "st' = st4" using that fail good by (cases "r1 = IoOk"; auto split: if_splits)+
    moreover have "suffix d (file_text (st_dir st3) (st_path st3))" by (simp add: shape3(4) suffix_def)
    ultimately show ?thesis
      using pruned shape3 by (auto simp: same_config_def word_le_nat_alt intro: suffix_order.trans)
  qed
  show "r = SinkOk \<and> st_io st' = []" if "st_io st = []" "unat (st_active_size st) + length d \<le> unat (st_max_total_size st)"
    using that st1 st3' good pruned shape3(4,6) act by auto
qed

text \<open>A whole write: the rotation before it leaves the text alone and makes room.\<close>

lemma file_write_spec:
  assumes "store_ok st" "file_write d st = (r, st')"
  shows "\<exists>p. prefix p d \<and> suffix (contents st') (contents st @ p)"
    and "r \<noteq> SinkFailed []"
    and "r = SinkOk \<Longrightarrow> store_ok st' \<and> same_config st st' \<and> suffix (contents st') (contents st @ d) \<and> suffix d (contents st')
           \<and> (length (contents st) + length d \<le> unat (st_max_total_size st) \<longrightarrow> contents st' = contents st @ d)"
    and "st_io st = [] \<Longrightarrow> length d \<le> unat (st_max_total_size st) \<Longrightarrow> st_next_archive_sequence st \<noteq> - 1 \<Longrightarrow>
           r = SinkOk \<and> st_io st' = []"
proof -
  let ?big = "st_active_size st \<noteq> 0 \<and> st_active_size st + of_nat (length d) > st_segment_target_size st"
  obtain r1 st1 where rot: "(if ?big then rotate_archive st else (SinkOk, st)) = (r1, st1)" by fastforce
  have shape: "store_shape st" "st_managed_size st \<le> st_max_total_size st" using assms(1) by (simp_all add: store_ok_def)
  have st1: "contents st1 = contents st" "same_config st st1" "r1 \<noteq> SinkFailed []" "store_ok st1"
    "st_io st = [] \<and> st_next_archive_sequence st \<noteq> - 1 \<longrightarrow> r1 = SinkOk \<and> st_io st1 = []"
    using rot rotate_spec [OF shape(1), of r1 st1] shape
    by (auto simp: store_ok_def same_config_def split: if_splits)
  have room: "unat (st_active_size st1) + length d \<le> unat (st_max_total_size st)"
    if "r1 = SinkOk" "length d \<le> unat (st_max_total_size st)"
  proof (cases ?big)
    case True
    with rot rotate_spec [OF shape(1), of r1 st1] that show ?thesis by simp
  next
    case False
    then have eq: "st1 = st" using rot by (auto split: if_splits)
    show ?thesis
    proof (cases "st_active_size st = 0")
      case True
      with that eq show ?thesis by simp
    next
      case nonzero: False
      have "unat (st_active_size st) \<le> unat (st_max_total_size st)" "unat (st_max_total_size st) < 2 ^ 63"
        using shape by (auto simp: store_shape_def contents_def word_le_nat_alt)
      then have "unat (st_active_size st + of_nat (length d)) = unat (st_active_size st) + length d"
        using that by (simp add: unat_word_ariths unat_of_nat)
      moreover have "st_active_size st + of_nat (length d) \<le> st_max_total_size st"
        using False nonzero shape(1) by (auto simp: store_shape_def not_less)
      ultimately show ?thesis using eq by (simp add: word_le_nat_alt)
    qed
  qed
  have max1: "st_max_total_size st1 = st_max_total_size st" using st1(2) by (simp add: same_config_def)
  have cases: "length d > unat (st_max_total_size st) \<and> st' = st \<and> r = SinkFailed ''log record exceeds the configured total size limit''
    \<or> length d \<le> unat (st_max_total_size st) \<and> r1 \<noteq> SinkOk \<and> r = r1 \<and> st' = st1
    \<or> length d \<le> unat (st_max_total_size st) \<and> r1 = SinkOk \<and> write_active d st1 = (r, st')"
    using assms(2) unfolding file_write_def rot Let_def by (auto split: if_splits)
  note written = write_active_spec [OF st1(4), of d r st', unfolded max1 st1(1)]
  show "\<exists>p. prefix p d \<and> suffix (contents st') (contents st @ p)"
    using cases st1(1) written(1) by (elim disjE conjE) (auto intro: exI [of _ "[]"])
  show "r \<noteq> SinkFailed []" using cases st1(3) written(2) by auto
  show "store_ok st' \<and> same_config st st' \<and> suffix (contents st') (contents st @ d) \<and> suffix d (contents st')
      \<and> (length (contents st) + length d \<le> unat (st_max_total_size st) \<longrightarrow> contents st' = contents st @ d)" if "r = SinkOk"
  proof -
    have w: "length d \<le> unat (st_max_total_size st)" "write_active d st1 = (r, st')" using cases that by auto
    have "same_config st1 st' \<Longrightarrow> same_config st st'" using st1(2) by (simp add: same_config_def)
    with written(3) [OF w that] show ?thesis by blast
  qed
  show "r = SinkOk \<and> st_io st' = []"
    if no: "st_io st = []" "length d \<le> unat (st_max_total_size st)" "st_next_archive_sequence st \<noteq> - 1"
  proof -
    have r1: "r1 = SinkOk" "st_io st1 = []" using st1(5) no by simp_all
    with cases no(2) have "write_active d st1 = (r, st')" by auto
    from written(4) [OF no(2) this r1(2) room [OF r1(1) no(2)]] show ?thesis .
  qed
qed

interpretation file_sink: line_sink file_write file_flush contents store_ok
proof unfold_locales
  fix k d k'
  assume "store_ok k" "file_write d k = (SinkOk, k')"
  then show "store_ok k' \<and> suffix (contents k') (contents k @ d) \<and> suffix d (contents k')"
    using file_write_spec(3) by blast
next
  fix k d r k'
  assume "store_ok k" "file_write d k = (r, k')"
  then show "r \<noteq> SinkFailed []" "\<exists>p. prefix p d \<and> suffix (contents k') (contents k @ p)"
    by (rule file_write_spec(2), rule file_write_spec(1))
next
  fix k r k'
  assume "store_ok k" and f: "file_flush k = (r, k')"
  then show "contents k' = contents k" using flush_spec [OF f] by auto
next
  fix k k'
  assume "store_ok k" and f: "file_flush k = (SinkOk, k')"
  then show "store_ok k'" using flush_spec [OF f] by auto
qed

section \<open>Opening\<close>

lemma push_archive:
  assumes "store_shape st" "parse_archive_sequence (st_path st) name = Some sequence" "sequence \<noteq> - 1"
    and "map_of (st_dir st) name = Some t" "name \<notin> ar_path ` set (st_archives st)"
    and "length (contents st) + length t < 2 ^ 64"
  defines "a \<equiv> \<lparr>ar_path = name, ar_sequence = sequence, ar_size = of_nat (length t)\<rparr>"
  defines "st1 \<equiv> st\<lparr>st_archives := st_archives st @ [a], st_managed_size := st_managed_size st + of_nat (length t),
                     st_next_archive_sequence := max (st_next_archive_sequence st) (sequence + 1)\<rparr>"
  shows "store_shape st1" "length (contents st1) = length (contents st) + length t"
proof -
  have t: "file_text (st_dir st) name = t" using assms(4) by (simp add: file_text_def)
  show len: "length (contents st1) = length (contents st) + length t"
    by (simp add: contents_def st1_def a_def t)
  have inc: "1 + sequence \<noteq> 0" using assms(3) by (metis add.commute add_eq_0_iff)
  then have less: "sequence < sequence + 1" using unatSuc [OF inc] by (simp add: word_less_nat_alt add.commute)
  have "archive_ok st1 b" if "archive_ok st b" for b
    using that by (auto simp: archive_ok_def st1_def less_max_iff_disj)
  moreover have "archive_ok st1 a"
    using assms(2,4,6) t less by (auto simp: archive_ok_def st1_def a_def less_max_iff_disj unat_of_nat)
  moreover have "unat (st_managed_size st1) = length (contents st1)"
    using assms(1,6) len by (simp add: store_shape_def st1_def unat_word_ariths unat_of_nat)
  moreover have "max (st_next_archive_sequence st) (sequence + 1) \<noteq> 0"
  proof
    assume "max (st_next_archive_sequence st) (sequence + 1) = 0"
    with max.cobounded1 [of "st_next_archive_sequence st" "sequence + 1"] have "st_next_archive_sequence st \<le> 0" by (simp only:)
    with assms(1) show False by (simp add: store_shape_def)
  qed
  ultimately show "store_shape st1"
    using assms(1,5) by (auto simp: store_shape_def list_all_iff st1_def a_def)
qed

lemma scan_loop_spec:
  assumes "store_shape st" "distinct (map fst rest)" "\<forall>(name, t) \<in> set rest. map_of (st_dir st) name = Some t"
    and "ar_path ` set (st_archives st) \<inter> fst ` set rest = {}"
    and "length (contents st) + sum_list (map (length \<circ> snd) rest) < 2 ^ 64"
    and "scan_loop rest st = (SinkOk, st')"
  shows "store_shape st' \<and> same_config st st'"
  using assms
proof (induction rest arbitrary: st)
  case Nil
  then show ?case by (simp add: same_config_def)
next
  case (Cons e rest)
  obtain name t where e: "e = (name, t)" by fastforce
  obtain r0 st0 where io0: "io_calls [\<lambda>message. ''failed to scan log archives: '' @ message] st = (r0, st0)" by fastforce
  obtain ios0 where st0: "st0 = st\<lparr>st_io := ios0\<rparr>" using io_calls_cases [OF io0] by blast
  have r0: "r0 = SinkOk" using Cons.prems(6) e io0 by (cases r0) (simp_all del: io_calls.simps)
  have prems: "store_shape st0" "distinct (map fst (e # rest))" "\<forall>(name, t) \<in> set (e # rest). map_of (st_dir st0) name = Some t"
    "ar_path ` set (st_archives st0) \<inter> fst ` set (e # rest) = {}"
    "length (contents st0) + sum_list (map (length \<circ> snd) (e # rest)) < 2 ^ 64"
    using Cons.prems(1-5) by (simp_all add: st0 store_shape_def contents_def archive_ok_def [abs_def] comp_def)
  have rest: "distinct (map fst rest)" "name \<notin> fst ` set rest" using Cons.prems(2) e by auto
  show ?case
  proof (cases "has_managed_prefix (st_path st0) name ''.ccs-compact-''")
    case True
    obtain r st1 where io: "next_io st0 = (r, st1)" by fastforce
    obtain ios where st1: "st1 = st0\<lparr>st_io := ios\<rparr>" using next_io_cases [OF io] by blast
    let ?st2 = "st1\<lparr>st_dir := AList.delete name (st_dir st1), st_metrics := log_retention_removed 1 (of_nat (length t)) (st_metrics st1)\<rparr>"
    have r: "r = IoOk" "scan_loop rest ?st2 = (SinkOk, st')"
      using Cons.prems(6) e True io io0 r0 by (simp_all del: io_calls.simps split: io_result.splits)
    have np: "name \<noteq> st_path st0" using True by (auto simp: has_managed_prefix_def)
    have other: "ar_path a \<noteq> name" if "a \<in> set (st_archives st0)" for a
      using that prems(4) e by auto
    have "archive_text (st_dir ?st2) (st_archives st0) = archive_text (st_dir st0) (st_archives st0)"
      by (rule archive_text_cong) (simp add: other st1)
    then have c: "contents ?st2 = contents st0" using np by (simp add: contents_def st1)
    have "archive_ok ?st2 a" if "a \<in> set (st_archives st0)" for a
      using prems(1) other [OF that] that by (auto simp: store_shape_def list_all_iff archive_ok_def st1)
    with prems(1) c np have shape: "store_shape ?st2" by (simp add: store_shape_def list_all_iff st1)
    have "map_of (st_dir ?st2) n = Some u" if "(n, u) \<in> set rest" for n u
    proof -
      have "n \<noteq> name" using that rest(2) by force
      then show ?thesis using prems(3) e that by (auto simp: st1)
    qed
    then have "\<forall>(n, u) \<in> set rest. map_of (st_dir ?st2) n = Some u" by blast
    from Cons.IH [OF shape rest(1) this _ _ r(2)] prems(4,5) e c
    show ?thesis by (auto simp: st1 st0 same_config_def comp_def)
  next
    case False
    show ?thesis
    proof (cases "parse_archive_sequence (st_path st0) name")
      case None
      with Cons.prems(6) e False io0 r0 have "scan_loop rest st0 = (SinkOk, st')" by (simp del: io_calls.simps)
      from Cons.IH [OF prems(1) rest(1) _ _ _ this] prems(3,4,5) e show ?thesis by (auto simp: st0 same_config_def comp_def)
    next
      case (Some sequence)
      let ?st1 = "st0\<lparr>st_archives := st_archives st0 @ [\<lparr>ar_path = name, ar_sequence = sequence, ar_size = of_nat (length t)\<rparr>],
          st_managed_size := st_managed_size st0 + of_nat (length t),
          st_next_archive_sequence := max (st_next_archive_sequence st0) (sequence + 1)\<rparr>"
      have r: "sequence \<noteq> - 1" "scan_loop rest ?st1 = (SinkOk, st')"
        using Cons.prems(6) e False Some io0 r0 by (simp_all add: Let_def del: io_calls.simps split: if_splits)
      have "map_of (st_dir st0) name = Some t" "name \<notin> ar_path ` set (st_archives st0)"
        using prems(3,4) e by auto
      note pushed = push_archive [OF prems(1) Some r(1) this]
      have shape: "store_shape ?st1" "length (contents ?st1) = length (contents st0) + length t"
        using pushed prems(5) e by simp_all
      from Cons.IH [OF shape(1) rest(1) _ _ _ r(2)] prems(3,4,5) e rest(2) shape(2)
      show ?thesis by (auto simp: st0 same_config_def comp_def)
    qed
  qed
qed

lemma archive_text_perm: "mset as = mset bs \<Longrightarrow> length (archive_text dir as) = length (archive_text dir bs)"
proof -
  have "length (archive_text dir xs) = sum_mset (image_mset (length \<circ> file_text dir \<circ> ar_path) (mset xs))" for xs
    by (induction xs) simp_all
  then show "mset as = mset bs \<Longrightarrow> ?thesis" by simp
qed

lemma sort_archives_shape:
  assumes "store_shape st"
  shows "store_shape (st\<lparr>st_archives := sort_key ar_sequence (st_archives st)\<rparr>)"
proof -
  let ?st = "st\<lparr>st_archives := sort_key ar_sequence (st_archives st)\<rparr>"
  have "length (contents ?st) = length (contents st)"
    using archive_text_perm [of "sort_key ar_sequence (st_archives st)" "st_archives st"] by (simp add: contents_def)
  moreover have "distinct (map ar_path (sort_key ar_sequence (st_archives st)))"
    using assms by (simp add: store_shape_def distinct_map)
  moreover have "archive_ok ?st = archive_ok st" by (rule archive_ok_cong) simp_all
  ultimately show ?thesis using assms by (simp add: store_shape_def list_all_iff)
qed

lemma compaction_start_bounds:
  assumes "limit < length t"
  shows "compaction_start t limit \<le> length t" "length t - limit \<le> compaction_start t limit"
proof -
  let ?start = "length t - limit"
  have "compaction_start t limit = ?start \<or> compaction_start t limit = length t
    \<or> (\<exists>i. i < length (drop ?start t) \<and> compaction_start t limit = ?start + i + 1)"
    by (auto simp: compaction_start_def Let_def find_char_Some split: option.splits)
  then show "compaction_start t limit \<le> length t" "?start \<le> compaction_start t limit" by auto
qed

lemma compact_shape:
  assumes "store_shape st" "compact_oversized_active st = (SinkOk, st')"
  shows "store_shape st' \<and> same_config st st'"
proof (cases "st_active_size st \<le> st_max_total_size st")
  case True
  with assms show ?thesis by (simp add: compact_oversized_active_def same_config_def)
next
  case False
  let ?t = "file_text (st_dir st) (st_path st)"
  let ?start = "compaction_start ?t (unat (st_max_total_size st))"
  obtain r st1 where io: "io_calls (compaction_calls (st_path st)) st = (r, st1)" by fastforce
  obtain ios where st1: "st1 = st\<lparr>st_io := ios\<rparr>" using io_calls_cases [OF io] by blast
  define st2 where "st2 = st1\<lparr>st_dir := AList.update (st_path st) (drop ?start ?t) (st_dir st),
      st_active_size := st_active_size st - of_nat ?start,
      st_managed_size := st_managed_size st - (st_active_size st - (st_active_size st - of_nat ?start)),
      st_metrics := log_retention_removed 0 (st_active_size st - (st_active_size st - of_nat ?start)) (st_metrics st)\<rparr>"
  have st': "st' = update_storage_metric st2"
    using assms(2) False io st1 by (auto simp: compact_oversized_active_def Let_def st2_def split: sink_result.splits)
  have ok: "list_all (archive_ok st) (st_archives st)" "unat (st_active_size st) = length ?t"
    "unat (st_managed_size st) = length (contents st)"
    using assms(1) by (simp_all add: store_shape_def)
  have start: "?start \<le> length ?t"
    using compaction_start_bounds(1) False ok(2) by (simp add: word_le_nat_alt)
  have t: "length ?t < 2 ^ 64" using ok(2) unsigned_less [of "st_active_size st", where ?'a = nat] by simp
  then have ustart: "unat (of_nat ?start :: u64) = ?start" using start by (simp add: unat_of_nat)
  then have active: "unat (st_active_size st - of_nat ?start) = length ?t - ?start"
    using ok(2) start by (simp add: unat_sub word_le_nat_alt)
  have np: "ar_path a \<noteq> st_path st" if "a \<in> set (st_archives st)" for a
    using ok(1) that by (auto simp: list_all_iff dest: archive_path_not_active)
  have "archive_text (st_dir st2) (st_archives st) = archive_text (st_dir st) (st_archives st)"
    by (rule archive_text_cong) (simp add: np st2_def)
  then have len: "length (contents st2) = length (contents st) - ?start" "length ?t \<le> length (contents st)"
    using start by (simp_all add: contents_def st2_def st1)
  have "unat (st_managed_size st2) = length (contents st2)"
    using len ok(3) start ustart by (simp add: st2_def unat_sub word_le_nat_alt)
  moreover have "archive_ok st2 a" if "a \<in> set (st_archives st)" for a
    using ok(1) np [OF that] that by (auto simp: archive_ok_def list_all_iff st2_def st1)
  ultimately have "store_shape st2"
    using assms(1) active by (simp add: store_shape_def list_all_iff) (simp add: st2_def st1)
  then show ?thesis by (simp add: st' same_config_def) (simp add: update_storage_metric_def st2_def st1)
qed

definition dir_size :: "log_dir \<Rightarrow> nat" where
  "dir_size dir = sum_list (map (length \<circ> snd) dir)"

lemma file_text_size: "length (file_text dir path) \<le> dir_size dir"
proof (induction dir)
  case (Cons e dir)
  then show ?case by (cases e) (auto simp: file_text_def dir_size_def split: option.splits)
qed (simp add: file_text_def dir_size_def)

lemma segment_bound:
  fixes m :: u64
  assumes "m \<noteq> 0"
  shows "min 134217728 (max 1 (m div 16)) \<le> m"
proof -
  have "1 \<le> m" using assms by (simp add: word_le_nat_alt unat_gt_0 Suc_leI)
  moreover have "m div 16 \<le> m" by (simp add: word_le_nat_alt unat_div)
  ultimately show ?thesis by (meson max.boundedI min.coboundedI2)
qed

lemma scan_existing_shape:
  assumes "distinct (map fst (st_dir st))" "dir_size (st_dir st) < 2 ^ 63"
    and "st_max_total_size st \<noteq> 0" "unat (st_max_total_size st) < 2 ^ 63"
    and "st_segment_target_size st \<le> st_max_total_size st" "scan_existing st = (SinkOk, st')"
  shows "store_shape st' \<and> same_config st st'"
proof -
  let ?active = "if map_of (st_dir st) (st_path st) = None then 0 else file_size (st_dir st) (st_path st)"
  obtain ios st2 where scan: "scan_loop (st_dir st)
      (st\<lparr>st_archives := [], st_next_archive_sequence := 1, st_io := ios, st_active_size := ?active, st_managed_size := ?active\<rparr>) = (SinkOk, st2)"
    and st': "st' = st2\<lparr>st_archives := sort_key ar_sequence (st_archives st2)\<rparr>"
    using assms(6)
    by (auto simp: scan_existing_def Let_def simp del: io_calls.simps split: prod.splits sink_result.splits if_splits dest!: io_calls_cases)
  let ?st1 = "st\<lparr>st_archives := [], st_next_archive_sequence := 1, st_io := ios, st_active_size := ?active, st_managed_size := ?active\<rparr>"
  have "unat ?active = length (file_text (st_dir st) (st_path st))"
    using file_text_size [of "st_dir st" "st_path st"] assms(2)
    by (auto simp: file_size_def unat_of_nat file_text_def split: option.splits)
  then have shape: "store_shape ?st1" using assms(3-5) by (simp add: store_shape_def contents_def)
  have "store_shape st2 \<and> same_config ?st1 st2"
  proof (rule scan_loop_spec [OF shape assms(1) _ _ _ scan])
    show "\<forall>(name, t) \<in> set (st_dir st). map_of (st_dir ?st1) name = Some t" using assms(1) by auto
    show "length (contents ?st1) + sum_list (map (length \<circ> snd) (st_dir st)) < 2 ^ 64"
      using file_text_size [of "st_dir st" "st_path st"] assms(2) by (simp add: contents_def dir_size_def)
  qed simp
  with sort_archives_shape [of st2] show ?thesis by (simp add: st' same_config_def)
qed

lemma file_open_ok:
  assumes "distinct (map fst (st_dir st))" "dir_size (st_dir st) < 2 ^ 63" "unat (st_max_total_size st) < 2 ^ 63"
    and "file_open path st = (SinkOk, k)"
  shows "store_ok k \<and> st_path k = path \<and> st_max_total_size k = st_max_total_size st"
proof -
  let ?st1 = "st\<lparr>st_path := path, st_segment_target_size := min 134217728 (max 1 (st_max_total_size st div 16))\<rparr>"
  obtain io2 st3 st4 st5 io6 where max: "st_max_total_size st \<noteq> 0"
    and scan: "scan_existing (?st1\<lparr>st_io := io2\<rparr>) = (SinkOk, st3)" and comp: "compact_oversized_active st3 = (SinkOk, st4)"
    and prune: "prune_archives st4 = (SinkOk, st5)"
    and k: "k = update_storage_metric (st5\<lparr>st_io := io6, st_dir := open_append path (st_dir st5), st_storage_reporting_enabled := True\<rparr>)"
    using assms(4)
    by (auto simp: file_open_def Let_def split: if_splits prod.splits io_result.splits sink_result.splits dest!: next_io_cases)
  have cfg: "store_shape st3 \<and> same_config (?st1\<lparr>st_io := io2\<rparr>) st3"
    by (rule scan_existing_shape [OF _ _ _ _ _ scan]) (use assms max segment_bound in simp_all)
  with compact_shape [OF _ comp] have shape4: "store_shape st4" "same_config st3 st4" by blast+
  from prune_archives_spec [OF shape4(1) prune] have ok: "store_ok st5" "same_config st4 st5" by auto
  then have path: "st_path st5 = path" "st_max_total_size st5 = st_max_total_size st"
    using cfg shape4(2) by (simp_all add: same_config_def)
  let ?st6 = "st5\<lparr>st_dir := open_append (st_path st5) (st_dir st5), st_metrics := st_metrics st5\<rparr>"
  have "store_shape ?st6" using open_append_spec(1) ok(1) by (simp only: store_ok_def)
  then have "store_ok ?st6" using ok(1) by (simp add: store_ok_def)
  then have "store_ok (st5\<lparr>st_io := io6, st_dir := open_append path (st_dir st5), st_storage_reporting_enabled := True\<rparr>)"
    using path by (simp add: store_ok_def store_shape_def contents_def archive_ok_def [abs_def])
  then show ?thesis using path by (simp add: k) (simp add: update_storage_metric_def)
qed

section \<open>Properties\<close>

text \<open>A sequence of writes that ends with the first failure.\<close>

fun write_all :: "string list \<Rightarrow> log_store \<Rightarrow> sink_result \<times> log_store" where
  "write_all [] st = (SinkOk, st)"
| "write_all (d # ds) st =
     (case file_write d st of (SinkOk, st) \<Rightarrow> write_all ds st | (r, st) \<Rightarrow> (r, st))"

lemma write_all_ok:
  assumes "store_ok st" "write_all ds st = (SinkOk, st')"
  shows "store_ok st' \<and> st_max_total_size st' = st_max_total_size st"
  using assms
proof (induction ds arbitrary: st)
  case (Cons d ds)
  obtain r st1 where w: "file_write d st = (r, st1)" by fastforce
  then have "r = SinkOk" "write_all ds st1 = (SinkOk, st')" using Cons.prems(2) by (auto split: sink_result.splits)
  with Cons.IH [of st1] file_write_spec(3) [OF Cons.prems(1) w] show ?case by (simp add: same_config_def)
qed simp



text \<open>A directory with one archive, a sink opened on it, and a logger that writes one line.\<close>

definition sample_dir :: log_dir where
  "sample_dir = [(''log'', ''new''), (''log.ccs-archive-1'', ''old'')]"

definition sample_sink :: log_store where
  "sample_sink = snd (file_open ''log'' (new_file_sink 100 (\<lambda>_. 0) sample_dir []))"

lemma sample_sink_open: "file_open ''log'' (new_file_sink 100 (\<lambda>_. 0) sample_dir []) = (SinkOk, sample_sink)"
proof -
  have "fst (file_open ''log'' (new_file_sink 100 (\<lambda>_. 0) sample_dir [])) = SinkOk" by code_simp
  then show ?thesis unfolding sample_sink_def by (metis prod.collapse)
qed

lemma sample_dir_ok: "distinct (map fst sample_dir)" "dir_size sample_dir < 2 ^ 63" "unat (100 :: u64) < 2 ^ 63"
  by (simp_all add: sample_dir_def dir_size_def)


definition sample_logged :: "log_store log_sys" where
  "sample_logged = log_run file_write file_flush sample_events (opened ''info'' 1000 sample_log_metrics sample_sink)"


end
