(* ===== verification/HttpMessage.thy ===== *)
theory HttpMessage
  imports Protocols Budget
begin

text \<open>
  HTTP messages as the proxy reads and writes them: the request head parser, the content length, the
  response printer of \<^verbatim>\<open>src/server/server.cpp\<close> and the header filter of \<^verbatim>\<open>src/transport/header_filter.cpp\<close>.
  Strings are lists of bytes, and \<open>InvalidHttpRequest\<close> is the error of the sum. Shown here: a head
  that is printed parses back, and what is parsed is well formed; the body length is taken exactly when there is one
  unambiguous number for it; a response head has the size that was reserved for it; the filter removes
  exactly the hop-by-hop headers.
\<close>

section \<open>Model\<close>

record http_request =
  req_request_id :: string
  req_method :: string
  req_target :: string
  req_path :: string
  req_query :: string
  req_version :: string
  req_headers :: "(string \<times> string) list"
  req_body_memory :: "lease option"
  req_body :: string
  req_client_ip :: string

definition new_request :: http_request where
  "new_request = \<lparr>req_request_id = [], req_method = [], req_target = [], req_path = [], req_query = [],
     req_version = [], req_headers = [], req_body_memory = None, req_body = [], req_client_ip = []\<rparr>"

definition trim :: "string \<Rightarrow> string" where
  "trim s = rev (dropWhile is_space (rev (dropWhile is_space s)))"

fun trim_front :: "string \<Rightarrow> string" where
  "trim_front [] = []"
| "trim_front (c # s) = (if is_space c then trim_front s else c # s)"

function trim_back :: "string \<Rightarrow> string" where
  "trim_back s = (if s \<noteq> [] \<and> is_space (last s) then trim_back (butlast s) else s)"
  by pat_completeness auto
termination by (relation "measure length") auto

declare trim_back.simps [simp del]

definition trim_view :: "string \<Rightarrow> string" where
  "trim_view s = trim_back (trim_front s)"

definition server_reason_phrase :: "int \<Rightarrow> string" where
  "server_reason_phrase c =
     (if c = 200 then ''OK''
      else if c = 400 then ''Bad Request''
      else if c = 404 then ''Not Found''
      else if c = 405 then ''Method Not Allowed''
      else if c = 413 then ''Payload Too Large''
      else if c = 503 then ''Service Unavailable''
      else if c = 502 then ''Bad Gateway''
      else if c = 504 then ''Gateway Timeout''
      else if c = 500 then ''Internal Server Error''
      else ''Error'')"

definition error_json :: "(json \<Rightarrow> string) \<Rightarrow> string \<Rightarrow> string \<Rightarrow> string" where
  "error_json json_dump message type =
     json_dump (JObj [(''error'', JObj (map_of_entries [(''message'', JStr message), (''type'', JStr type)]))])"

definition is_header_name_char :: "char \<Rightarrow> bool" where
  "is_header_name_char ch \<longleftrightarrow> is_alnum ch \<or> ch \<in> set ''!#$%&*+-.^_|~'' \<or> code ch = 39 \<or> code ch = 96"

text \<open>The loop over the headers; \<open>result\<close> is the optional the code fills.\<close>

fun content_length_loop :: "(string \<times> string) list \<Rightarrow> nat option \<Rightarrow> nat res" where
  "content_length_loop [] result = Inr (case result of None \<Rightarrow> 0 | Some n \<Rightarrow> n)"
| "content_length_loop ((name, v) # hs) result =
     (if lower_copy name = ''transfer-encoding'' then Inl ''request Transfer-Encoding is not supported''
      else if lower_copy name \<noteq> ''content-length'' then content_length_loop hs result
      else if result \<noteq> None then Inl ''request contains duplicate Content-Length headers''
      else if trim v = [] \<or> \<not> list_all is_digit (trim v) then Inl ''request Content-Length is invalid''
      else case from_chars_all 18446744073709551615 (trim v) of
        None \<Rightarrow> Inl ''request Content-Length is invalid''
      | Some parsed \<Rightarrow> content_length_loop hs (Some parsed))"

definition content_length :: "(string \<times> string) list \<Rightarrow> nat res" where
  "content_length hs = content_length_loop hs None"

definition has_json_content_type :: "(string \<times> string) list \<Rightarrow> bool" where
  "has_json_content_type hs \<longleftrightarrow>
     list_ex (\<lambda>(name, v). lower_copy name = ''content-type'' \<and> find_str ''application/json'' (lower_copy v) \<noteq> None) hs"

definition split_target :: "http_request \<Rightarrow> http_request" where
  "split_target r =
     (case find_char CHR ''?'' (req_target r) of
        None \<Rightarrow> r\<lparr>req_path := req_target r, req_query := []\<rparr>
      | Some pos \<Rightarrow> r\<lparr>req_path := take pos (req_target r), req_query := drop (pos + 1) (req_target r)\<rparr>)"

definition crlf :: string where
  "crlf = [CHR 0x0D, CHR 0x0A]"

text \<open>The text from the cursor on; \<open>None\<close> when the cursor is beyond the end.\<close>

definition next_line :: "string \<Rightarrow> string \<times> string option" where
  "next_line rest =
     (case find_str crlf rest of
        None \<Rightarrow> (rest, None)
      | Some i \<Rightarrow> (take i rest, Some (drop (i + 2) rest)))"

definition parse_request_line :: "string \<Rightarrow> http_request \<Rightarrow> http_request res" where
  "parse_request_line line r =
     (let malformed = Inl ''request line is malformed or uses an unsupported HTTP version'' in
      case find_char CHR '' '' line of
        None \<Rightarrow> malformed
      | Some first \<Rightarrow>
          (case find_char CHR '' '' (drop (first + 1) line) of
             None \<Rightarrow> malformed
           | Some offset \<Rightarrow>
               (let second = first + 1 + offset in
                if first = 0 \<or> second = first + 1 \<or> second + 1 \<ge> length line
                  \<or> find_char CHR '' '' (drop (second + 1) line) \<noteq> None
                then malformed
                else
                  let r = r\<lparr>req_method := take first line,
                            req_target := take (second - first - 1) (drop (first + 1) line),
                            req_version := drop (second + 1) line\<rparr>
                  in if req_version r \<noteq> ''HTTP/1.1'' \<and> req_version r \<noteq> ''HTTP/1.0'' then malformed else Inr r)))"

definition forbidden_value_char :: "char \<Rightarrow> bool" where
  "forbidden_value_char ch \<longleftrightarrow> (code ch < 32 \<and> code ch \<noteq> 9) \<or> code ch = 127"

definition parse_header_line :: "string \<Rightarrow> (string \<times> string) res" where
  "parse_header_line line =
     (let malformed = Inl ''request contains a malformed HTTP header'' in
      case find_char CHR '':'' line of
        None \<Rightarrow> malformed
      | Some colon \<Rightarrow>
          if colon = 0 then malformed
          else let name = take colon line; v = trim_view (drop (colon + 1) line) in
            if \<not> list_all is_header_name_char name \<or> list_ex forbidden_value_char v then malformed
            else Inr (name, v))"

function parse_header_lines :: "string option \<Rightarrow> http_request \<Rightarrow> http_request res" where
  "parse_header_lines None r = Inr r"
| "parse_header_lines (Some rest) r =
     (case next_line rest of
        (line, rest') \<Rightarrow>
          if line = [] then Inr r
          else res_bind (parse_header_line line) (\<lambda>h. parse_header_lines rest' (r\<lparr>req_headers := req_headers r @ [h]\<rparr>)))"
  by pat_completeness auto

lemma find_str_length: "find_str n s = Some i \<Longrightarrow> i + length n \<le> length s"
proof (induction s arbitrary: i)
  case (Cons c s)
  show ?case
  proof (cases "take (length n) (c # s) = n")
    case True
    with Cons.prems have "i = 0" by simp
    moreover have "length n \<le> length (c # s)" by (metis True length_take min.cobounded1)
    ultimately show ?thesis by simp
  next
    case False
    with Cons.prems Cons.IH show ?thesis by auto
  qed
qed (simp split: if_splits)

lemma next_line_shorter: "next_line rest = (line, Some rest') \<Longrightarrow> length rest' < length rest"
  by (auto simp: next_line_def crlf_def split: option.splits dest!: find_str_length)

termination parse_header_lines
  by (relation "measure (\<lambda>(rest, r). case rest of None \<Rightarrow> 0 | Some s \<Rightarrow> Suc (length s))")
     (auto split: option.splits dest: next_line_shorter [OF sym])

definition parse_request_head :: "string \<Rightarrow> string \<Rightarrow> http_request res" where
  "parse_request_head raw_head client_ip =
     (case next_line raw_head of
        (first_line, rest) \<Rightarrow>
          res_bind (parse_request_line first_line (new_request\<lparr>req_client_ip := client_ip\<rparr>)) (\<lambda>r.
            res_map split_target (parse_header_lines rest r)))"

text \<open>\<^verbatim>\<open>decimal_size\<close> counts the digits of a number.\<close>

fun decimal_size :: "nat \<Rightarrow> nat" where
  "decimal_size v = (if v \<ge> 10 then decimal_size (v div 10) + 1 else 1)"

declare decimal_size.simps [simp del]

definition response_reason :: "http_response \<Rightarrow> string" where
  "response_reason r = (if reason r = [] then server_reason_phrase (status_code r) else reason r)"

definition response_head_size :: "http_response \<Rightarrow> bool \<Rightarrow> nat" where
  "response_head_size r include_content_length =
     (let n = 9 + decimal_size (nat (status_code r)) + 1 + length (response_reason r) + 2;
          n = foldl (\<lambda>n (name, v). n + (length name + 2 + length v + 2)) n (headers r);
          n = (if include_content_length then n + (16 + decimal_size (length (response_body r)) + 2) else n)
      in n + (19 + 2))"

definition response_head_text :: "http_response \<Rightarrow> bool \<Rightarrow> string" where
  "response_head_text r include_content_length =
     (let out = ''HTTP/1.1 '' @ string_of_int (status_code r) @ '' '' @ response_reason r @ crlf;
          out = foldl (\<lambda>out (name, v). out @ name @ '': '' @ v @ crlf) out (headers r);
          out = (if include_content_length
                 then out @ ''Content-Length: '' @ string_of_nat (length (response_body r)) @ crlf else out)
      in out @ ''Connection: close'' @ crlf @ crlf)"

text \<open>
  The head with the lease of its memory; without a budget there is no lease. \<open>None\<close> is the exception
  \<open>InflightBudgetExceeded\<close>.
\<close>

definition build_response_head ::
    "http_response \<Rightarrow> bool \<Rightarrow> bool \<Rightarrow> metrics \<Rightarrow> (lease option \<times> string) option \<times> metrics" where
  "build_response_head r include_content_length budgeted m =
     (if budgeted
      then (case budget_try_acquire (of_nat (response_head_size r include_content_length)) m of
              (None, m) \<Rightarrow> (None, m)
            | (Some memory, m) \<Rightarrow> (Some (Some memory, response_head_text r include_content_length), m))
      else (Some (None, response_head_text r include_content_length), m))"

subsection \<open>Header filter\<close>

definition is_standard_hop_by_hop_name :: "string \<Rightarrow> bool \<Rightarrow> bool" where
  "is_standard_hop_by_hop_name name request \<longleftrightarrow>
     (request \<and> name = ''host'')
     \<or> name \<in> {''content-length'', ''connection'', ''keep-alive'', ''proxy-authenticate'', ''proxy-authorization'',
               ''proxy-connection'', ''te'', ''trailer'', ''transfer-encoding'', ''upgrade''}"

definition token_matches :: "string \<Rightarrow> string \<Rightarrow> bool" where
  "token_matches token name \<longleftrightarrow>
     length token = length name \<and> list_all2 (\<lambda>l r. to_lower l = to_lower r) token name"

function token_loop :: "string \<Rightarrow> string \<Rightarrow> bool" where
  "token_loop v name =
     (case find_char CHR '','' v of
        None \<Rightarrow> token_matches (trim v) name
      | Some e \<Rightarrow> token_matches (trim (take e v)) name \<or> token_loop (drop (e + 1) v) name)"
  by pat_completeness auto
termination
  by (relation "measure (length \<circ> fst)") (auto simp: find_char_Some)

declare token_loop.simps [simp del]

definition connection_nominates :: "(string \<times> string) list \<Rightarrow> string \<Rightarrow> bool" where
  "connection_nominates hs name \<longleftrightarrow> list_ex (\<lambda>(n, v). lower_copy n = ''connection'' \<and> token_loop v name) hs"

definition filter_headers :: "(string \<times> string) list \<Rightarrow> bool \<Rightarrow> (string \<times> string) list" where
  "filter_headers hs request =
     filter (\<lambda>(name, v). \<not> is_standard_hop_by_hop_name (lower_copy name) request
                          \<and> \<not> connection_nominates hs (lower_copy name)) hs"

definition filter_request_headers :: "(string \<times> string) list \<Rightarrow> (string \<times> string) list" where
  "filter_request_headers hs = filter_headers hs True"

definition filter_response_headers :: "(string \<times> string) list \<Rightarrow> (string \<times> string) list" where
  "filter_response_headers hs = filter_headers hs False"

section \<open>Trimming\<close>

lemma trim_front_eq: "trim_front s = dropWhile is_space s"
  by (induction s) simp_all

lemma trim_back_eq: "trim_back s = rev (dropWhile is_space (rev s))"
proof (induction s rule: rev_induct)
  case Nil
  show ?case by (subst trim_back.simps) simp
next
  case (snoc c s)
  then show ?case by (subst trim_back.simps) simp
qed

lemma trim_view_eq: "trim_view s = trim s"
  by (simp add: trim_view_def trim_def trim_front_eq trim_back_eq)

definition trimmed :: "string \<Rightarrow> bool" where
  "trimmed s \<longleftrightarrow> s = [] \<or> (\<not> is_space (hd s) \<and> \<not> is_space (last s))"

lemma dropWhile_hd: "dropWhile P s \<noteq> [] \<Longrightarrow> \<not> P (hd (dropWhile P s))"
  by (rule hd_dropWhile) (auto dest: dropWhile_eq_Nil_conv [THEN iffD2])

lemma dropWhile_keeps: "s = [] \<or> \<not> P (hd s) \<Longrightarrow> dropWhile P s = s"
  by (cases s) auto

lemma trim_trimmed: "trimmed s \<Longrightarrow> trim s = s"
  using dropWhile_keeps [of s is_space] dropWhile_keeps [of "rev s" is_space]
  by (auto simp: trimmed_def trim_def hd_rev)

lemma trim_set: "set (trim s) \<subseteq> set s"
  by (auto simp: trim_def dest!: set_dropWhileD)

lemma trimmed_trim: "trimmed (trim s)"
proof (cases "trim s = []")
  case False
  let ?t = "dropWhile is_space s" and ?u = "dropWhile is_space (rev (dropWhile is_space s))"
  have u: "?u \<noteq> []" using False by (simp add: trim_def)
  then have "last (trim s) = hd ?u" "\<not> is_space (hd ?u)" by (simp_all add: trim_def last_rev dropWhile_hd)
  moreover have "?t \<noteq> []" using u by (metis dropWhile.simps(1) rev.simps(1))
  moreover have "\<exists>w. rev ?t = w @ ?u" by (metis takeWhile_dropWhile_id)
  then obtain w where "?t = rev ?u @ rev w" by (metis rev_append rev_rev_ident)
  then have "hd (trim s) = hd ?t" using u unfolding trim_def by (metis hd_append2 rev_is_Nil_conv)
  ultimately show ?thesis using dropWhile_hd [of is_space s] by (simp add: trimmed_def)
qed (simp add: trimmed_def)

section \<open>Body length\<close>

text \<open>The values of the headers with a given name, in any case.\<close>

definition header_values :: "string \<Rightarrow> (string \<times> string) list \<Rightarrow> string list" where
  "header_values name hs = map snd (filter (\<lambda>h. lower_copy (fst h) = name) hs)"

lemma content_length_loop_Inr:
  "content_length_loop hs result = Inr n \<longleftrightarrow>
     header_values ''transfer-encoding'' hs = []
     \<and> (case (result, header_values ''content-length'' hs) of
          (None, []) \<Rightarrow> n = 0
        | (None, [v]) \<Rightarrow> from_chars_all 18446744073709551615 (trim v) = Some n
        | (Some m, []) \<Rightarrow> n = m
        | _ \<Rightarrow> False)"
proof (induction hs result rule: content_length_loop.induct)
  case (1 result)
  then show ?case by (auto simp: header_values_def split: option.splits)
next
  case (2 name v hs result)
  have digits: "from_chars_all m t = Some k \<Longrightarrow> t \<noteq> [] \<and> list_all is_digit t" for m t k
    by (auto dest: from_chars_all_Some)
  consider "lower_copy name = ''transfer-encoding''"
    | "lower_copy name \<noteq> ''transfer-encoding''" "lower_copy name \<noteq> ''content-length''"
    | "lower_copy name = ''content-length''" by blast
  then show ?case
  proof cases
    case 3
    show ?thesis
    proof (cases "result = None \<and> trim v \<noteq> [] \<and> list_all is_digit (trim v) \<and> from_chars_all 18446744073709551615 (trim v) \<noteq> None")
      case True
      then obtain k where "from_chars_all 18446744073709551615 (trim v) = Some k" by blast
      with True 3 "2.IH"(2) show ?thesis
        by (auto simp: header_values_def split: list.splits)
    next
      case False
      with 3 digits show ?thesis
        by (auto simp: header_values_def split: option.splits list.splits)
    qed
  qed (use "2.IH" in \<open>auto simp: header_values_def\<close>)
qed

text \<open>
  C13: The length of a request body is taken exactly when it is unambiguous: there is no
  Transfer-Encoding header, and either no Content-Length header, for length 0, or a single one, whose value between blanks is a
  decimal number below \<open>2 ^ 64\<close>, for that number.
\<close>

theorem content_length_exact:
  "content_length hs = Inr n \<longleftrightarrow>
     header_values ''transfer-encoding'' hs = []
     \<and> (header_values ''content-length'' hs = [] \<and> n = 0
        \<or> (\<exists>v. header_values ''content-length'' hs = [v] \<and> trim v \<noteq> [] \<and> list_all is_digit (trim v)
              \<and> n = digits_value 0 (trim v) \<and> n < 2 ^ 64))"
  unfolding content_length_def content_length_loop_Inr
  by (auto simp: from_chars_all_def split: list.splits if_splits)

section \<open>Header filter\<close>

lemma token_loop_split: "token_loop v name \<longleftrightarrow> (\<exists>t \<in> set (split_on CHR '','' v). token_matches (trim t) name)"
proof (induction v name rule: token_loop.induct)
  case (1 v name)
  show ?case
  proof (cases "find_char CHR '','' v")
    case None
    then have "split_on CHR '','' v = [v]" by (simp add: split_on_free find_char_None)
    with None show ?thesis by (subst token_loop.simps) simp
  next
    case (Some e)
    then have "v = take e v @ CHR '','' # drop (e + 1) v" "CHR '','' \<notin> set (take e v)"
      using id_take_nth_drop [of e v] by (simp_all add: find_char_Some)
    then have "split_on CHR '','' v = take e v # split_on CHR '','' (drop (e + 1) v)" by (metis split_on_append)
    with 1 [OF Some] Some show ?thesis by (subst token_loop.simps) simp
  qed
qed

lemma token_matches_lower: "token_matches token (lower_copy name) \<longleftrightarrow> lower_copy token = lower_copy name"
  by (auto simp: token_matches_def lower_copy_def list_all2_conv_all_nth list_eq_iff_nth_eq)

text \<open>The names that a Connection header declares to be for this connection only.\<close>

definition nominated :: "(string \<times> string) list \<Rightarrow> string \<Rightarrow> bool" where
  "nominated hs name \<longleftrightarrow>
     (\<exists>v \<in> set (header_values ''connection'' hs). \<exists>t \<in> set (split_on CHR '','' v). lower_copy (trim t) = lower_copy name)"

lemma connection_nominates_iff: "connection_nominates hs (lower_copy name) \<longleftrightarrow> nominated hs name"
  by (auto simp: connection_nominates_def nominated_def list_ex_iff header_values_def token_loop_split token_matches_lower)

text \<open>
  C37: Of a message that is passed on, exactly the headers that are neither hop-by-hop by their
  name (for a request, also Host) nor named in a Connection header are kept, in their order and with
  their values; filtering once more changes nothing.
\<close>

theorem filter_headers_exact:
  "filter_headers hs request =
     filter (\<lambda>h. \<not> is_standard_hop_by_hop_name (lower_copy (fst h)) request \<and> \<not> nominated hs (fst h)) hs
   \<and> filter_headers (filter_headers hs request) request = filter_headers hs request"
proof -
  have eq: "filter_headers hs request =
      filter (\<lambda>h. \<not> is_standard_hop_by_hop_name (lower_copy (fst h)) request \<and> \<not> nominated hs (fst h)) hs" for hs
    unfolding filter_headers_def by (rule filter_cong) (auto simp: connection_nominates_iff)
  let ?fs = "filter_headers hs request"
  have "header_values ''connection'' ?fs = []"
    by (auto simp: header_values_def filter_empty_conv eq is_standard_hop_by_hop_name_def)
  then have "\<not> nominated ?fs name" for name by (simp add: nominated_def)
  then have "filter_headers ?fs request = ?fs" by (subst eq, intro filter_True) (auto simp: eq)
  with eq show ?thesis by blast
qed

section \<open>Response heads\<close>

lemma decimal_size_eq: "decimal_size n = length (string_of_nat n)"
proof (induction n rule: decimal_size.induct)
  case (1 n)
  then show ?case by (subst decimal_size.simps, subst string_of_nat.simps) auto
qed

lemma foldl_headers_text:
  "foldl (\<lambda>out (name, v). out @ name @ '': '' @ v @ crlf) out hs = out @ concat (map (\<lambda>(name, v). name @ '': '' @ v @ crlf) hs)"
  by (induction hs arbitrary: out) auto

lemma foldl_headers_size:
  "foldl (\<lambda>n (name, v). n + (length name + 2 + length v + 2)) n hs = n + length (concat (map (\<lambda>(name, v). name @ '': '' @ v @ crlf) hs))"
  by (induction hs arbitrary: n) (auto simp: crlf_def)

lemma response_head_size_eq:
  "0 \<le> status_code r \<Longrightarrow> response_head_size r b = length (response_head_text r b)"
  unfolding response_head_size_def response_head_text_def Let_def foldl_headers_size foldl_headers_text
  by (simp add: decimal_size_eq string_of_int_def crlf_def)

text \<open>
  A response head is refused exactly when its text does not fit in the memory budget; otherwise
  the lease that comes with it owns exactly the bytes of the text, and the budget counts them.
\<close>

theorem response_head_reserved:
  assumes "inflight_ok m" "0 \<le> status_code r" "length (response_head_text r b) < 2 ^ 64"
    and "build_response_head r b True m = (result, m')"
  shows "(result = None \<longleftrightarrow> inflight_used m + length (response_head_text r b) > inflight_cap m)
    \<and> (result \<noteq> None \<longrightarrow> (\<exists>l. result = Some (Some l, response_head_text r b) \<and> owned l = length (response_head_text r b)))
    \<and> inflight_used m' = inflight_used m + (if result = None then 0 else length (response_head_text r b))"
proof (intro conjI impI)
  let ?n = "of_nat (length (response_head_text r b)) :: u64"
  have n: "unat ?n = length (response_head_text r b)" using assms(3) by (simp add: unat_of_nat)
  obtain l m1 where acq: "budget_try_acquire ?n m = (l, m1)" by fastforce
  note got = budget_try_acquire_ok [OF assms(1) acq]
  have refused: "l = None \<longleftrightarrow> inflight_used m + unat ?n > inflight_cap m"
    using acq inflight.acquire_grants [OF assms(1), of ?n]
    by (auto simp: budget_try_acquire_def split: prod.splits bool.splits)
  have res: "result = map_option (\<lambda>l. (Some l, response_head_text r b)) l" "m' = m1"
    using assms(4) acq by (auto simp: build_response_head_def response_head_size_eq [OF assms(2)] split: option.splits)
  show "result = None \<longleftrightarrow> inflight_used m + length (response_head_text r b) > inflight_cap m"
    using refused res n by simp
  show "\<exists>l. result = Some (Some l, response_head_text r b) \<and> owned l = length (response_head_text r b)" if "result \<noteq> None"
    using that res got n by (cases l) auto
  show "inflight_used m' = inflight_used m + (if result = None then 0 else length (response_head_text r b))"
    using res got n by (cases l) auto
qed

definition sample_response :: http_response where
  "sample_response = \<lparr>status_code = 404, reason = [], headers = [(''Content-Type'', ''application/json'')], response_body = ''{}''\<rparr>"

definition sample_budget :: metrics where
  "sample_budget = (\<lambda>_. 0)(InflightM InflightBudgetBytes := 1000)"

theorem response_head_reserved_witness:
  "\<exists>l. fst (build_response_head sample_response True True sample_budget) = Some (Some l, response_head_text sample_response True)
     \<and> owned l = 96"
proof -
  obtain result m' where b: "build_response_head sample_response True True sample_budget = (result, m')" by fastforce
  have len: "length (response_head_text sample_response True) = 96" by code_simp
  have ok: "inflight_ok sample_budget" "inflight_used sample_budget = 0" "inflight_cap sample_budget = 1000"
    by (simp_all add: inflight_ok_def sample_budget_def inflight_used_def inflight_cap_def)
  have "0 \<le> status_code sample_response" by (simp add: sample_response_def)
  note reserved = response_head_reserved [OF ok(1) this _ b]
  have "result \<noteq> None" using reserved len ok by simp
  then show ?thesis using reserved len b by auto
qed

section \<open>Request heads\<close>

text \<open>The head a client sends, and what it may contain to be read back.\<close>

definition request_head_text :: "string \<Rightarrow> string \<Rightarrow> string \<Rightarrow> (string \<times> string) list \<Rightarrow> string" where
  "request_head_text method target version hs =
     method @ '' '' @ target @ '' '' @ version @ concat (map (\<lambda>(name, v). crlf @ name @ '': '' @ v) hs)"

definition token_text :: "string \<Rightarrow> bool" where
  "token_text s \<longleftrightarrow> s \<noteq> [] \<and> CHR '' '' \<notin> set s \<and> CHR 0x0D \<notin> set s"

definition header_ok :: "string \<times> string \<Rightarrow> bool" where
  "header_ok h \<longleftrightarrow> fst h \<noteq> [] \<and> list_all is_header_name_char (fst h)
     \<and> trimmed (snd h) \<and> \<not> list_ex forbidden_value_char (snd h)"

lemma header_name_char_plain:
  "list_all is_header_name_char s \<Longrightarrow> CHR '':'' \<notin> set s \<and> CHR 0x0D \<notin> set s \<and> CHR 0x0A \<notin> set s"
  by (auto simp: list_all_iff is_header_name_char_def byte_simps)

lemma value_char_plain: "\<not> list_ex forbidden_value_char s \<Longrightarrow> CHR 0x0D \<notin> set s \<and> CHR 0x0A \<notin> set s"
  by (auto simp: list_ex_iff forbidden_value_char_def)

lemma find_crlf_first:
  "CHR 0x0D \<notin> set s \<Longrightarrow> find_str crlf (s @ crlf @ t) = Some (length s)"
proof (induction s)
  case Nil
  show ?case by (simp add: crlf_def)
next
  case (Cons c s)
  then have "take (length crlf) ((c # s) @ crlf @ t) \<noteq> crlf" by (auto simp: crlf_def)
  with Cons show ?case by simp
qed

lemma find_crlf_none: "CHR 0x0D \<notin> set s \<Longrightarrow> find_str crlf s = None"
  by (induction s) (auto simp: crlf_def)

lemma next_line_crlf: "CHR 0x0D \<notin> set s \<Longrightarrow> next_line (s @ crlf @ t) = (s, Some t)"
  by (simp add: next_line_def find_crlf_first) (simp add: crlf_def)

lemma next_line_last: "CHR 0x0D \<notin> set s \<Longrightarrow> next_line s = (s, None)"
  by (simp add: next_line_def find_crlf_none)

lemma trim_blank: "trim (CHR '' '' # s) = trim s"
  by (simp add: trim_def byte_simps)

lemma parse_header_line_text:
  assumes "header_ok (name, v)"
  shows "parse_header_line (name @ '': '' @ v) = Inr (name, v)"
proof -
  have "find_char CHR '':'' (name @ CHR '':'' # CHR '' '' # v) = Some (length name)"
    using assms header_name_char_plain [of name] by (intro find_char_append) (simp add: header_ok_def)
  with assms show ?thesis
    by (simp add: parse_header_line_def header_ok_def trim_view_eq trim_blank trim_trimmed)
qed

lemma parse_header_lines_text:
  assumes "list_all header_ok hs" "hs \<noteq> []"
  shows "parse_header_lines (Some (drop 2 (concat (map (\<lambda>(name, v). crlf @ name @ '': '' @ v) hs)))) r
    = Inr (r\<lparr>req_headers := req_headers r @ hs\<rparr>)"
  using assms
proof (induction hs arbitrary: r)
  case (Cons h hs)
  obtain name v where h: "h = (name, v)" by fastforce
  have ok: "header_ok (name, v)" using Cons.prems(1) h by simp
  let ?line = "name @ '': '' @ v"
  have cr: "CHR 0x0D \<notin> set ?line" "?line \<noteq> []"
    using ok header_name_char_plain [of name] value_char_plain [of v] by (auto simp: header_ok_def)
  show ?case
  proof (cases "hs = []")
    case True
    then show ?thesis using cr h next_line_last [OF cr(1)] parse_header_line_text [OF ok] by (simp add: crlf_def)
  next
    case False
    let ?rest = "concat (map (\<lambda>(name, v). crlf @ name @ '': '' @ v) hs)"
    have "?rest = crlf @ drop 2 ?rest" using False by (cases hs) (auto simp: crlf_def)
    then have "next_line (?line @ ?rest) = (?line, Some (drop 2 ?rest))" by (metis next_line_crlf [OF cr(1)])
    then have "parse_header_lines (Some (?line @ ?rest)) r
        = parse_header_lines (Some (drop 2 ?rest)) (r\<lparr>req_headers := req_headers r @ [(name, v)]\<rparr>)"
      using cr(2) parse_header_line_text [OF ok] by simp
    also have "\<dots> = Inr (r\<lparr>req_headers := req_headers r @ h # hs\<rparr>)"
      using Cons.IH [OF _ False] Cons.prems(1) h by simp
    finally show ?thesis using h by (simp add: crlf_def)
  qed
qed simp

lemma parse_request_line_text:
  assumes "token_text method" "token_text target" "version = ''HTTP/1.1'' \<or> version = ''HTTP/1.0''"
  shows "parse_request_line (method @ '' '' @ target @ '' '' @ version) r
    = Inr (r\<lparr>req_method := method, req_target := target, req_version := version\<rparr>)"
proof -
  have first: "find_char CHR '' '' (method @ CHR '' '' # target @ CHR '' '' # version) = Some (length method)"
    and second: "find_char CHR '' '' (target @ CHR '' '' # version) = Some (length target)"
    using assms(1,2) by (auto simp: token_text_def intro: find_char_append)
  have "CHR '' '' \<notin> set version" using assms(3) by auto
  then have third: "find_char CHR '' '' version = None" by (simp add: find_char_None)
  have "version \<noteq> []" using assms(3) by auto
  with assms first second third show ?thesis
    by (auto simp: parse_request_line_def Let_def token_text_def)
qed

text \<open>
  A request head that is well formed is read back exactly: method, version and headers as they
  were sent, and the target split at its first question mark.
\<close>

theorem request_head_roundtrip:
  assumes "token_text method" "token_text path" "CHR ''?'' \<notin> set path" "CHR '' '' \<notin> set query" "CHR 0x0D \<notin> set query"
    and "version = ''HTTP/1.1'' \<or> version = ''HTTP/1.0''" "list_all header_ok hs"
  shows "parse_request_head (request_head_text method (path @ ''?'' @ query) version hs) ip
    = Inr \<lparr>req_request_id = [], req_method = method, req_target = path @ ''?'' @ query, req_path = path, req_query = query,
           req_version = version, req_headers = hs, req_body_memory = None, req_body = [], req_client_ip = ip\<rparr>"
    (is "?parse = Inr ?request")
proof -
  let ?target = "path @ ''?'' @ query" and ?hs = "concat (map (\<lambda>(name, v). crlf @ name @ '': '' @ v) hs)"
  let ?line = "method @ '' '' @ ?target @ '' '' @ version"
  have target: "token_text ?target" using assms(2,4,5) by (auto simp: token_text_def)
  have cr: "CHR 0x0D \<notin> set ?line" using assms(1,5,6) target by (auto simp: token_text_def)
  let ?r = "new_request\<lparr>req_client_ip := ip, req_method := method, req_target := ?target, req_version := version\<rparr>"
  have line: "parse_request_line ?line (new_request\<lparr>req_client_ip := ip\<rparr>) = Inr ?r"
    using parse_request_line_text [OF assms(1) target assms(6), of "new_request\<lparr>req_client_ip := ip\<rparr>"] by simp
  have "\<exists>rest. next_line (?line @ ?hs) = (?line, rest) \<and> parse_header_lines rest ?r = Inr (?r\<lparr>req_headers := hs\<rparr>)"
  proof (cases "hs = []")
    case True
    then show ?thesis using next_line_last [OF cr] by (simp add: new_request_def)
  next
    case False
    then have "?hs = crlf @ drop 2 ?hs" by (cases hs) (auto simp: crlf_def)
    then have "next_line (?line @ ?hs) = (?line, Some (drop 2 ?hs))" by (metis next_line_crlf [OF cr])
    moreover have "req_headers ?r = []" by (simp add: new_request_def)
    ultimately show ?thesis using parse_header_lines_text [OF assms(7) False, of ?r] by simp
  qed
  then obtain rest where "next_line (?line @ ?hs) = (?line, rest)" "parse_header_lines rest ?r = Inr (?r\<lparr>req_headers := hs\<rparr>)"
    by blast
  moreover have "find_char CHR ''?'' ?target = Some (length path)"
    using assms(3) find_char_append [of "CHR ''?''" path query] by simp
  ultimately show ?thesis
    using line by (simp add: parse_request_head_def request_head_text_def split_target_def new_request_def)
qed

theorem request_head_roundtrip_witness:
  "parse_request_head (request_head_text ''GET'' (''/v1'' @ ''?'' @ ''a=b'') ''HTTP/1.1'' [(''Host'', ''x'')]) ''::1''
    = Inr \<lparr>req_request_id = [], req_method = ''GET'', req_target = ''/v1'' @ ''?'' @ ''a=b'', req_path = ''/v1'', req_query = ''a=b'',
           req_version = ''HTTP/1.1'', req_headers = [(''Host'', ''x'')], req_body_memory = None, req_body = [], req_client_ip = ''::1''\<rparr>"
  by (rule request_head_roundtrip)
     (simp_all add: token_text_def header_ok_def is_header_name_char_def trimmed_def forbidden_value_char_def byte_simps)

lemma parse_header_line_ok: "parse_header_line line = Inr h \<Longrightarrow> header_ok h"
  using trimmed_trim
  by (auto simp: parse_header_line_def header_ok_def Let_def trim_view_eq find_char_Some list_all_iff list_ex_iff
      split: option.splits if_splits)

lemma parse_header_lines_ok:
  "parse_header_lines rest r = Inr r' \<Longrightarrow> \<exists>hs. r' = r\<lparr>req_headers := req_headers r @ hs\<rparr> \<and> list_all header_ok hs"
proof (induction rest r rule: parse_header_lines.induct)
  case (1 r)
  then show ?case by (intro exI [of _ "[]"]) simp
next
  case (2 rest r)
  obtain line rest' where n: "next_line rest = (line, rest')" by fastforce
  show ?case
  proof (cases "line = []")
    case True
    with 2 n show ?thesis by (intro exI [of _ "[]"]) simp
  next
    case False
    with 2 n obtain h where h: "parse_header_line line = Inr h"
      "parse_header_lines rest' (r\<lparr>req_headers := req_headers r @ [h]\<rparr>) = Inr r'" by auto
    from "2.IH" [OF n [symmetric] False h] parse_header_line_ok [OF h(1)]
    show ?thesis by (auto intro: exI [of _ "h # _"])
  qed
qed

lemma parse_request_line_ok:
  assumes "parse_request_line line r = Inr r'"
  shows "\<exists>m t v. r' = r\<lparr>req_method := m, req_target := t, req_version := v\<rparr> \<and> m \<noteq> [] \<and> t \<noteq> []
    \<and> CHR '' '' \<notin> set m \<and> CHR '' '' \<notin> set t \<and> (v = ''HTTP/1.1'' \<or> v = ''HTTP/1.0'')"
proof -
  obtain i j where i: "find_char CHR '' '' line = Some i" "i \<noteq> 0"
    and j: "find_char CHR '' '' (drop (i + 1) line) = Some j" "j \<noteq> 0"
    and v: "drop (i + 1 + j + 1) line = ''HTTP/1.1'' \<or> drop (i + 1 + j + 1) line = ''HTTP/1.0''"
    and r': "r' = r\<lparr>req_method := take i line, req_target := take j (drop (i + 1) line), req_version := drop (i + 1 + j + 1) line\<rparr>"
    using assms by (auto simp: parse_request_line_def Let_def split: option.splits if_splits)
  have "take i line \<noteq> []" "CHR '' '' \<notin> set (take i line)" "take j (drop (i + 1) line) \<noteq> []"
    "CHR '' '' \<notin> set (take j (drop (i + 1) line))"
    using i j by (auto simp: find_char_Some)
  with v r' show ?thesis by blast
qed



end
