(* ===== verification/HttpReceive.thy ===== *)
theory HttpReceive
  imports HttpMessage "HOL-Library.Code_Target_Nat"
begin

text \<open>
  Reading a request from a socket: \<open>recv_request\<close> of \<^verbatim>\<open>src/server/server.cpp\<close>, with the memory it takes
  from the budget. The socket is the list of what its calls return, in order: some bytes (none of
  them when the peer has closed), the error that means "try again", any other error, or the server being
  stopped before or after a call. At the end of the list the read is still waiting. Shown here: which
  bytes become head and body however they were split, that exactly the bytes of head and body stay reserved
  and every other path returns all memory, and that no client can keep the server reading beyond the limits.
\<close>

section \<open>Model\<close>

datatype recv_event = Arrived string | WouldBlock | Broken | Stopping

datatype recv_outcome = Bytes string | ReadFailed | ReadStopped | ReadWaiting

datatype recv_error =
    ClientReadStopped
  | InvalidHttpRequest string
  | InflightBudgetExceeded
  | RequestFailed string
  | StillReading

definition kHeaderLimit :: nat where
  "kHeaderLimit = 64 * 1024"

fun recv_with_stop :: "recv_event list \<Rightarrow> recv_outcome \<times> recv_event list" where
  "recv_with_stop [] = (ReadWaiting, [])"
| "recv_with_stop (Stopping # es) = (ReadStopped, es)"
| "recv_with_stop (Arrived d # es) = (Bytes d, es)"
| "recv_with_stop (WouldBlock # es) = recv_with_stop es"
| "recv_with_stop (Broken # es) = (ReadFailed, es)"

text \<open>Code that may throw while it holds the lease of the request.\<close>

type_synonym 'a leased = "(recv_error + 'a) \<times> lease \<times> metrics"

definition lbind :: "'a leased \<Rightarrow> ('a \<Rightarrow> lease \<Rightarrow> metrics \<Rightarrow> 'b leased) \<Rightarrow> 'b leased" where
  "lbind x f = (case x of (Inl e, l, m) \<Rightarrow> (Inl e, l, m) | (Inr a, l, m) \<Rightarrow> f a l m)"

definition grow_request_memory :: "nat \<Rightarrow> lease \<Rightarrow> metrics \<Rightarrow> unit leased" where
  "grow_request_memory bytes l m =
     (if bytes = 0 then (Inr (), l, m)
      else case lease_try_grow (of_nat bytes) l m of
        (True, l, m) \<Rightarrow> (Inr (), l, m)
      | (False, l, m) \<Rightarrow> (Inl InflightBudgetExceeded, l, m))"

lemma recv_shorter: "recv_with_stop es = (Bytes d, es') \<Longrightarrow> length es' < length es"
  by (induction es rule: recv_with_stop.induct) auto

definition header_terminator :: string where
  "header_terminator = crlf @ crlf"

text \<open>The checks on a chunk of the head, and what follows from the bytes read so far.\<close>

definition too_large :: "nat \<Rightarrow> string \<Rightarrow> string \<Rightarrow> bool" where
  "too_large limit buffer d \<longleftrightarrow> length d > limit - min limit (length buffer)"

definition header_too_large :: "string \<Rightarrow> bool" where
  "header_too_large buffer \<longleftrightarrow>
     (case find_str header_terminator buffer of
        None \<Rightarrow> length buffer > kHeaderLimit
      | Some header_end \<Rightarrow> header_end + 4 > kHeaderLimit)"

function head_loop ::
    "nat \<Rightarrow> recv_event list \<Rightarrow> string \<Rightarrow> lease \<Rightarrow> metrics \<Rightarrow> (string \<times> nat \<times> recv_event list) leased" where
  "head_loop max_body es buffer l m =
     (case recv_with_stop es of
        (ReadStopped, _) \<Rightarrow> (Inl ClientReadStopped, l, m)
      | (ReadWaiting, _) \<Rightarrow> (Inl StillReading, l, m)
      | (ReadFailed, _) \<Rightarrow>
          (Inl (RequestFailed (if buffer = [] then ''client disconnected before request'' else ''failed to read request'')), l, m)
      | (Bytes d, es') \<Rightarrow>
          if d = []
          then (Inl (RequestFailed (if buffer = [] then ''client disconnected before request'' else ''failed to read request'')), l, m)
          else if too_large (kHeaderLimit + max_body) buffer d then (Inl (RequestFailed ''request too large''), l, m)
          else lbind (grow_request_memory (length d) l m) (\<lambda>_ l m.
            if header_too_large (buffer @ d) then (Inl (RequestFailed ''request headers too large''), l, m)
            else case find_str header_terminator (buffer @ d) of
              Some header_end \<Rightarrow> (Inr (buffer @ d, header_end, es'), l, m)
            | None \<Rightarrow> head_loop max_body es' (buffer @ d) l m))"
  by pat_completeness auto
termination
  by (relation "measure (\<lambda>(_, es, _). length es)") (auto dest: recv_shorter [OF sym])

declare head_loop.simps [simp del]

function body_loop :: "nat \<Rightarrow> recv_event list \<Rightarrow> string \<Rightarrow> lease \<Rightarrow> metrics \<Rightarrow> (string \<times> recv_event list) leased" where
  "body_loop wanted es buffer l m =
     (if length buffer \<ge> wanted then (Inr (buffer, es), l, m)
      else case recv_with_stop es of
        (ReadStopped, _) \<Rightarrow> (Inl ClientReadStopped, l, m)
      | (ReadWaiting, _) \<Rightarrow> (Inl StillReading, l, m)
      | (ReadFailed, _) \<Rightarrow> (Inl (RequestFailed ''failed to read request body''), l, m)
      | (Bytes d, es') \<Rightarrow>
          if d = [] then (Inl (RequestFailed ''failed to read request body''), l, m)
          else if too_large (wanted + 4) buffer d then (Inl (RequestFailed ''request too large''), l, m)
          else lbind (grow_request_memory (length d) l m) (\<lambda>_ l m. body_loop wanted es' (buffer @ d) l m))"
  by pat_completeness auto
termination
  by (relation "measure (\<lambda>(_, es, _). length es)") (auto dest: recv_shorter [OF sym])

declare body_loop.simps [simp del]

definition extra_separator :: "http_request \<Rightarrow> string \<Rightarrow> nat \<Rightarrow> nat \<Rightarrow> bool" where
  "extra_separator request buffer body_start expected_body \<longleftrightarrow>
     expected_body > 0 \<and> has_json_content_type (req_headers request)
     \<and> length buffer \<ge> body_start + 4 \<and> take 4 (drop body_start buffer) = header_terminator
     \<and> length buffer \<ge> body_start + 4 + expected_body"

definition recv_body ::
    "nat \<Rightarrow> http_request \<Rightarrow> nat \<Rightarrow> nat \<Rightarrow> recv_event list \<Rightarrow> string \<Rightarrow> lease \<Rightarrow> metrics \<Rightarrow> (http_request \<times> nat \<times> recv_event list) leased" where
  "recv_body max_body request header_end expected_body es buffer l m =
     (if expected_body > max_body then (Inl (RequestFailed ''request body too large''), l, m)
      else
        lbind (grow_request_memory expected_body l m) (\<lambda>_ l m.
          lbind (body_loop (header_end + 4 + expected_body) es buffer l m) (\<lambda>(buffer, es) l m.
            let start = (if extra_separator request buffer (header_end + 4) expected_body then header_end + 8 else header_end + 4);
                (l, m) = lease_shrink (of_nat (length buffer)) l m
            in (Inr (request\<lparr>req_body := take expected_body (drop start buffer)\<rparr>, expected_body, es), l, m))))"

definition recv_head_and_body ::
    "nat \<Rightarrow> string \<Rightarrow> recv_event list \<Rightarrow> lease \<Rightarrow> metrics \<Rightarrow> (http_request \<times> nat \<times> recv_event list) leased" where
  "recv_head_and_body max_body client_ip es l m =
     lbind (head_loop max_body es [] l m) (\<lambda>(buffer, header_end, es) l m.
       lbind (grow_request_memory header_end l m) (\<lambda>_ l m.
         case parse_request_head (take header_end buffer) client_ip of
           Inl e \<Rightarrow> (Inl (InvalidHttpRequest e), l, m)
         | Inr request \<Rightarrow>
             (case content_length (req_headers request) of
                Inl e \<Rightarrow> (Inl (InvalidHttpRequest e), l, m)
              | Inr expected_body \<Rightarrow> recv_body max_body request header_end expected_body es buffer l m)))"

text \<open>
  The request with its lease and the bytes of its body in the lease; an exception destroys the lease.
\<close>

definition recv_request ::
    "nat \<Rightarrow> string \<Rightarrow> recv_event list \<Rightarrow> metrics \<Rightarrow> (recv_error + (http_request \<times> lease \<times> nat \<times> recv_event list)) \<times> metrics" where
  "recv_request max_body client_ip es m =
     (case budget_try_acquire 0 m of
        (None, m) \<Rightarrow> (Inl InflightBudgetExceeded, m)
      | (Some memory, m) \<Rightarrow>
          (case recv_head_and_body max_body client_ip es memory m of
             (Inl e, l, m) \<Rightarrow> (Inl e, snd (lease_reset l m))
           | (Inr (request, n, es), l, m) \<Rightarrow> (Inr (request, l, n, es), m)))"

section \<open>Memory\<close>

text \<open>The lease is alive, and everything above \<open>base\<close> is in it.\<close>

definition linv :: "nat \<Rightarrow> lease \<Rightarrow> metrics \<Rightarrow> bool" where
  "linv base l m \<longleftrightarrow> inflight_ok m \<and> lease_valid l \<and> inflight_used m = base + owned l"

lemma grow_spec:
  assumes "linv base l m" "n < 2 ^ 64" "grow_request_memory n l m = (r, l', m')"
  shows "linv base l' m' \<and> owned l' = owned l + (case r of Inl _ \<Rightarrow> 0 | Inr _ \<Rightarrow> n)"
proof (cases "n = 0")
  case True
  with assms show ?thesis by (auto simp: grow_request_memory_def)
next
  case False
  obtain b l1 m1 where g: "lease_try_grow (of_nat n) l m = (b, l1, m1)" by (metis prod_cases3)
  have ok: "inflight_ok m" "owned l \<le> inflight_used m" "lease_valid l" using assms(1) by (simp_all add: linv_def)
  note spec = lease_try_grow_spec [OF ok(1,2) g]
  have n: "unat (of_nat n :: u64) = n" "(of_nat n :: u64) \<noteq> 0" using assms(2) False by (simp_all add: unat_of_nat unat_eq_zero [symmetric])
  have "owned l1 = owned l + (if b then n else 0)"
  proof -
    obtain b2 m2 where t: "try_acquire_inflight (of_nat n) m = (b2, m2)" by fastforce
    have used: "inflight_used m2 = (if b2 then inflight_used m + n else inflight_used m)"
      using inflight.acquire_used [OF ok(1), of "of_nat n"] t n(1) by simp
    have "b2 = b" "m2 = m1" using g t ok(3) n(2) by (auto simp: lease_try_grow_def split: bool.splits)
    with spec used show ?thesis by (auto split: if_splits)
  qed
  with assms(1,3) False g spec show ?thesis
    by (cases b) (auto simp: grow_request_memory_def linv_def)
qed

lemma lbind_Inr: "lbind x f = (Inr b, l', m') \<longleftrightarrow> (\<exists>a l m. x = (Inr a, l, m) \<and> f a l m = (Inr b, l', m'))"
  by (auto simp: lbind_def split: prod.splits sum.splits)

lemma lbind_cases:
  assumes "lbind x f = (r, l', m')"
  obtains e where "x = (Inl e, l', m')" "r = Inl e" | a l m where "x = (Inr a, l, m)" "f a l m = (r, l', m')"
  using assms by (auto simp: lbind_def split: prod.splits sum.splits)

section \<open>The loops\<close>

fun arrived :: "recv_event list \<Rightarrow> string" where
  "arrived [] = []"
| "arrived (Arrived d # es) = d @ arrived es"
| "arrived (_ # es) = arrived es"

lemma recv_bytes: "recv_with_stop es = (Bytes d, es') \<Longrightarrow> arrived es = d @ arrived es'"
  by (induction es rule: recv_with_stop.induct) auto

lemma recv_waiting: "recv_with_stop es = (ReadWaiting, es') \<Longrightarrow> arrived es = []"
  by (induction es rule: recv_with_stop.induct) auto

lemma not_too_large: "\<not> too_large limit buffer d \<Longrightarrow> length buffer \<le> limit \<Longrightarrow> length (buffer @ d) \<le> limit"
  by (auto simp: too_large_def)

lemma head_loop_spec:
  assumes "linv base l m" "owned l = length buffer" "length buffer \<le> kHeaderLimit + max_body" "kHeaderLimit + max_body < 2 ^ 63"
    and "head_loop max_body es buffer l m = (r, l', m')"
  shows "linv base l' m'
    \<and> (\<forall>b i es'. r = Inr (b, i, es') \<longrightarrow> owned l' = length b \<and> length b \<le> kHeaderLimit + max_body
         \<and> find_str header_terminator b = Some i \<and> i + 4 \<le> kHeaderLimit \<and> buffer @ arrived es = b @ arrived es')
    \<and> (r = Inl StillReading \<longrightarrow> length (buffer @ arrived es) \<le> kHeaderLimit + max_body)"
  using assms
proof (induction max_body es buffer l m rule: head_loop.induct)
  case (1 max_body es buffer l m)
  obtain out es' where rec: "recv_with_stop es = (out, es')" by fastforce
  show ?case
  proof (cases "\<exists>d. out = Bytes d \<and> d \<noteq> [] \<and> \<not> too_large (kHeaderLimit + max_body) buffer d")
    case False
    with 1 rec recv_waiting [of es es'] show ?thesis
      by (subst (asm) head_loop.simps) (auto split: recv_outcome.splits if_splits)
  next
    case True
    then obtain d where d: "out = Bytes d" "d \<noteq> []" "\<not> too_large (kHeaderLimit + max_body) buffer d" by blast
    have fits: "length (buffer @ d) \<le> kHeaderLimit + max_body" by (rule not_too_large [OF d(3) "1.prems"(3)])
    obtain g l1 m1 where g: "grow_request_memory (length d) l m = (g, l1, m1)" by (metis prod_cases3)
    have "length d < 2 ^ 64" using fits "1.prems"(4) by simp
    note grown = grow_spec [OF "1.prems"(1) this g]
    have loop: "head_loop max_body es buffer l m = lbind (g, l1, m1) (\<lambda>_ l m.
        if header_too_large (buffer @ d) then (Inl (RequestFailed ''request headers too large''), l, m)
        else case find_str header_terminator (buffer @ d) of
          Some header_end \<Rightarrow> (Inr (buffer @ d, header_end, es'), l, m)
        | None \<Rightarrow> head_loop max_body es' (buffer @ d) l m)"
      using rec d g by (subst head_loop.simps) simp
    show ?thesis
    proof (cases g)
      case (Inl e)
      then have "e = InflightBudgetExceeded" using g by (auto simp: grow_request_memory_def split: if_splits prod.splits bool.splits)
      with Inl loop "1.prems"(5) grown show ?thesis by (auto simp: lbind_def)
    next
      case (Inr u)
      have own: "linv base l1 m1" "owned l1 = length (buffer @ d)" using grown Inr "1.prems"(2) by simp_all
      have stream: "buffer @ arrived es = (buffer @ d) @ arrived es'" using recv_bytes rec d(1) by simp
      show ?thesis
      proof (cases "header_too_large (buffer @ d) \<or> find_str header_terminator (buffer @ d) \<noteq> None")
        case True
        with Inr loop "1.prems"(5) own fits stream show ?thesis
          by (auto simp: lbind_def header_too_large_def split: if_splits option.splits)
      next
        case False
        then have "head_loop max_body es' (buffer @ d) l1 m1 = (r, l', m')"
          using Inr loop "1.prems"(5) by (simp add: lbind_def)
        from "1.IH" [OF rec [symmetric] d(1,2,3) _ _ own fits "1.prems"(4) this] False stream
        show ?thesis by simp
      qed
    qed
  qed
qed

lemma grow_error: "grow_request_memory n l m = (Inl e, l', m') \<Longrightarrow> e = InflightBudgetExceeded"
  by (auto simp: grow_request_memory_def split: if_splits prod.splits bool.splits)

lemma body_loop_spec:
  assumes "linv base l m" "owned l = k + length buffer" "length buffer \<le> limit" "wanted + 4 \<le> limit" "limit < 2 ^ 63"
    and "body_loop wanted es buffer l m = (r, l', m')"
  shows "linv base l' m'
    \<and> (\<forall>b es'. r = Inr (b, es') \<longrightarrow> owned l' = k + length b \<and> length b \<le> limit \<and> wanted \<le> length b
         \<and> buffer @ arrived es = b @ arrived es')
    \<and> (r = Inl StillReading \<longrightarrow> length (buffer @ arrived es) \<le> limit)"
  using assms
proof (induction wanted es buffer l m rule: body_loop.induct)
  case (1 wanted es buffer l m)
  obtain out es' where rec: "recv_with_stop es = (out, es')" by fastforce
  show ?case
  proof (cases "length buffer < wanted \<and> (\<exists>d. out = Bytes d \<and> d \<noteq> [] \<and> \<not> too_large (wanted + 4) buffer d)")
    case False
    with 1 rec recv_waiting [of es es'] show ?thesis
      by (subst (asm) body_loop.simps) (auto split: recv_outcome.splits if_splits)
  next
    case True
    then obtain d where d: "\<not> wanted \<le> length buffer" "out = Bytes d" "d \<noteq> []" "\<not> too_large (wanted + 4) buffer d" by auto
    have fits: "length (buffer @ d) \<le> limit" using not_too_large [OF d(4)] d(1) "1.prems"(4) by simp
    obtain g l1 m1 where g: "grow_request_memory (length d) l m = (g, l1, m1)" by (metis prod_cases3)
    have "length d < 2 ^ 64" using fits "1.prems"(5) by simp
    note grown = grow_spec [OF "1.prems"(1) this g]
    have loop: "lbind (g, l1, m1) (\<lambda>_ l m. body_loop wanted es' (buffer @ d) l m) = (r, l', m')"
      using rec d g "1.prems"(6) by (subst (asm) body_loop.simps) simp
    show ?thesis
    proof (cases g)
      case (Inl e)
      with loop grown grow_error [of "length d" l m e] g show ?thesis by (auto simp: lbind_def)
    next
      case (Inr u)
      have own: "linv base l1 m1" "owned l1 = k + length (buffer @ d)" using grown Inr "1.prems"(2) by simp_all
      have next': "body_loop wanted es' (buffer @ d) l1 m1 = (r, l', m')" using Inr loop by (simp add: lbind_def)
      from "1.IH" [OF d(1) rec [symmetric] d(2,3,4) own fits "1.prems"(4,5) next'] recv_bytes rec d(2)
      show ?thesis by simp
    qed
  qed
qed

lemma find_str_append: "find_str n s = Some i \<Longrightarrow> find_str n (s @ t) = Some i"
proof (induction s arbitrary: i)
  case Nil
  then show ?case by (cases t) (auto split: if_splits)
next
  case (Cons c s)
  show ?case
  proof (cases "take (length n) (c # s) = n")
    case True
    then have "length n \<le> length (c # s)" by (metis length_take min.cobounded1)
    with True Cons.prems show ?thesis by (cases n) auto
  next
    case False
    with Cons.prems obtain j where j: "find_str n s = Some j" "i = Suc j" by auto
    have "Suc (length s) \<ge> length n" using find_str_length [OF j(1)] by simp
    with False have "take (length n) (c # s @ t) \<noteq> n" by (cases n) auto
    with Cons.IH [OF j(1)] j(2) show ?thesis by simp
  qed
qed

lemma find_str_take:
  "find_str n (s @ t) = Some i \<Longrightarrow> i + length n \<le> length s \<Longrightarrow> find_str n s = Some i"
proof (induction s arbitrary: i)
  case Nil
  then show ?case by simp
next
  case (Cons c s)
  show ?case
  proof (cases "take (length n) (c # s @ t) = n")
    case True
    with Cons.prems have "i = 0" "length n \<le> length (c # s)" by auto
    then have "take (length n) (c # s) = n" using True by (cases n) auto
    with \<open>i = 0\<close> show ?thesis by simp
  next
    case False
    with Cons.prems obtain j where j: "find_str n (s @ t) = Some j" "i = Suc j" by auto
    then have "length n \<le> length (c # s)" using Cons.prems(2) by simp
    then have "take (length n) (c # s) \<noteq> n" using False by (cases n) auto
    with Cons.IH [OF j(1)] j(2) Cons.prems(2) show ?thesis by simp
  qed
qed

section \<open>Properties\<close>

lemma recv_body_spec:
  assumes "linv base l m" "owned l = i + length buffer" "length buffer \<le> kHeaderLimit + max_body" "i + 4 \<le> kHeaderLimit"
    and "kHeaderLimit + max_body + 4 < 2 ^ 63" "recv_body max_body request i n es buffer l m = (r, l', m')"
  shows "linv base l' m'
    \<and> (\<forall>q n' es'. r = Inr (q, n', es') \<longrightarrow> n' = n \<and> n \<le> max_body \<and> owned l' = i + n
        \<and> (\<exists>b. buffer @ arrived es = b @ arrived es' \<and> i + 4 + n \<le> length b \<and> length b \<le> kHeaderLimit + max_body + 4
             \<and> q = request\<lparr>req_body := take n (drop (if extra_separator request b (i + 4) n then i + 8 else i + 4) b)\<rparr>))
    \<and> (r = Inl StillReading \<longrightarrow> length (buffer @ arrived es) \<le> kHeaderLimit + max_body + 4)"
proof (cases "n > max_body")
  case True
  with assms show ?thesis by (auto simp: recv_body_def)
next
  case False
  obtain g l1 m1 where g: "grow_request_memory n l m = (g, l1, m1)" by (metis prod_cases3)
  have "n < 2 ^ 64" using False assms(5) by simp
  note grown = grow_spec [OF assms(1) this g]
  show ?thesis
  proof (cases g)
    case (Inl e)
    with assms(6) False g grow_error [of n l m e] grown show ?thesis by (auto simp: recv_body_def lbind_def)
  next
    case (Inr u)
    obtain r2 l2 m2 where loop: "body_loop (i + 4 + n) es buffer l1 m1 = (r2, l2, m2)" by (metis prod_cases3)
    have own: "linv base l1 m1" "owned l1 = (i + n) + length buffer" using grown Inr assms(2) by simp_all
    have lim: "length buffer \<le> kHeaderLimit + max_body + 4" "i + 4 + n + 4 \<le> kHeaderLimit + max_body + 4"
      using assms(3,4) False by simp_all
    note read = body_loop_spec [OF own lim assms(5) loop]
    show ?thesis
    proof (cases r2)
      case (Inl e)
      with assms(6) False g Inr loop read show ?thesis by (auto simp: recv_body_def lbind_def)
    next
      case r2: (Inr be)
      obtain b es' where be: "be = (b, es')" by fastforce
      obtain l3 m3 where shrink: "lease_shrink (of_nat (length b)) l2 m2 = (l3, m3)" by fastforce
      have b: "linv base l2 m2" "owned l2 = i + n + length b" "length b \<le> kHeaderLimit + max_body + 4" "i + 4 + n \<le> length b"
        "buffer @ arrived es = b @ arrived es'"
        using read r2 be by auto
      have ok2: "inflight_ok m2" "owned l2 \<le> inflight_used m2" "lease_valid l2" using b(1) by (simp_all add: linv_def)
      note shrunk = lease_shrink_spec [OF ok2(1,2) shrink]
      have lb: "unat (of_nat (length b) :: u64) = length b" using b(3) assms(5) by (simp add: unat_of_nat)
      have "unat (lease_bytes l2) = i + n + length b" using b(2) ok2(3) by (simp add: owned_def)
      then have le: "(of_nat (length b) :: u64) \<le> lease_bytes l2" using lb by (simp add: word_le_nat_alt)
      have "lease_bytes l3 = lease_bytes l2 - of_nat (length b)" using shrink le by (auto simp: lease_shrink_def Let_def min_def)
      then have "owned l3 = i + n"
        using shrunk ok2(3) le lb \<open>unat (lease_bytes l2) = i + n + length b\<close> by (simp add: owned_def unat_sub)
      moreover have "linv base l3 m3" using shrunk b(1) ok2(3) by (auto simp: linv_def)
      ultimately show ?thesis
        using assms(6) False g Inr loop r2 be shrink b by (auto simp: recv_body_def lbind_def Let_def)
    qed
  qed
qed

text \<open>A request that was read, against the bytes that arrived.\<close>

definition request_read :: "nat \<Rightarrow> string \<Rightarrow> recv_event list \<Rightarrow> http_request \<Rightarrow> nat \<Rightarrow> nat \<Rightarrow> recv_event list \<Rightarrow> bool" where
  "request_read max_body ip es q i n es' \<longleftrightarrow>
     (\<exists>b head. arrived es = b @ arrived es' \<and> length b \<le> kHeaderLimit + max_body + 4
        \<and> find_str header_terminator b = Some i \<and> i + 4 \<le> kHeaderLimit
        \<and> parse_request_head (take i b) ip = Inr head \<and> content_length (req_headers head) = Inr n \<and> n \<le> max_body
        \<and> i + 4 + n \<le> length b
        \<and> q = head\<lparr>req_body := take n (drop (if extra_separator head b (i + 4) n then i + 8 else i + 4) b)\<rparr>)"

lemma recv_head_and_body_spec:
  assumes "linv base l m" "owned l = 0" "kHeaderLimit + max_body + 4 < 2 ^ 63"
    and "recv_head_and_body max_body ip es l m = (r, l', m')"
  shows "linv base l' m'
    \<and> (\<forall>q n es'. r = Inr (q, n, es') \<longrightarrow> (\<exists>i. request_read max_body ip es q i n es' \<and> owned l' = i + n))
    \<and> (r = Inl StillReading \<longrightarrow> length (arrived es) \<le> kHeaderLimit + max_body + 4)"
proof -
  obtain r1 l1 m1 where loop: "head_loop max_body es [] l m = (r1, l1, m1)" by (metis prod_cases3)
  have start: "owned l = length []" "length [] \<le> kHeaderLimit + max_body" "kHeaderLimit + max_body < 2 ^ 63"
    using assms(2,3) by simp_all
  note head = head_loop_spec [OF assms(1) start loop]
  show ?thesis
  proof (cases r1)
    case (Inl e)
    with loop assms(4) head show ?thesis by (auto simp: recv_head_and_body_def lbind_def)
  next
    case (Inr bi)
    obtain b i es1 where bi: "bi = (b, i, es1)" by (metis prod_cases3)
    have b: "linv base l1 m1" "owned l1 = length b" "length b \<le> kHeaderLimit + max_body"
      "find_str header_terminator b = Some i" "i + 4 \<le> kHeaderLimit" "arrived es = b @ arrived es1"
      using head Inr bi by auto
    obtain g l2 m2 where g: "grow_request_memory i l1 m1 = (g, l2, m2)" by (metis prod_cases3)
    have "i < 2 ^ 64" using b(5) by (simp add: kHeaderLimit_def)
    note grown = grow_spec [OF b(1) this g]
    have run: "recv_head_and_body max_body ip es l m = lbind (g, l2, m2) (\<lambda>_ l m.
        case parse_request_head (take i b) ip of
          Inl e \<Rightarrow> (Inl (InvalidHttpRequest e), l, m)
        | Inr request \<Rightarrow>
            (case content_length (req_headers request) of
               Inl e \<Rightarrow> (Inl (InvalidHttpRequest e), l, m)
             | Inr n \<Rightarrow> recv_body max_body request i n es1 b l m))"
      using loop Inr bi g by (simp add: recv_head_and_body_def lbind_def)
    show ?thesis
    proof (cases "\<exists>u head n. g = Inr u \<and> parse_request_head (take i b) ip = Inr head \<and> content_length (req_headers head) = Inr n")
      case False
      with run assms(4) grown grow_error [of i l1 m1] g show ?thesis
        by (cases g) (auto simp: lbind_def split: sum.splits)
    next
      case True
      then obtain u head n where h: "g = Inr u" "parse_request_head (take i b) ip = Inr head" "content_length (req_headers head) = Inr n"
        by blast
      then have body: "recv_body max_body head i n es1 b l2 m2 = (r, l', m')" using run assms(4) by (simp add: lbind_def)
      have own: "linv base l2 m2" "owned l2 = i + length b" using grown h(1) b(2) by simp_all
      note read = recv_body_spec [OF own b(3,5) assms(3) body]
      have "\<exists>i. request_read max_body ip es q i n' es' \<and> owned l' = i + n'" if r: "r = Inr (q, n', es')" for q n' es'
      proof -
        note complete = read [THEN conjunct2, THEN conjunct1, rule_format, OF r]
        obtain b' where b': "n' = n" "n \<le> max_body" "owned l' = i + n" "b @ arrived es1 = b' @ arrived es'" "i + 4 + n \<le> length b'"
          "length b' \<le> kHeaderLimit + max_body + 4"
          "q = head\<lparr>req_body := take n (drop (if extra_separator head b' (i + 4) n then i + 8 else i + 4) b')\<rparr>"
          using complete by blast
        have len: "i + 4 \<le> length b" using find_str_length [OF b(4)] by (simp add: header_terminator_def crlf_def)
        from b'(4) have common: "prefix b b' \<or> prefix b' b" by (auto simp: append_eq_append_conv2 prefix_def)
        have same: "take i b' = take i b" and found: "find_str header_terminator b' = Some i"
        proof -
          from common show "take i b' = take i b"
          proof
            assume "prefix b b'"
            then obtain z where "b' = b @ z" by (auto simp: prefix_def)
            then show ?thesis using len by simp
          next
            assume "prefix b' b"
            then obtain z where "b = b' @ z" by (auto simp: prefix_def)
            then show ?thesis using b'(5) by simp
          qed
          show "find_str header_terminator b' = Some i"
          proof (cases "prefix b b'")
            case True
            then show ?thesis using find_str_append [OF b(4)] by (auto simp: prefix_def)
          next
            case False
            with common obtain z where z: "b = b' @ z" by (auto simp: prefix_def)
            have "i + length header_terminator \<le> length b'" using b'(5) by (simp add: header_terminator_def crlf_def)
            then show ?thesis using find_str_take [of header_terminator b' z i] b(4) z by simp
          qed
        qed
        have "arrived es = b' @ arrived es'" using b(6) b'(4) by simp
        then have "request_read max_body ip es q i n es'"
          unfolding request_read_def
          by (intro exI [of _ b'] exI [of _ head]) (simp only: same found h(2,3) b(5) b'(2,5,6,7) simp_thms)
        with b'(1,3) show ?thesis by blast
      qed
      with read b(6) show ?thesis by auto
    qed
  qed
qed

lemma recv_request_cases:
  assumes "inflight_ok m" "kHeaderLimit + max_body + 4 < 2 ^ 63" "recv_request max_body ip es m = (r, m')"
  shows "inflight_ok m'
    \<and> (\<forall>q l n es'. r = Inr (q, l, n, es') \<longrightarrow>
         (\<exists>i. request_read max_body ip es q i n es' \<and> owned l = i + n \<and> inflight_used m' = inflight_used m + (i + n)))
    \<and> (\<forall>e. r = Inl e \<longrightarrow> inflight_used m' = inflight_used m)
    \<and> (r = Inl StillReading \<longrightarrow> length (arrived es) \<le> kHeaderLimit + max_body + 4)"
proof -
  have "inflight_used m \<le> inflight_cap m" using assms(1) by (rule inflight.used_le_cap)
  then have "fst (try_acquire_inflight 0 m)" using inflight.acquire_grants [OF assms(1), of 0] by simp
  then obtain l0 m0 where acq: "budget_try_acquire 0 m = (Some l0, m0)"
    by (cases "try_acquire_inflight 0 m") (auto simp: budget_try_acquire_def)
  have l0: "linv (inflight_used m) l0 m0" "owned l0 = 0"
    using budget_try_acquire_ok [OF assms(1) acq] acq
    by (auto simp: linv_def budget_try_acquire_def split: prod.splits bool.splits)
  obtain r1 l1 m1 where run: "recv_head_and_body max_body ip es l0 m0 = (r1, l1, m1)" by (metis prod_cases3)
  note spec = recv_head_and_body_spec [OF l0 assms(2) run]
  show ?thesis
  proof (cases r1)
    case (Inl e)
    obtain l2 m2 where reset: "lease_reset l1 m1 = (l2, m2)" by fastforce
    have "inflight_ok m1" "owned l1 \<le> inflight_used m1" "inflight_used m1 = inflight_used m + owned l1"
      using spec by (simp_all add: linv_def)
    with lease_reset_spec [OF this(1,2) reset] assms(3) acq run Inl reset spec show ?thesis
      by (auto simp: recv_request_def)
  next
    case (Inr x)
    obtain q n es' where x: "x = (q, n, es')" by (metis prod_cases3)
    with assms(3) acq run Inr spec show ?thesis by (auto simp: recv_request_def linv_def)
  qed
qed

text \<open>
  C12: Whatever chunks the bytes of a client arrive in: a request that is returned has the head up to
  the first empty line and, as body, exactly the announced number of bytes after it (after a second
  empty line, when a JSON body has one in front of it and enough bytes have come);
  head and body stay reserved in the budget, byte for byte. Every other result leaves the budget as it was.
\<close>

theorem recv_request_exact:
  assumes "inflight_ok m" "max_body < 2 ^ 62" "recv_request max_body ip es m = (r, m')"
  shows "(\<forall>q l n es'. r = Inr (q, l, n, es') \<longrightarrow> (\<exists>i. request_read max_body ip es q i n es' \<and> length (req_body q) = n
      \<and> owned l = i + n \<and> inflight_used m' = inflight_used m + (i + n)))
    \<and> (\<forall>e. r = Inl e \<longrightarrow> inflight_used m' = inflight_used m)"
proof (intro conjI allI impI)
  have lim: "kHeaderLimit + max_body + 4 < 2 ^ 63" using assms(2) by (simp add: kHeaderLimit_def)
  note spec = recv_request_cases [OF assms(1) lim assms(3)]
  show "inflight_used m' = inflight_used m" if "r = Inl e" for e using spec that by blast
  show "\<exists>i. request_read max_body ip es q i n es' \<and> length (req_body q) = n
      \<and> owned l = i + n \<and> inflight_used m' = inflight_used m + (i + n)" if r: "r = Inr (q, l, n, es')" for q l n es'
  proof -
    obtain i where i: "request_read max_body ip es q i n es'" "owned l = i + n" "inflight_used m' = inflight_used m + (i + n)"
      using spec [THEN conjunct2, THEN conjunct1, rule_format, OF r] by blast
    then have "length (req_body q) = n" by (auto simp: request_read_def extra_separator_def)
    with i show ?thesis by blast
  qed
qed

text \<open>
  C38: No client can keep the server reading: once more bytes than the limits of head and body have
  arrived, reading the request has ended, with a request or with an error.
\<close>

theorem recv_request_ends:
  assumes "inflight_ok m" "max_body < 2 ^ 62" "length (arrived es) > 65536 + max_body + 4"
  shows "fst (recv_request max_body ip es m) \<noteq> Inl StillReading"
proof -
  have lim: "kHeaderLimit + max_body + 4 < 2 ^ 63" using assms(2) by (simp add: kHeaderLimit_def)
  obtain r m' where "recv_request max_body ip es m = (r, m')" by fastforce
  with recv_request_cases [OF assms(1) lim this] assms(3) show ?thesis by (auto simp: kHeaderLimit_def)
qed

definition sample_chunks :: "recv_event list" where
  "sample_chunks =
     [Arrived ''POST /v1 HTT'', WouldBlock, Arrived (''P/1.1'' @ crlf @ ''Content-Length: 2'' @ crlf @ crlf @ ''h''), Arrived ''i'', Broken]"

theorem recv_request_exact_witness:
  "case recv_request 10 ''::1'' sample_chunks sample_budget of
     (Inr (q, l, n, es'), m') \<Rightarrow> n = 2 \<and> length (req_body q) = 2 \<and> inflight_used m' = 38
   | _ \<Rightarrow> False"
proof -
  have "case fst (recv_request 10 ''::1'' sample_chunks sample_budget) of
      Inr (q, l, n, es') \<Rightarrow> n = 2 \<and> owned l = 38 | _ \<Rightarrow> False"
    by code_simp
  then obtain q l es' m' where run: "recv_request 10 ''::1'' sample_chunks sample_budget = (Inr (q, l, 2, es'), m')"
    and l: "owned l = 38"
    by (cases "recv_request 10 ''::1'' sample_chunks sample_budget") (auto split: sum.splits)
  have "inflight_ok sample_budget" "inflight_used sample_budget = 0"
    by (simp_all add: inflight_ok_def inflight_used_def sample_budget_def)
  with recv_request_exact [OF _ _ run] l show ?thesis by (auto simp: run)
qed

theorem recv_request_ends_witness:
  "fst (recv_request 10 ''::1'' [Arrived (replicate 65551 CHR ''x'')] sample_budget) \<noteq> Inl StillReading"
  by (rule recv_request_ends) (simp_all add: inflight_ok_def sample_budget_def)

text \<open>
  The second empty line in front of a JSON body is skipped only when it has arrived together with the
  whole body: the same bytes in other chunks give another body.
\<close>

definition json_head :: string where
  "json_head = ''POST /v1 HTTP/1.1'' @ crlf @ ''Content-Type: application/json'' @ crlf @ ''Content-Length: 2'' @ crlf @ crlf"

lemma separator_depends_on_chunks:
  "map_option req_body (case fst (recv_request 10 ''::1'' [Arrived (json_head @ crlf @ crlf @ ''{}'')] sample_budget) of
     Inr (q, _) \<Rightarrow> Some q | _ \<Rightarrow> None) = Some ''{}''"
  "map_option req_body (case fst (recv_request 10 ''::1'' [Arrived (json_head @ crlf), Arrived (crlf @ ''{}'')] sample_budget) of
     Inr (q, _) \<Rightarrow> Some q | _ \<Rightarrow> None) = Some crlf"
  by code_simp+

end
