(* ===== verification/HttpServer.thy ===== *)
theory HttpServer
  imports HttpReceive Routing Logger
begin

text \<open>
  The handling of a request: \<open>process_parsed_with_generation\<close> of \<^verbatim>\<open>src/server/server.cpp\<close>, with the
  functions around it up to a whole connection. The world of a request holds the counters, the
  calls of the sender with their results, the calls of the logger, and what the clock will show. The
  upstream transport is an interface of virtual functions in the code; here it is any tree of the things a
  transport can do: reserve and release memory, call back with a response head or a chunk and go on
  according to the answer, return a response or throw. Null pointers are \<^term>\<open>None\<close>, and following one
  is an outcome of its own. Shown here: whatever the transport, the sender and the rules do,
  every byte a request took from the budget is returned; a client gets the bytes of one
  response and nothing after them; requests without a route never reach the transport.
\<close>

section \<open>Model\<close>

datatype server_exn =
    InvalidRequest string
  | is_ProxyError: ProxyError int string string
  | BudgetExhausted
  | OtherFailure string
  | NullDereference

record world =
  w_metrics :: metrics
  w_calls :: "(string \<times> bool) list"
  w_answers :: "bool list"
  w_logs :: "(string \<times> string \<times> log_field list) list"
  w_clock :: "int list"

text \<open>
  The sender answers from a list; once that is used up every call succeeds. A call of the
  logger is recorded: what the logger does with it is the matter of \<open>Logger\<close>. A reading of the clock gives
  the milliseconds since the request started.
\<close>

definition call_sender :: "string \<Rightarrow> world \<Rightarrow> bool \<times> world" where
  "call_sender d w =
     (case w_answers w of
        [] \<Rightarrow> (True, w\<lparr>w_calls := w_calls w @ [(d, True)]\<rparr>)
      | b # bs \<Rightarrow> (b, w\<lparr>w_answers := bs, w_calls := w_calls w @ [(d, b)]\<rparr>))"

definition log_call :: "string \<Rightarrow> string \<Rightarrow> log_field list \<Rightarrow> world \<Rightarrow> world" where
  "log_call level event fs w = w\<lparr>w_logs := w_logs w @ [(level, event, fs)]\<rparr>"

definition read_clock :: "world \<Rightarrow> int \<times> world" where
  "read_clock w = (case w_clock w of [] \<Rightarrow> (0, w) | t # ts \<Rightarrow> (t, w\<lparr>w_clock := ts\<rparr>))"

definition count :: "(metrics \<Rightarrow> metrics) \<Rightarrow> world \<Rightarrow> world" where
  "count f w = w\<lparr>w_metrics := f (w_metrics w)\<rparr>"

definition drop_lease :: "lease \<Rightarrow> world \<Rightarrow> world" where
  "drop_lease l = count (\<lambda>m. snd (lease_reset l m))"

definition drop_leases :: "lease list \<Rightarrow> world \<Rightarrow> world" where
  "drop_leases ls w = fold drop_lease ls w"

subsection \<open>Upstream transports\<close>

datatype upstream =
    Reserve nat "bool \<Rightarrow> upstream"
  | Release nat upstream
  | OnHeaders http_response "server_exn + bool \<Rightarrow> upstream"
  | OnChunk string "server_exn + bool \<Rightarrow> upstream"
  | Respond http_response
  | Throw server_exn

record transport =
  proxy_mode :: string
  forward :: "http_request \<Rightarrow> upstream_target \<Rightarrow> upstream"
  forward_streaming :: "http_request \<Rightarrow> upstream_target \<Rightarrow> upstream"

text \<open>The state of a running transfer: what the callbacks keep, and the memory the transport holds.\<close>

record transfer =
  tr_world :: world
  tr_streamed :: bool
  tr_chunks :: nat
  tr_bytes :: nat
  tr_memory :: lease

type_synonym 'a callback = "'a \<Rightarrow> transfer \<Rightarrow> (server_exn + bool) \<times> transfer"

primrec run_upstream ::
    "http_response callback \<Rightarrow> string callback \<Rightarrow> upstream \<Rightarrow> transfer \<Rightarrow> (server_exn + http_response) \<times> transfer" where
  "run_upstream hc cc (Reserve n k) t =
     (case lease_try_grow (of_nat n) (tr_memory t) (w_metrics (tr_world t)) of
        (b, l, m) \<Rightarrow> run_upstream hc cc (k b) (t\<lparr>tr_memory := l, tr_world := (tr_world t)\<lparr>w_metrics := m\<rparr>\<rparr>))"
| "run_upstream hc cc (Release n u) t =
     (case lease_shrink (of_nat n) (tr_memory t) (w_metrics (tr_world t)) of
        (l, m) \<Rightarrow> run_upstream hc cc u (t\<lparr>tr_memory := l, tr_world := (tr_world t)\<lparr>w_metrics := m\<rparr>\<rparr>))"
| "run_upstream hc cc (OnHeaders r k) t = (case hc r t of (a, t) \<Rightarrow> run_upstream hc cc (k a) t)"
| "run_upstream hc cc (OnChunk d k) t = (case cc d t of (a, t) \<Rightarrow> run_upstream hc cc (k a) t)"
| "run_upstream hc cc (Respond r) t = (Inr r, t)"
| "run_upstream hc cc (Throw e) t = (Inl e, t)"

text \<open>
  A transfer starts with no memory. A response keeps the memory of its body; an exception returns it.
\<close>

definition run_transfer ::
    "http_response callback \<Rightarrow> string callback \<Rightarrow> upstream \<Rightarrow> world \<Rightarrow> (server_exn + (http_response \<times> lease)) \<times> transfer" where
  "run_transfer hc cc u w =
     (case run_upstream hc cc u
             \<lparr>tr_world = w, tr_streamed = False, tr_chunks = 0, tr_bytes = 0,
              tr_memory = \<lparr>lease_valid = True, lease_bytes = 0\<rparr>\<rparr> of
        (Inl e, t) \<Rightarrow> (Inl e, t\<lparr>tr_world := drop_lease (tr_memory t) (tr_world t)\<rparr>)
      | (Inr r, t) \<Rightarrow> (Inr (r, tr_memory t), t))"

subsection \<open>Generations and scopes\<close>

record generation =
  gen_id :: int
  gen_routes :: route_table
  gen_logging :: logging_settings
  gen_logger :: logger
  gen_transport :: transport

text \<open>The library functions a generation runs on: the printer of JSON and the library of the pipeline.\<close>

record json_runtime =
  rt_dump :: "json \<Rightarrow> string"
  rt_library :: json_library

text \<open>The variables of a request that its error handlers still see.\<close>

record request_scope =
  sc_request_id :: string
  sc_generation_id :: int
  sc_profile_id :: string
  sc_protocol_id :: string
  sc_route_kind :: string
  sc_handler :: "protocol_handler option"

definition new_scope :: "string \<Rightarrow> generation \<Rightarrow> request_scope" where
  "new_scope rid g =
     \<lparr>sc_request_id = rid, sc_generation_id = gen_id g, sc_profile_id = ''unknown'', sc_protocol_id = ''unknown'',
      sc_route_kind = ''unknown'', sc_handler = None\<rparr>"

definition scope_fields :: "request_scope \<Rightarrow> log_field list" where
  "scope_fields sc =
     [field_string ''request_id'' (sc_request_id sc), field_number ''generation_id'' (sc_generation_id sc),
      field_string ''profile_id'' (sc_profile_id sc), field_string ''protocol'' (sc_protocol_id sc),
      field_string ''route_kind'' (sc_route_kind sc)]"

definition body_fields :: "logging_settings \<Rightarrow> string \<Rightarrow> log_field list" where
  "body_fields settings body =
     field_number ''body_size'' (int (length body)) #
     (if \<not> log_body settings then []
      else [field_string_view ''body'' (take (min (length body) (unat (body_limit settings))) body),
            field_bool ''body_truncated'' (length body > unat (body_limit settings))])"

definition request_scope_begin :: "world \<Rightarrow> world" where
  "request_scope_begin w = count generation_request_started (count request_started w)"

definition request_scope_end :: "bool \<Rightarrow> world \<Rightarrow> world" where
  "request_scope_end cancelled w =
     count generation_request_finished (count (if cancelled then request_cancelled else request_completed) w)"

subsection \<open>Responses\<close>

type_synonym 'a served = "(server_exn + 'a) \<times> world"

definition send_response :: "http_response \<Rightarrow> bool \<Rightarrow> world \<Rightarrow> bool served" where
  "send_response r budgeted w =
     (case build_response_head r True budgeted (w_metrics w) of
        (None, m) \<Rightarrow> (Inl BudgetExhausted, w\<lparr>w_metrics := m\<rparr>)
      | (Some (memory, d), m) \<Rightarrow>
          (let (sent, w) = call_sender d (w\<lparr>w_metrics := m\<rparr>);
               (sent, w) = (if \<not> sent then (False, w) else if response_body r = [] then (True, w)
                            else call_sender (response_body r) w)
           in (Inr sent, case memory of None \<Rightarrow> w | Some l \<Rightarrow> drop_lease l w)))"

definition json_response :: "(json \<Rightarrow> string) \<Rightarrow> int \<Rightarrow> string \<Rightarrow> string \<Rightarrow> http_response" where
  "json_response dump status message type =
     \<lparr>status_code = status, reason = server_reason_phrase status,
      headers = [(''Content-Type'', ''application/json'')], response_body = error_json dump message type\<rparr>"

fun join_methods :: "string list \<Rightarrow> string \<Rightarrow> string" where
  "join_methods [] allowed = allowed"
| "join_methods (m # ms) allowed = join_methods ms ((if allowed = [] then allowed else allowed @ '', '') @ m)"

definition handle_local_route_error :: "(json \<Rightarrow> string) \<Rightarrow> route_lookup \<Rightarrow> http_response" where
  "handle_local_route_error dump found =
     (case lookup_status found of
        InvalidPath \<Rightarrow> json_response dump 400 ''invalid request path'' ''invalid_request_error''
      | MethodNotAllowed \<Rightarrow>
          (json_response dump 405 ''method not allowed'' ''invalid_request_error'')
            \<lparr>headers := [(''Allow'', join_methods (allowed_methods found) []), (''Content-Type'', ''application/json'')]\<rparr>
      | _ \<Rightarrow> json_response dump 404 ''unsupported route'' ''invalid_request_error'')"

definition reject_route :: "json_runtime \<Rightarrow> request_scope \<Rightarrow> http_request \<Rightarrow> route_lookup \<Rightarrow> world \<Rightarrow> bool served" where
  "reject_route rt sc q found w =
     (let response = handle_local_route_error (rt_dump rt) found;
          (elapsed, w) = read_clock w;
          w = log_call ''error'' ''request_error''
            [field_string ''request_id'' (req_request_id q), field_number ''generation_id'' (sc_generation_id sc),
             field_string ''method'' (req_method q), field_string ''local_path'' (req_path q),
             field_string ''message'' (case lookup_status found of
                 MethodNotAllowed \<Rightarrow> ''method not allowed'' | InvalidPath \<Rightarrow> ''invalid request path'' | _ \<Rightarrow> ''unsupported route''),
             field_string ''type'' ''invalid_request_error'', field_number ''status_code'' (status_code response),
             field_number ''duration_ms'' elapsed] w;
          w = log_call ''info'' ''response_sent''
            (scope_fields sc @ [field_number ''status_code'' (status_code response), field_number ''duration_ms'' elapsed,
               field_bool ''streaming'' False]) w
      in send_response response True w)"

subsection \<open>Usage requests\<close>

text \<open>The callbacks of a plain transfer are empty, and a transport does not call them.\<close>

definition no_callback :: "'a callback" where
  "no_callback x t = (Inr False, t)"

definition handle_usage_request ::
    "json_runtime \<Rightarrow> generation \<Rightarrow> request_scope \<Rightarrow> protocol_handler \<Rightarrow> http_request \<Rightarrow> upstream_target \<Rightarrow> world
     \<Rightarrow> (http_response \<times> bool \<times> lease list) served" where
  "handle_usage_request rt g sc h q tgt w =
     (case run_transfer no_callback no_callback (forward (gen_transport g) q tgt) w of
        (Inr (r, l), t) \<Rightarrow>
          (Inr (if reason r = [] then r\<lparr>reason := server_reason_phrase (status_code r)\<rparr> else r, True, [l]), tr_world t)
      | (Inl (ProxyError status type message), t) \<Rightarrow>
          if type = ''client_cancelled'' then (Inl (ProxyError status type message), tr_world t)
          else (Inr (local_error (rt_dump rt) h status type message, False, []),
            log_call ''error'' ''request_error''
              (scope_fields sc @ [field_string ''message'' message, field_string ''type'' type, field_number ''status_code'' status])
              (count upstream_request_failed (tr_world t)))
      | (Inl e, t) \<Rightarrow> (Inl e, tr_world t))"

definition serve_usage ::
    "json_runtime \<Rightarrow> generation \<Rightarrow> request_scope \<Rightarrow> protocol_handler \<Rightarrow> http_request \<Rightarrow> upstream_target \<Rightarrow> world \<Rightarrow> bool served" where
  "serve_usage rt g sc h q tgt w =
     (case handle_usage_request rt g sc h q tgt w of
        (Inl e, w) \<Rightarrow> (Inl e, w)
      | (Inr (response, forwarded, ls), w) \<Rightarrow>
          (let (elapsed, w) = read_clock w;
               w = log_call ''info'' ''usage_completed''
                 (scope_fields sc @ [field_bool ''forwarded'' forwarded, field_string ''upstream_url'' (target_base_url tgt),
                    field_string ''upstream_path'' (target_path tgt), field_number ''status_code'' (status_code response),
                    field_number ''duration_ms'' elapsed]) w;
               (r, w) = send_response response True w
           in (r, drop_leases ls w)))"

subsection \<open>Requests with a body\<close>

definition log_request_received ::
    "generation \<Rightarrow> request_scope \<Rightarrow> route_lookup \<Rightarrow> http_request \<Rightarrow> world \<Rightarrow> world" where
  "log_request_received g sc found q w =
     (if enabled ''info'' (gen_logger g)
      then log_call ''info'' ''request_received''
        (scope_fields sc @ [field_string ''method'' (req_method q), field_string ''local_path'' (canonical_path found),
           field_string ''query'' (req_query q), field_string ''client_ip'' (req_client_ip q),
           field_headers ''headers'' (req_headers q) (redact_sensitive (gen_logging g))]
         @ body_fields (gen_logging g) (req_body q)) w
      else w)"

definition missing_pipeline :: pipeline_result where
  "missing_pipeline = (initial_result [])\<lparr>result_ok := False, result_error := Some (pipeline_error 500 ''server_error''
     ''runtime profile has no compiled request pipeline'' [] [] ''missing_compiled_pipeline'')\<rparr>"

definition run_pipeline :: "json_runtime \<Rightarrow> runtime_profile \<Rightarrow> string \<Rightarrow> world \<Rightarrow> pipeline_result served" where
  "run_pipeline rt p body w =
     (case request_pipeline p of
        None \<Rightarrow> (Inr missing_pipeline, w)
      | Some rules \<Rightarrow>
          (case pipeline_apply (rt_library rt) rules body True (w_metrics w) of
             Inl BudgetExceeded \<Rightarrow> (Inl BudgetExhausted, w)
           | Inl _ \<Rightarrow> (Inl (OtherFailure []), w)
           | Inr (r, m) \<Rightarrow> (Inr r, w\<lparr>w_metrics := m\<rparr>)))"

text \<open>The duration of a rule is a reading of the clock, too.\<close>

fun log_traces :: "request_scope \<Rightarrow> rule_trace list \<Rightarrow> world \<Rightarrow> world" where
  "log_traces sc [] w = w"
| "log_traces sc (tr # trs) w =
     (case read_clock w of
        (us, w) \<Rightarrow> log_traces sc trs (log_call ''info'' ''request_rule''
          (scope_fields sc @ [field_string ''rule_id'' (trace_rule_id tr), field_string ''rule_type'' (trace_rule_type tr),
             field_bool ''matched'' (trace_matched tr), field_bool ''modified'' (trace_modified tr),
             field_string ''reason'' (trace_reason tr), field_string ''target'' (summary_target (trace_summary tr)),
             field_number ''affected_count'' (int (affected_count (trace_summary tr))), field_number ''duration_us'' us]) w))"

definition pipeline_failed ::
    "json_runtime \<Rightarrow> generation \<Rightarrow> request_scope \<Rightarrow> protocol_handler \<Rightarrow> pipeline_result \<Rightarrow> world \<Rightarrow> bool served" where
  "pipeline_failed rt g sc h result w =
     (let e = (case result_error result of
                 Some e \<Rightarrow> e
               | None \<Rightarrow> pipeline_error 500 ''server_error'' ''request rule pipeline failed'' [] [] ''pipeline_failed'');
          w = log_call ''error'' ''request_error''
            (scope_fields sc @ [field_string ''rule_id'' (error_rule_id e), field_string ''rule_type'' (error_rule_type e),
               field_string ''reason'' (error_reason e), field_string ''message'' (error_message e),
               field_string ''type'' (error_type e), field_number ''status_code'' (error_status e)]) w;
          response = local_error (rt_dump rt) h (error_status e) (error_type e) (error_message e);
          (elapsed, w) = read_clock w;
          w = log_call ''info'' ''response_sent''
            (scope_fields sc @ [field_number ''status_code'' (status_code response), field_number ''duration_ms'' elapsed,
               field_bool ''streaming'' False] @ body_fields (gen_logging g) (response_body response)) w
      in send_response response (error_status e \<noteq> 503) w)"

text \<open>A rewritten body replaces the received one, whose bytes leave the lease of the request.\<close>

definition adopt_body :: "pipeline_result \<Rightarrow> nat \<Rightarrow> http_request \<Rightarrow> lease \<Rightarrow> world \<Rightarrow> http_request \<times> lease \<times> world" where
  "adopt_body result body_bytes q l w =
     (case rewritten_body result of
        None \<Rightarrow> (q, l, w)
      | Some body \<Rightarrow>
          (case lease_shrink (of_nat (min body_bytes (unat (lease_bytes l)))) l (w_metrics w) of
             (l, m) \<Rightarrow> (q\<lparr>req_body := body, req_body_memory := rewritten_body_memory result\<rparr>, l, w\<lparr>w_metrics := m\<rparr>)))"

definition log_upstream_request ::
    "generation \<Rightarrow> request_scope \<Rightarrow> pipeline_result \<Rightarrow> upstream_target \<Rightarrow> http_request \<Rightarrow> world \<Rightarrow> world" where
  "log_upstream_request g sc result tgt q w =
     (if enabled ''info'' (gen_logger g)
      then log_call ''info'' ''upstream_request''
        (scope_fields sc @ [field_string ''method'' (req_method q), field_string ''upstream_url'' (target_base_url tgt),
           field_string ''upstream_path'' (target_path tgt), field_string ''query'' (req_query q),
           field_string ''upstream_proxy_mode'' (proxy_mode (gen_transport g)),
           field_bool ''rewrite_modified'' (result_modified result),
           field_number ''rule_count'' (int (length (traces result))),
           field_number ''json_parse_count'' (int (parse_count result)),
           field_number ''json_serialize_count'' (int (serialize_count result)),
           field_number ''original_body_size'' (int (original_body_size result)),
           field_number ''rewritten_body_size'' (int (output_body_size result)),
           field_headers ''headers'' (req_headers q) (redact_sensitive (gen_logging g))]
         @ body_fields (gen_logging g) (req_body q)) w
      else w)"

definition log_stream_head :: "generation \<Rightarrow> request_scope \<Rightarrow> http_response \<Rightarrow> world \<Rightarrow> world" where
  "log_stream_head g sc r w =
     (if enabled ''info'' (gen_logger g)
      then log_call ''info'' ''upstream_response''
        (scope_fields sc @ [field_number ''status_code'' (status_code r), field_bool ''streaming'' True,
           field_headers ''headers'' (headers r) (redact_sensitive (gen_logging g)), field_number ''body_size'' 0]) w
      else w)"

definition on_headers :: "generation \<Rightarrow> request_scope \<Rightarrow> http_response callback" where
  "on_headers g sc r t =
     (let w = log_stream_head g sc r (count stream_started (tr_world t));
          t = t\<lparr>tr_streamed := True\<rparr>
      in case build_response_head r False True (w_metrics w) of
           (None, m) \<Rightarrow> (Inl BudgetExhausted, t\<lparr>tr_world := w\<lparr>w_metrics := m\<rparr>\<rparr>)
         | (Some (memory, d), m) \<Rightarrow>
             (let (sent, w) = call_sender d (w\<lparr>w_metrics := m\<rparr>)
              in (Inr sent, t\<lparr>tr_world := (case memory of None \<Rightarrow> w | Some l \<Rightarrow> drop_lease l w)\<rparr>)))"

definition on_chunk :: "generation \<Rightarrow> request_scope \<Rightarrow> string callback" where
  "on_chunk g sc d t =
     (let w = (if enabled ''info'' (gen_logger g)
               then log_call ''info'' ''stream_chunk''
                 (scope_fields sc @ [field_number ''chunk_sequence'' (int (tr_chunks t)), field_number ''chunk_size'' (int (length d))]
                  @ body_fields (gen_logging g) d) (tr_world t)
               else tr_world t);
          (sent, w) = call_sender d w;
          w = (if sent then count (stream_chunk_forwarded (of_nat (length d))) w else w)
      in (Inr sent, t\<lparr>tr_chunks := tr_chunks t + 1, tr_bytes := tr_bytes t + length d, tr_world := w\<rparr>))"

definition stream_fields :: "transfer \<Rightarrow> log_field list" where
  "stream_fields t =
     [field_bool ''streaming'' (tr_streamed t), field_number ''stream_chunk_count'' (int (tr_chunks t)),
      field_number ''streamed_body_size'' (int (tr_bytes t))]"

text \<open>A failed transfer ends the request (\<^term>\<open>Inl\<close>) or gives a response to send.\<close>

definition upstream_failed ::
    "json_runtime \<Rightarrow> request_scope \<Rightarrow> protocol_handler \<Rightarrow> int \<Rightarrow> string \<Rightarrow> string \<Rightarrow> transfer \<Rightarrow> (bool + http_response) \<times> world" where
  "upstream_failed rt sc h status type message t =
     (let (elapsed, w) = read_clock (tr_world t) in
      if type = ''client_cancelled''
      then (Inl False, log_call ''info'' ''request_cancelled''
              (scope_fields sc @ field_number ''duration_ms'' elapsed # stream_fields t) w)
      else
        (let w = log_call ''error'' ''request_error''
               (scope_fields sc @ [field_string ''message'' message, field_string ''type'' type, field_number ''status_code'' status,
                  field_number ''duration_ms'' elapsed] @ stream_fields t) (count upstream_request_failed w)
         in if tr_streamed t then (Inl True, w)
            else (Inr (local_error (rt_dump rt) h status type message), w)))"

definition finish_response :: "generation \<Rightarrow> request_scope \<Rightarrow> transfer \<Rightarrow> http_response \<Rightarrow> world \<Rightarrow> bool served" where
  "finish_response g sc t r w =
     (let info = enabled ''info'' (gen_logger g);
          r = (if \<not> tr_streamed t \<and> info \<and> reason r = [] then r\<lparr>reason := server_reason_phrase (status_code r)\<rparr> else r);
          w = (if \<not> tr_streamed t \<and> info
               then log_call ''info'' ''upstream_response''
                 (scope_fields sc @ [field_number ''status_code'' (status_code r), field_bool ''streaming'' False,
                    field_headers ''headers'' (headers r) (redact_sensitive (gen_logging g))]
                  @ body_fields (gen_logging g) (response_body r)) w
               else w);
          (elapsed, w) = read_clock w;
          w = (if info
               then log_call ''info'' ''response_sent''
                 (scope_fields sc @ [field_number ''status_code'' (status_code r), field_number ''duration_ms'' elapsed]
                  @ stream_fields t @ [field_headers ''headers'' (headers r) (redact_sensitive (gen_logging g))]
                  @ (if tr_streamed t then [] else body_fields (gen_logging g) (response_body r))) w
               else w)
      in if tr_streamed t then (Inr True, w) else send_response r True w)"

definition forward_request ::
    "json_runtime \<Rightarrow> generation \<Rightarrow> request_scope \<Rightarrow> protocol_handler \<Rightarrow> http_request \<Rightarrow> upstream_target \<Rightarrow> world \<Rightarrow> bool served" where
  "forward_request rt g sc h q tgt w =
     (case run_transfer (on_headers g sc) (on_chunk g sc) (forward_streaming (gen_transport g) q tgt) w of
        (Inr (r, l), t) \<Rightarrow> (case finish_response g sc t r (tr_world t) of (res, w) \<Rightarrow> (res, drop_lease l w))
      | (Inl (ProxyError status type message), t) \<Rightarrow>
          (case upstream_failed rt sc h status type message t of
             (Inl b, w) \<Rightarrow> (Inr b, w)
           | (Inr r, w) \<Rightarrow> finish_response g sc t r w)
      | (Inl e, t) \<Rightarrow> (Inl e, tr_world t))"

text \<open>The leases a request holds until it ends come with the result.\<close>

definition serve_request ::
    "json_runtime \<Rightarrow> generation \<Rightarrow> request_scope \<Rightarrow> runtime_profile \<Rightarrow> protocol_handler \<Rightarrow> route_lookup \<Rightarrow> upstream_target
     \<Rightarrow> http_request \<Rightarrow> lease \<Rightarrow> nat \<Rightarrow> world \<Rightarrow> (server_exn + bool) \<times> lease list \<times> world" where
  "serve_request rt g sc p h found tgt q l body_bytes w =
     (case run_pipeline rt p (req_body q) (log_request_received g sc found q w) of
        (Inl e, w) \<Rightarrow> (Inl e, [l], w)
      | (Inr result, w) \<Rightarrow>
          (let w = log_traces sc (traces result) w;
               body_memory = (case rewritten_body_memory result of None \<Rightarrow> [] | Some b \<Rightarrow> [b])
           in if \<not> result_ok result
              then (case pipeline_failed rt g sc h result w of (r, w) \<Rightarrow> (r, l # body_memory, w))
              else (case adopt_body result body_bytes q l w of
                      (q, l, w) \<Rightarrow>
                        (case forward_request rt g sc h q tgt (log_upstream_request g sc result tgt q w) of
                           (r, w) \<Rightarrow> (r, l # body_memory, w)))))"

subsection \<open>A parsed request\<close>

definition serve_matched ::
    "json_runtime \<Rightarrow> generation \<Rightarrow> request_scope \<Rightarrow> route_entry \<Rightarrow> route_lookup \<Rightarrow> http_request \<Rightarrow> lease \<Rightarrow> nat \<Rightarrow> world
     \<Rightarrow> (server_exn + bool) \<times> request_scope \<times> lease list \<times> world" where
  "serve_matched rt g sc entry found q l body_bytes w =
     (case route_profile entry of
        None \<Rightarrow> (Inl NullDereference, sc, [l], w)
      | Some p \<Rightarrow>
          (case handler p of
             None \<Rightarrow> (Inl NullDereference, sc, [l], w)
           | Some h \<Rightarrow>
               (let sc = sc\<lparr>sc_profile_id := profile_id p, sc_protocol_id := handler_id h,
                            sc_route_kind := route_kind_name (kind entry), sc_handler := Some h\<rparr>
                in if kind entry = UsageRoute
                   then (case serve_usage rt g sc h q (target entry) w of (r, w) \<Rightarrow> (r, sc, [l], w))
                   else (case serve_request rt g sc p h found (target entry) q l body_bytes w of
                           (r, ls, w) \<Rightarrow> (r, sc, ls, w)))))"

definition serve ::
    "json_runtime \<Rightarrow> generation \<Rightarrow> request_scope \<Rightarrow> http_request \<Rightarrow> lease \<Rightarrow> nat \<Rightarrow> world
     \<Rightarrow> (server_exn + bool) \<times> request_scope \<times> lease list \<times> world" where
  "serve rt g sc q l body_bytes w =
     (let q = q\<lparr>req_request_id := sc_request_id sc\<rparr>;
          found = route_lookup (gen_routes g) (req_method q) (req_path q)
      in case (lookup_status found, lookup_entry found) of
           (Matched, Some entry) \<Rightarrow> serve_matched rt g sc entry found q l body_bytes w
         | _ \<Rightarrow> (case reject_route rt sc q found w of (r, w) \<Rightarrow> (r, sc, [l], w)))"

text \<open>The handlers of the request's own try block.\<close>

definition scope_error :: "json_runtime \<Rightarrow> request_scope \<Rightarrow> int \<Rightarrow> string \<Rightarrow> http_response" where
  "scope_error rt sc status message =
     (case sc_handler sc of
        Some h \<Rightarrow> local_error (rt_dump rt) h status ''server_error'' message
      | None \<Rightarrow> json_response (rt_dump rt) status message ''server_error'')"

fun handle_exception :: "json_runtime \<Rightarrow> request_scope \<Rightarrow> server_exn \<Rightarrow> world \<Rightarrow> bool served" where
  "handle_exception rt sc (InvalidRequest message) w =
     send_response (json_response (rt_dump rt) 400 message ''invalid_request_error'') False
       (log_call ''error'' ''request_error'' (scope_fields sc @ [field_string ''message'' message,
          field_string ''type'' ''invalid_request_error'', field_number ''status_code'' 400]) w)"
| "handle_exception rt sc (ProxyError status type message) w =
     (if type = ''client_cancelled''
      then (case read_clock w of
              (elapsed, w) \<Rightarrow>
                (Inr False, log_call ''info'' ''request_cancelled'' (scope_fields sc @ [field_number ''duration_ms'' elapsed]) w))
      else (Inl (ProxyError status type message), w))"
| "handle_exception rt sc BudgetExhausted w =
     send_response (scope_error rt sc 503 ''inflight memory budget exhausted'') False
       (log_call ''error'' ''request_error'' (scope_fields sc @ [field_string ''reason'' ''inflight_budget_exhausted'',
          field_string ''message'' ''inflight memory budget exhausted'', field_string ''type'' ''server_error'',
          field_number ''status_code'' 503]) w)"
| "handle_exception rt sc (OtherFailure what) w =
     send_response (scope_error rt sc 500 ''internal server error'') False
       (log_call ''error'' ''request_error'' (scope_fields sc @ [field_string ''message'' what,
          field_string ''type'' ''server_error'', field_number ''status_code'' 500]) w)"
| "handle_exception rt sc NullDereference w = (Inl NullDereference, w)"

definition process_parsed_with_generation ::
    "json_runtime \<Rightarrow> generation \<Rightarrow> string \<Rightarrow> bool \<Rightarrow> http_request \<Rightarrow> lease \<Rightarrow> nat \<Rightarrow> world \<Rightarrow> bool served" where
  "process_parsed_with_generation rt g rid cancelled q l body_bytes w =
     (case serve rt g (new_scope rid g) q l body_bytes (request_scope_begin w) of
        (r, sc, ls, w) \<Rightarrow>
          (case (case r of Inr b \<Rightarrow> (Inr b, w) | Inl e \<Rightarrow> handle_exception rt sc e w) of
             (r, w) \<Rightarrow> (r, drop_leases ls (request_scope_end cancelled w))))"

subsection \<open>Raw requests and connections\<close>

definition parse_buffered_request :: "string \<Rightarrow> string \<Rightarrow> metrics \<Rightarrow> (server_exn + (http_request \<times> lease \<times> nat)) \<times> metrics" where
  "parse_buffered_request raw client_ip m =
     (case find_str header_terminator raw of
        None \<Rightarrow> (Inl (InvalidRequest ''request is missing the HTTP header terminator''), m)
      | Some header_end \<Rightarrow>
          (case budget_try_acquire (of_nat header_end) m of
             (None, m) \<Rightarrow> (Inl BudgetExhausted, m)
           | (Some memory, m) \<Rightarrow>
               (case parse_request_head (take header_end raw) client_ip of
                  Inl e \<Rightarrow> (Inl (InvalidRequest e), snd (lease_reset memory m))
                | Inr q \<Rightarrow>
                    (let body_size = length raw - (header_end + 4) in
                     case grow_request_memory body_size memory m of
                       (Inl _, l, m) \<Rightarrow> (Inl BudgetExhausted, snd (lease_reset l m))
                     | (Inr _, l, m) \<Rightarrow> (Inr (q\<lparr>req_body := drop (header_end + 4) raw\<rparr>, l, body_size), m)))))"

definition log_request_error :: "generation \<Rightarrow> string \<Rightarrow> int \<Rightarrow> string \<Rightarrow> string \<Rightarrow> world \<Rightarrow> world" where
  "log_request_error g rid status type message w =
     log_call ''error'' ''request_error''
       [field_string ''request_id'' rid, field_number ''generation_id'' (gen_id g), field_string ''message'' message,
        field_string ''type'' type, field_number ''status_code'' status] w"

text \<open>The request identifiers are fresh ones: the second is for the log record of an error.\<close>

definition process_with_generation ::
    "json_runtime \<Rightarrow> generation \<Rightarrow> string \<Rightarrow> string \<Rightarrow> bool \<Rightarrow> string \<Rightarrow> string \<Rightarrow> world \<Rightarrow> bool served" where
  "process_with_generation rt g rid rid' cancelled raw client_ip w =
     (let (r, w) =
        (case parse_buffered_request raw client_ip (w_metrics w) of
           (Inl e, m) \<Rightarrow> (Inl e, w\<lparr>w_metrics := m\<rparr>)
         | (Inr (q, l, n), m) \<Rightarrow> process_parsed_with_generation rt g rid cancelled q l n (w\<lparr>w_metrics := m\<rparr>))
      in case r of
           Inl (InvalidRequest message) \<Rightarrow>
             send_response (json_response (rt_dump rt) 400 message ''invalid_request_error'') False
               (log_request_error g rid' 400 ''invalid_request_error'' message w)
         | Inl BudgetExhausted \<Rightarrow>
             send_response (json_response (rt_dump rt) 503 ''inflight memory budget exhausted'' ''server_error'') False
               (log_request_error g rid' 503 ''server_error'' ''inflight memory budget exhausted'' w)
         | _ \<Rightarrow> (r, w))"

text \<open>
  A connection: what goes wrong while reading or processing is reported to the client and the log.
\<close>

definition report_error :: "json_runtime \<Rightarrow> generation \<Rightarrow> string \<Rightarrow> int \<Rightarrow> string \<Rightarrow> string \<Rightarrow> world \<Rightarrow> world" where
  "report_error rt g rid status type message w =
     snd (send_response (json_response (rt_dump rt) status message type) False (log_request_error g rid status type message w))"

definition report_client_failure :: "json_runtime \<Rightarrow> generation \<Rightarrow> string \<Rightarrow> string \<Rightarrow> world \<Rightarrow> world" where
  "report_client_failure rt g rid what w =
     (if what = ''client disconnected before request'' then w
      else if what = ''request headers too large'' then report_error rt g rid 413 ''invalid_request_error'' what w
      else if what = ''request body too large'' \<or> what = ''request too large''
      then report_error rt g rid 413 ''invalid_request_error'' ''request body too large'' w
      else report_error rt g rid 500 ''server_error'' ''internal server error'' w)"

fun report_exception :: "json_runtime \<Rightarrow> generation \<Rightarrow> string \<Rightarrow> server_exn \<Rightarrow> world \<Rightarrow> world" where
  "report_exception rt g rid (InvalidRequest what) w = report_error rt g rid 400 ''invalid_request_error'' what w"
| "report_exception rt g rid BudgetExhausted w = report_error rt g rid 503 ''server_error'' ''inflight memory budget exhausted'' w"
| "report_exception rt g rid (ProxyError _ _ what) w = report_client_failure rt g rid what w"
| "report_exception rt g rid (OtherFailure what) w = report_client_failure rt g rid what w"
| "report_exception rt g rid NullDereference w = w"

definition handle_client ::
    "json_runtime \<Rightarrow> generation \<Rightarrow> string \<Rightarrow> string \<Rightarrow> bool \<Rightarrow> nat \<Rightarrow> string \<Rightarrow> recv_event list \<Rightarrow> world \<Rightarrow> world" where
  "handle_client rt g rid rid' cancelled max_body client_ip es w =
     (case recv_request max_body client_ip es (w_metrics w) of
        (Inr (q, l, n, _), m) \<Rightarrow>
          (case process_parsed_with_generation rt g rid cancelled q l n (w\<lparr>w_metrics := m\<rparr>) of
             (Inr _, w) \<Rightarrow> w
           | (Inl e, w) \<Rightarrow> report_exception rt g rid' e w)
      | (Inl e, m) \<Rightarrow>
          (let w = w\<lparr>w_metrics := m\<rparr> in
           case e of
             ClientReadStopped \<Rightarrow> w
           | StillReading \<Rightarrow> w
           | InvalidHttpRequest what \<Rightarrow> report_exception rt g rid' (InvalidRequest what) w
           | InflightBudgetExceeded \<Rightarrow> report_exception rt g rid' BudgetExhausted w
           | RequestFailed what \<Rightarrow> report_exception rt g rid' (OtherFailure what) w))"

definition reject_overloaded_client :: "json_runtime \<Rightarrow> generation \<Rightarrow> string \<Rightarrow> world \<Rightarrow> world" where
  "reject_overloaded_client rt g rid w =
     snd (send_response (json_response (rt_dump rt) 503 ''server is at connection capacity'' ''server_overloaded'') False
       (log_request_error g rid 503 ''server_overloaded'' ''maximum connection count reached'' w))"

section \<open>Memory\<close>

text \<open>The world of a request when its own leases are \<open>n\<close> of the bytes in flight.\<close>

definition holds :: "nat \<Rightarrow> nat \<Rightarrow> world \<Rightarrow> bool" where
  "holds base n w \<longleftrightarrow> inflight_ok (w_metrics w) \<and> inflight_used (w_metrics w) = base + n"

definition neutral :: "(metrics \<Rightarrow> metrics) \<Rightarrow> bool" where
  "neutral f \<longleftrightarrow> (\<forall>m. inflight_ok (f m) = inflight_ok m \<and> inflight_used (f m) = inflight_used m)"

lemma neutral_counters [simp]:
  "neutral request_started" "neutral generation_request_started" "neutral request_completed" "neutral request_cancelled"
  "neutral generation_request_finished" "neutral stream_started" "neutral (stream_chunk_forwarded n)" "neutral upstream_request_failed"
  by (simp_all add: neutral_def inflight_ok_def inflight_used_def request_started_def generation_request_started_def
      request_completed_def request_cancelled_def generation_request_finished_def stream_started_def
      stream_chunk_forwarded_def upstream_request_failed_def fetch_add_def update_peak_def decrement_def Let_def)

lemma metrics_kept [simp]:
  "w_metrics (log_call level event fs w) = w_metrics w" "w_metrics (snd (read_clock w)) = w_metrics w"
  "w_metrics (snd (call_sender d w)) = w_metrics w" "w_metrics (count f w) = f (w_metrics w)"
  by (simp_all add: log_call_def read_clock_def call_sender_def count_def split: list.splits)

lemma calls_kept [simp]:
  "w_calls (log_call level event fs w) = w_calls w" "w_calls (snd (read_clock w)) = w_calls w"
  "w_calls (count f w) = w_calls w" "w_calls (drop_lease l w) = w_calls w"
  by (simp_all add: log_call_def read_clock_def count_def drop_lease_def split: list.splits)

lemma holds_count [simp]: "neutral f \<Longrightarrow> holds b n (count f w) = holds b n w"
  by (simp add: holds_def neutral_def)

lemma holds_cong: "w_metrics w' = w_metrics w \<Longrightarrow> holds b n w' = holds b n w"
  by (simp add: holds_def)

lemma holds_quiet [simp]:
  "holds b n (log_call level event fs w) = holds b n w" "holds b n (snd (read_clock w)) = holds b n w"
  "holds b n (snd (call_sender d w)) = holds b n w"
  by (simp_all add: holds_def)

lemma holds_drop_lease: "holds b (n + owned l) w \<Longrightarrow> holds b n (drop_lease l w)"
  using lease_reset_spec [of "w_metrics w" l] by (cases "lease_reset l (w_metrics w)") (auto simp: holds_def drop_lease_def)

lemma holds_drop_leases: "holds b (sum_list (map owned ls)) w \<Longrightarrow> holds b 0 (drop_leases ls w)"
proof (induction ls arbitrary: w)
  case (Cons l ls)
  then have "holds b (sum_list (map owned ls)) (drop_lease l w)" by (intro holds_drop_lease) (simp add: add.commute)
  with Cons.IH show ?case by (simp add: drop_leases_def)
qed (simp add: drop_leases_def)

lemma head_memory:
  assumes "holds b n w" "build_response_head r cl budgeted (w_metrics w) = (res, m)"
  shows "holds b (n + (case res of Some (Some l, _) \<Rightarrow> owned l | _ \<Rightarrow> 0)) (w\<lparr>w_metrics := m\<rparr>)"
proof (cases budgeted)
  case True
  obtain l m1 where acq: "budget_try_acquire (of_nat (response_head_size r cl)) (w_metrics w) = (l, m1)" by fastforce
  with assms True budget_try_acquire_ok [OF _ acq] show ?thesis
    by (auto simp: holds_def build_response_head_def split: option.splits)
qed (use assms in \<open>auto simp: build_response_head_def holds_def\<close>)

lemma holds_send_response:
  assumes "holds b n w"
  shows "holds b n (snd (send_response r budgeted w))"
proof -
  obtain res m where h: "build_response_head r True budgeted (w_metrics w) = (res, m)" by fastforce
  note head_memory [OF assms h]
  with h show ?thesis
    by (auto simp: send_response_def Let_def split_beta holds_drop_lease split: option.splits)
qed

lemma holds_reject_route: "holds b n w \<Longrightarrow> holds b n (snd (reject_route rt sc q found w))"
  by (simp add: reject_route_def Let_def split_beta holds_send_response)

subsection \<open>Transfers\<close>

definition callback_keeps :: "'a callback \<Rightarrow> bool" where
  "callback_keeps c \<longleftrightarrow> (\<forall>x t b n. tr_memory (snd (c x t)) = tr_memory t
     \<and> (holds b n (tr_world t) \<longrightarrow> holds b n (tr_world (snd (c x t)))))"

lemma run_upstream_memory:
  assumes "callback_keeps hc" "callback_keeps cc" "holds b (n + owned (tr_memory t)) (tr_world t)"
    and "run_upstream hc cc u t = (r, t')"
  shows "holds b (n + owned (tr_memory t')) (tr_world t')"
  using assms(3,4)
proof (induction u arbitrary: t)
  case (Reserve k c)
  obtain g l m where g: "lease_try_grow (of_nat k) (tr_memory t) (w_metrics (tr_world t)) = (g, l, m)" by (metis prod_cases3)
  let ?t1 = "t\<lparr>tr_memory := l, tr_world := (tr_world t)\<lparr>w_metrics := m\<rparr>\<rparr>"
  have "holds b (n + owned (tr_memory ?t1)) (tr_world ?t1)"
    using Reserve.prems(1) lease_try_grow_spec [OF _ _ g] by (auto simp: holds_def)
  with Reserve.IH [of "c g" ?t1] Reserve.prems(2) g show ?case by simp
next
  case (Release k u)
  obtain l m where g: "lease_shrink (of_nat k) (tr_memory t) (w_metrics (tr_world t)) = (l, m)" by fastforce
  let ?t1 = "t\<lparr>tr_memory := l, tr_world := (tr_world t)\<lparr>w_metrics := m\<rparr>\<rparr>"
  have "holds b (n + owned (tr_memory ?t1)) (tr_world ?t1)"
    using Release.prems(1) lease_shrink_spec [OF _ _ g] by (auto simp: holds_def)
  with Release.IH [of ?t1] Release.prems(2) g show ?case by simp
next
  case (OnHeaders r k)
  obtain a t1 where a: "hc r t = (a, t1)" by fastforce
  with assms(1) OnHeaders.prems have "holds b (n + owned (tr_memory t1)) (tr_world t1)"
    by (metis callback_keeps_def snd_conv)
  with OnHeaders.IH [of "k a" t1] OnHeaders.prems a show ?case by auto
next
  case (OnChunk d k)
  obtain a t1 where a: "cc d t = (a, t1)" by fastforce
  with assms(2) OnChunk.prems have "holds b (n + owned (tr_memory t1)) (tr_world t1)"
    by (metis callback_keeps_def snd_conv)
  with OnChunk.IH [of "k a" t1] OnChunk.prems a show ?case by auto
qed auto

lemma run_transfer_memory:
  assumes "callback_keeps hc" "callback_keeps cc" "holds b n w" "run_transfer hc cc u w = (r, t)"
  shows "holds b (n + (case r of Inr (_, l) \<Rightarrow> owned l | Inl _ \<Rightarrow> 0)) (tr_world t)"
proof -
  let ?t0 = "\<lparr>tr_world = w, tr_streamed = False, tr_chunks = 0, tr_bytes = 0, tr_memory = \<lparr>lease_valid = True, lease_bytes = 0\<rparr>\<rparr>"
  obtain r1 t1 where run: "run_upstream hc cc u ?t0 = (r1, t1)" by fastforce
  have "holds b (n + owned (tr_memory t1)) (tr_world t1)"
    by (rule run_upstream_memory [OF assms(1,2) _ run]) (use assms(3) in \<open>simp add: owned_def\<close>)
  with assms(4) run holds_drop_lease show ?thesis by (auto simp: run_transfer_def split: sum.splits)
qed

lemma no_callback_keeps: "callback_keeps no_callback"
  by (simp add: callback_keeps_def no_callback_def)

lemma on_chunk_keeps: "callback_keeps (on_chunk g sc)"
  by (simp add: callback_keeps_def on_chunk_def Let_def split_beta)

lemma log_stream_head_kept [simp]:
  "w_metrics (log_stream_head g sc r w) = w_metrics w" "w_calls (log_stream_head g sc r w) = w_calls w"
  by (simp_all add: log_stream_head_def)

lemma on_headers_keeps: "callback_keeps (on_headers g sc)"
proof -
  have "tr_memory (snd (on_headers g sc r t)) = tr_memory t
    \<and> (holds b n (tr_world t) \<longrightarrow> holds b n (tr_world (snd (on_headers g sc r t))))" for r t b n
  proof -
    define w where "w = log_stream_head g sc r (count stream_started (tr_world t))"
    have w: "holds b n w = holds b n (tr_world t)" using neutral_counters(6) by (simp add: w_def holds_def neutral_def)
    obtain res m where h: "build_response_head r False True (w_metrics w) = (res, m)" by fastforce
    show ?thesis
      using h head_memory [OF _ h, of b n] w
      unfolding on_headers_def Let_def w_def [symmetric] h
      by (auto simp: split_beta holds_drop_lease split: option.splits)
  qed
  then show ?thesis by (simp add: callback_keeps_def)
qed

lemma holds_usage_request:
  assumes "holds b n w" "handle_usage_request rt g sc h q tgt w = (r, w')"
  shows "holds b (n + (case r of Inr (_, _, ls) \<Rightarrow> sum_list (map owned ls) | Inl _ \<Rightarrow> 0)) w'"
proof -
  obtain res t where run: "run_transfer no_callback no_callback (forward (gen_transport g) q tgt) w = (res, t)" by fastforce
  from run_transfer_memory [OF no_callback_keeps no_callback_keeps assms(1) run] assms(2) run show ?thesis
    by (auto simp: handle_usage_request_def split: sum.splits server_exn.splits if_splits)
qed

lemma holds_drop_more: "holds b (n + sum_list (map owned ls)) w \<Longrightarrow> holds b n (drop_leases ls w)"
proof (induction ls arbitrary: w)
  case (Cons l ls)
  then have "holds b (n + sum_list (map owned ls)) (drop_lease l w)" by (intro holds_drop_lease) (simp add: ac_simps)
  with Cons.IH show ?case by (simp add: drop_leases_def)
qed (simp add: drop_leases_def)

lemma holds_serve_usage:
  assumes "holds b n w"
  shows "holds b n (snd (serve_usage rt g sc h q tgt w))"
proof -
  obtain r w1 where u: "handle_usage_request rt g sc h q tgt w = (r, w1)" by fastforce
  from holds_usage_request [OF assms u] u show ?thesis
    by (auto simp: serve_usage_def Let_def split_beta split: sum.splits intro!: holds_drop_more holds_send_response)
qed

lemma holds_finish_response: "holds b n w \<Longrightarrow> holds b n (snd (finish_response g sc t r w))"
  by (simp add: finish_response_def Let_def split_beta holds_send_response)

lemma holds_upstream_failed:
  "holds b n (tr_world t) \<Longrightarrow> holds b n (snd (upstream_failed rt sc h status type message t))"
  by (simp add: upstream_failed_def Let_def split_beta)

lemma holds_forward_request:
  assumes "holds b n w"
  shows "holds b n (snd (forward_request rt g sc h q tgt w))"
proof -
  obtain r t where run: "run_transfer (on_headers g sc) (on_chunk g sc) (forward_streaming (gen_transport g) q tgt) w = (r, t)"
    by fastforce
  note mem = run_transfer_memory [OF on_headers_keeps on_chunk_keeps assms run]
  show ?thesis
  proof (cases r)
    case (Inr x)
    with mem run show ?thesis
      by (cases x) (auto simp: forward_request_def split_beta intro!: holds_drop_lease holds_finish_response)
  next
    case (Inl e)
    show ?thesis
    proof (cases e)
      case (ProxyError status type message)
      obtain out w1 where f: "upstream_failed rt sc h status type message t = (out, w1)" by fastforce
      then have "holds b n w1" using holds_upstream_failed mem Inl by (metis add.right_neutral old.sum.simps(5) snd_conv)
      with Inl ProxyError run f show ?thesis
        by (auto simp: forward_request_def split: sum.splits intro: holds_finish_response)
    qed (use Inl mem run in \<open>simp_all add: forward_request_def\<close>)
  qed
qed

lemma holds_run_pipeline:
  assumes "holds b n w" "run_pipeline rt p body w = (r, w')"
  shows "holds b (n + (case r of Inr res \<Rightarrow> memory_bytes (rewritten_body_memory res) | Inl _ \<Rightarrow> 0)) w'"
proof (cases "request_pipeline p")
  case None
  with assms show ?thesis
    by (auto simp: run_pipeline_def missing_pipeline_def initial_result_def memory_bytes_def)
next
  case (Some rules)
  obtain res m where "pipeline_apply (rt_library rt) rules body True (w_metrics w) = Inr (res, m)" "inflight_ok m"
    "inflight_used m = inflight_used (w_metrics w) + memory_bytes (rewritten_body_memory res)"
    using pipeline_apply_spec [of "w_metrics w"] assms(1) by (metis holds_def)
  with assms Some show ?thesis by (auto simp: run_pipeline_def holds_def)
qed

lemma log_traces_kept [simp]:
  "w_metrics (log_traces sc trs w) = w_metrics w" "w_calls (log_traces sc trs w) = w_calls w"
  by (induction trs arbitrary: w) (simp_all add: split_beta)

lemma log_request_kept [simp]:
  "w_metrics (log_request_received g sc found q w) = w_metrics w" "w_calls (log_request_received g sc found q w) = w_calls w"
  "w_metrics (log_upstream_request g sc res tgt q w) = w_metrics w" "w_calls (log_upstream_request g sc res tgt q w) = w_calls w"
  by (simp_all add: log_request_received_def log_upstream_request_def)

lemma holds_pipeline_failed: "holds b n w \<Longrightarrow> holds b n (snd (pipeline_failed rt g sc h res w))"
  by (simp add: pipeline_failed_def Let_def split_beta holds_send_response)

lemma holds_adopt_body:
  assumes "holds b (n + owned l) w" "adopt_body res body_bytes q l w = (q', l', w')"
  shows "holds b (n + owned l') w'"
proof (cases "rewritten_body res")
  case (Some body)
  obtain l1 m1 where s: "lease_shrink (of_nat (min body_bytes (unat (lease_bytes l)))) l (w_metrics w) = (l1, m1)" by fastforce
  with assms Some lease_shrink_spec [OF _ _ s] show ?thesis by (auto simp: adopt_body_def holds_def)
qed (use assms in \<open>simp add: adopt_body_def\<close>)

lemma holds_serve_request:
  assumes "holds b (owned l) w" "serve_request rt g sc p h found tgt q l body_bytes w = (r, ls, w')"
  shows "holds b (sum_list (map owned ls)) w'"
proof -
  obtain res w1 where p: "run_pipeline rt p (req_body q) (log_request_received g sc found q w) = (res, w1)" by fastforce
  have "holds b (owned l) (log_request_received g sc found q w)" using assms(1) by (simp add: holds_def)
  note mem = holds_run_pipeline [OF this p]
  show ?thesis
  proof (cases res)
    case (Inl e)
    with mem assms(2) p show ?thesis by (auto simp: serve_request_def)
  next
    case (Inr result)
    let ?w2 = "log_traces sc (traces result) w1"
    let ?bm = "case rewritten_body_memory result of None \<Rightarrow> [] | Some b \<Rightarrow> [b]"
    have bm: "memory_bytes (rewritten_body_memory result) = sum_list (map owned ?bm)"
      by (simp add: memory_bytes_def split: option.splits)
    have w2: "holds b (sum_list (map owned ?bm) + owned l) ?w2" using mem Inr bm by (simp add: holds_def)
    show ?thesis
    proof (cases "result_ok result")
      case False
      with assms(2) p Inr have "w' = snd (pipeline_failed rt g sc h result ?w2)" "ls = l # ?bm"
        by (auto simp: serve_request_def Let_def split_beta)
      with holds_pipeline_failed [OF w2] show ?thesis by (simp add: add.commute)
    next
      case True
      obtain q3 l3 w3 where a: "adopt_body result body_bytes q l ?w2 = (q3, l3, w3)" by (metis prod_cases3)
      with assms(2) p Inr True have w': "w' = snd (forward_request rt g sc h q3 tgt (log_upstream_request g sc result tgt q3 w3))"
        and ls: "ls = l3 # ?bm"
        by (auto simp: serve_request_def Let_def split_beta)
      have "holds b (sum_list (map owned ?bm) + owned l3) (log_upstream_request g sc result tgt q3 w3)"
        using holds_adopt_body [OF w2 a] by (simp add: holds_def)
      with holds_forward_request w' ls show ?thesis by (simp add: add.commute)
    qed
  qed
qed

lemma holds_serve:
  assumes "holds b (owned l) w" "serve rt g sc q l body_bytes w = (r, sc', ls, w')"
  shows "holds b (sum_list (map owned ls)) w'"
proof -
  let ?q = "q\<lparr>req_request_id := sc_request_id sc\<rparr>"
  let ?found = "route_lookup (gen_routes g) (req_method q) (req_path q)"
  have matched: "holds b (sum_list (map owned ls)) w'"
    if "serve_matched rt g sc entry ?found ?q l body_bytes w = (r, sc', ls, w')" for entry
    using that assms(1) holds_serve_usage [OF assms(1)]
    by (auto simp: serve_matched_def Let_def split: option.splits if_splits prod.splits dest: holds_serve_request) (metis snd_conv)
  have rejected: "holds b (sum_list (map owned ls)) w'"
    if "(case reject_route rt sc ?q ?found w of (r, w) \<Rightarrow> (r, sc, [l], w)) = (r, sc', ls, w')"
    using that holds_reject_route [OF assms(1)] by (auto simp: split_beta)
  show ?thesis
    using assms(2) by (auto simp: serve_def Let_def intro: matched rejected split: route_lookup_status.splits option.splits)
qed

lemma holds_handle_exception: "holds b n w \<Longrightarrow> holds b n (snd (handle_exception rt sc e w))"
  by (cases e) (simp_all add: holds_send_response split_beta)

lemma holds_process_parsed:
  assumes "holds b (owned l) w"
  shows "holds b 0 (snd (process_parsed_with_generation rt g rid cancelled q l body_bytes w))"
proof -
  obtain r sc ls w1 where s: "serve rt g (new_scope rid g) q l body_bytes (request_scope_begin w) = (r, sc, ls, w1)"
    by (metis prod_cases4)
  have "holds b (owned l) (request_scope_begin w)" using assms by (simp add: request_scope_begin_def)
  note holds_serve [OF this s]
  then have "holds b (sum_list (map owned ls)) (snd (case r of Inr b \<Rightarrow> (Inr b, w1) | Inl e \<Rightarrow> handle_exception rt sc e w1))"
    by (simp add: holds_handle_exception split: sum.split)
  then have "holds b 0 (drop_leases ls (request_scope_end cancelled
      (snd (case r of Inr b \<Rightarrow> (Inr b, w1) | Inl e \<Rightarrow> handle_exception rt sc e w1))))"
    by (intro holds_drop_leases) (simp add: request_scope_end_def)
  then show ?thesis by (simp only: process_parsed_with_generation_def s prod.case) (simp add: split_beta)
qed

section \<open>What the client receives\<close>

text \<open>A response that was sent in one go, up to the first call of the sender that failed.\<close>

definition whole_response :: "http_response \<Rightarrow> (string \<times> bool) list \<Rightarrow> bool" where
  "whole_response r calls \<longleftrightarrow>
     calls = [(response_head_text r True, False)]
     \<or> response_body r = [] \<and> calls = [(response_head_text r True, True)]
     \<or> response_body r \<noteq> [] \<and> (\<exists>b. calls = [(response_head_text r True, True), (response_body r, b)])"

text \<open>The calls a transfer makes when it passes a response on piece by piece.\<close>

primrec emits :: "upstream \<Rightarrow> (string \<times> bool) list \<Rightarrow> bool" where
  "emits (Reserve n k) cs = (\<exists>b. emits (k b) cs)"
| "emits (Release n u) cs = emits u cs"
| "emits (OnHeaders r k) cs = (\<exists>b cs'. cs = (response_head_text r False, b) # cs' \<and> emits (k (Inr b)) cs')"
| "emits (OnChunk d k) cs = (\<exists>b cs'. cs = (d, b) # cs' \<and> emits (k (Inr b)) cs')"
| "emits (Respond r) cs = (cs = [])"
| "emits (Throw e) cs = (cs = [])"

text \<open>
  The rules for transports: the head of a response comes once and before its chunks; nothing
  more comes after a refusal; an exception of the header callback is passed on as it is;
  once the head was delivered, failures are reported as \<open>ProxyError\<close>; a plain transfer calls nothing back.
\<close>

datatype phase = Quiet | Streaming | Closed | Failing server_exn | Plain

primrec disciplined :: "upstream \<Rightarrow> phase \<Rightarrow> bool" where
  "disciplined (Reserve n k) p = (\<forall>b. disciplined (k b) p)"
| "disciplined (Release n u) p = disciplined u p"
| "disciplined (OnHeaders r k) p \<longleftrightarrow>
     p = Quiet \<and> disciplined (k (Inr True)) Streaming \<and> disciplined (k (Inr False)) Closed
     \<and> (\<forall>e. e \<noteq> NullDereference \<longrightarrow> disciplined (k (Inl e)) (Failing e))"
| "disciplined (OnChunk d k) p \<longleftrightarrow>
     p = Streaming \<and> disciplined (k (Inr True)) Streaming \<and> disciplined (k (Inr False)) Closed"
| "disciplined (Respond r) p = (\<forall>e. p \<noteq> Failing e)"
| "disciplined (Throw e) p \<longleftrightarrow>
     e \<noteq> NullDereference
     \<and> (case p of Streaming \<Rightarrow> is_ProxyError e | Closed \<Rightarrow> is_ProxyError e | Failing e' \<Rightarrow> e = e' | _ \<Rightarrow> True)"

lemma disciplined_head_first:
  "disciplined u Closed \<Longrightarrow> emits u cs \<Longrightarrow> cs = []"
  "disciplined u Quiet \<Longrightarrow> emits u cs \<Longrightarrow> cs \<noteq> [] \<Longrightarrow> \<exists>r b ds. cs = (response_head_text r False, b) # ds \<and> (b \<or> ds = [])"
proof -
  show closed: "disciplined u Closed \<Longrightarrow> emits u cs \<Longrightarrow> cs = []" for u cs
    by (induction u) auto
  show "disciplined u Quiet \<Longrightarrow> emits u cs \<Longrightarrow> cs \<noteq> [] \<Longrightarrow> \<exists>r b ds. cs = (response_head_text r False, b) # ds \<and> (b \<or> ds = [])"
  proof (induction u)
    case (OnHeaders r k)
    then obtain b ds where cs: "cs = (response_head_text r False, b) # ds" "emits (k (Inr b)) ds" by auto
    with OnHeaders.prems(1) closed have "b \<or> ds = []" by (cases b) auto
    with cs show ?case by blast
  next
    case (Reserve n k)
    then show ?case by simp blast
  qed auto
qed

lemma call_sender_calls:
  "call_sender d w = (b, w') \<Longrightarrow> w_calls w' = w_calls w @ [(d, b)]"
  by (auto simp: call_sender_def split: list.splits)

lemma send_response_calls:
  assumes "send_response r budgeted w = (res, w')"
  obtains "res = Inl BudgetExhausted" "budgeted" "w_calls w' = w_calls w"
  | b calls where "res = Inr b" "w_calls w' = w_calls w @ calls" "whole_response r calls"
proof -
  obtain h m where h: "build_response_head r True budgeted (w_metrics w) = (h, m)" by fastforce
  show thesis
  proof (cases h)
    case None
    with h assms have "res = Inl BudgetExhausted" "budgeted" "w_calls w' = w_calls w"
      by (auto simp: send_response_def build_response_head_def split: if_splits)
    then show ?thesis by (rule that(1))
  next
    case (Some x)
    then obtain memory where x: "h = Some (memory, response_head_text r True)"
      using h by (auto simp: build_response_head_def split: if_splits prod.splits option.splits)
    obtain b w1 where s1: "call_sender (response_head_text r True) (w\<lparr>w_metrics := m\<rparr>) = (b, w1)" by fastforce
    obtain b2 w2 where s2: "call_sender (response_body r) w1 = (b2, w2)" by fastforce
    note c = call_sender_calls [OF s1] call_sender_calls [OF s2]
    have drop: "w_calls (case memory of None \<Rightarrow> v | Some l \<Rightarrow> drop_lease l v) = w_calls v" for v by (simp split: option.splits)
    show ?thesis
    proof (cases "b \<and> response_body r \<noteq> []")
      case True
      with assms h x s1 s2 have "res = Inr b2" "w_calls w' = w_calls w2"
        by (auto simp: send_response_def Let_def drop)
      with c True show ?thesis by (intro that(2) [of b2 "[(response_head_text r True, True), (response_body r, b2)]"])
          (auto simp: whole_response_def)
    next
      case False
      with assms h x s1 have "res = Inr b" "w_calls w' = w_calls w1"
        by (auto simp: send_response_def Let_def drop split: if_splits)
      with c False show ?thesis by (intro that(2) [of b "[(response_head_text r True, b)]"]) (auto simp: whole_response_def)
    qed
  qed
qed

lemma on_headers_cases:
  assumes "on_headers g sc r t = (a, t')"
  obtains "a = Inl BudgetExhausted" "tr_streamed t'" "w_calls (tr_world t') = w_calls (tr_world t)"
  | b where "a = Inr b" "tr_streamed t'" "w_calls (tr_world t') = w_calls (tr_world t) @ [(response_head_text r False, b)]"
proof -
  define w where "w = log_stream_head g sc r (count stream_started (tr_world t))"
  obtain h m where h: "build_response_head r False True (w_metrics w) = (h, m)" by fastforce
  have run: "(a, t') = (case (h, m) of (None, m) \<Rightarrow> (Inl BudgetExhausted, t\<lparr>tr_streamed := True\<rparr>\<lparr>tr_world := w\<lparr>w_metrics := m\<rparr>\<rparr>)
      | (Some (memory, d), m) \<Rightarrow> (let (sent, w) = call_sender d (w\<lparr>w_metrics := m\<rparr>)
          in (Inr sent, t\<lparr>tr_streamed := True\<rparr>\<lparr>tr_world := (case memory of None \<Rightarrow> w | Some l \<Rightarrow> drop_lease l w)\<rparr>)))"
    using assms unfolding on_headers_def Let_def w_def [symmetric] h by simp
  show thesis
  proof (cases h)
    case None
    with run show ?thesis by (intro that(1)) (auto simp: w_def)
  next
    case (Some x)
    then obtain memory where x: "h = Some (memory, response_head_text r False)"
      using h by (auto simp: build_response_head_def split: prod.splits option.splits)
    obtain b w1 where s1: "call_sender (response_head_text r False) (w\<lparr>w_metrics := m\<rparr>) = (b, w1)" by fastforce
    with run x call_sender_calls [OF s1] show ?thesis
      by (intro that(2) [of b]) (auto simp: w_def Let_def split: option.splits)
  qed
qed

lemma on_chunk_cases:
  assumes "on_chunk g sc d t = (a, t')"
  obtains b where "a = Inr b" "tr_streamed t' = tr_streamed t" "w_calls (tr_world t') = w_calls (tr_world t) @ [(d, b)]"
proof -
  define w where "w = (if enabled ''info'' (gen_logger g) then log_call ''info'' ''stream_chunk''
      (scope_fields sc @ [field_number ''chunk_sequence'' (int (tr_chunks t)), field_number ''chunk_size'' (int (length d))]
       @ body_fields (gen_logging g) d) (tr_world t) else tr_world t)"
  obtain b w1 where s: "call_sender d w = (b, w1)" by fastforce
  have "w_calls w = w_calls (tr_world t)" by (simp add: w_def)
  with assms s call_sender_calls [OF s] show thesis
    unfolding on_chunk_def Let_def w_def [symmetric] s by (intro that [of b]) auto
qed

text \<open>The three stages of a transfer with the callbacks of the server.\<close>

lemma run_failing:
  assumes "disciplined u (Failing e)" "run_upstream (on_headers g sc) (on_chunk g sc) u t = (r, t')"
  shows "r = Inl e \<and> tr_streamed t' = tr_streamed t \<and> w_calls (tr_world t') = w_calls (tr_world t)"
  using assms
proof (induction u arbitrary: t)
  case (Reserve n k)
  obtain b l m where g: "lease_try_grow (of_nat n) (tr_memory t) (w_metrics (tr_world t)) = (b, l, m)" by (metis prod_cases3)
  let ?t = "t\<lparr>tr_memory := l, tr_world := (tr_world t)\<lparr>w_metrics := m\<rparr>\<rparr>"
  from Reserve.IH [of "k b" ?t] Reserve.prems g show ?case by simp
next
  case (Release n u)
  obtain l m where g: "lease_shrink (of_nat n) (tr_memory t) (w_metrics (tr_world t)) = (l, m)" by fastforce
  let ?t = "t\<lparr>tr_memory := l, tr_world := (tr_world t)\<lparr>w_metrics := m\<rparr>\<rparr>"
  from Release.IH [of ?t] Release.prems g show ?case by simp
qed auto

lemma run_streaming:
  assumes "disciplined u p" "p = Streaming \<or> p = Closed" "tr_streamed t"
    and "run_upstream (on_headers g sc) (on_chunk g sc) u t = (r, t')"
  shows "tr_streamed t' \<and> (\<exists>cs. w_calls (tr_world t') = w_calls (tr_world t) @ cs \<and> emits u cs)
    \<and> (\<forall>e. r = Inl e \<longrightarrow> is_ProxyError e)"
  using assms
proof (induction u arbitrary: p t)
  case (Reserve n k)
  obtain b l m where g: "lease_try_grow (of_nat n) (tr_memory t) (w_metrics (tr_world t)) = (b, l, m)" by (metis prod_cases3)
  let ?t = "t\<lparr>tr_memory := l, tr_world := (tr_world t)\<lparr>w_metrics := m\<rparr>\<rparr>"
  from Reserve.IH [of "k b" p ?t] Reserve.prems g show ?case by auto
next
  case (Release n u)
  obtain l m where g: "lease_shrink (of_nat n) (tr_memory t) (w_metrics (tr_world t)) = (l, m)" by fastforce
  let ?t = "t\<lparr>tr_memory := l, tr_world := (tr_world t)\<lparr>w_metrics := m\<rparr>\<rparr>"
  from Release.IH [of p ?t] Release.prems g show ?case by auto
next
  case (OnChunk d k)
  obtain a t1 where c: "on_chunk g sc d t = (a, t1)" by fastforce
  then obtain b where b: "a = Inr b" "tr_streamed t1 = tr_streamed t" "w_calls (tr_world t1) = w_calls (tr_world t) @ [(d, b)]"
    by (rule on_chunk_cases)
  have "disciplined (k (Inr b)) (if b then Streaming else Closed)" using OnChunk.prems(1) by simp
  moreover have "run_upstream (on_headers g sc) (on_chunk g sc) (k (Inr b)) t1 = (r, t')" "tr_streamed t1"
    using OnChunk.prems(3,4) b c by simp_all
  ultimately obtain cs where
    "tr_streamed t'" "w_calls (tr_world t') = w_calls (tr_world t1) @ cs" "emits (k (Inr b)) cs" "\<forall>e. r = Inl e \<longrightarrow> is_ProxyError e"
    using OnChunk.IH [OF rangeI] by (metis (full_types))
  with b(3) show ?case by (intro conjI exI [of _ "(d, b) # cs"]) auto
qed auto

lemma run_quiet:
  assumes "disciplined u Quiet" "\<not> tr_streamed t" "run_upstream (on_headers g sc) (on_chunk g sc) u t = (r, t')"
  shows "(w_calls (tr_world t') = w_calls (tr_world t) \<and> \<not> tr_streamed t' \<and> r \<noteq> Inl NullDereference)
    \<or> (w_calls (tr_world t') = w_calls (tr_world t) \<and> tr_streamed t' \<and> r = Inl BudgetExhausted)
    \<or> (\<exists>cs. w_calls (tr_world t') = w_calls (tr_world t) @ cs \<and> cs \<noteq> [] \<and> emits u cs \<and> tr_streamed t'
          \<and> (\<forall>e. r = Inl e \<longrightarrow> is_ProxyError e))"
  using assms
proof (induction u arbitrary: t)
  case (Reserve n k)
  obtain b l m where g: "lease_try_grow (of_nat n) (tr_memory t) (w_metrics (tr_world t)) = (b, l, m)" by (metis prod_cases3)
  let ?t = "t\<lparr>tr_memory := l, tr_world := (tr_world t)\<lparr>w_metrics := m\<rparr>\<rparr>"
  from Reserve.IH [of "k b" ?t] Reserve.prems g show ?case by auto
next
  case (Release n u)
  obtain l m where g: "lease_shrink (of_nat n) (tr_memory t) (w_metrics (tr_world t)) = (l, m)" by fastforce
  let ?t = "t\<lparr>tr_memory := l, tr_world := (tr_world t)\<lparr>w_metrics := m\<rparr>\<rparr>"
  from Release.IH [of ?t] Release.prems g show ?case by auto
next
  case (OnHeaders h k)
  obtain a t1 where c: "on_headers g sc h t = (a, t1)" by fastforce
  then have rest: "run_upstream (on_headers g sc) (on_chunk g sc) (k a) t1 = (r, t')" using OnHeaders.prems(3) by simp
  from c show ?case
  proof (cases rule: on_headers_cases)
    case 1
    with run_failing [OF _ rest] OnHeaders.prems(1) show ?thesis by auto
  next
    case (2 b)
    have "disciplined (k (Inr b)) (if b then Streaming else Closed)" using OnHeaders.prems(1) by simp
    from run_streaming [OF this _ 2(2)] rest 2(1) obtain cs where
      "tr_streamed t'" "w_calls (tr_world t') = w_calls (tr_world t1) @ cs" "emits (k (Inr b)) cs" "\<forall>e. r = Inl e \<longrightarrow> is_ProxyError e"
      by (metis (full_types))
    with 2 show ?thesis by (intro disjI2 exI [of _ "(response_head_text h False, b) # cs"]) auto
  qed
qed auto

lemma transfer_calls:
  assumes "disciplined u Quiet" "run_transfer (on_headers g sc) (on_chunk g sc) u w = (r, t)"
  shows "(w_calls (tr_world t) = w_calls w \<and> \<not> tr_streamed t \<and> r \<noteq> Inl NullDereference)
    \<or> (w_calls (tr_world t) = w_calls w \<and> tr_streamed t \<and> r = Inl BudgetExhausted)
    \<or> (\<exists>cs. w_calls (tr_world t) = w_calls w @ cs \<and> cs \<noteq> [] \<and> emits u cs \<and> tr_streamed t \<and> (\<forall>e. r = Inl e \<longrightarrow> is_ProxyError e))"
proof -
  let ?t0 = "\<lparr>tr_world = w, tr_streamed = False, tr_chunks = 0, tr_bytes = 0, tr_memory = \<lparr>lease_valid = True, lease_bytes = 0\<rparr>\<rparr>"
  obtain r1 t1 where run: "run_upstream (on_headers g sc) (on_chunk g sc) u ?t0 = (r1, t1)" by fastforce
  from run_quiet [OF assms(1) _ run] assms(2) run show ?thesis
    by (cases r1) (auto simp: run_transfer_def)
qed

lemma run_plain:
  assumes "disciplined u Plain" "run_upstream hc cc u t = (r, t')"
  shows "r \<noteq> Inl NullDereference \<and> w_calls (tr_world t') = w_calls (tr_world t)"
  using assms
proof (induction u arbitrary: t)
  case (Reserve n k)
  obtain b l m where g: "lease_try_grow (of_nat n) (tr_memory t) (w_metrics (tr_world t)) = (b, l, m)" by (metis prod_cases3)
  let ?t = "t\<lparr>tr_memory := l, tr_world := (tr_world t)\<lparr>w_metrics := m\<rparr>\<rparr>"
  from Reserve.IH [of "k b" ?t] Reserve.prems g show ?case by simp
next
  case (Release n u)
  obtain l m where g: "lease_shrink (of_nat n) (tr_memory t) (w_metrics (tr_world t)) = (l, m)" by fastforce
  let ?t = "t\<lparr>tr_memory := l, tr_world := (tr_world t)\<lparr>w_metrics := m\<rparr>\<rparr>"
  from Release.IH [of ?t] Release.prems g show ?case by simp
qed auto

text \<open>
  What a client may have received when a step ends: nothing, if the step failed or the client is gone;
  else one whole response, or what \<open>P\<close> allows.
\<close>

definition outcome :: "((string \<times> bool) list \<Rightarrow> bool) \<Rightarrow> server_exn + bool \<Rightarrow> (string \<times> bool) list \<Rightarrow> bool" where
  "outcome P r cs \<longleftrightarrow>
     (case r of
        Inr b \<Rightarrow> cs = [] \<and> \<not> b \<or> (\<exists>resp. whole_response resp cs) \<or> P cs
      | Inl e \<Rightarrow> cs = [] \<and> e \<noteq> NullDereference \<and> (\<forall>status type message. e = ProxyError status type message \<longrightarrow> type = ''client_cancelled''))"

lemma outcome_send:
  assumes "w_calls w = []"
  shows "outcome P (fst (send_response r budgeted w)) (w_calls (snd (send_response r budgeted w)))"
proof -
  obtain res w' where s: "send_response r budgeted w = (res, w')" by fastforce
  then show ?thesis by (cases rule: send_response_calls) (use assms s in \<open>auto simp: outcome_def\<close>)
qed

lemma drop_leases_calls [simp]: "w_calls (drop_leases ls w) = w_calls w"
  by (induction ls arbitrary: w) (simp_all add: drop_leases_def)

lemma outcome_reject:
  "w_calls w = [] \<Longrightarrow> outcome P (fst (reject_route rt sc q found w)) (w_calls (snd (reject_route rt sc q found w)))"
  by (simp add: reject_route_def Let_def split_beta outcome_send)

lemma outcome_usage:
  assumes "w_calls w = []" "disciplined (forward (gen_transport g) q tgt) Plain"
  shows "outcome P (fst (serve_usage rt g sc h q tgt w)) (w_calls (snd (serve_usage rt g sc h q tgt w)))"
proof -
  let ?t0 = "\<lparr>tr_world = w, tr_streamed = False, tr_chunks = 0, tr_bytes = 0, tr_memory = \<lparr>lease_valid = True, lease_bytes = 0\<rparr>\<rparr>"
  obtain r1 t1 where run: "run_upstream no_callback no_callback (forward (gen_transport g) q tgt) ?t0 = (r1, t1)" by fastforce
  from run_plain [OF assms(2) run] assms(1) have calls: "r1 \<noteq> Inl NullDereference" "w_calls (tr_world t1) = []" by simp_all
  obtain r w1 where u: "handle_usage_request rt g sc h q tgt w = (r, w1)" by fastforce
  with run calls have "w_calls w1 = [] \<and> (\<forall>e. r = Inl e \<longrightarrow> outcome P (Inl e) [])"
    by (auto simp: handle_usage_request_def run_transfer_def outcome_def split: sum.splits server_exn.splits if_splits)
  with u show ?thesis
    by (cases r) (auto simp: serve_usage_def Let_def split_beta outcome_send)
qed

lemma outcome_finish:
  assumes "w_calls w = []" "\<not> tr_streamed t"
  shows "outcome P (fst (finish_response g sc t r w)) (w_calls (snd (finish_response g sc t r w)))"
  using assms by (simp add: finish_response_def Let_def split_beta outcome_send)

lemma finish_streamed:
  "tr_streamed t \<Longrightarrow> fst (finish_response g sc t r w) = Inr True \<and> w_calls (snd (finish_response g sc t r w)) = w_calls w"
  by (simp add: finish_response_def Let_def split_beta)

lemma upstream_failed_cases:
  assumes "upstream_failed rt sc h status type message t = (out, w)"
  shows "w_calls w = w_calls (tr_world t) \<and> (out = Inl False \<and> type = ''client_cancelled''
    \<or> out = Inl True \<and> tr_streamed t \<or> (\<exists>r. out = Inr r \<and> \<not> tr_streamed t))"
  using assms by (auto simp: upstream_failed_def Let_def split_beta split: if_splits)

lemma outcome_forward:
  assumes "w_calls w = []" "disciplined (forward_streaming (gen_transport g) q tgt) Quiet"
    and "\<And>cs. cs \<noteq> [] \<Longrightarrow> emits (forward_streaming (gen_transport g) q tgt) cs \<Longrightarrow> P cs"
  shows "outcome P (fst (forward_request rt g sc h q tgt w)) (w_calls (snd (forward_request rt g sc h q tgt w)))"
proof -
  let ?u = "forward_streaming (gen_transport g) q tgt"
  obtain r t where run: "run_transfer (on_headers g sc) (on_chunk g sc) ?u w = (r, t)" by fastforce
  let ?f = "forward_request rt g sc h q tgt w"
  have quiet: "w_calls (tr_world t) = []" if "\<not> tr_streamed t" using transfer_calls [OF assms(2) run] that assms(1) by auto
  show ?thesis
  proof (cases r)
    case (Inr x)
    obtain resp l where x: "x = (resp, l)" by fastforce
    have f: "fst ?f = fst (finish_response g sc t resp (tr_world t))" "w_calls (snd ?f) = w_calls (snd (finish_response g sc t resp (tr_world t)))"
      using run Inr x by (simp_all add: forward_request_def split_beta)
    show ?thesis
    proof (cases "tr_streamed t")
      case True
      with transfer_calls [OF assms(2) run] Inr assms(1) have "P (w_calls (tr_world t))" using assms(3) by auto
      with finish_streamed [OF True] f show ?thesis by (auto simp: outcome_def)
    next
      case False
      then show ?thesis unfolding f by (intro outcome_finish quiet)
    qed
  next
    case (Inl e)
    show ?thesis
    proof (cases "is_ProxyError e")
      case True
      then obtain status type message where e: "e = ProxyError status type message" by (cases e) auto
      obtain out w1 where o: "upstream_failed rt sc h status type message t = (out, w1)" by fastforce
      have streamed: "tr_streamed t \<Longrightarrow> P (w_calls (tr_world t))"
        using transfer_calls [OF assms(2) run] Inl e assms(1,3) by auto
      have f: "?f = (case out of Inl b \<Rightarrow> (Inr b, w1) | Inr r \<Rightarrow> finish_response g sc t r w1)"
        using run Inl e o by (simp add: forward_request_def)
      note c = upstream_failed_cases [OF o]
      show ?thesis
      proof (cases out)
        case (Inl b)
        with c f streamed quiet show ?thesis by (cases "tr_streamed t") (auto simp: outcome_def)
      next
        case (Inr resp)
        with c quiet have "w_calls w1 = []" "\<not> tr_streamed t" by auto
        with f Inr outcome_finish show ?thesis by simp
      qed
    next
      case False
      with transfer_calls [OF assms(2) run] Inl assms(1) have "w_calls (tr_world t) = []" "e \<noteq> NullDereference" by auto
      with False run Inl show ?thesis by (cases e) (auto simp: forward_request_def outcome_def)
    qed
  qed
qed

text \<open>The request that is forwarded: the received one with the body the rules made of it.\<close>

definition forwarded_request :: "json_runtime \<Rightarrow> runtime_profile \<Rightarrow> string \<Rightarrow> http_request \<Rightarrow> http_request \<Rightarrow> bool" where
  "forwarded_request rt p rid q q' \<longleftrightarrow>
     (\<exists>rules m result m'. request_pipeline p = Some rules
        \<and> pipeline_apply (rt_library rt) rules (req_body q) True m = Inr (result, m') \<and> result_ok result
        \<and> q' = (case rewritten_body result of
                  None \<Rightarrow> q\<lparr>req_request_id := rid\<rparr>
                | Some body \<Rightarrow> q\<lparr>req_request_id := rid, req_body := body, req_body_memory := rewritten_body_memory result\<rparr>))"

definition streamed_from :: "json_runtime \<Rightarrow> generation \<Rightarrow> string \<Rightarrow> http_request \<Rightarrow> (string \<times> bool) list \<Rightarrow> bool" where
  "streamed_from rt g rid q cs \<longleftrightarrow> cs \<noteq> [] \<and>
     (\<exists>entry p q'. lookup_entry (route_lookup (gen_routes g) (req_method q) (req_path q)) = Some entry
        \<and> route_profile entry = Some p \<and> forwarded_request rt p rid q q'
        \<and> emits (forward_streaming (gen_transport g) q' (target entry)) cs)"

definition obeys :: "transport \<Rightarrow> bool" where
  "obeys tp \<longleftrightarrow> (\<forall>q tgt. disciplined (forward_streaming tp q tgt) Quiet \<and> disciplined (forward tp q tgt) Plain)"

lemma outcome_serve_request:
  assumes "obeys (gen_transport g)" "w_calls w = []"
    and "serve_request rt g sc p h found tgt (q\<lparr>req_request_id := rid\<rparr>) l body_bytes w = (r, ls, w')"
    and P: "\<And>cs q'. forwarded_request rt p rid q q' \<Longrightarrow> cs \<noteq> [] \<Longrightarrow> emits (forward_streaming (gen_transport g) q' tgt) cs \<Longrightarrow> P cs"
  shows "outcome P r (w_calls w')"
proof -
  let ?q = "q\<lparr>req_request_id := rid\<rparr>"
  obtain res w1 where pl: "run_pipeline rt p (req_body q) (log_request_received g sc found ?q w) = (res, w1)" by fastforce
  then have calls: "w_calls w1 = []" using assms(2)
    by (auto simp: run_pipeline_def split: option.splits sum.splits json_fault.splits)
  show ?thesis
  proof (cases res)
    case (Inl e)
    with pl have "e = BudgetExhausted \<or> e = OtherFailure []"
      by (auto simp: run_pipeline_def split: option.splits sum.splits json_fault.splits)
    with assms(3) pl Inl calls show ?thesis by (auto simp: serve_request_def outcome_def)
  next
    case (Inr result)
    let ?w2 = "log_traces sc (traces result) w1"
    show ?thesis
    proof (cases "result_ok result")
      case False
      with assms(3) pl Inr have "r = fst (pipeline_failed rt g sc h result ?w2)" "w' = snd (pipeline_failed rt g sc h result ?w2)"
        by (auto simp: serve_request_def Let_def split_beta)
      then show ?thesis using calls by (simp add: pipeline_failed_def Let_def split_beta outcome_send)
    next
      case True
      obtain q3 l3 w3 where a: "adopt_body result body_bytes ?q l ?w2 = (q3, l3, w3)" by (metis prod_cases3)
      let ?f = "forward_request rt g sc h q3 tgt (log_upstream_request g sc result tgt q3 w3)"
      from assms(3) pl Inr True a have f: "r = fst ?f" "w' = snd ?f" by (auto simp: serve_request_def Let_def split_beta)
      have "w_calls w3 = []" using a calls by (auto simp: adopt_body_def split: option.splits prod.splits)
      moreover have "forwarded_request rt p rid q q3"
      proof -
        obtain rules m m' where "request_pipeline p = Some rules"
          "pipeline_apply (rt_library rt) rules (req_body q) True m = Inr (result, m')"
          using pl Inr True
          by (auto simp: run_pipeline_def missing_pipeline_def split: option.splits sum.splits json_fault.splits)
        moreover have "q3 = (case rewritten_body result of None \<Rightarrow> ?q
            | Some body \<Rightarrow> ?q\<lparr>req_body := body, req_body_memory := rewritten_body_memory result\<rparr>)"
          using a by (auto simp: adopt_body_def split: option.splits prod.splits)
        ultimately show ?thesis unfolding forwarded_request_def using True by blast
      qed
      ultimately show ?thesis
        unfolding f using assms(1) P by (intro outcome_forward) (auto simp: obeys_def)
    qed
  qed
qed

text \<open>A route that was added has a profile with a handler.\<close>

lemma added_route_complete:
  assumes "route_add_all es empty_route_table = Inr rt" "route_find rt k = Some e"
  shows "\<exists>p h. route_profile e = Some p \<and> handler p = Some h"
proof -
  have "\<forall>k e. route_find rt k = Some e \<longrightarrow> (\<exists>p h. route_profile e = Some p \<and> handler p = Some h)"
    if "route_add_all es rt0 = Inr rt" "\<forall>k e. route_find rt0 k = Some e \<longrightarrow> (\<exists>p h. route_profile e = Some p \<and> handler p = Some h)" for rt0
    using that
  proof (induction es arbitrary: rt0)
    case (Cons e0 es)
    then obtain rt1 where rt1: "route_add e0 rt0 = Inr rt1" "route_add_all es rt1 = Inr rt" by auto
    then obtain c where "check_route e0 = Inr c" by (auto simp: route_add_def)
    then have "\<exists>p h. route_profile e0 = Some p \<and> handler p = Some h"
      by (auto simp: check_route_def split: option.splits if_splits)
    with Cons.prems(2) route_find_add(2) [OF rt1(1)]
    have "\<forall>k e. route_find rt1 k = Some e \<longrightarrow> (\<exists>p h. route_profile e = Some p \<and> handler p = Some h)"
      by (auto simp: route_stored_def)
    with Cons.IH [OF rt1(2)] show ?case by blast
  qed simp
  moreover have "route_find empty_route_table k = None" for k by (simp add: route_find_def empty_route_table_def)
  ultimately show ?thesis using assms by (metis option.distinct(1))
qed

lemma outcome_serve:
  assumes "route_add_all es empty_route_table = Inr (gen_routes g)" "obeys (gen_transport g)" "w_calls w = []"
    and "serve rt g sc q l body_bytes w = (r, sc', ls, w')"
  shows "outcome (streamed_from rt g (sc_request_id sc) q) r (w_calls w')"
proof -
  let ?q = "q\<lparr>req_request_id := sc_request_id sc\<rparr>"
  let ?found = "route_lookup (gen_routes g) (req_method q) (req_path q)"
  show ?thesis
  proof (cases "lookup_status ?found = Matched")
    case True
    then obtain c entry where found: "canonicalize_http_path (req_path q) = Inr c" "lookup_entry ?found = Some entry"
      using route_lookup_matched_path by blast
    with True have "route_find (gen_routes g) (req_method q, c) = Some entry" using route_lookup_find by blast
    then obtain p h where p: "route_profile entry = Some p" "handler p = Some h" using added_route_complete [OF assms(1)] by blast
    let ?sc = "sc\<lparr>sc_profile_id := profile_id p, sc_protocol_id := handler_id h,
                  sc_route_kind := route_kind_name (kind entry), sc_handler := Some h\<rparr>"
    from assms(4) True found(2) have s: "serve_matched rt g sc entry ?found ?q l body_bytes w = (r, sc', ls, w')"
      by (simp add: serve_def Let_def)
    show ?thesis
    proof (cases "kind entry = UsageRoute")
      case True
      with s p have "r = fst (serve_usage rt g ?sc h ?q (target entry) w)" "w' = snd (serve_usage rt g ?sc h ?q (target entry) w)"
        by (auto simp: serve_matched_def Let_def split_beta)
      then show ?thesis using assms(2,3) by (simp add: outcome_usage obeys_def)
    next
      case False
      with s p have "serve_request rt g ?sc p h ?found (target entry) ?q l body_bytes w = (r, ls, w')"
        by (auto simp: serve_matched_def Let_def split: prod.splits)
      then show ?thesis
        by (rule outcome_serve_request [OF assms(2,3)]) (use found(2) p(1) in \<open>auto simp: streamed_from_def\<close>)
    qed
  next
    case False
    with assms(4) have "(case reject_route rt sc ?q ?found w of (r, w) \<Rightarrow> (r, sc, [l], w)) = (r, sc', ls, w')"
      by (auto simp: serve_def Let_def split: route_lookup_status.splits)
    then show ?thesis using outcome_reject [OF assms(3)] by (auto simp: split_beta)
  qed
qed

lemma send_unbudgeted:
  assumes "send_response r False w = (res, w')"
  shows "\<exists>b cs. res = Inr b \<and> w_calls w' = w_calls w @ cs \<and> whole_response r cs"
  using assms by (cases rule: send_response_calls) auto

text \<open>After its handlers a request has returned, and the client has at most one response.\<close>

lemma handled_outcome:
  assumes "outcome P (Inl e) (w_calls w)" "handle_exception rt sc e w = (r, w')"
  shows "\<exists>b. r = Inr b \<and> (w_calls w' = [] \<and> \<not> b \<or> (\<exists>resp. whole_response resp (w_calls w')))"
proof -
  have e: "w_calls w = []" "e \<noteq> NullDereference" "\<And>s t m. e = ProxyError s t m \<Longrightarrow> t = ''client_cancelled''"
    using assms(1) by (auto simp: outcome_def)
  have sent: ?thesis if "send_response resp False v = (r, w')" "w_calls v = []" for resp v
    using send_unbudgeted [OF that(1)] that(2) by auto
  show ?thesis
  proof (cases e)
    case (ProxyError s t m)
    then have "t = ''client_cancelled''" by (rule e(3))
    moreover obtain ms w1 where clock: "read_clock w = (ms, w1)" by fastforce
    moreover have "w_calls w1 = []" using calls_kept(2) [of w] clock e(1) by simp
    ultimately have "r = Inr False" "w_calls w' = []"
      using ProxyError assms(2) by (simp_all del: handle_exception.simps add: handle_exception.simps(2)) (metis calls_kept(1))
    then show ?thesis by blast
  next
    case (InvalidRequest m)
    show ?thesis using sent [OF assms(2) [unfolded InvalidRequest handle_exception.simps]] e(1) by simp
  next
    case BudgetExhausted
    show ?thesis using sent [OF assms(2) [unfolded BudgetExhausted handle_exception.simps]] e(1) by simp
  next
    case (OtherFailure m)
    show ?thesis using sent [OF assms(2) [unfolded OtherFailure handle_exception.simps]] e(1) by simp
  qed (use e(2) in simp)
qed

lemma process_outcome:
  assumes "route_add_all es empty_route_table = Inr (gen_routes g)" "obeys (gen_transport g)" "w_calls w = []"
    and "process_parsed_with_generation rt g rid cancelled q l body_bytes w = (r, w')"
  shows "\<exists>b. r = Inr b \<and> (w_calls w' = [] \<and> \<not> b \<or> (\<exists>resp. whole_response resp (w_calls w')) \<or> streamed_from rt g rid q (w_calls w'))"
proof -
  obtain r1 sc ls w1 where s: "serve rt g (new_scope rid g) q l body_bytes (request_scope_begin w) = (r1, sc, ls, w1)"
    by (metis prod_cases4)
  have "w_calls (request_scope_begin w) = []" using assms(3) by (simp add: request_scope_begin_def)
  from outcome_serve [OF assms(1,2) this s] have o: "outcome (streamed_from rt g rid q) r1 (w_calls w1)"
    by (simp add: new_scope_def)
  obtain r2 w2 where h: "(case r1 of Inr b \<Rightarrow> (Inr b, w1) | Inl e \<Rightarrow> handle_exception rt sc e w1) = (r2, w2)" by fastforce
  have "(r2, drop_leases ls (request_scope_end cancelled w2)) = (r, w')"
    using assms(4) unfolding process_parsed_with_generation_def s prod.case h .
  then have "r = r2" "w_calls w' = w_calls w2" by (auto simp: request_scope_end_def)
  moreover have "\<exists>b. r2 = Inr b \<and> (w_calls w2 = [] \<and> \<not> b \<or> (\<exists>resp. whole_response resp (w_calls w2)) \<or> streamed_from rt g rid q (w_calls w2))"
  proof (cases r1)
    case (Inl e)
    have "handle_exception rt sc e w1 = (r2, w2)" using h Inl by simp
    from handled_outcome [OF o [unfolded Inl] this] show ?thesis by blast
  next
    case (Inr b)
    with h have "r2 = Inr b" "w2 = w1" by simp_all
    moreover have "w_calls w1 = [] \<and> \<not> b \<or> (\<exists>resp. whole_response resp (w_calls w1)) \<or> streamed_from rt g rid q (w_calls w1)"
      using o by (simp add: outcome_def Inr)
    ultimately show ?thesis by blast
  qed
  ultimately show ?thesis by simp
qed

section \<open>Properties\<close>

text \<open>
  Whatever the transport, the rules and the client do, when a request has been handled the bytes in
  flight are those of the other requests: the memory of its head and body, of a rewritten body,
  of the response and of response heads has been returned on every path, errors included.
\<close>

theorem request_memory_returned:
  assumes "inflight_ok (w_metrics w)" "inflight_used (w_metrics w) = n + owned l"
  shows "inflight_ok (w_metrics (snd (process_parsed_with_generation rt g rid cancelled q l body_bytes w)))
    \<and> inflight_used (w_metrics (snd (process_parsed_with_generation rt g rid cancelled q l body_bytes w))) = n"
  using holds_process_parsed [of n l w rt g rid cancelled q body_bytes] assms by (simp add: holds_def)

lemma holds_report_exception: "holds b n w \<Longrightarrow> holds b n (report_exception rt g rid e w)"
  by (cases e) (auto simp: report_client_failure_def report_error_def log_request_error_def holds_send_response)

lemma holds_handle_client:
  assumes "holds b 0 w" "max_body < 2 ^ 62"
  shows "holds b 0 (handle_client rt g rid rid' cancelled max_body client_ip es w)"
proof -
  obtain r m where run: "recv_request max_body client_ip es (w_metrics w) = (r, m)" by fastforce
  have lim: "kHeaderLimit + max_body + 4 < 2 ^ 63" using assms(2) by (simp add: kHeaderLimit_def)
  have ok: "inflight_ok (w_metrics w)" "inflight_used (w_metrics w) = b" using assms(1) by (simp_all add: holds_def)
  note spec = recv_request_cases [OF ok(1) lim run]
  show ?thesis
  proof (cases r)
    case (Inl e)
    with spec ok have w: "holds b 0 (w\<lparr>w_metrics := m\<rparr>)" by (simp add: holds_def)
    with Inl run show ?thesis by (cases e) (simp_all add: handle_client_def holds_report_exception del: report_exception.simps)
  next
    case (Inr x)
    obtain q l n es' where x: "x = (q, l, n, es')" by (metis prod_cases4)
    with spec Inr ok have "holds b (owned l) (w\<lparr>w_metrics := m\<rparr>)" by (auto simp: holds_def)
    note mem = holds_process_parsed [OF this, of rt g rid cancelled q n]
    obtain r2 w2 where p: "process_parsed_with_generation rt g rid cancelled q l n (w\<lparr>w_metrics := m\<rparr>) = (r2, w2)" by fastforce
    with mem have "holds b 0 w2" by simp
    with x Inr run p show ?thesis by (auto simp: handle_client_def holds_report_exception split: sum.split)
  qed
qed


lemma report_calls:
  assumes "w_calls w = []"
  shows "w_calls (report_exception rt g rid e w) = [] \<or> (\<exists>resp. whole_response resp (w_calls (report_exception rt g rid e w)))"
proof -
  have "\<exists>resp. whole_response resp (w_calls (report_error rt g rid status type message w))" for status type message
  proof -
    let ?r = "json_response (rt_dump rt) status message type"
    obtain res w' where s: "send_response ?r False (log_request_error g rid status type message w) = (res, w')" by fastforce
    with send_unbudgeted [OF s] assms show ?thesis by (auto simp: report_error_def log_request_error_def)
  qed
  with assms show ?thesis by (cases e) (auto simp: report_client_failure_def)
qed


lemma rejected_process:
  assumes "lookup_status (route_lookup (gen_routes g) (req_method q) (req_path q)) \<noteq> Matched" "w_calls w = []"
    and "process_parsed_with_generation rt g rid cancelled q l body_bytes w = (r, w')"
  shows "\<exists>b resp. r = Inr b \<and> whole_response resp (w_calls w')
    \<and> (resp = handle_local_route_error (rt_dump rt) (route_lookup (gen_routes g) (req_method q) (req_path q))
       \<or> resp = json_response (rt_dump rt) 503 ''inflight memory budget exhausted'' ''server_error'')"
proof -
  let ?q = "q\<lparr>req_request_id := rid\<rparr>" and ?found = "route_lookup (gen_routes g) (req_method q) (req_path q)" and ?sc = "new_scope rid g"
  let ?resp = "handle_local_route_error (rt_dump rt) ?found"
  define w0 where "w0 = request_scope_begin w"
  have calls0: "w_calls w0 = []" using assms(2) by (simp add: w0_def request_scope_begin_def)
  obtain r1 w1 where rej: "reject_route rt ?sc ?q ?found w0 = (r1, w1)" by fastforce
  have s: "serve rt g ?sc q l body_bytes w0 = (r1, ?sc, [l], w1)"
    using assms(1) rej by (auto simp: serve_def Let_def new_scope_def split: route_lookup_status.splits)
  obtain v where v: "send_response ?resp True v = (r1, w1)" "w_calls v = []"
    using rej calls0 by (auto simp: reject_route_def Let_def split_beta)
  obtain r2 w2 where h: "(case r1 of Inr b \<Rightarrow> (Inr b, w1) | Inl e \<Rightarrow> handle_exception rt ?sc e w1) = (r2, w2)" by fastforce
  have "(r2, drop_leases [l] (request_scope_end cancelled w2)) = (r, w')"
    using assms(3) unfolding process_parsed_with_generation_def w0_def [symmetric] s prod.case h .
  then have res: "r = r2" "w_calls w' = w_calls w2" by (auto simp: request_scope_end_def)
  from v(1) show ?thesis
  proof (cases rule: send_response_calls)
    case 1
    then have "handle_exception rt ?sc BudgetExhausted w1 = (r2, w2)" "w_calls w1 = []" using h v(2) by simp_all
    with send_unbudgeted res show ?thesis by (fastforce simp: scope_error_def new_scope_def)
  next
    case (2 b calls)
    with h v(2) res show ?thesis by auto
  qed
qed

text \<open>The answers to a request without a route.\<close>

definition rejection :: "route_entry list \<Rightarrow> http_request \<Rightarrow> http_response \<Rightarrow> bool" where
  "rejection es q resp \<longleftrightarrow>
     status_code resp = 503 \<or>
         (case canonicalize_http_path (req_path q) of
            Inl _ \<Rightarrow> status_code resp = 400
          | Inr c \<Rightarrow>
              if \<exists>e \<in> set es. snd (route_key e) = c
              then status_code resp = 405
                \<and> (\<exists>ms. map_of (headers resp) ''Allow'' = Some (join_methods ms [])
                    \<and> set ms = {m. \<exists>e \<in> set es. route_key e = (m, c)} \<and> sorted_wrt str_less ms)
              else status_code resp = 404)"


section \<open>A sample server\<close>

definition stream_response :: http_response where
  "stream_response = \<lparr>status_code = 200, reason = ''OK'', headers = [(''Content-Type'', ''text/event-stream'')], response_body = []\<rparr>"

definition sample_transport :: transport where
  "sample_transport =
     \<lparr>proxy_mode = ''direct'',
      forward = (\<lambda>q tgt. Throw (ProxyError 502 ''upstream_error'' ''unreachable'')),
      forward_streaming = (\<lambda>q tgt. Reserve 20 (\<lambda>granted. OnHeaders stream_response
        (case_sum Throw (\<lambda>go_on. if go_on then OnChunk ''data: 1'' (\<lambda>_. Respond stream_response) else Respond stream_response))))\<rparr>"

definition sample_table :: route_table where
  "sample_table = (case route_add_all [sample_route ''POST'' ''/v1/chat/'', sample_route ''GET'' ''/v1/%63hat''] empty_route_table of
     Inr rt \<Rightarrow> rt | Inl _ \<Rightarrow> empty_route_table)"

definition sample_generation :: generation where
  "sample_generation = \<lparr>gen_id = 1, gen_routes = sample_table, gen_logging = logging default_application_settings,
     gen_logger = new_logger ''info'' 100, gen_transport = sample_transport\<rparr>"

definition sample_runtime :: json_runtime where
  "sample_runtime = \<lparr>rt_dump = (\<lambda>_. ''{}''), rt_library = sample_library\<rparr>"

definition sample_world :: world where
  "sample_world = \<lparr>w_metrics = sample_budget, w_calls = [], w_answers = [], w_logs = [], w_clock = []\<rparr>"

definition sample_request_text :: "string \<Rightarrow> string" where
  "sample_request_text method = method @ '' /v1/chat HTTP/1.1'' @ crlf @ ''Content-Length: 2'' @ crlf @ crlf @ ''{}''"

definition sample_connection :: "string \<Rightarrow> world" where
  "sample_connection method =
     handle_client sample_runtime sample_generation ''r1'' ''r2'' False 10 ''::1'' [Arrived (sample_request_text method)] sample_world"

lemma sample_facts:
  "route_add_all [sample_route ''POST'' ''/v1/chat/'', sample_route ''GET'' ''/v1/%63hat''] empty_route_table = Inr (gen_routes sample_generation)"
  "obeys (gen_transport sample_generation)" "w_calls sample_world = []" "inflight_ok (w_metrics sample_world)"
  "inflight_used (w_metrics sample_world) = 0"
proof -
  show "route_add_all [sample_route ''POST'' ''/v1/chat/'', sample_route ''GET'' ''/v1/%63hat''] empty_route_table = Inr (gen_routes sample_generation)"
    using sample_routes_added by (auto simp: sample_generation_def sample_table_def)
qed (auto simp: obeys_def sample_generation_def sample_transport_def sample_world_def inflight_ok_def inflight_used_def sample_budget_def split: sum.splits)



definition sample_lease :: lease where
  "sample_lease = \<lparr>lease_valid = True, lease_bytes = 7\<rparr>"

definition leased_world :: world where
  "leased_world = sample_world\<lparr>w_metrics := sample_budget(InflightM CurrentInflightBytes := 7, InflightM PeakInflightBytes := 7)\<rparr>"

definition sample_process :: "string \<Rightarrow> bool served" where
  "sample_process method = process_parsed_with_generation sample_runtime sample_generation ''r1'' False
     (new_request\<lparr>req_method := method, req_path := ''/v1/chat'', req_body := ''{}''\<rparr>) sample_lease 2 leased_world"

theorem request_memory_returned_witness:
  "inflight_used (w_metrics (snd (sample_process ''GET''))) = 0"
proof -
  have "inflight_ok (w_metrics leased_world)" "inflight_used (w_metrics leased_world) = 0 + owned sample_lease"
    by (simp_all add: leased_world_def sample_world_def sample_budget_def inflight_ok_def inflight_used_def sample_lease_def owned_def)
  from request_memory_returned [OF this] show ?thesis by (simp add: sample_process_def)
qed


end
