(* ===== verification/ServerPool.thy ===== *)
theory ServerPool
  imports Compiler "HOL-Library.Multiset"
begin

text \<open>
  The threads of the server: the acceptor, the worker pool, the registry of open connections, the
  generations of the configuration and their replacement, from \<open>Server::run\<close> and \<open>Server::reload\<close>
  in \<^verbatim>\<open>src/server/server.cpp\<close>. Every part that runs under a mutex is one step, and any interleaving of
  steps is a run; a step that is not enabled changes nothing. A client is its socket handle. What
  a worker does with a client is \<open>handle_client\<close> of \<open>HttpServer\<close> and does not touch this state.
  Shown here: the counters are exact in every state, no accepted connection is lost, shutdown ends with all
  of them closed, and a configuration stays alive exactly as long as it is current or a request uses it.
\<close>

section \<open>Reloading\<close>

datatype reload_result = ReloadApplied | RestartRequired | ReloadFailed

definition listener_changed :: "application_settings \<Rightarrow> application_settings \<Rightarrow> bool" where
  "listener_changed old new \<longleftrightarrow>
     listener_host (listener old) \<noteq> listener_host (listener new) \<or> listener_port (listener old) \<noteq> listener_port (listener new)"

definition execution_changed :: "application_settings \<Rightarrow> application_settings \<Rightarrow> bool" where
  "execution_changed old new \<longleftrightarrow>
     worker_threads (runtime old) \<noteq> worker_threads (runtime new)
     \<or> metrics_interval_ms (runtime old) \<noteq> metrics_interval_ms (runtime new)
     \<or> max_inflight_bytes (runtime old) \<noteq> max_inflight_bytes (runtime new)"

definition same_log_writer_settings :: "application_settings \<Rightarrow> application_settings \<Rightarrow> bool" where
  "same_log_writer_settings old new \<longleftrightarrow>
     log_level (logging old) = log_level (logging new) \<and> queue_capacity (logging old) = queue_capacity (logging new)
     \<and> max_total_size (logging old) = max_total_size (logging new)
     \<and> flush_interval_ms (logging old) = flush_interval_ms (logging new)"

definition restart_required :: "runtime_snapshot \<Rightarrow> runtime_snapshot \<Rightarrow> bool" where
  "restart_required old new \<longleftrightarrow>
     (let a = snap_application old; b = snap_application new in
      listener_changed a b \<or> execution_changed a b
      \<or> snap_log_path old = snap_log_path new \<and> \<not> same_log_writer_settings a b)"

section \<open>The pool\<close>

text \<open>
  A worker waits, has taken a client, serves it with a generation, has closed it, has counted it, or is gone.
\<close>

datatype worker = Ready | Popped nat | Serving nat nat | Closed nat nat | Counted nat | Gone

record pool =
  pl_queue :: "nat list"
  pl_open :: nat
  pl_active :: nat
  pl_workers :: "worker list"
  pl_limit :: nat
  pl_accepting :: bool
  pl_done :: bool
  pl_stop :: bool
  pl_sockets :: "nat list"
  pl_closing :: bool
  pl_current :: nat
  pl_snapshot :: runtime_snapshot
  pl_next_id :: nat
  pl_retired :: "nat list"
  pl_metrics :: metrics

fun generation_of :: "worker \<Rightarrow> nat option" where
  "generation_of (Serving c g) = Some g"
| "generation_of (Closed c g) = Some g"
| "generation_of (Counted g) = Some g"
| "generation_of _ = None"

definition in_use :: "nat \<Rightarrow> pool \<Rightarrow> bool" where
  "in_use g p \<longleftrightarrow> g = pl_current p \<or> Some g \<in> generation_of ` set (pl_workers p)"

text \<open>Dropping the last reference to a retired generation destroys it.\<close>

definition drop_generation :: "nat \<Rightarrow> pool \<Rightarrow> pool" where
  "drop_generation g p =
     (if g \<in> set (pl_retired p) \<and> \<not> in_use g p
      then p\<lparr>pl_retired := removeAll g (pl_retired p), pl_metrics := retired_generation_released (pl_metrics p)\<rparr>
      else p)"

definition mark_retired :: "nat \<Rightarrow> pool \<Rightarrow> pool" where
  "mark_retired g p =
     (if g \<in> set (pl_retired p) then p
      else p\<lparr>pl_retired := g # pl_retired p, pl_metrics := generation_retired (pl_metrics p)\<rparr>)"

text \<open>
  A reload, with the results of opening the log of the new configuration and of making its transport.
\<close>

definition reload ::
    "runtime_snapshot option \<Rightarrow> unit res \<Rightarrow> unit res \<Rightarrow> pool \<Rightarrow> reload_result \<times> string \<times> pool" where
  "reload snapshot log_opened transport_made p =
     (case snapshot of
        None \<Rightarrow> (ReloadFailed, ''runtime snapshot must not be null'', p)
      | Some new \<Rightarrow>
          if table_size (snap_routes new) = 0 then (ReloadFailed, ''runtime snapshot is incomplete'', p)
          else if restart_required (pl_snapshot p) new
          then (RestartRequired, ''configuration changes require a graceful service restart'', p)
          else (case (if snap_log_path (pl_snapshot p) = snap_log_path new then Inr () else log_opened) of
                  Inl e \<Rightarrow> (ReloadFailed, e, p)
                | Inr _ \<Rightarrow>
                    (let gid = pl_next_id p; p = p\<lparr>pl_next_id := gid + 1\<rparr> in
                     case transport_made of
                       Inl e \<Rightarrow> (ReloadFailed, ''failed to build config generation: '' @ e, p)
                     | Inr _ \<Rightarrow>
                         (ReloadApplied, [],
                          drop_generation (pl_current p)
                            ((mark_retired (pl_current p) p)\<lparr>pl_current := gid, pl_snapshot := new\<rparr>)))))"

subsection \<open>Connections\<close>

definition registry_add :: "nat \<Rightarrow> pool \<Rightarrow> bool \<times> pool" where
  "registry_add c p = (if pl_closing p then (False, p) else (True, p\<lparr>pl_sockets := pl_sockets p @ [c]\<rparr>))"

definition close_registered :: "nat \<Rightarrow> pool \<Rightarrow> pool" where
  "close_registered c p = p\<lparr>pl_sockets := remove1 c (pl_sockets p)\<rparr>"

definition close_all :: "pool \<Rightarrow> pool" where
  "close_all p = p\<lparr>pl_closing := True, pl_sockets := []\<rparr>"

text \<open>Thread creation may fail: at most \<open>created\<close> of the wanted threads start.\<close>

definition grow_workers :: "nat \<Rightarrow> nat \<Rightarrow> pool \<Rightarrow> pool" where
  "grow_workers wanted created p =
     p\<lparr>pl_workers := pl_workers p @ replicate (min created (wanted - length (pl_workers p))) Ready\<rparr>"

text \<open>
  An accepted socket; \<open>None\<close> in place of the number of threads stands for an exception while the connection is
  registered or queued.
\<close>

definition accept_client :: "nat \<Rightarrow> nat option \<Rightarrow> pool \<Rightarrow> pool" where
  "accept_client c created p =
     (if pl_open p < unat (max_connections (runtime (snap_application (pl_snapshot p))))
      then (case registry_add c p of
              (False, p) \<Rightarrow> p\<lparr>pl_accepting := False\<rparr>
            | (True, p) \<Rightarrow>
                (case created of
                   None \<Rightarrow> (close_registered c p)\<lparr>pl_stop := True, pl_accepting := False\<rparr>
                 | Some created \<Rightarrow>
                     (let p = p\<lparr>pl_queue := pl_queue p @ [c], pl_open := pl_open p + 1\<rparr>;
                          p = p\<lparr>pl_metrics := connection_accepted (of_nat (pl_open p)) (of_nat (length (pl_queue p))) (pl_metrics p)\<rparr>
                      in grow_workers (min (pl_limit p) (pl_active p + length (pl_queue p))) created p)))
      else p\<lparr>pl_metrics := connection_rejected (pl_metrics p)\<rparr>)"

definition take_job :: "nat \<Rightarrow> nat \<Rightarrow> u64 \<Rightarrow> pool \<Rightarrow> pool" where
  "take_job i c waited p =
     p\<lparr>pl_queue := tl (pl_queue p), pl_active := pl_active p + 1, pl_workers := (pl_workers p)[i := Popped c],
       pl_metrics := worker_started (of_nat (length (tl (pl_queue p)))) waited (pl_metrics p)\<rparr>"

definition count_job :: "nat \<Rightarrow> nat \<Rightarrow> pool \<Rightarrow> pool" where
  "count_job i g p =
     p\<lparr>pl_active := pl_active p - 1, pl_open := pl_open p - 1, pl_workers := (pl_workers p)[i := Counted g],
       pl_metrics := worker_finished (of_nat (pl_open p - 1)) (pl_metrics p)\<rparr>"

text \<open>One round of a worker, part by part; \<open>waited\<close> is the time its job was queued.\<close>

definition worker_step :: "nat \<Rightarrow> u64 \<Rightarrow> pool \<Rightarrow> pool" where
  "worker_step i waited p =
     (if i < length (pl_workers p)
      then (case pl_workers p ! i of
              Ready \<Rightarrow>
                (case pl_queue p of
                   c # _ \<Rightarrow> take_job i c waited p
                 | [] \<Rightarrow> if pl_done p then p\<lparr>pl_workers := (pl_workers p)[i := Gone]\<rparr> else p)
            | Popped c \<Rightarrow> p\<lparr>pl_workers := (pl_workers p)[i := Serving c (pl_current p)]\<rparr>
            | Serving c g \<Rightarrow> close_registered c (p\<lparr>pl_workers := (pl_workers p)[i := Closed c g]\<rparr>)
            | Closed c g \<Rightarrow> count_job i g p
            | Counted g \<Rightarrow> drop_generation g (p\<lparr>pl_workers := (pl_workers p)[i := Ready]\<rparr>)
            | Gone \<Rightarrow> p)
      else p)"

datatype pool_event =
    Accept nat "nat option"
  | AcceptFailed
  | AcceptStops
  | WorkerStep nat u64
  | Reload "runtime_snapshot option" "unit res" "unit res"
  | RequestStop
  | AcceptorJoined

text \<open>The system hands out a handle that is not open.\<close>

fun server_step :: "pool_event \<Rightarrow> pool \<Rightarrow> pool" where
  "server_step (Accept c created) p = (if pl_accepting p \<and> c \<notin> set (pl_sockets p) then accept_client c created p else p)"
| "server_step AcceptFailed p = (if pl_accepting p then p\<lparr>pl_stop := True, pl_accepting := False\<rparr> else p)"
| "server_step AcceptStops p = (if pl_accepting p \<and> pl_stop p then p\<lparr>pl_accepting := False\<rparr> else p)"
| "server_step (WorkerStep i waited) p = worker_step i waited p"
| "server_step (Reload s l t) p = snd (snd (reload s l t p))"
| "server_step RequestStop p = close_all (p\<lparr>pl_stop := True\<rparr>)"
| "server_step AcceptorJoined p = (if pl_accepting p then p else (close_all p)\<lparr>pl_done := True\<rparr>)"

definition start_pool :: "runtime_snapshot \<Rightarrow> nat \<Rightarrow> metrics \<Rightarrow> pool" where
  "start_pool s gid m =
     (let limit = unat (worker_threads (runtime (snap_application s))) in
      \<lparr>pl_queue = [], pl_open = 0, pl_active = 0, pl_workers = replicate (min limit 8) Ready, pl_limit = limit,
       pl_accepting = True, pl_done = False, pl_stop = False, pl_sockets = [], pl_closing = False, pl_current = gid,
       pl_snapshot = s, pl_next_id = gid + 1, pl_retired = [], pl_metrics = m\<rparr>)"

definition pool_run :: "pool_event list \<Rightarrow> pool \<Rightarrow> pool" where
  "pool_run evs p = fold server_step evs p"

section \<open>Invariants\<close>

text \<open>The clients a worker has taken and not yet counted, and those whose sockets are still open.\<close>

fun taken :: "worker \<Rightarrow> nat list" where
  "taken (Popped c) = [c]"
| "taken (Serving c g) = [c]"
| "taken (Closed c g) = [c]"
| "taken _ = []"

fun connected :: "worker \<Rightarrow> nat list" where
  "connected (Popped c) = [c]"
| "connected (Serving c g) = [c]"
| "connected _ = []"

definition busy :: "pool \<Rightarrow> nat list" where
  "busy p = concat (map taken (pl_workers p))"

definition connected_clients :: "pool \<Rightarrow> nat multiset" where
  "connected_clients p = mset (pl_queue p) + mset (concat (map connected (pl_workers p)))"

definition counted_ok :: "pool \<Rightarrow> bool" where
  "counted_ok p \<longleftrightarrow>
     pl_active p = length (busy p) \<and> pl_open p = length (pl_queue p) + length (busy p)
     \<and> length (pl_workers p) \<le> pl_limit p
     \<and> pl_metrics p (ConnectionM CurrentConnections) = of_nat (pl_open p)
     \<and> pl_metrics p (ConnectionM CurrentQueuedConnections) = of_nat (length (pl_queue p))
     \<and> pl_metrics p (ConnectionM CurrentActiveWorkers) = of_nat (pl_active p)
     \<and> pl_metrics p (ConnectionM ConnectionsAccepted) = pl_metrics p (ConnectionM ConnectionsCompleted) + of_nat (pl_open p)"

definition sockets_ok :: "pool \<Rightarrow> bool" where
  "sockets_ok p \<longleftrightarrow> (if pl_closing p then pl_sockets p = [] else mset (pl_sockets p) = connected_clients p)
     \<and> (pl_done p \<longrightarrow> pl_closing p \<and> \<not> pl_accepting p) \<and> (Gone \<in> set (pl_workers p) \<longrightarrow> pl_done p \<and> pl_queue p = [])"

definition generations_ok :: "pool \<Rightarrow> bool" where
  "generations_ok p \<longleftrightarrow>
     distinct (pl_retired p) \<and> pl_current p \<notin> set (pl_retired p) \<and> pl_current p < pl_next_id p
     \<and> (\<forall>g \<in> set (pl_retired p). Some g \<in> generation_of ` set (pl_workers p) \<and> g < pl_next_id p)
     \<and> (\<forall>g. Some g \<in> generation_of ` set (pl_workers p) \<longrightarrow> g = pl_current p \<or> g \<in> set (pl_retired p))
     \<and> pl_limit p < 2 ^ 32 \<and> length (pl_workers p) \<le> pl_limit p
     \<and> pl_metrics p (ControlM CurrentRetiredGenerations) = of_nat (length (pl_retired p))"

lemma mset_concat_update:
  "i < length ws \<Longrightarrow> mset (concat (map f (ws[i := w]))) + mset (f (ws ! i)) = mset (concat (map f ws)) + mset (f w)"
  by (induction ws arbitrary: i) (auto split: nat.splits simp: ac_simps)

lemma length_concat_update:
  assumes "i < length ws"
  shows "length (concat (map f (ws[i := w]))) + length (f (ws ! i)) = length (concat (map f ws)) + length (f w)"
  using arg_cong [OF mset_concat_update [OF assms, of f w], of size] by simp

lemmas metric_defs =
  connection_accepted_def connection_rejected_def worker_started_def worker_finished_def generation_retired_def
  retired_generation_released_def fetch_add_def fetch_sub_def store_def update_peak_def decrement_def Let_def

lemma busy_update:
  assumes "i < length (pl_workers p)"
  shows "length (concat (map taken ((pl_workers p)[i := w]))) + length (taken (pl_workers p ! i)) = length (busy p) + length (taken w)"
  using length_concat_update [OF assms, of taken w] by (simp add: busy_def)

lemma drop_generation_kept [simp]:
  "pl_queue (drop_generation g p) = pl_queue p" "pl_open (drop_generation g p) = pl_open p"
  "pl_active (drop_generation g p) = pl_active p" "pl_workers (drop_generation g p) = pl_workers p"
  "pl_limit (drop_generation g p) = pl_limit p" "pl_accepting (drop_generation g p) = pl_accepting p"
  "pl_done (drop_generation g p) = pl_done p" "pl_sockets (drop_generation g p) = pl_sockets p"
  "pl_closing (drop_generation g p) = pl_closing p" "pl_current (drop_generation g p) = pl_current p"
  "pl_snapshot (drop_generation g p) = pl_snapshot p" "pl_next_id (drop_generation g p) = pl_next_id p"
  "pl_metrics (drop_generation g p) (ConnectionM k) = pl_metrics p (ConnectionM k)"
  by (simp_all add: drop_generation_def metric_defs)

lemma mark_retired_kept [simp]:
  "pl_queue (mark_retired g p) = pl_queue p" "pl_open (mark_retired g p) = pl_open p"
  "pl_active (mark_retired g p) = pl_active p" "pl_workers (mark_retired g p) = pl_workers p"
  "pl_limit (mark_retired g p) = pl_limit p" "pl_accepting (mark_retired g p) = pl_accepting p"
  "pl_done (mark_retired g p) = pl_done p" "pl_sockets (mark_retired g p) = pl_sockets p"
  "pl_closing (mark_retired g p) = pl_closing p" "pl_current (mark_retired g p) = pl_current p"
  "pl_snapshot (mark_retired g p) = pl_snapshot p" "pl_next_id (mark_retired g p) = pl_next_id p"
  "pl_metrics (mark_retired g p) (ConnectionM k) = pl_metrics p (ConnectionM k)"
  by (simp_all add: mark_retired_def metric_defs)

lemma reload_kept:
  fixes s l t p
  defines "p' \<equiv> snd (snd (reload s l t p))"
  shows "pl_queue p' = pl_queue p" "pl_open p' = pl_open p" "pl_active p' = pl_active p" "pl_workers p' = pl_workers p"
    "pl_limit p' = pl_limit p" "pl_accepting p' = pl_accepting p" "pl_done p' = pl_done p" "pl_sockets p' = pl_sockets p"
    "pl_closing p' = pl_closing p" "pl_metrics p' (ConnectionM k) = pl_metrics p (ConnectionM k)"
  unfolding p'_def by (simp_all add: reload_def Let_def split: option.splits sum.splits)

lemma counted_accept: "counted_ok p \<Longrightarrow> counted_ok (accept_client c created p)"
  by (auto simp: counted_ok_def accept_client_def registry_add_def close_registered_def grow_workers_def busy_def metric_defs
      split: option.splits if_splits)

lemma taken_busy: "i < length (pl_workers p) \<Longrightarrow> length (taken (pl_workers p ! i)) \<le> length (busy p)"
  using busy_update [of i p Ready] by simp

lemma counted_worker_step: 
  assumes "counted_ok p"
  shows "counted_ok (worker_step i waited p)"
proof (cases "i < length (pl_workers p)")
  case True
  note upd = busy_update [OF True]
  show ?thesis
  proof (cases "pl_workers p ! i")
    case Ready
    with assms True upd [of "Popped (hd (pl_queue p))"] upd [of Gone] show ?thesis
      by (auto simp: worker_step_def take_job_def counted_ok_def metric_defs busy_def split: list.splits)
  next
    case (Popped c)
    with assms True upd [of "Serving c (pl_current p)"] show ?thesis
      by (auto simp: worker_step_def counted_ok_def busy_def)
  next
    case (Serving c g)
    with assms True upd [of "Closed c g"] show ?thesis
      by (auto simp: worker_step_def counted_ok_def close_registered_def busy_def)
  next
    case (Closed c g)
    with assms True upd [of "Counted g"] taken_busy [OF True] show ?thesis
      by (auto simp: worker_step_def count_job_def counted_ok_def metric_defs busy_def of_nat_diff)
  next
    case (Counted g)
    with assms True upd [of Ready] show ?thesis
      by (auto simp: worker_step_def counted_ok_def busy_def)
  next
    case Gone
    with assms True show ?thesis by (simp add: worker_step_def)
  qed
qed (use assms in \<open>simp add: worker_step_def\<close>)

lemma counted_step: "counted_ok p \<Longrightarrow> counted_ok (server_step e p)"
proof (cases e)
  case (Reload s l t)
  then show "counted_ok p \<Longrightarrow> ?thesis" by (simp add: counted_ok_def busy_def reload_kept)
qed (auto simp: counted_accept counted_worker_step, auto simp: counted_ok_def close_all_def busy_def)

lemma gone_update: "Gone \<in> set (ws[i := w]) \<Longrightarrow> w \<noteq> Gone \<Longrightarrow> Gone \<in> set ws"
  using set_update_subset_insert [of ws i w] by auto

lemma sockets_accept:
  assumes "sockets_ok p" "pl_accepting p" "c \<notin> set (pl_sockets p)"
  shows "sockets_ok (accept_client c created p)"
  using assms
  by (auto simp: sockets_ok_def accept_client_def registry_add_def close_registered_def grow_workers_def connected_clients_def
      Let_def remove1_append split: option.splits if_splits)

lemma connected_update:
  assumes "i < length (pl_workers p)"
  shows "mset (concat (map connected ((pl_workers p)[i := w]))) + mset (connected (pl_workers p ! i))
    = mset (concat (map connected (pl_workers p))) + mset (connected w)"
  using mset_concat_update [OF assms, of connected w] .

lemma sockets_worker_step:
  assumes "sockets_ok p"
  shows "sockets_ok (worker_step i waited p)"
proof (cases "i < length (pl_workers p)")
  case True
  note upd = connected_update [OF True]
  have gone: "Gone \<in> set ((pl_workers p)[i := w]) \<Longrightarrow> w \<noteq> Gone \<Longrightarrow> pl_done p \<and> pl_queue p = []" for w
    using gone_update [of "pl_workers p" i w] assms by (auto simp: sockets_ok_def)
  show ?thesis
  proof (cases "pl_workers p ! i")
    case Ready
    with assms True upd [of "Popped (hd (pl_queue p))"] upd [of Gone] gone [of "Popped (hd (pl_queue p))"] show ?thesis
      by (auto simp: worker_step_def take_job_def sockets_ok_def connected_clients_def split: list.splits)
  next
    case (Popped c)
    with assms True upd [of "Serving c (pl_current p)"] gone [of "Serving c (pl_current p)"] show ?thesis
      by (auto simp: worker_step_def sockets_ok_def connected_clients_def)
  next
    case (Serving c g)
    have "mset (pl_sockets p) - {#c#} = mset (pl_queue p) + mset (concat (map connected ((pl_workers p)[i := Closed c g])))"
      if "mset (pl_sockets p) = connected_clients p"
      using that upd [of "Closed c g"] Serving
      by (simp add: connected_clients_def) (metis add_mset_remove_trivial union_mset_add_mset_right)
    with Serving assms True gone [of "Closed c g"] show ?thesis
      by (auto simp: worker_step_def sockets_ok_def close_registered_def connected_clients_def)
  next
    case (Closed c g)
    with assms True upd [of "Counted g"] gone [of "Counted g"] show ?thesis
      by (auto simp: worker_step_def count_job_def sockets_ok_def connected_clients_def)
  next
    case (Counted g)
    with assms True upd [of Ready] gone [of Ready] show ?thesis
      by (auto simp: worker_step_def sockets_ok_def connected_clients_def)
  next
    case Gone
    with assms True show ?thesis by (simp add: worker_step_def)
  qed
qed (use assms in \<open>simp add: worker_step_def\<close>)

lemma sockets_step: "sockets_ok p \<Longrightarrow> sockets_ok (server_step e p)"
proof (cases e)
  case (Reload s l t)
  then show "sockets_ok p \<Longrightarrow> ?thesis" by (simp add: sockets_ok_def connected_clients_def reload_kept)
qed (auto simp: sockets_accept sockets_worker_step, auto simp: sockets_ok_def close_all_def connected_clients_def)

subsection \<open>Generations\<close>

lemma retired_bound:
  assumes "generations_ok p"
  shows "length (pl_retired p) \<le> length (pl_workers p)"
proof -
  have "Some ` set (pl_retired p) \<subseteq> generation_of ` set (pl_workers p)" using assms by (auto simp: generations_ok_def)
  then have "card (Some ` set (pl_retired p)) \<le> card (generation_of ` set (pl_workers p))" by (intro card_mono) auto
  also have "\<dots> \<le> length (pl_workers p)" by (meson card_image_le card_length finite_set order_trans)
  finally show ?thesis using assms by (simp add: card_image distinct_card generations_ok_def)
qed

text \<open>The state between a reference being dropped and the generation being destroyed.\<close>

definition generations_but :: "nat \<Rightarrow> pool \<Rightarrow> bool" where
  "generations_but g p \<longleftrightarrow>
     distinct (pl_retired p) \<and> pl_current p \<notin> set (pl_retired p) \<and> pl_current p < pl_next_id p
     \<and> (\<forall>g' \<in> set (pl_retired p). (g' = g \<or> Some g' \<in> generation_of ` set (pl_workers p)) \<and> g' < pl_next_id p)
     \<and> (\<forall>g'. Some g' \<in> generation_of ` set (pl_workers p) \<longrightarrow> g' = pl_current p \<or> g' \<in> set (pl_retired p))
     \<and> pl_limit p < 2 ^ 32 \<and> length (pl_workers p) \<le> pl_limit p
     \<and> length (pl_retired p) \<le> Suc (length (pl_workers p))
     \<and> pl_metrics p (ControlM CurrentRetiredGenerations) = of_nat (length (pl_retired p))"

lemma length_removeAll_distinct: "distinct xs \<Longrightarrow> x \<in> set xs \<Longrightarrow> length (removeAll x xs) = length xs - 1"
  by (simp add: distinct_remove1_removeAll [symmetric] length_remove1)

lemma drop_generation_ok:
  assumes "generations_but g p"
  shows "generations_ok (drop_generation g p)"
proof (cases "g \<in> set (pl_retired p) \<and> \<not> in_use g p")
  case True
  let ?n = "length (pl_retired p)"
  have n: "0 < ?n" "?n < 2 ^ 64" using True assms by (auto simp: generations_but_def)
  have "(of_nat ?n :: u64) \<noteq> 0" using n by (simp add: unat_eq_zero [symmetric] unat_of_nat)
  moreover have "(of_nat (length (removeAll g (pl_retired p))) :: u64) = of_nat ?n - 1"
    using True assms n(1) by (subst length_removeAll_distinct) (auto simp: generations_but_def of_nat_diff Suc_leI)
  ultimately show ?thesis
    using True assms n by (auto simp: generations_ok_def generations_but_def drop_generation_def metric_defs in_use_def distinct_removeAll)
next
  case False
  with assms show ?thesis by (auto simp: generations_ok_def generations_but_def drop_generation_def in_use_def)
qed

lemma generation_update:
  "Some g \<in> generation_of ` set (ws[i := w]) \<Longrightarrow> Some g = generation_of w \<or> Some g \<in> generation_of ` set ws"
  using set_update_subset_insert [of ws i w] by auto

lemma generation_kept:
  assumes "Some g \<in> generation_of ` set ws" "i < length ws" "generation_of (ws ! i) \<noteq> Some g \<or> generation_of w = Some g"
  shows "Some g \<in> generation_of ` set (ws[i := w])"
proof -
  obtain j where j: "j < length ws" "generation_of (ws ! j) = Some g" using assms(1) by (auto simp: in_set_conv_nth)
  have "generation_of (ws[i := w] ! j) = Some g" using j assms(3) by (cases "i = j") auto
  then show ?thesis using j(1) by (metis image_eqI length_list_update nth_mem)
qed

lemma generations_replace:
  assumes "generations_ok p" "i < length (pl_workers p)"
    and "generation_of (pl_workers p ! i) = None \<or> generation_of w = generation_of (pl_workers p ! i)"
    and "\<And>g. generation_of w = Some g \<Longrightarrow> g = pl_current p \<or> g \<in> set (pl_retired p)"
  shows "generations_ok (p\<lparr>pl_workers := (pl_workers p)[i := w]\<rparr>)"
proof -
  let ?ws = "(pl_workers p)[i := w]"
  have used: "g = pl_current p \<or> g \<in> set (pl_retired p)" if "Some g \<in> generation_of ` set ?ws" for g
    using generation_update [OF that] assms(1) assms(4) [of g] unfolding generations_ok_def by metis
  have kept: "Some g \<in> generation_of ` set ?ws" if "g \<in> set (pl_retired p)" for g
    using that assms(1,3) by (intro generation_kept [OF _ assms(2)]) (auto simp: generations_ok_def)
  show ?thesis using assms(1) used kept by (simp add: generations_ok_def)
qed

lemma worker_generation_used:
  assumes "generations_ok p" "i < length (pl_workers p)" "generation_of (pl_workers p ! i) = Some g"
  shows "g = pl_current p \<or> g \<in> set (pl_retired p)"
  using assms unfolding generations_ok_def by (metis image_eqI nth_mem)

lemma generations_worker_step:
  assumes "generations_ok p"
  shows "generations_ok (worker_step i waited p)"
proof (cases "i < length (pl_workers p)")
  case True
  note replace = generations_replace [OF assms True]
  show ?thesis
  proof (cases "pl_workers p ! i")
    case Ready
    have "generations_ok (p\<lparr>pl_workers := (pl_workers p)[i := Gone]\<rparr>)" "generations_ok (p\<lparr>pl_workers := (pl_workers p)[i := Popped c]\<rparr>)" for c
      by (rule replace; simp add: Ready)+
    with assms Ready True show ?thesis
      by (auto simp: worker_step_def take_job_def generations_ok_def metric_defs split: list.splits)
  next
    case (Popped c)
    have "generations_ok (p\<lparr>pl_workers := (pl_workers p)[i := Serving c (pl_current p)]\<rparr>)"
      by (rule replace) (simp_all add: Popped)
    with Popped True show ?thesis by (simp add: worker_step_def)
  next
    case (Serving c g)
    have "generations_ok (p\<lparr>pl_workers := (pl_workers p)[i := Closed c g]\<rparr>)"
      by (rule replace) (use worker_generation_used [OF assms True] Serving in simp_all)
    with Serving True show ?thesis by (simp add: worker_step_def close_registered_def generations_ok_def)
  next
    case (Closed c g)
    have "generations_ok (p\<lparr>pl_workers := (pl_workers p)[i := Counted g]\<rparr>)"
      by (rule replace) (use worker_generation_used [OF assms True] Closed in simp_all)
    with Closed True show ?thesis by (simp add: worker_step_def count_job_def generations_ok_def metric_defs)
  next
    case (Counted g)
    let ?p = "p\<lparr>pl_workers := (pl_workers p)[i := Ready]\<rparr>"
    have "Some g' \<in> generation_of ` set (pl_workers ?p)" if "g' \<in> set (pl_retired p)" "g' \<noteq> g" for g'
    proof -
      have "Some g' \<in> generation_of ` set (pl_workers p)" using that assms by (auto simp: generations_ok_def)
      then have "Some g' \<in> generation_of ` set ((pl_workers p)[i := Ready])"
        by (rule generation_kept [OF _ True]) (use that(2) Counted in simp)
      then show ?thesis by simp
    qed
    moreover have "g' = pl_current p \<or> g' \<in> set (pl_retired p)" if "Some g' \<in> generation_of ` set (pl_workers ?p)" for g'
      using generation_update [of g' "pl_workers p" i Ready] that assms by (auto simp: generations_ok_def)
    ultimately have "generations_but g ?p"
      using assms retired_bound [OF assms] unfolding generations_but_def generations_ok_def
      by simp blast
    from drop_generation_ok [OF this] Counted True show ?thesis by (simp add: worker_step_def)
  next
    case Gone
    with assms True show ?thesis by (simp add: worker_step_def)
  qed
qed (use assms in \<open>simp add: worker_step_def\<close>)

lemma generations_accept: 
  assumes "generations_ok p" "counted_ok p"
  shows "generations_ok (accept_client c created p)"
proof -
  have w: "set (pl_workers p @ replicate n Ready) = set (pl_workers p) \<union> (if n = 0 then {} else {Ready})" for n by simp
  have "generations_ok (grow_workers wanted n q)" if "generations_ok q" "wanted \<le> pl_limit q" for wanted n q
    using that by (auto simp: generations_ok_def grow_workers_def)
  with assms show ?thesis
    by (auto simp: accept_client_def registry_add_def close_registered_def Let_def split: option.splits)
       (auto simp: generations_ok_def metric_defs)
qed

lemma generations_reload:
  assumes "generations_ok p"
  shows "generations_ok (snd (snd (reload s l t p)))"
proof -
  let ?p = "p\<lparr>pl_next_id := pl_next_id p + 1\<rparr>"
  have next_id: "generations_ok ?p" using assms by (auto simp: generations_ok_def)
  have applied: "generations_ok (drop_generation (pl_current p) ((mark_retired (pl_current p) ?p)\<lparr>pl_current := pl_next_id p, pl_snapshot := new\<rparr>))" for new
  proof (rule drop_generation_ok)
    show "generations_but (pl_current p) ((mark_retired (pl_current p) ?p)\<lparr>pl_current := pl_next_id p, pl_snapshot := new\<rparr>)"
      using assms retired_bound [OF assms]
      by (auto simp: generations_but_def generations_ok_def mark_retired_def metric_defs)
  qed
  show ?thesis using assms next_id applied by (auto simp: reload_def Let_def split: option.splits sum.splits)
qed

lemma generations_step: "generations_ok p \<Longrightarrow> counted_ok p \<Longrightarrow> generations_ok (server_step e p)"
  by (cases e) (auto simp: generations_accept generations_worker_step generations_reload, auto simp: generations_ok_def close_all_def)

section \<open>Runs\<close>

definition fresh_counters :: "metrics \<Rightarrow> bool" where
  "fresh_counters m \<longleftrightarrow> (\<forall>k. m (ConnectionM k) = 0) \<and> m (ControlM CurrentRetiredGenerations) = 0"

definition pool_inv :: "pool \<Rightarrow> bool" where
  "pool_inv p \<longleftrightarrow> counted_ok p \<and> sockets_ok p \<and> generations_ok p"

lemma start_pool_inv:
  assumes "fresh_counters m"
  shows "pool_inv (start_pool s gid m)"
proof -
  have "unat (worker_threads (runtime (snap_application s))) < 2 ^ 32"
    using unsigned_less [of "worker_threads (runtime (snap_application s))", where ?'a = nat] by simp
  with assms show ?thesis
    by (auto simp: pool_inv_def start_pool_def fresh_counters_def counted_ok_def sockets_ok_def generations_ok_def Let_def
        busy_def connected_clients_def)
qed

lemma pool_run_inv: "pool_inv p \<Longrightarrow> pool_inv (pool_run evs p)"
proof (induction evs arbitrary: p)
  case (Cons e evs)
  then have "pool_inv (server_step e p)" by (simp add: pool_inv_def counted_step sockets_step generations_step)
  with Cons.IH show ?case by (simp add: pool_run_def)
qed (simp add: pool_run_def)

lemma workers_step: "length (pl_workers p) \<le> length (pl_workers (server_step e p))"
proof (cases e)
  case (Accept c created)
  then show ?thesis
    by (auto simp: accept_client_def registry_add_def close_registered_def grow_workers_def Let_def split: option.splits)
next
  case (WorkerStep i waited)
  then show ?thesis
    by (auto simp: worker_step_def take_job_def count_job_def close_registered_def split: worker.splits list.splits)
qed (auto simp: close_all_def reload_kept)

lemma workers_run: "length (pl_workers p) \<le> length (pl_workers (pool_run evs p))"
proof (induction evs arbitrary: p)
  case (Cons e evs)
  from Cons.IH [of "server_step e p"] workers_step [of p e] show ?case by (simp add: pool_run_def)
qed (simp add: pool_run_def)

text \<open>The steps that are left to the workers once no client can arrive.\<close>

fun steps_left :: "worker \<Rightarrow> nat" where
  "steps_left Ready = 1"
| "steps_left (Popped c) = 5"
| "steps_left (Serving c g) = 4"
| "steps_left (Closed c g) = 3"
| "steps_left (Counted g) = 2"
| "steps_left Gone = 0"

definition work_left :: "pool \<Rightarrow> nat" where
  "work_left p = 5 * length (pl_queue p) + sum_list (map steps_left (pl_workers p))"

lemma steps_left_update:
  "i < length ws \<Longrightarrow> sum_list (map steps_left (ws[i := w])) + steps_left (ws ! i) = sum_list (map steps_left ws) + steps_left w"
  by (induction ws arbitrary: i) (auto split: nat.splits)

lemma worker_step_progress:
  assumes "pl_done p" "i < length (pl_workers p)" "pl_workers p ! i \<noteq> Gone"
  shows "work_left (worker_step i waited p) < work_left p"
proof -
  note upd = steps_left_update [OF assms(2)]
  show ?thesis
  proof (cases "pl_workers p ! i")
    case Ready
    with assms upd [of Gone] upd [of "Popped (hd (pl_queue p))"] show ?thesis
      by (auto simp: worker_step_def work_left_def take_job_def split: list.splits)
  next
    case (Popped c)
    with assms upd [of "Serving c (pl_current p)"] show ?thesis by (auto simp: worker_step_def work_left_def)
  next
    case (Serving c g)
    with assms upd [of "Closed c g"] show ?thesis by (auto simp: worker_step_def work_left_def close_registered_def)
  next
    case (Closed c g)
    with assms upd [of "Counted g"] show ?thesis by (auto simp: worker_step_def work_left_def count_job_def)
  next
    case (Counted g)
    with assms upd [of Ready] show ?thesis by (auto simp: worker_step_def work_left_def)
  qed (use assms(3) in simp)
qed

section \<open>Properties\<close>



text \<open>
  C39: Shutdown completes. Once the acceptor has been joined, every step of a worker that is not gone reduces
  the work that is left, so that in every fair schedule all workers end; and when they have ended, the
  queue is empty, no connection is open or registered, and every accepted connection was completed.
\<close>

theorem pool_shutdown:
  assumes "fresh_counters m" "p = pool_run evs (start_pool s gid m)" "pl_done p"
    and "worker_threads (runtime (snap_application s)) \<noteq> 0"
  shows "(\<forall>i < length (pl_workers p). pl_workers p ! i \<noteq> Gone \<longrightarrow> work_left (worker_step i waited p) < work_left p)
    \<and> (set (pl_workers p) \<subseteq> {Gone} \<longrightarrow> pl_queue p = [] \<and> pl_open p = 0 \<and> pl_sockets p = []
         \<and> pl_metrics p (ConnectionM ConnectionsAccepted) = pl_metrics p (ConnectionM ConnectionsCompleted))"
proof (intro conjI impI allI)
  note inv = pool_run_inv [OF start_pool_inv [OF assms(1)], of evs s gid, folded assms(2), unfolded pool_inv_def]
  show "work_left (worker_step i waited p) < work_left p" if "i < length (pl_workers p)" "pl_workers p ! i \<noteq> Gone" for i
    by (rule worker_step_progress [OF assms(3) that])
  assume gone: "set (pl_workers p) \<subseteq> {Gone}"
  have "0 < unat (worker_threads (runtime (snap_application s)))" using assms(4) by (simp add: unat_gt_0)
  then have "0 < length (pl_workers (start_pool s gid m))" by (simp add: start_pool_def Let_def)
  also have "\<dots> \<le> length (pl_workers p)" unfolding assms(2) by (rule workers_run)
  finally have "Gone \<in> set (pl_workers p)" using gone by (cases "pl_workers p") auto
  then show queue: "pl_queue p = []" using inv by (simp add: sockets_ok_def)
  have "map taken (pl_workers p) = map (\<lambda>_. []) (pl_workers p)" using gone by (intro map_cong) auto
  then have "busy p = []" by (simp add: busy_def)
  with inv queue show "pl_open p = 0" "pl_metrics p (ConnectionM ConnectionsAccepted) = pl_metrics p (ConnectionM ConnectionsCompleted)"
    by (simp_all add: counted_ok_def)
  show "pl_sockets p = []" using inv assms(3) by (simp add: sockets_ok_def)
qed

text \<open>
  A reload either replaces the configuration as a whole, without the settings that need a restart, or leaves
  everything that requests see as it was.
\<close>

lemma reload_atomic:
  assumes "reload snapshot log_opened transport_made p = (r, e, p')"
  shows "(r = ReloadApplied \<longrightarrow> (\<exists>new. snapshot = Some new \<and> pl_snapshot p' = new \<and> \<not> restart_required (pl_snapshot p) new
            \<and> pl_current p' = pl_next_id p \<and> pl_workers p' = pl_workers p))
    \<and> (r \<noteq> ReloadApplied \<longrightarrow> p' = p\<lparr>pl_next_id := pl_next_id p'\<rparr>)"
  using assms by (auto simp: reload_def Let_def split: option.splits sum.splits if_splits)

text \<open>
  The registry closes a handle at shutdown while a worker may still read from it or write to it: the system may
  have given the number to another connection by then.
\<close>

lemma handle_closed_while_served:
  assumes "0 < unat (max_connections (runtime (snap_application s)))" "worker_threads (runtime (snap_application s)) \<noteq> 0"
    and "p = pool_run [Accept 7 (Some 0), WorkerStep 0 0, WorkerStep 0 0, RequestStop] (start_pool s gid m)"
  shows "pl_workers p ! 0 = Serving 7 gid \<and> 7 \<notin> set (pl_sockets p) \<and> pl_accepting p"
proof -
  have "0 < unat (worker_threads (runtime (snap_application s)))" using assms(2) by (simp add: unat_gt_0)
  then obtain k where "min (unat (worker_threads (runtime (snap_application s)))) 8 = Suc k" by (metis gr0_conv_Suc min_less_iff_conj zero_less_numeral)
  with assms(1,3) show ?thesis
    by (simp add: pool_run_def start_pool_def accept_client_def registry_add_def grow_workers_def worker_step_def take_job_def
        close_all_def Let_def)
qed

section \<open>A sample run\<close>

definition sample_snapshot :: runtime_snapshot where
  "sample_snapshot =
     \<lparr>snap_application = default_application_settings\<lparr>runtime := (runtime default_application_settings)\<lparr>worker_threads := 1\<rparr>\<rparr>,
      snap_log_path = fs_of_string ''/var/log'', snap_protocols = sample_protocols, snap_rules = sample_registry,
      snap_profiles = [], snap_routes = \<lparr>routes_by_path = [], table_size = 1\<rparr>\<rparr>"

definition sample_pool :: "pool_event list \<Rightarrow> pool" where
  "sample_pool evs = pool_run evs (start_pool sample_snapshot 1 (\<lambda>_. 0))"

definition serving_events :: "pool_event list" where
  "serving_events = [Accept 7 (Some 0), WorkerStep 0 5, WorkerStep 0 0, Reload (Some sample_snapshot) (Inr ()) (Inr ()), Accept 9 (Some 1)]"

definition closing_events :: "pool_event list" where
  "closing_events = serving_events @ [RequestStop, AcceptStops, AcceptorJoined] @ replicate 11 (WorkerStep 0 0)"

lemma sample_fresh: "fresh_counters (\<lambda>_. 0)"
  by (simp add: fresh_counters_def)

lemma sample_settings [simp]:
  "unat (worker_threads (runtime (snap_application sample_snapshot))) = 1"
  "unat (max_connections (runtime (snap_application sample_snapshot))) = 64"
  "\<not> restart_required sample_snapshot sample_snapshot" "table_size (snap_routes sample_snapshot) = 1"
  by (simp_all add: sample_snapshot_def default_application_settings_def restart_required_def listener_changed_def
      execution_changed_def same_log_writer_settings_def)

lemmas pool_eval =
  sample_pool_def pool_run_def start_pool_def serving_events_def accept_client_def registry_add_def grow_workers_def worker_step_def
  take_job_def count_job_def close_registered_def close_all_def reload_def mark_retired_def drop_generation_def in_use_def Let_def

lemma serving_pool:
  "pl_open (sample_pool serving_events) = 2" "\<not> pl_closing (sample_pool serving_events)" "pl_retired (sample_pool serving_events) = [1]"
  "pl_queue (sample_pool serving_events) = [9]" "pl_workers (sample_pool serving_events) = [Serving 7 1]"
  "pl_current (sample_pool serving_events) = 2" "pl_accepting (sample_pool serving_events)"
  by (simp_all add: pool_eval)

lemma closing_pool: "pl_workers (sample_pool closing_events) = [Gone]" "pl_done (sample_pool closing_events)"
proof -
  have run: "sample_pool (serving_events @ evs) = pool_run evs (sample_pool serving_events)" for evs
    by (simp add: sample_pool_def pool_run_def)
  show "pl_workers (sample_pool closing_events) = [Gone]" "pl_done (sample_pool closing_events)"
    unfolding closing_events_def run
    by (simp_all add: pool_run_def serving_pool numeral_eq_Suc worker_step_def take_job_def count_job_def close_registered_def close_all_def)
qed



theorem pool_shutdown_witness:
  "pl_workers (sample_pool closing_events) = [Gone] \<and> pl_open (sample_pool closing_events) = 0
   \<and> pl_metrics (sample_pool closing_events) (ConnectionM ConnectionsAccepted)
     = pl_metrics (sample_pool closing_events) (ConnectionM ConnectionsCompleted)"
proof -
  have "worker_threads (runtime (snap_application sample_snapshot)) \<noteq> 0" by (simp add: sample_snapshot_def)
  with pool_shutdown [OF sample_fresh sample_pool_def [of closing_events]] closing_pool show ?thesis by simp
qed

end
