(* ===== verification/Disk.thy ===== *)
theory Disk
  imports Prelude
begin

text \<open>
  Programs that work on files, for the storage components: a disk of named nodes, system calls
  that may fail or never return, and C++ exceptions. A run ends with a value, with an exception
  or with the death of the process in the middle of a call; what the disk holds then is what
  the next process finds. The answers of the system are a list of faults in the state, so that
  a property of all lists is a property of every run. The calls are those of POSIX systems. A
  call that returns has taken effect: what a computer that loses power forgets although it was
  written is not modelled, so \<^verbatim>\<open>fsync\<close> only has a result. \<open>wp\<close> is the weakest precondition with
  a condition for each of the three ends, and \<open>touched\<close> the frame condition of the calls.
\<close>

named_theorems wp_simps \<open>weakest preconditions of the basic programs\<close>
named_theorems io_defs \<open>the file operations\<close>

section \<open>The machine\<close>

type_synonym location = "string list"

text \<open>A database with its write-ahead log is one node: \<open>Store d\<close> where \<open>d\<close> is what SQLite shows.\<close>

datatype 'd node = Directory | Regular string | Store 'd | Special

type_synonym 'd disk = "location \<Rightarrow> 'd node option"

text \<open>The answer to a call: it works; it fails with an error code; the process ends during it. The
  number tells how much of a call that is not atomic was done.\<close>

datatype fault = Works | Breaks int nat | Dies nat

record 'd machine =
  mc_disk :: "'d disk"
  mc_faults :: "fault list"
  mc_errno :: int
  mc_nonces :: "nat list"
  mc_pid :: nat
  mc_message :: "int \<Rightarrow> string"
  mc_removed :: "nat \<Rightarrow> location \<Rightarrow> bool"
  mc_image :: "'d \<Rightarrow> string"

datatype ('e, 'a) outcome = Done 'a | Raised 'e | Died

type_synonym ('d, 'e, 'a) io = "'d machine \<Rightarrow> ('e, 'a) outcome \<times> 'd machine"

definition io_return :: "'a \<Rightarrow> ('d, 'e, 'a) io" where
  "io_return x m = (Done x, m)"

definition io_raise :: "'e \<Rightarrow> ('d, 'e, 'a) io" where
  "io_raise e m = (Raised e, m)"

definition io_bind :: "('d, 'e, 'a) io \<Rightarrow> ('a \<Rightarrow> ('d, 'e, 'b) io) \<Rightarrow> ('d, 'e, 'b) io" where
  "io_bind a f m =
     (case a m of (Done x, m') \<Rightarrow> f x m' | (Raised e, m') \<Rightarrow> (Raised e, m') | (Died, m') \<Rightarrow> (Died, m'))"

definition io_then :: "('d, 'e, unit) io \<Rightarrow> ('d, 'e, 'b) io \<Rightarrow> ('d, 'e, 'b) io" where
  "io_then a b = io_bind a (\<lambda>_. b)"

text \<open>\<^verbatim>\<open>try { a } catch (e) { h }\<close>, and the exception of \<open>a\<close> as a value.\<close>

definition io_catch :: "('d, 'e, 'a) io \<Rightarrow> ('e \<Rightarrow> ('d, 'e, 'a) io) \<Rightarrow> ('d, 'e, 'a) io" where
  "io_catch a h m = (case a m of (Raised e, m') \<Rightarrow> h e m' | r \<Rightarrow> r)"

definition io_attempt :: "('d, 'e, 'a) io \<Rightarrow> ('d, 'f, 'e + 'a) io" where
  "io_attempt a m =
     (case a m of (Done x, m') \<Rightarrow> (Done (Inr x), m') | (Raised e, m') \<Rightarrow> (Done (Inl e), m') | (Died, m') \<Rightarrow> (Died, m'))"

definition io_get :: "('d machine \<Rightarrow> 'a) \<Rightarrow> ('d, 'e, 'a) io" where
  "io_get f m = (Done (f m), m)"

definition io_lift :: "('e + 'a) \<Rightarrow> ('d, 'e, 'a) io" where
  "io_lift r = (case r of Inl e \<Rightarrow> io_raise e | Inr x \<Rightarrow> io_return x)"

fun io_each :: "('a \<Rightarrow> ('d, 'e, unit) io) \<Rightarrow> 'a list \<Rightarrow> ('d, 'e, unit) io" where
  "io_each f [] = io_return ()"
| "io_each f (x # xs) = io_then (f x) (io_each f xs)"

text \<open>
  One call. It can only work where \<open>ok\<close> holds, else it fails with the code \<open>err\<close>; \<open>part\<close> is what
  a call that does not work leaves behind. The result says whether it worked.
\<close>

definition sys ::
    "('d disk \<Rightarrow> bool) \<Rightarrow> int \<Rightarrow> (nat \<Rightarrow> 'd disk \<Rightarrow> 'd disk) \<Rightarrow> ('d disk \<Rightarrow> 'd disk) \<Rightarrow> ('d machine \<Rightarrow> ('e, bool) outcome \<times> 'd machine)" where
  "sys ok err part full m =
     (let d = mc_disk m; m' = m\<lparr>mc_faults := tl (mc_faults m)\<rparr> in
      case (if mc_faults m = [] then Works else hd (mc_faults m)) of
        Works \<Rightarrow> if ok d then (Done True, m'\<lparr>mc_disk := full d\<rparr>) else (Done False, m'\<lparr>mc_errno := err\<rparr>)
      | Breaks c n \<Rightarrow> (Done False, m'\<lparr>mc_disk := (if ok d then part n d else d), mc_errno := c\<rparr>)
      | Dies n \<Rightarrow> (Died, m'\<lparr>mc_disk := (if ok d then part n d else d)\<rparr>))"

definition atomic :: "nat \<Rightarrow> 'd disk \<Rightarrow> 'd disk" where
  "atomic n d = d"

text \<open>\<^verbatim>\<open>if (!call) fail(...)\<close>, where the message ends with that of the error.\<close>

definition require :: "(string \<Rightarrow> 'e) \<Rightarrow> ('d, 'e, bool) io \<Rightarrow> ('d, 'e, unit) io" where
  "require exn call =
     io_bind call (\<lambda>ok. if ok then io_return () else io_bind (io_get (\<lambda>m. mc_message m (mc_errno m))) (\<lambda>text. io_raise (exn text)))"

section \<open>Weakest preconditions\<close>

definition wp ::
    "('d, 'e, 'a) io \<Rightarrow> ('a \<Rightarrow> 'd machine \<Rightarrow> bool) \<Rightarrow> ('e \<Rightarrow> 'd machine \<Rightarrow> bool) \<Rightarrow> ('d machine \<Rightarrow> bool) \<Rightarrow> 'd machine \<Rightarrow> bool" where
  "wp a Q E C m \<longleftrightarrow> (case a m of (Done x, m') \<Rightarrow> Q x m' | (Raised e, m') \<Rightarrow> E e m' | (Died, m') \<Rightarrow> C m')"

lemma wp_return [wp_simps]: "wp (io_return x) Q E C = Q x"
  by (rule ext) (simp add: wp_def io_return_def)

lemma wp_raise [wp_simps]: "wp (io_raise e) Q E C = E e"
  by (rule ext) (simp add: wp_def io_raise_def)

lemma wp_bind [wp_simps]: "wp (io_bind a f) Q E C = wp a (\<lambda>x. wp (f x) Q E C) E C"
  by (rule ext) (auto simp: wp_def io_bind_def split: prod.splits outcome.splits)

lemma wp_then [wp_simps]: "wp (io_then a b) Q E C = wp a (\<lambda>_. wp b Q E C) E C"
  by (simp add: io_then_def wp_bind)

lemma wp_catch [wp_simps]: "wp (io_catch a h) Q E C = wp a Q (\<lambda>e. wp (h e) Q E C) C"
  by (rule ext) (auto simp: wp_def io_catch_def split: prod.splits outcome.splits)

lemma wp_attempt [wp_simps]: "wp (io_attempt a) Q E C = wp a (\<lambda>x. Q (Inr x)) (\<lambda>e. Q (Inl e)) C"
  by (rule ext) (auto simp: wp_def io_attempt_def split: prod.splits outcome.splits)

lemma wp_get [wp_simps]: "wp (io_get f) Q E C = (\<lambda>m. Q (f m) m)"
  by (rule ext) (simp add: wp_def io_get_def)

lemma wp_lift [wp_simps]: "wp (io_lift r) Q E C = (case r of Inl e \<Rightarrow> E e | Inr x \<Rightarrow> Q x)"
  by (cases r) (simp_all add: io_lift_def wp_simps)

lemma wp_require [wp_simps]:
  "wp (require exn call) Q E C =
     wp call (\<lambda>ok m'. if ok then Q () m' else E (exn (mc_message m' (mc_errno m'))) m') E C"
  by (rule ext)
    (auto simp: wp_def require_def io_bind_def io_get_def io_return_def io_raise_def split: prod.splits outcome.splits)

lemma wp_if [wp_simps]: "wp (if b then a1 else a2) Q E C = (if b then wp a1 Q E C else wp a2 Q E C)"
  by simp

lemma wp_mono:
  assumes "wp a Q E C m" "\<And>x m'. Q x m' \<Longrightarrow> Q' x m'" "\<And>e m'. E e m' \<Longrightarrow> E' e m'" "\<And>m'. C m' \<Longrightarrow> C' m'"
  shows "wp a Q' E' C' m"
  using assms by (auto simp: wp_def split: prod.splits outcome.splits)

lemma wp_run: "wp a Q E C m \<Longrightarrow> a m = (r, m') \<Longrightarrow> (case r of Done x \<Rightarrow> Q x m' | Raised e \<Rightarrow> E e m' | Died \<Rightarrow> C m')"
  by (simp add: wp_def)

section \<open>Files\<close>

definition is_directory :: "'d disk \<Rightarrow> location \<Rightarrow> bool" where
  "is_directory d p \<longleftrightarrow> p = [] \<or> d p = Some Directory"

definition parent_path :: "location \<Rightarrow> location" where
  "parent_path p = butlast p"

text \<open>\<^verbatim>\<open>path += suffix\<close>.\<close>

definition with_suffix :: "location \<Rightarrow> string \<Rightarrow> location" where
  "with_suffix p ending = (if p = [] then [ending] else butlast p @ [last p @ ending])"

definition path_string :: "location \<Rightarrow> string" where
  "path_string p = concat (map (\<lambda>n. CHR ''/'' # n) p)"

text \<open>A call that only looks at the disk; no answer when it fails.\<close>

definition fs_query :: "('d machine \<Rightarrow> 'a) \<Rightarrow> ('d, 'e, 'a option) io" where
  "fs_query f = io_bind (sys (\<lambda>_. True) 0 atomic id) (\<lambda>ok. if ok then io_get (\<lambda>m. Some (f m)) else io_return None)"

definition fs_flush :: "('d, 'e, bool) io" where
  "fs_flush = sys (\<lambda>_. True) 0 atomic id"

text \<open>\<^verbatim>\<open>open\<close> with \<^verbatim>\<open>O_CREAT | O_EXCL\<close>, and \<^verbatim>\<open>write\<close> in a loop until all is written.\<close>

definition fs_create :: "location \<Rightarrow> ('d, 'e, bool) io" where
  "fs_create p = sys (\<lambda>d. d p = None \<and> is_directory d (parent_path p)) 17 atomic (\<lambda>d. d(p := Some (Regular [])))"

definition fs_write :: "location \<Rightarrow> string \<Rightarrow> ('d, 'e, bool) io" where
  "fs_write p content =
     sys (\<lambda>_. True) 0 (\<lambda>n d. d(p := Some (Regular (take n content)))) (\<lambda>d. d(p := Some (Regular content)))"

definition move_tree :: "location \<Rightarrow> location \<Rightarrow> 'd disk \<Rightarrow> 'd disk" where
  "move_tree s t d = (\<lambda>q. if prefix t q then d (s @ drop (length t) q) else if prefix s q then None else d q)"

text \<open>\<^verbatim>\<open>rename\<close> of a file replaces a file at the target; of a directory, the target must be free.\<close>

definition fs_rename :: "location \<Rightarrow> location \<Rightarrow> ('d, 'e, bool) io" where
  "fs_rename s t =
     sys (\<lambda>d. d s \<noteq> None \<and> is_directory d (parent_path t) \<and> (d s = Some Directory \<longrightarrow> d t = None) \<and> d t \<noteq> Some Directory)
       2 atomic (move_tree s t)"

text \<open>\<^verbatim>\<open>std::filesystem::remove\<close> of a file; whether there was one.\<close>

definition fs_remove :: "location \<Rightarrow> ('d, 'e, bool option) io" where
  "fs_remove p =
     io_bind (io_get (\<lambda>m. mc_disk m p \<noteq> None)) (\<lambda>there.
     io_bind (sys (\<lambda>d. d p \<noteq> Some Directory) 39 atomic (\<lambda>d. d(p := None))) (\<lambda>ok.
       io_return (if ok then Some there else None)))"

definition remove_tree :: "location \<Rightarrow> 'd disk \<Rightarrow> 'd disk" where
  "remove_tree p d = (\<lambda>q. if prefix p q then None else d q)"

text \<open>\<^verbatim>\<open>remove_all\<close> removes the entries of a directory one by one, in an order of its own, and then the
  directory: a removal that does not end leaves any part of the entries.\<close>

definition fs_remove_all :: "location \<Rightarrow> ('d, 'e, bool) io" where
  "fs_remove_all p =
     io_bind (io_get mc_removed) (\<lambda>removed.
       sys (\<lambda>_. True) 0 (\<lambda>n d q. if strict_prefix p q \<and> removed n q then None else d q) (remove_tree p))"

definition fs_create_directory :: "location \<Rightarrow> ('d, 'e, bool) io" where
  "fs_create_directory p =
     sys (\<lambda>d. is_directory d (parent_path p) \<and> d p \<in> {None, Some Directory}) 17 atomic (\<lambda>d. d(p := Some Directory))"

definition make_directories :: "nat \<Rightarrow> location \<Rightarrow> 'd disk \<Rightarrow> 'd disk" where
  "make_directories n p d = (\<lambda>q. if q \<noteq> [] \<and> prefix q (take n p) then Some Directory else d q)"

definition fs_create_directories :: "location \<Rightarrow> ('d, 'e, bool) io" where
  "fs_create_directories p =
     sys (\<lambda>d. list_all (\<lambda>n. d (take n p) \<in> {None, Some Directory}) [1..<Suc (length p)]) 20
       (\<lambda>n. make_directories n p) (make_directories (length p) p)"

text \<open>The bytes of a file, or nothing when there is no file.\<close>

definition file_bytes :: "'d machine \<Rightarrow> location \<Rightarrow> string option" where
  "file_bytes m p =
     (case mc_disk m p of Some (Regular s) \<Rightarrow> Some s | Some (Store d) \<Rightarrow> Some (mc_image m d) | _ \<Rightarrow> None)"

section \<open>Frames\<close>

text \<open>Only the nodes in \<open>S\<close> differ, and a run without faults has none later.\<close>

definition touched :: "location set \<Rightarrow> 'd machine \<Rightarrow> 'd machine \<Rightarrow> bool" where
  "touched S m m' \<longleftrightarrow> (\<forall>p. p \<notin> S \<longrightarrow> mc_disk m' p = mc_disk m p) \<and> (mc_faults m = [] \<longrightarrow> mc_faults m' = [])
     \<and> mc_pid m' = mc_pid m \<and> mc_message m' = mc_message m \<and> mc_removed m' = mc_removed m \<and> mc_image m' = mc_image m"

lemma touched_refl [simp]: "touched S m m"
  by (simp add: touched_def)

lemma touched_trans:
  assumes "touched S m m'" "touched T m' m''" "S \<subseteq> U" "T \<subseteq> U"
  shows "touched U m m''"
proof -
  have "mc_disk m'' p = mc_disk m p" if "p \<notin> U" for p
  proof -
    from that assms(3,4) have "p \<notin> S" "p \<notin> T" by blast+
    with assms(1,2) show ?thesis by (simp add: touched_def)
  qed
  with assms(1,2) show ?thesis by (simp add: touched_def)
qed

lemma touched_sub: "touched S m m' \<Longrightarrow> S \<subseteq> T \<Longrightarrow> touched T m m'"
  by (auto simp: touched_def)

lemma touched_disk: "touched S m m' \<Longrightarrow> p \<notin> S \<Longrightarrow> mc_disk m' p = mc_disk m p"
  by (simp add: touched_def)

lemma touched_quiet: "touched S m m' \<Longrightarrow> mc_faults m = [] \<Longrightarrow> mc_faults m' = []"
  by (simp add: touched_def)

lemma touched_same: "touched {} m m' \<Longrightarrow> mc_disk m' = mc_disk m"
  by (auto simp: touched_def)

lemma file_bytes_touched: "touched {} m m' \<Longrightarrow> file_bytes m' p = file_bytes m p"
  by (simp add: file_bytes_def touched_def split: option.splits node.splits)

text \<open>A call leaves the disk, or what \<open>part\<close> or \<open>full\<close> make of it.\<close>

lemma wp_sys:
  assumes "\<And>m'. mc_disk m' = full (mc_disk m) \<Longrightarrow> ok (mc_disk m) \<Longrightarrow> touched UNIV m m' \<Longrightarrow> Q True m'"
    and "\<And>m'. mc_disk m' = mc_disk m \<Longrightarrow> \<not> ok (mc_disk m) \<Longrightarrow> touched UNIV m m' \<Longrightarrow> Q False m'"
    and "\<And>m' n. mc_disk m' = part n (mc_disk m) \<Longrightarrow> ok (mc_disk m) \<Longrightarrow> mc_faults m \<noteq> [] \<Longrightarrow> touched UNIV m m' \<Longrightarrow> Q False m' \<and> C m'"
    and "\<And>m'. mc_disk m' = mc_disk m \<Longrightarrow> mc_faults m \<noteq> [] \<Longrightarrow> touched UNIV m m' \<Longrightarrow> C m'"
  shows "wp (sys ok err part full) Q E C m"
proof -
  let ?t = "\<lambda>d c. m\<lparr>mc_disk := d, mc_faults := tl (mc_faults m), mc_errno := c\<rparr>"
  let ?d = "mc_disk m"
  have t: "touched UNIV m (?t d c)" for d c by (simp add: touched_def)
  have norm: "m\<lparr>mc_faults := tl (mc_faults m), mc_disk := d\<rparr> = ?t d (mc_errno m)"
    "m\<lparr>mc_faults := tl (mc_faults m), mc_errno := c\<rparr> = ?t ?d c"
    "m\<lparr>mc_faults := tl (mc_faults m), mc_disk := d, mc_errno := c\<rparr> = ?t d c" for d c
    by simp_all
  show ?thesis
  proof (cases "if mc_faults m = [] then Works else hd (mc_faults m)")
    case Works
    with assms(1) [OF _ _ t [where d = "full ?d" and c = "mc_errno m"]] assms(2) [OF _ _ t [where d = ?d and c = err]] show ?thesis
      unfolding wp_def sys_def Let_def norm by simp
  next
    case (Breaks c n)
    then have "mc_faults m \<noteq> []" by (auto split: if_splits)
    with Breaks assms(2) [OF _ _ t [where d = ?d and c = c]] assms(3) [OF _ _ _ t [where d = "part n ?d" and c = c]] show ?thesis
      unfolding wp_def sys_def Let_def norm by simp
  next
    case (Dies n)
    then have "mc_faults m \<noteq> []" by (auto split: if_splits)
    with Dies assms(4) [OF _ _ t [where d = ?d and c = "mc_errno m"]] assms(3) [OF _ _ _ t [where d = "part n ?d" and c = "mc_errno m"]] show ?thesis
      unfolding wp_def sys_def Let_def norm by simp
  qed
qed

lemma touched_UNIV: "touched UNIV m m' \<Longrightarrow> (\<And>q. q \<notin> S \<Longrightarrow> mc_disk m' q = mc_disk m q) \<Longrightarrow> touched S m m'"
  by (simp add: touched_def)

lemma wp_atomic:
  assumes "\<And>q. q \<notin> S \<Longrightarrow> full (mc_disk m) q = mc_disk m q"
    and "\<And>m'. ok (mc_disk m) \<Longrightarrow> touched S m m' \<Longrightarrow> mc_disk m' = full (mc_disk m) \<Longrightarrow> Q True m'"
    and "\<And>m'. touched {} m m' \<Longrightarrow> (mc_faults m = [] \<Longrightarrow> \<not> ok (mc_disk m)) \<Longrightarrow> Q False m'"
    and "\<And>m'. touched {} m m' \<Longrightarrow> mc_faults m \<noteq> [] \<Longrightarrow> C m'"
  shows "wp (sys ok err atomic full) Q E C m"
proof -
  have t: "touched {} m m'" if "touched UNIV m m'" "mc_disk m' = mc_disk m" for m' using that by (auto intro: touched_UNIV)
  have t': "touched S m m'" if "touched UNIV m m'" "mc_disk m' = full (mc_disk m)" for m'
    using that assms(1) by (auto intro: touched_UNIV)
  show ?thesis
    by (rule wp_sys) (auto simp: atomic_def intro: assms(2) assms(3) assms(4) t t')
qed

section \<open>Programs that only compute\<close>

text \<open>
  \<open>computes a r m\<close>: from \<open>m\<close> the program \<open>a\<close> leaves the disk as it is and returns only the value
  of \<open>r\<close>; without faults it does not die, and an exception means that \<open>r\<close> has no value.
\<close>

definition computes :: "('d, 'e, 'a) io \<Rightarrow> 'a option \<Rightarrow> 'd machine \<Rightarrow> bool" where
  "computes a r m \<longleftrightarrow>
     wp a (\<lambda>x m'. touched {} m m' \<and> r = Some x) (\<lambda>_ m'. touched {} m m' \<and> (mc_faults m = [] \<longrightarrow> r = None))
       (\<lambda>m'. touched {} m m' \<and> mc_faults m \<noteq> []) m"

named_theorems computes_intros \<open>programs that only compute\<close>

definition right_of :: "'e + 'a \<Rightarrow> 'a option" where
  "right_of r = (case r of Inl _ \<Rightarrow> None | Inr x \<Rightarrow> Some x)"

lemma right_of_simps [simp]: "right_of (Inl e) = None" "right_of (Inr x) = Some x"
  by (simp_all add: right_of_def)

lemma right_of_Some [simp]: "right_of r = Some x \<longleftrightarrow> r = Inr x"
  by (cases r) simp_all

lemma computes_return [computes_intros]: "computes (io_return x) (Some x) m"
  by (simp add: computes_def wp_simps)

lemma computes_raise [computes_intros]: "computes (io_raise e) None m"
  by (simp add: computes_def wp_simps)

lemma computes_lift [computes_intros]: "computes (io_lift r) (right_of r) m"
  by (cases r) (simp_all add: computes_def wp_simps)

lemma computes_get: "computes (io_get f) (Some (f m)) m"
  by (simp add: computes_def wp_simps)

lemma computes_bind:
  assumes a: "computes a r m" and f: "\<And>x m'. r = Some x \<Longrightarrow> touched {} m m' \<Longrightarrow> computes (f x) (r' x) m'"
  shows "computes (io_bind a f) (Option.bind r r') m"
  unfolding computes_def wp_bind
proof (rule wp_mono [OF a [unfolded computes_def]], goal_cases)
  case (1 x m')
  then have t: "touched {} m m'" and r: "r = Some x" by auto
  show ?case
  proof (rule wp_mono [OF f [OF r t, unfolded computes_def]], goal_cases)
    case (1 y m'')
    with t r show ?case by (auto intro: touched_trans)
  next
    case (2 e m'')
    with t r show ?case by (auto intro: touched_trans dest: touched_quiet)
  next
    case (3 m'')
    with t show ?case by (auto intro: touched_trans dest: touched_quiet)
  qed
qed auto

lemma computes_then:
  assumes "computes a r m" "\<And>m'. r = Some () \<Longrightarrow> touched {} m m' \<Longrightarrow> computes b r' m'"
  shows "computes (io_then a b) (Option.bind r (\<lambda>_. r')) m"
  unfolding io_then_def using assms by (intro computes_bind) auto

lemma computes_eq: "computes a r m \<Longrightarrow> r = r' \<Longrightarrow> computes a r' m"
  by simp

lemma computes_if [computes_intros]:
  "(c \<Longrightarrow> computes a r m) \<Longrightarrow> (\<not> c \<Longrightarrow> computes b r' m) \<Longrightarrow> computes (if c then a else b) (if c then r else r') m"
  by simp

lemma wp_flush:
  assumes "\<And>b m'. touched {} m m' \<Longrightarrow> (mc_faults m = [] \<Longrightarrow> b) \<Longrightarrow> Q b m'" "\<And>m'. touched {} m m' \<Longrightarrow> mc_faults m \<noteq> [] \<Longrightarrow> C m'"
  shows "wp fs_flush Q E C m"
  unfolding fs_flush_def by (rule wp_atomic [where S = "{}"]) (use assms in auto)

lemma wp_query:
  assumes "\<And>b m'. touched {} m m' \<Longrightarrow> (mc_faults m = [] \<Longrightarrow> b) \<Longrightarrow> Q (if b then Some (f m') else None) m'"
    "\<And>m'. touched {} m m' \<Longrightarrow> mc_faults m \<noteq> [] \<Longrightarrow> C m'"
  shows "wp (fs_query f) Q E C m"
  unfolding fs_query_def wp_bind fs_flush_def [symmetric]
proof (rule wp_flush)
  fix b m' assume "touched {} m m'" "mc_faults m = [] \<Longrightarrow> b"
  then have "Q (if b then Some (f m') else None) m'" by (rule assms(1))
  then show "wp (if b then io_get (\<lambda>m. Some (f m)) else io_return None) Q E C m'" by (cases b) (simp_all add: wp_simps)
qed (use assms(2) in auto)

text \<open>A query of the disk whose answer is then used, with exceptions for the query that failed.\<close>

lemma computes_query:
  assumes f: "\<And>m'. touched {} m m' \<Longrightarrow> f m' = f m"
    and k: "\<And>m'. touched {} m m' \<Longrightarrow> computes (k (Some (f m))) r m'"
    and none: "\<And>m'. touched {} m m' \<Longrightarrow> wp (k None) (\<lambda>_ _. False) (\<lambda>_ m''. touched {} m' m'') (\<lambda>_. False) m'"
  shows "computes (io_bind (fs_query f) k) r m"
  unfolding computes_def wp_bind
proof (rule wp_query, goal_cases)
  case (1 b m')
  show ?case
  proof (cases b)
    case True
    have "computes (k (Some (f m))) r m'" using k 1(1) by blast
    then have "wp (k (Some (f m))) (\<lambda>x m''. touched {} m m'' \<and> r = Some x) (\<lambda>_ m''. touched {} m m'' \<and> (mc_faults m = [] \<longrightarrow> r = None))
       (\<lambda>m''. touched {} m m'' \<and> mc_faults m \<noteq> []) m'"
      unfolding computes_def by (rule wp_mono) (use 1(1) in \<open>auto intro: touched_trans dest: touched_quiet\<close>)
    with True f [OF 1(1)] show ?thesis by simp
  next
    case False
    then have "mc_faults m \<noteq> []" using 1(2) by blast
    with False show ?thesis
      using none [OF 1(1)] by simp (erule wp_mono, use 1(1) in \<open>auto intro: touched_trans\<close>)
  qed
qed auto

text \<open>A program with the same value from every state.\<close>

definition oblivious :: "('d, 'e, 'a) io \<Rightarrow> bool" where
  "oblivious a \<longleftrightarrow> (\<exists>r. \<forall>m. computes a r m)"

named_theorems oblivious_intros \<open>programs with one value\<close>

lemma obliviousI: "(\<And>m. computes a r m) \<Longrightarrow> oblivious a"
  by (auto simp: oblivious_def)

lemma oblivious_return [oblivious_intros]: "oblivious (io_return x)"
  and oblivious_raise [oblivious_intros]: "oblivious (io_raise e)"
  and oblivious_lift [oblivious_intros]: "oblivious (io_lift r)"
  by (blast intro: obliviousI computes_intros)+

lemma oblivious_bind [oblivious_intros]:
  assumes "oblivious a" "\<And>x. oblivious (f x)"
  shows "oblivious (io_bind a f)"
proof -
  from assms(2) have "\<forall>x. \<exists>r. \<forall>m. computes (f x) r m" by (simp add: oblivious_def)
  then obtain g where "\<And>x m. computes (f x) (g x) m" by metis
  moreover obtain r where "\<And>m. computes a r m" using assms(1) by (auto simp: oblivious_def)
  ultimately show ?thesis by (intro obliviousI [of _ "Option.bind r g"] computes_bind)
qed

lemma oblivious_then [oblivious_intros]: "oblivious a \<Longrightarrow> oblivious b \<Longrightarrow> oblivious (io_then a b)"
  by (simp add: io_then_def oblivious_bind)

lemma oblivious_if [oblivious_intros]: "oblivious a \<Longrightarrow> oblivious b \<Longrightarrow> oblivious (if c then a else b)"
  by simp

lemma oblivious_prod [oblivious_intros]: "(\<And>x y. z = (x, y) \<Longrightarrow> oblivious (f x y)) \<Longrightarrow> oblivious (case z of (x, y) \<Rightarrow> f x y)"
  by (cases z) simp

text \<open>The value of a program is that of any run, and a run without faults finds it.\<close>

lemma computes_value: "computes a r m \<Longrightarrow> a m = (Done x, m') \<Longrightarrow> r = Some x"
  by (simp add: computes_def wp_def)

lemma wp_computes:
  assumes "computes a r m" "wp a (\<lambda>x _. P x) (\<lambda>_ _. True) (\<lambda>_. True) m" "mc_faults m = []" "r = Some x"
  shows "P x"
  using assms by (auto simp: computes_def wp_def split: prod.splits outcome.splits)

lemma wp_value:
  assumes "computes a r m" "wp a (\<lambda>x _. P x) (\<lambda>_ _. False) (\<lambda>_. True) m" "mc_faults m = []"
  shows "\<exists>x. r = Some x \<and> P x"
  using assms by (auto simp: computes_def wp_def split: prod.splits outcome.splits)

text \<open>Every value the program may return satisfies \<open>P\<close>.\<close>

definition ends :: "('d, 'e, 'a) io \<Rightarrow> ('a \<Rightarrow> bool) \<Rightarrow> bool" where
  "ends a P \<longleftrightarrow> (\<forall>m. wp a (\<lambda>x _. P x) (\<lambda>_ _. True) (\<lambda>_. True) m)"

named_theorems ends_intros \<open>values of programs\<close>

lemma ends_return [ends_intros]: "P x \<Longrightarrow> ends (io_return x) P"
  and ends_raise [ends_intros]: "ends (io_raise e) P"
  by (simp_all add: ends_def wp_simps)

lemma ends_if [ends_intros]: "(c \<Longrightarrow> ends a P) \<Longrightarrow> (\<not> c \<Longrightarrow> ends b P) \<Longrightarrow> ends (if c then a else b) P"
  by simp

lemma ends_bind:
  assumes "ends a P" "\<And>x. P x \<Longrightarrow> ends (f x) Q"
  shows "ends (io_bind a f) Q"
  unfolding ends_def wp_bind
proof
  fix m
  from assms(1) have "wp a (\<lambda>x _. P x) (\<lambda>_ _. True) (\<lambda>_. True) m" by (simp add: ends_def)
  then show "wp a (\<lambda>x. wp (f x) (\<lambda>x _. Q x) (\<lambda>_ _. True) (\<lambda>_. True)) (\<lambda>_ _. True) (\<lambda>_. True) m"
    by (rule wp_mono) (use assms(2) in \<open>auto simp: ends_def\<close>)
qed

lemma ends_computes:
  assumes "\<And>m. computes a r m" "\<And>x. r = Some x \<Longrightarrow> P x"
  shows "ends a P"
  unfolding ends_def using assms(1) [unfolded computes_def] assms(2) by (blast intro: wp_mono)

lemma ends_then: "ends b Q \<Longrightarrow> ends (io_then a b) Q"
  unfolding io_then_def by (rule ends_bind [of _ "\<lambda>_. True"]) (auto simp: ends_def wp_def split: prod.splits outcome.splits)

lemma ends_value:
  assumes "ends a P" "\<And>m. computes a (Some x) m"
  shows "P x"
proof -
  define m :: "'a machine" where "m = undefined\<lparr>mc_faults := []\<rparr>"
  have "mc_faults m = []" by (simp add: m_def)
  with wp_computes [OF assms(2)] assms(1) show ?thesis by (auto simp: ends_def)
qed

section \<open>Programs within a frame\<close>

text \<open>
  \<open>runs S a m P X R\<close>: from \<open>m\<close> the program changes nodes in \<open>S\<close> only. When it returns a value, \<open>P\<close>
  holds; when it throws or dies, the disk satisfies \<open>X\<close>; and without faults it does not die, and
  throws only for the reason \<open>R\<close>.
\<close>

definition runs ::
    "location set \<Rightarrow> ('d, 'e, 'a) io \<Rightarrow> 'd machine \<Rightarrow> ('a \<Rightarrow> 'd machine \<Rightarrow> bool) \<Rightarrow> ('d disk \<Rightarrow> bool) \<Rightarrow> bool \<Rightarrow> bool" where
  "runs S a m P X R \<longleftrightarrow>
     wp a (\<lambda>x m'. touched S m m' \<and> P x m') (\<lambda>_ m'. touched S m m' \<and> X (mc_disk m') \<and> (mc_faults m = [] \<longrightarrow> R))
       (\<lambda>m'. touched S m m' \<and> X (mc_disk m') \<and> mc_faults m \<noteq> []) m"

lemma runs_return: "P x m \<Longrightarrow> runs S (io_return x) m P X R"
  by (simp add: runs_def wp_simps)

lemma runs_raise: "X (mc_disk m) \<Longrightarrow> R \<Longrightarrow> runs S (io_raise e) m P X R"
  by (simp add: runs_def wp_simps)

lemma runs_if: "(c \<Longrightarrow> runs S a m P X R) \<Longrightarrow> (\<not> c \<Longrightarrow> runs S b m P X R) \<Longrightarrow> runs S (if c then a else b) m P X R"
  by simp

lemma runs_get: "P (f m) m \<Longrightarrow> runs S (io_get f) m P X R"
  by (simp add: runs_def wp_simps)

lemma runs_mono:
  assumes "runs S a m P X R" "\<And>x m'. touched S m m' \<Longrightarrow> P x m' \<Longrightarrow> P' x m'" "\<And>d. X d \<Longrightarrow> X' d" "R \<Longrightarrow> R'" "S \<subseteq> S'"
  shows "runs S' a m P' X' R'"
  unfolding runs_def by (rule wp_mono [OF assms(1) [unfolded runs_def]]) (use assms touched_sub in \<open>blast+\<close>)

lemma runs_bind:
  assumes a: "runs S a m P X R" and f: "\<And>x m'. touched S m m' \<Longrightarrow> P x m' \<Longrightarrow> runs S (f x) m' Q X R"
  shows "runs S (io_bind a f) m Q X R"
  unfolding runs_def wp_bind
proof (rule wp_mono [OF a [unfolded runs_def]], goal_cases)
  case (1 x m')
  then have t: "touched S m m'" "P x m'" by auto
  show ?case
    by (rule wp_mono [OF f [OF t, unfolded runs_def]]) (use t in \<open>auto intro: touched_trans dest: touched_quiet\<close>)
qed auto

lemma runs_then:
  assumes "runs S a m P X R" "\<And>m'. touched S m m' \<Longrightarrow> P () m' \<Longrightarrow> runs S b m' Q X R"
  shows "runs S (io_then a b) m Q X R"
  unfolding io_then_def by (rule runs_bind [OF assms(1)]) (use assms(2) in auto)

text \<open>A program that computes, within any frame.\<close>

lemma runs_computes:
  assumes "computes a r m" "X (mc_disk m)" "r = None \<Longrightarrow> R"
  shows "runs S a m (\<lambda>x m'. r = Some x \<and> touched {} m m') X R"
  unfolding runs_def
  by (rule wp_mono [OF assms(1) [unfolded computes_def]])
    (use assms(2,3) touched_same touched_sub [of "{}"] in \<open>fastforce+\<close>)

lemma runs_sys:
  assumes frame: "\<And>q. q \<notin> S \<Longrightarrow> full (mc_disk m) q = mc_disk m q" "\<And>n q. q \<notin> S \<Longrightarrow> part n (mc_disk m) q = mc_disk m q"
    and X: "X (mc_disk m)" "\<And>n. ok (mc_disk m) \<Longrightarrow> X (part n (mc_disk m))"
  shows "runs S (sys ok err part full) m
     (\<lambda>b m'. if b then ok (mc_disk m) \<and> mc_disk m' = full (mc_disk m) else X (mc_disk m') \<and> (mc_faults m = [] \<longrightarrow> \<not> ok (mc_disk m))) X R"
  unfolding runs_def
proof (rule wp_sys, goal_cases)
  case (1 m')
  then show ?case using frame(1) by (auto intro: touched_UNIV)
next
  case (2 m')
  then show ?case using X(1) by (auto intro: touched_UNIV)
next
  case (3 m' n)
  then show ?case using frame(2) X(2) by (auto intro: touched_UNIV)
next
  case (4 m')
  then show ?case using X(1) by (auto intro: touched_UNIV)
qed

text \<open>In a run with faults no reason is needed.\<close>

lemma runs_reason: "runs S a m P X (mc_faults m \<noteq> [] \<or> R) \<Longrightarrow> runs S a m P X R"
  unfolding runs_def by (erule wp_mono) auto

lemma runs_require:
  assumes call: "runs S call m (\<lambda>b m'. if b then P m' else X (mc_disk m') \<and> (mc_faults m = [] \<longrightarrow> R)) X R"
  shows "runs S (require exn call) m (\<lambda>_ m'. P m') X R"
  unfolding runs_def wp_require
  by (rule wp_mono [OF call [unfolded runs_def]]) (auto split: if_splits)

lemma runs_cleanup:
  assumes a: "runs S a m P X R" and c: "\<And>m'. touched S m m' \<Longrightarrow> X (mc_disk m') \<Longrightarrow> runs S c m' (\<lambda>_ m''. X (mc_disk m'')) X R"
  shows "runs S (io_catch a (\<lambda>e. io_bind c (\<lambda>_. io_raise e))) m P X R"
  unfolding runs_def wp_catch
proof (rule wp_mono [OF a [unfolded runs_def]], goal_cases)
  case (2 e m')
  then have t: "touched S m m'" "X (mc_disk m')" "mc_faults m = [] \<longrightarrow> R" by auto
  show ?case unfolding wp_bind wp_raise
    by (rule wp_mono [OF c [OF t(1,2), unfolded runs_def]]) (use t in \<open>auto intro: touched_trans dest: touched_quiet\<close>)
qed auto

end
