(* ===== verification/DurableFiles.thy ===== *)
theory DurableFiles
  imports Disk
begin

text \<open>
  The file operations of the configuration repository, the first part of
  \<^verbatim>\<open>src/config/composite_config_repository.cpp\<close>, as programs on the disk of the theory \<open>Disk\<close>:
  every call of the system is one that may fail or not return, in the order of the source. The
  variants for POSIX systems are modelled; file permissions are not part of the disk. The
  lemmas give each operation a weakest precondition: what is on the disk when it returns, when
  it throws and when the process ends in it. The most important one is that of
  \<open>write_atomic_file\<close>: at every end the target is the old file or the new one.
\<close>

section \<open>Errors\<close>

datatype repo_failure =
  RepoNone | RepoNotLoaded | RepoBusy | RepoStale | RepoInvalidDocument | RepoMigrationRequired | RepoRecoveryRequired
| RepoConstraint | RepoCorrupt | RepoUnsupportedSchema | RepoIo

text \<open>Everything else that is derived from \<^verbatim>\<open>std::exception\<close> is a \<open>StdException\<close>.\<close>

datatype repo_exn = RepositoryError repo_failure string | StdException string

type_synonym ('d, 'a) repo_io = "('d, repo_exn, 'a) io"

definition repo_fail :: "repo_failure \<Rightarrow> string \<Rightarrow> ('d, 'a) repo_io" where
  "repo_fail f text = io_raise (RepositoryError f text)"

abbreviation io_error :: "string \<Rightarrow> string \<Rightarrow> repo_exn" where
  "io_error text detail \<equiv> RepositoryError RepoIo (text @ detail)"

section \<open>Operations\<close>

text \<open>A name beside the target that the process number and the clock make unlikely to be taken.\<close>

definition temporary_path :: "location \<Rightarrow> ('d, location) repo_io" where
  "temporary_path target m =
     (let nonce = (if mc_nonces m = [] then 0 else hd (mc_nonces m)) in
      (Done (with_suffix target (''.tmp-'' @ string_of_nat (mc_pid m) @ ''-'' @ string_of_nat nonce)), m\<lparr>mc_nonces := tl (mc_nonces m)\<rparr>))"

definition path_exists :: "location \<Rightarrow> ('d, bool) repo_io" where
  "path_exists p =
     io_bind (fs_query (\<lambda>m. mc_disk m p \<noteq> None)) (\<lambda>r.
       case r of
         None \<Rightarrow> io_bind (io_get (\<lambda>m. mc_message m (mc_errno m))) (\<lambda>t. io_raise (io_error ''failed to inspect path: '' t))
       | Some b \<Rightarrow> io_return b)"

definition require_regular_file :: "location \<Rightarrow> string \<Rightarrow> ('d, unit) repo_io" where
  "require_regular_file p label =
     io_bind (fs_query (\<lambda>m. file_bytes m p \<noteq> None)) (\<lambda>r.
       if r = Some True then io_return () else io_raise (io_error label '' must be a regular file''))"

definition read_bounded_file :: "location \<Rightarrow> nat \<Rightarrow> string \<Rightarrow> ('d, string) repo_io" where
  "read_bounded_file p maximum label =
     io_then (require_regular_file p label)
     (io_bind (fs_query (\<lambda>m. file_bytes m p)) (\<lambda>r.
        case r of
          Some (Some bytes) \<Rightarrow>
            if length bytes > maximum then repo_fail RepoInvalidDocument (label @ '' exceeds the supported size limit'')
            else io_bind fs_flush (\<lambda>opened.
              if \<not> opened then io_raise (io_error ''failed to open '' label)
              else io_bind (fs_query (\<lambda>m. file_bytes m p)) (\<lambda>r.
                case r of Some (Some content) \<Rightarrow> io_return content | _ \<Rightarrow> io_raise (io_error ''failed to read '' label)))
        | _ \<Rightarrow> io_raise (io_error ''failed to inspect '' label)))"

definition sync_directory :: "location \<Rightarrow> ('d, unit) repo_io" where
  "sync_directory p =
     io_then (require (io_error ''failed to open directory for sync: '') (sys (\<lambda>d. is_directory d p) 2 atomic id))
       (require (io_error ''failed to sync directory: '') fs_flush)"

text \<open>After a write that failed the file is still closed, but not flushed.\<close>

definition write_durable_file :: "location \<Rightarrow> string \<Rightarrow> ('d, unit) repo_io" where
  "write_durable_file p content =
     io_then (require (io_error ''failed to create durable file: '') (fs_create p))
     (io_bind (fs_write p content) (\<lambda>ok.
      io_bind (if ok then fs_flush else io_return False) (\<lambda>ok.
      io_bind (io_get (\<lambda>m. mc_message m (mc_errno m))) (\<lambda>saved.
      io_bind fs_flush (\<lambda>closed.
        if ok \<and> closed then io_return () else io_raise (io_error ''failed to write durable file: '' saved))))))"

definition replace_file :: "location \<Rightarrow> location \<Rightarrow> ('d, unit) repo_io" where
  "replace_file s t =
     io_then (require (io_error ''failed to atomically replace file: '') (fs_rename s t)) (sync_directory (parent_path t))"

definition move_directory_no_replace :: "location \<Rightarrow> location \<Rightarrow> ('d, unit) repo_io" where
  "move_directory_no_replace s t =
     io_bind (path_exists t) (\<lambda>there.
       if there then repo_fail RepoRecoveryRequired ''repository transaction directory already exists''
       else io_then (require (io_error ''failed to publish repository transaction: '') (fs_rename s t)) (sync_directory (parent_path t)))"

text \<open>\<^verbatim>\<open>catch (...) { cleanup; throw; }\<close>, where the cleanup does not throw.\<close>

definition io_cleanup :: "('d, 'e, 'a) io \<Rightarrow> ('d, 'e, bool) io \<Rightarrow> ('d, 'e, 'a) io" where
  "io_cleanup a cleanup = io_catch a (\<lambda>e. io_bind cleanup (\<lambda>_. io_raise e))"

definition discard_file :: "location \<Rightarrow> ('d, 'e, bool) io" where
  "discard_file p = io_bind (fs_remove p) (\<lambda>r. io_return (r \<noteq> None))"

definition write_atomic_file :: "location \<Rightarrow> string \<Rightarrow> ('d, unit) repo_io" where
  "write_atomic_file target content =
     io_bind (temporary_path target) (\<lambda>tmp.
       io_cleanup (io_then (write_durable_file tmp content) (replace_file tmp target)) (discard_file tmp))"

definition remove_file_durable :: "location \<Rightarrow> ('d, unit) repo_io" where
  "remove_file_durable p =
     io_bind (fs_remove p) (\<lambda>r.
       case r of
         None \<Rightarrow> io_bind (io_get (\<lambda>m. mc_message m (mc_errno m))) (\<lambda>t. io_raise (io_error ''failed to remove file: '' t))
       | Some removed \<Rightarrow> if removed then sync_directory (parent_path p) else io_return ())"

definition remove_database_family :: "location \<Rightarrow> ('d, unit) repo_io" where
  "remove_database_family p =
     io_then
       (io_each (\<lambda>ending. io_bind (fs_remove (with_suffix p ending)) (\<lambda>r.
          case r of
            None \<Rightarrow> io_bind (io_get (\<lambda>m. mc_message m (mc_errno m))) (\<lambda>t. io_raise (io_error ''failed to remove temporary database: '' t))
          | Some _ \<Rightarrow> io_return ())) [[], ''-wal'', ''-shm''])
       (sync_directory (parent_path p))"

text \<open>The lock file is created when it is missing; another holder of the lock shows as the code 11.\<close>

definition acquire_lock :: "location \<Rightarrow> ('d, unit) repo_io" where
  "acquire_lock p =
     io_then (require (io_error ''failed to open repository lock: '')
         (sys (\<lambda>d. is_directory d (parent_path p) \<and> d p \<noteq> Some Directory) 2 atomic
           (\<lambda>d. if d p = None then d(p := Some (Regular [])) else d)))
     (io_bind fs_flush (\<lambda>ok.
        if ok then io_return ()
        else io_bind (io_get (\<lambda>m. (mc_errno m, mc_message m (mc_errno m)))) (\<lambda>(c, t).
          io_raise (RepositoryError (if c = 11 then RepoBusy else RepoIo) (''failed to acquire repository lock: '' @ t)))))"

section \<open>Reading\<close>

lemma wp_repo_fail [wp_simps]: "wp (repo_fail f text) Q E C = E (RepositoryError f text)"
  by (simp add: repo_fail_def wp_simps)

lemma computes_repo_fail [computes_intros]: "computes (repo_fail f text) None m"
  by (simp add: repo_fail_def computes_intros)

lemma computes_path_exists: "computes (path_exists p) (Some (mc_disk m p \<noteq> None)) m"
  unfolding path_exists_def
  by (rule computes_query) (auto simp: touched_def wp_simps intro: computes_intros)

lemma computes_require_regular: "computes (require_regular_file p label) (if file_bytes m p \<noteq> None then Some () else None) m"
  unfolding require_regular_file_def
  by (rule computes_query) (auto simp: file_bytes_touched wp_simps intro: computes_intros)

lemma computes_flush:
  assumes "\<And>m'. touched {} m m' \<Longrightarrow> computes (k True) r m'" "\<And>m'. touched {} m m' \<Longrightarrow> wp (k False) (\<lambda>_ _. False) (\<lambda>_ m''. touched {} m' m'') (\<lambda>_. False) m'"
  shows "computes (io_bind fs_flush k) r m"
  unfolding computes_def wp_bind
proof (rule wp_flush, goal_cases)
  case (1 b m')
  show ?case
  proof (cases b)
    case True
    with assms(1) [OF 1(1)] have "computes (k b) r m'" by simp
    then show ?thesis unfolding computes_def
      by (rule wp_mono) (use 1(1) in \<open>auto intro: touched_trans dest: touched_quiet\<close>)
  next
    case False
    then have "mc_faults m \<noteq> []" using 1(2) by blast
    with False show ?thesis
      using assms(2) [OF 1(1)] by simp (erule wp_mono, use 1(1) in \<open>auto intro: touched_trans\<close>)
  qed
qed auto

lemma computes_read_bounded:
  "computes (read_bounded_file p maximum label)
     (case file_bytes m p of Some b \<Rightarrow> if length b \<le> maximum then Some b else None | None \<Rightarrow> None) m"
proof -
  let ?r = "case file_bytes m p of Some b \<Rightarrow> if length b \<le> maximum then Some b else None | None \<Rightarrow> None"
  have "computes (read_bounded_file p maximum label)
     (Option.bind (if file_bytes m p \<noteq> None then Some () else None) (\<lambda>_. ?r)) m"
    unfolding read_bounded_file_def
  proof (intro computes_then computes_require_regular computes_query, goal_cases)
    case (2 m1 m2)
    note t = file_bytes_touched [OF 2(2)] file_bytes_touched [OF 2(3)]
    show ?case
    proof (cases "file_bytes m p")
      case (Some b)
      then show ?thesis
        using t
        by (auto simp: not_less not_le wp_simps intro!: computes_flush computes_query computes_intros
            dest!: file_bytes_touched [where p = p])
    qed (use t in \<open>simp add: computes_intros\<close>)
  qed (auto simp: file_bytes_touched wp_simps)
  then show ?thesis by (rule computes_eq) (auto split: option.splits)
qed

lemma runs_flush:
  assumes "X (mc_disk m)"
  shows "runs S fs_flush m (\<lambda>b m'. mc_disk m' = mc_disk m \<and> (mc_faults m = [] \<longrightarrow> b)) X R"
  unfolding runs_def by (rule wp_flush) (use assms touched_sub [of "{}"] touched_same in \<open>fastforce+\<close>)

lemma runs_sync:
  assumes "X (mc_disk m)" "\<not> is_directory (mc_disk m) p \<Longrightarrow> R"
  shows "runs S (sync_directory p) m (\<lambda>_ m'. mc_disk m' = mc_disk m) X R"
  unfolding sync_directory_def
proof (rule runs_then [where P = "\<lambda>_ m'. mc_disk m' = mc_disk m"])
  show "runs S (require (io_error ''failed to open directory for sync: '') (sys (\<lambda>d. is_directory d p) 2 atomic id)) m
     (\<lambda>_ m'. mc_disk m' = mc_disk m) X R"
    by (rule runs_require, rule runs_mono [OF runs_sys]) (use assms in \<open>auto simp: atomic_def split: if_splits\<close>)
  show "runs S (require (io_error ''failed to sync directory: '') fs_flush) m1 (\<lambda>_ m'. mc_disk m' = mc_disk m) X R"
    if "mc_disk m1 = mc_disk m" for m1
    by (rule runs_require, rule runs_mono [OF runs_flush]) (use that assms touched_same in \<open>auto split: if_splits\<close>)
qed

section \<open>Writing\<close>

text \<open>The paths whose name at the level of \<open>t\<close> begins with that of \<open>t\<close>, and what is below them: the
  file itself, its temporary names and the files SQLite keeps beside a database.\<close>

definition around :: "location \<Rightarrow> location set" where
  "around t = {q. \<exists>ending. prefix (with_suffix t ending) q}"

lemma around_suffix [simp]: "with_suffix t ending @ q \<in> around t" "with_suffix t ending \<in> around t"
  unfolding around_def by (rule CollectI, rule exI [of _ ending], simp)+

lemma with_suffix_Nil [simp]: "t \<noteq> [] \<Longrightarrow> with_suffix t [] = t"
  by (simp add: with_suffix_def)

lemma around_self [simp]: "t \<noteq> [] \<Longrightarrow> t @ q \<in> around t" "t \<noteq> [] \<Longrightarrow> t \<in> around t"
  using around_suffix [of t "[]"] by simp_all

lemma parent_with_suffix [simp]: "t \<noteq> [] \<Longrightarrow> parent_path (with_suffix t ending) = parent_path t"
  by (simp add: parent_path_def with_suffix_def)

text \<open>Conditions on the disk that only look at nodes outside the frame hold throughout.\<close>

lemma runs_write_durable:
  assumes p: "p \<in> S" and X: "\<And>d. (\<And>q. q \<noteq> p \<Longrightarrow> d q = mc_disk m q) \<Longrightarrow> X d"
    and R: "\<not> (mc_disk m p = None \<and> is_directory (mc_disk m) (parent_path p)) \<Longrightarrow> R"
  shows "runs S (write_durable_file p c) m (\<lambda>_ m'. mc_disk m' = (mc_disk m)(p := Some (Regular c))) X R"
proof (rule runs_reason)
  let ?d = "(mc_disk m)(p := Some (Regular c))" and ?R = "mc_faults m \<noteq> [] \<or> R"
  have finish: "runs S (io_bind (io_get f) (\<lambda>saved. io_bind fs_flush (\<lambda>closed.
      if ok \<and> closed then io_return () else io_raise (exn saved)))) m1 (\<lambda>_ m'. mc_disk m' = ?d) X ?R"
    if "touched S m m1" "if ok then mc_disk m1 = ?d else X (mc_disk m1) \<and> mc_faults m \<noteq> []" for ok m1 exn and f :: "'a machine \<Rightarrow> string"
  proof (rule runs_bind [OF runs_get [where P = "\<lambda>_ m'. m' = m1"]], simp, simp, rule runs_bind [OF runs_flush [where X = X]], goal_cases)
    case (2 saved b m2)
    then show ?case using that touched_quiet [OF that(1)] X by (auto intro!: runs_return runs_raise split: if_splits)
  qed (use that X in \<open>auto split: if_splits\<close>)
  have flush: "runs S (if ok then fs_flush else io_return False) m1
      (\<lambda>ok m'. touched S m m' \<and> (if ok then mc_disk m' = ?d else X (mc_disk m') \<and> mc_faults m \<noteq> [])) X ?R"
    if "touched S m m1" "if ok then mc_disk m1 = ?d else X (mc_disk m1) \<and> mc_faults m \<noteq> []" for ok m1
    using that X touched_quiet [OF that(1)] touched_trans [OF that(1)]
    by (auto intro!: runs_mono [OF runs_flush [where X = X]] runs_return split: if_splits)
  show "runs S (write_durable_file p c) m (\<lambda>_ m'. mc_disk m' = ?d) X ?R"
    unfolding write_durable_file_def
  proof (rule runs_then [where P = "\<lambda>_ m'. mc_disk m' = (mc_disk m)(p := Some (Regular []))"], goal_cases)
    case 1
    show ?case unfolding fs_create_def
      by (rule runs_require, rule runs_mono [OF runs_sys [where X = X]]) (use p X R in \<open>auto simp: atomic_def split: if_splits\<close>)
  next
    case (2 m1)
    show ?case
    proof (rule runs_bind [where P = "\<lambda>ok m'. touched S m m' \<and> (if ok then mc_disk m' = ?d else X (mc_disk m') \<and> mc_faults m \<noteq> [])"], goal_cases)
      case 1
      show ?case unfolding fs_write_def
        by (rule runs_mono [OF runs_sys [where X = X]])
          (use p X 2 touched_quiet [OF 2(1)] touched_trans [OF 2(1)] in \<open>auto split: if_splits\<close>)
    next
      case (2 ok m2)
      then show ?case by (intro runs_bind [OF flush] finish) auto
    qed
  qed
qed

definition temp_name :: "location \<Rightarrow> nat \<Rightarrow> nat \<Rightarrow> location" where
  "temp_name t pid nonce = with_suffix t (''.tmp-'' @ string_of_nat pid @ ''-'' @ string_of_nat nonce)"

text \<open>The temporary names of this process are not in use.\<close>

definition fresh_temps :: "location \<Rightarrow> 'd machine \<Rightarrow> bool" where
  "fresh_temps t m \<longleftrightarrow> (\<forall>n. mc_disk m (temp_name t (mc_pid m) n) = None)"

lemma temp_name_around [simp]: "temp_name t pid n @ q \<in> around t" "temp_name t pid n \<in> around t"
  by (simp_all add: temp_name_def)

lemma temp_name_parent [simp]: "t \<noteq> [] \<Longrightarrow> parent_path (temp_name t pid n) = parent_path t"
  by (simp add: temp_name_def)

lemma not_prefix_temp [simp]:
  assumes "t \<noteq> []"
  shows "\<not> prefix t (temp_name t pid n)" "\<not> prefix (temp_name t pid n) t"
proof -
  from assms have "length (temp_name t pid n) = length t" "last (temp_name t pid n) \<noteq> last t"
    by (auto simp: temp_name_def with_suffix_def)
  moreover have "xs = ys" if "prefix xs ys" "length xs = length ys" for xs ys :: location
    using that by (auto simp: prefix_def)
  ultimately show "\<not> prefix t (temp_name t pid n)" "\<not> prefix (temp_name t pid n) t" by metis+
qed

lemma prefix_around: "prefix t q \<Longrightarrow> t \<noteq> [] \<Longrightarrow> q \<in> around t" "prefix (temp_name t pid n) q \<Longrightarrow> q \<in> around t"
  by (auto simp: prefix_def)

lemma runs_temporary_path:
  "(\<And>n. fresh_temps t m \<Longrightarrow> mc_disk m (temp_name t (mc_pid m) n) = None) \<Longrightarrow>
   runs S (temporary_path t) m (\<lambda>tmp m'. mc_disk m' = mc_disk m \<and> (\<exists>pid n. tmp = temp_name t pid n \<and> (fresh_temps t m \<longrightarrow> mc_disk m tmp = None))) X R"
  by (auto simp: runs_def wp_def temporary_path_def Let_def touched_def temp_name_def)

lemma runs_discard:
  assumes "p \<in> S" "X (mc_disk m)" "\<And>d. (\<And>q. q \<noteq> p \<Longrightarrow> d q = mc_disk m q) \<Longrightarrow> X d"
  shows "runs S (discard_file p) m (\<lambda>_ m'. X (mc_disk m')) X R"
  unfolding discard_file_def fs_remove_def
  apply (rule runs_bind [OF runs_bind [OF runs_get [where P = "\<lambda>_ m'. m' = m"]]])
    apply simp
   apply (rule runs_bind [OF runs_mono [OF runs_sys [where X = X], where P' = "\<lambda>_ m'. X (mc_disk m')"]])
  using assms by (auto simp: atomic_def intro!: runs_return split: if_splits)

lemma runs_replace:
  assumes s: "\<And>q. prefix s q \<or> prefix t q \<Longrightarrow> q \<in> S" and node: "mc_disk m s \<noteq> None" "mc_disk m s \<noteq> Some Directory"
    and X: "X (mc_disk m)" "X (move_tree s t (mc_disk m))"
    and R: "\<not> (is_directory (mc_disk m) (parent_path t) \<and> mc_disk m t \<noteq> Some Directory) \<Longrightarrow> R"
    and dir: "is_directory (mc_disk m) (parent_path t) \<Longrightarrow> is_directory (move_tree s t (mc_disk m)) (parent_path t)"
  shows "runs S (replace_file s t) m (\<lambda>_ m'. mc_disk m' = move_tree s t (mc_disk m)) X R"
  unfolding replace_file_def
proof (rule runs_then [where P = "\<lambda>_ m'. mc_disk m' = move_tree s t (mc_disk m) \<and> is_directory (mc_disk m) (parent_path t)"], goal_cases)
  case 1
  show ?case unfolding fs_rename_def
    by (rule runs_require, rule runs_mono [OF runs_sys [where X = X and S = S]])
      (use s node X R in \<open>auto simp: atomic_def move_tree_def split: if_splits\<close>)
next
  case (2 m1)
  then show ?case by (intro runs_mono [OF runs_sync [where X = X]]) (use X dir in auto)
qed

lemma runs_write_atomic:
  assumes t: "t \<noteq> []" "around t \<subseteq> S"
    and X: "\<And>d. (\<And>q. q \<notin> around t \<Longrightarrow> d q = mc_disk m q) \<Longrightarrow> d t = mc_disk m t \<or> d t = Some (Regular c) \<Longrightarrow> X d"
    and R: "\<not> (is_directory (mc_disk m) (parent_path t) \<and> mc_disk m t \<noteq> Some Directory \<and> fresh_temps t m) \<Longrightarrow> R"
  shows "runs S (write_atomic_file t c) m (\<lambda>_ m'. (\<forall>q. q \<notin> around t \<longrightarrow> mc_disk m' q = mc_disk m q) \<and> mc_disk m' t = Some (Regular c)) X R"
proof -
  define X0 where "X0 = (\<lambda>d. (\<forall>q. q \<notin> around t \<longrightarrow> d q = mc_disk m q) \<and> (d t = mc_disk m t \<or> d t = Some (Regular c)))"
  have par: "parent_path t \<notin> around t"
  proof
    assume "parent_path t \<in> around t"
    then obtain e where "prefix (with_suffix t e) (parent_path t)" by (auto simp: around_def)
    from prefix_length_le [OF this] t(1) show False by (cases t) (auto simp: with_suffix_def parent_path_def)
  qed
  have X0_upd: "X0 (d(temp_name t pid n := v))" if "X0 d" for d pid n v
    using that t(1) not_prefix_temp(2) [OF t(1), of pid n] by (auto simp: X0_def simp del: not_prefix_temp)
  have X0_eq: "X0 d'" if "X0 d" "\<And>q. q \<noteq> temp_name t pid n \<Longrightarrow> d' q = d q" for d d' pid n
  proof -
    have "d' = d(temp_name t pid n := d' (temp_name t pid n))" using that(2) by auto
    then show ?thesis using X0_upd [OF that(1)] by metis
  qed
  have X0_m: "X0 (mc_disk m)" by (simp add: X0_def)
  have body: "runs S (io_then (write_durable_file (temp_name t pid n) c) (replace_file (temp_name t pid n) t)) m1
      (\<lambda>_ m'. (\<forall>q. q \<notin> around t \<longrightarrow> mc_disk m' q = mc_disk m q) \<and> mc_disk m' t = Some (Regular c)) X0 R"
    if m1: "mc_disk m1 = mc_disk m" and free: "fresh_temps t m \<longrightarrow> mc_disk m (temp_name t pid n) = None" for m1 pid n
  proof (rule runs_then [OF runs_write_durable [where X = X0]], goal_cases)
    case 1
    show ?case using t(2) by auto
  next
    case (2 d)
    then show ?case using X0_eq [OF X0_m] m1 by metis
  next
    case 3
    then show ?case using m1 free R t(1) by auto
  next
    case (4 m2)
    let ?d = "(mc_disk m)(temp_name t pid n := Some (Regular c))"
    have d2: "mc_disk m2 = ?d" using 4 m1 by simp
    have moved: "move_tree (temp_name t pid n) t ?d q = mc_disk m q" if "q \<notin> around t" for q
      using that t(1) by (auto simp: move_tree_def dest: prefix_around)
    have target: "move_tree (temp_name t pid n) t ?d t = Some (Regular c)" by (simp add: move_tree_def)
    have dirs: "is_directory d (parent_path t) = is_directory (mc_disk m) (parent_path t)"
      if "\<And>q. q \<notin> around t \<Longrightarrow> d q = mc_disk m q" for d using that par by (simp add: is_directory_def)
    have X2: "X0 ?d" using X0_upd [OF X0_m] by simp
    have X3: "X0 (move_tree (temp_name t pid n) t ?d)" using moved target by (simp add: X0_def)
    have same: "?d q = mc_disk m q" if "q \<notin> around t" for q using that by auto
    have tne: "temp_name t pid n \<noteq> t" using not_prefix_temp(2) [OF t(1), of pid n] by auto
    show ?case
      by (rule runs_mono [OF runs_replace [where S = S and X = X0 and R = R]])
        (use d2 X2 X3 moved target R t prefix_around tne dirs [OF same] dirs [OF moved] in \<open>auto simp: d2\<close>)
  qed
  have "runs S (write_atomic_file t c) m
      (\<lambda>_ m'. (\<forall>q. q \<notin> around t \<longrightarrow> mc_disk m' q = mc_disk m q) \<and> mc_disk m' t = Some (Regular c)) X0 R"
    unfolding write_atomic_file_def io_cleanup_def
  proof (rule runs_bind [OF runs_temporary_path], simp add: fresh_temps_def, clarify, rule runs_cleanup, goal_cases)
    case (1 tmp m1 pid n)
    then show ?case by (intro body) auto
  next
    case (2 tmp m1 pid n m2)
    show ?case
    proof (rule runs_discard [where X = X0])
      show "X0 d" if "\<And>q. q \<noteq> temp_name t pid n \<Longrightarrow> d q = mc_disk m2 q" for d by (rule X0_eq [OF 2(5) that])
    qed (use 2 t in auto)
  qed
  then show ?thesis by (rule runs_mono) (use X in \<open>auto simp: X0_def\<close>)
qed

end
