(* ===== verification/ProfileStore.thy ===== *)
theory ProfileStore
  imports Disk ConfigModel "HOL-Library.Product_Lexorder"
begin

text \<open>
  The profile database: \<^verbatim>\<open>src/storage/sqlite_profile_store.cpp\<close> and the stored form of profiles in
  \<^verbatim>\<open>src/config/profile_model.hpp\<close>. The tables are lists of rows in the order of their keys, and the
  SQL statements of the source are functions on them that fail where a constraint of the schema
  is violated; a column holds a value of its declared type. Every statement may also fail with
  any code of SQLite, or the process may end in it. A transaction works on its own copy of the
  tables, and the commit puts them in the place of the old ones. The JSON parser and printer
  and the JSON check of SQLite are arguments. What the operations achieve is the subject of
  the theory \<open>ProfileSave\<close>.
\<close>

section \<open>Stored profiles\<close>

record stored_rule =
  sr_key :: int
  sr_id :: string
  sr_enabled :: bool
  sr_type :: string
  sr_options :: string

record stored_profile =
  sp_key :: int
  sp_id :: string
  sp_enabled :: bool
  sp_protocol :: "string option"
  sp_local_request_path :: "string option"
  sp_local_usage_path :: "string option"
  sp_base_url :: "string option"
  sp_request_path :: "string option"
  sp_usage_path :: "string option"
  sp_rules :: "stored_rule list"

record store_snapshot =
  ps_revision :: int
  ps_migrated :: "string option"
  ps_profiles :: "stored_profile list"

datatype store_failure =
  NoFailure | NotFoundFailure | BusyFailure | StaleFailure | ConstraintFailure | InvalidDataFailure | CorruptFailure
| UnsupportedSchemaFailure | IoFailure

type_synonym store_error = "store_failure \<times> string"

text \<open>The JSON functions: parsing with comments allowed, printing without white space, and the check
  \<^verbatim>\<open>json_valid(x) AND json_type(x) = 'object'\<close> of SQLite.\<close>

record json_text =
  jt_parse :: "string \<Rightarrow> json option"
  jt_dump :: "json \<Rightarrow> string res"
  jt_is_object :: "string \<Rightarrow> bool"

section \<open>Validation\<close>

definition is_hex_lower :: "char \<Rightarrow> bool" where
  "is_hex_lower c \<longleftrightarrow> is_digit c \<or> in_range CHR ''a'' CHR ''f'' c"

definition valid_sha256 :: "string \<Rightarrow> bool" where
  "valid_sha256 s \<longleftrightarrow> length s = 64 \<and> list_all is_hex_lower s"

definition valid_origin :: "string option \<Rightarrow> bool" where
  "valid_origin origin \<longleftrightarrow> (case origin of None \<Rightarrow> True | Some s \<Rightarrow> valid_sha256 s)"

definition add_payload_size :: "nat \<Rightarrow> nat \<Rightarrow> nat option" where
  "add_payload_size used amount =
     (if amount > 67108864 \<or> used > 67108864 - amount then None else Some (used + amount))"

definition parse_stored_options :: "json_text \<Rightarrow> stored_rule \<Rightarrow> rule_definition res" where
  "parse_stored_options jt r =
     (if length (sr_options r) > 1048576 then Inl (''rule '' @ sr_id r @ '' options exceed the 1 MiB limit'')
      else case jt_parse jt (sr_options r) of
        Some (JObj kvs) \<Rightarrow>
          if jt_dump jt (JObj kvs) \<noteq> Inr (sr_options r)
          then Inl (''rule '' @ sr_id r @ '' options_json is not canonical JSON'')
          else Inr \<lparr>rule_id = sr_id r, rule_enabled = sr_enabled r, rule_type = sr_type r, rule_options = kvs, rule_storage_key = 0\<rparr>
      | _ \<Rightarrow> Inl (''rule '' @ sr_id r @ '' options_json must be a JSON object''))"

definition invalid_key :: "bool \<Rightarrow> int \<Rightarrow> bool" where
  "invalid_key persisted k \<longleftrightarrow> (persisted \<and> k \<le> 0) \<or> (\<not> persisted \<and> k < 0)"

text \<open>The loop over the rules of a profile: the keys seen, the size and the definitions so far.\<close>

fun validate_stored_rules ::
    "json_text \<Rightarrow> bool \<Rightarrow> string \<Rightarrow> stored_rule list \<Rightarrow> int set \<Rightarrow> nat \<Rightarrow> rule_definition list
     \<Rightarrow> (int set \<times> nat \<times> rule_definition list) res" where
  "validate_stored_rules jt persisted pid [] keys bytes defs = Inr (keys, bytes, defs)"
| "validate_stored_rules jt persisted pid (r # rs) keys bytes defs =
     (if invalid_key persisted (sr_key r) then Inl ''profile store contains an invalid rule key''
      else if sr_key r > 0 \<and> sr_key r \<in> keys then Inl ''profile store contains a duplicate rule key''
      else case parse_stored_options jt r of
        Inl e \<Rightarrow> Inl (''profile '' @ pid @ '': '' @ e)
      | Inr d \<Rightarrow>
          (let bytes = bytes + 64 + length (sr_id r) + length (sr_type r) + length (sr_options r) in
           if bytes > 4194304 then Inl (''profile '' @ pid @ '' canonical rules exceed 4 MiB'')
           else validate_stored_rules jt persisted pid rs (if sr_key r > 0 then insert (sr_key r) keys else keys) bytes (defs @ [d])))"

definition stored_fields :: "stored_profile \<Rightarrow> string option list" where
  "stored_fields p = [sp_protocol p, sp_local_request_path p, sp_local_usage_path p, sp_base_url p, sp_request_path p, sp_usage_path p]"

definition stored_size :: "stored_profile \<Rightarrow> nat" where
  "stored_size p = 64 + length (sp_id p) + sum_list (map (\<lambda>f. case f of None \<Rightarrow> 0 | Some s \<Rightarrow> length s) (stored_fields p))"

definition stored_definition :: "stored_profile \<Rightarrow> rule_definition list \<Rightarrow> profile_definition" where
  "stored_definition p rules =
     \<lparr>profile_enabled = sp_enabled p, protocol = sp_protocol p,
      locals = \<lparr>local_request_path = sp_local_request_path p, local_usage_path = sp_local_usage_path p\<rparr>,
      upstream = \<lparr>base_url = sp_base_url p, upstream_request_path = sp_request_path p, upstream_usage_path = sp_usage_path p\<rparr>,
      profile_rules = rules, profile_storage_key = 0, storage_position = None\<rparr>"

record validation_state =
  vs_ids :: "string set"
  vs_profile_keys :: "int set"
  vs_rule_keys :: "int set"
  vs_routes :: nat
  vs_payload :: nat

definition validate_stored_profile :: "json_text \<Rightarrow> bool \<Rightarrow> stored_profile \<Rightarrow> validation_state \<Rightarrow> validation_state res" where
  "validate_stored_profile jt persisted p v =
     (if invalid_key persisted (sp_key p) then Inl ''profile store contains an invalid profile key''
      else if sp_key p > 0 \<and> sp_key p \<in> vs_profile_keys v then Inl ''profile store contains a duplicate profile key''
      else if sp_id p \<in> vs_ids v then Inl (''profile store contains duplicate profile id: '' @ sp_id p)
      else if length (sp_rules p) > 64 then Inl (''profile '' @ sp_id p @ '' exceeds the maximum rule count'')
      else res_bind (validate_stored_rules jt persisted (sp_id p) (sp_rules p) (vs_rule_keys v) (stored_size p) []) (\<lambda>(keys, bytes, defs).
        res_bind (validate_profile_definition (sp_id p) (stored_definition p defs) (sp_enabled p)) (\<lambda>_.
          case add_payload_size (vs_payload v) bytes of
            None \<Rightarrow> Inl ''profile store logical payload exceeds 64 MiB''
          | Some payload \<Rightarrow>
              Inr \<lparr>vs_ids = insert (sp_id p) (vs_ids v),
                   vs_profile_keys = (if sp_key p > 0 then insert (sp_key p) (vs_profile_keys v) else vs_profile_keys v),
                   vs_rule_keys = keys,
                   vs_routes = vs_routes v + (if sp_local_request_path p \<noteq> None then 1 else 0)
                                           + (if sp_local_usage_path p \<noteq> None then 1 else 0),
                   vs_payload = payload\<rparr>)))"

fun validate_stored_loop :: "json_text \<Rightarrow> bool \<Rightarrow> stored_profile list \<Rightarrow> validation_state \<Rightarrow> validation_state res" where
  "validate_stored_loop jt persisted [] v = Inr v"
| "validate_stored_loop jt persisted (p # ps) v =
     res_bind (validate_stored_profile jt persisted p v) (validate_stored_loop jt persisted ps)"

definition validate_stored_profiles :: "json_text \<Rightarrow> stored_profile list \<Rightarrow> bool \<Rightarrow> unit res" where
  "validate_stored_profiles jt ps persisted =
     (if length ps > 128 then Inl ''profile store exceeds the maximum profile count''
      else res_bind (validate_stored_loop jt persisted ps
             \<lparr>vs_ids = {}, vs_profile_keys = {}, vs_rule_keys = {}, vs_routes = 0, vs_payload = 0\<rparr>) (\<lambda>v.
        if vs_routes v > 256 then Inl ''profile store exceeds the maximum route count'' else Inr ()))"

section \<open>Tables\<close>

record profile_row =
  pr_key :: int
  pr_id :: string
  pr_position :: int
  pr_enabled :: int
  pr_protocol :: "string option"
  pr_local_request_path :: "string option"
  pr_local_usage_path :: "string option"
  pr_base_url :: "string option"
  pr_request_path :: "string option"
  pr_usage_path :: "string option"

record rule_row =
  rr_key :: int
  rr_profile :: int
  rr_id :: string
  rr_position :: int
  rr_enabled :: int
  rr_type :: string
  rr_options :: string

record meta_row =
  mr_schema :: int
  mr_revision :: int
  mr_migrated :: "string option"

text \<open>What SQLite shows for a database file. The times in the history tables are left out; the two
  sequences are those of the \<^verbatim>\<open>AUTOINCREMENT\<close> keys.\<close>

record database =
  db_intact :: bool
  db_page_size :: int
  db_objects :: "string list"
  db_user_version :: int
  db_history :: "(int \<times> int) list"
  db_migrations :: "(string \<times> string) list"
  db_meta :: "meta_row option"
  db_profiles :: "profile_row list"
  db_rules :: "rule_row list"
  db_profile_seq :: int
  db_rule_seq :: int

definition empty_database :: database where
  "empty_database =
     \<lparr>db_intact = True, db_page_size = 4096, db_objects = [], db_user_version = 0, db_history = [], db_migrations = [],
      db_meta = None, db_profiles = [], db_rules = [], db_profile_seq = 0, db_rule_seq = 0\<rparr>"

definition profiles_ok :: "profile_row list \<Rightarrow> bool" where
  "profiles_ok rows \<longleftrightarrow> distinct (map pr_key rows) \<and> distinct (map pr_id rows) \<and> distinct (map pr_position rows)
     \<and> list_all (\<lambda>r. pr_position r \<ge> 0 \<and> pr_enabled r \<in> {0, 1}) rows"

definition rules_ok :: "json_text \<Rightarrow> profile_row list \<Rightarrow> rule_row list \<Rightarrow> bool" where
  "rules_ok jt ps rows \<longleftrightarrow> distinct (map rr_key rows) \<and> distinct (map (\<lambda>r. (rr_profile r, rr_id r)) rows)
     \<and> distinct (map (\<lambda>r. (rr_profile r, rr_position r)) rows)
     \<and> list_all (\<lambda>r. rr_position r \<ge> 0 \<and> rr_enabled r \<in> {0, 1} \<and> jt_is_object jt (rr_options r)
                     \<and> rr_profile r \<in> set (map pr_key ps)) rows"

text \<open>The statements. A violated constraint is the code 19, a used up sequence 13. A statement that
  updates several rows checks the constraints after each of them.\<close>

fun update_each :: "('r list \<Rightarrow> bool) \<Rightarrow> ('r \<Rightarrow> 'r) \<Rightarrow> 'r list \<Rightarrow> 'r list \<Rightarrow> int + 'r list" where
  "update_each ok f rows [] = Inr rows"
| "update_each ok f rows (r # rs) =
     (if ok (rows @ f r # rs) then update_each ok f (rows @ [f r]) rs else Inl 19)"

definition sql_decimal :: "int \<Rightarrow> string" where
  "sql_decimal i = (if i < 0 then CHR ''-'' # string_of_nat (nat (- i)) else string_of_nat (nat i))"

definition temp_rule :: "rule_row \<Rightarrow> rule_row" where
  "temp_rule r = r\<lparr>rr_id := ''#ccs-temp-rule-'' @ sql_decimal (rr_key r), rr_position := rr_position r + 1000000\<rparr>"

definition temp_profile :: "profile_row \<Rightarrow> profile_row" where
  "temp_profile r = r\<lparr>pr_id := ''#ccs-temp-profile-'' @ sql_decimal (pr_key r), pr_position := pr_position r + 1000000\<rparr>"

definition sql_temp_rules :: "json_text \<Rightarrow> database \<Rightarrow> int + database" where
  "sql_temp_rules jt d =
     res_map (\<lambda>rows. d\<lparr>db_rules := rows\<rparr>) (update_each (rules_ok jt (db_profiles d)) temp_rule [] (db_rules d))"

definition sql_temp_profiles :: "database \<Rightarrow> int + database" where
  "sql_temp_profiles d =
     res_map (\<lambda>rows. d\<lparr>db_profiles := rows\<rparr>) (update_each profiles_ok temp_profile [] (db_profiles d))"

definition sql_delete_rule :: "int \<Rightarrow> database \<Rightarrow> int + database" where
  "sql_delete_rule k d = Inr (d\<lparr>db_rules := filter (\<lambda>r. rr_key r \<noteq> k) (db_rules d)\<rparr>)"

definition sql_delete_profile :: "int \<Rightarrow> database \<Rightarrow> int + database" where
  "sql_delete_profile k d =
     Inr (d\<lparr>db_profiles := filter (\<lambda>r. pr_key r \<noteq> k) (db_profiles d), db_rules := filter (\<lambda>r. rr_profile r \<noteq> k) (db_rules d)\<rparr>)"

definition bind_profile :: "stored_profile \<Rightarrow> nat \<Rightarrow> int \<Rightarrow> profile_row" where
  "bind_profile p position k =
     \<lparr>pr_key = k, pr_id = sp_id p, pr_position = int position, pr_enabled = (if sp_enabled p then 1 else 0), pr_protocol = sp_protocol p,
      pr_local_request_path = sp_local_request_path p, pr_local_usage_path = sp_local_usage_path p, pr_base_url = sp_base_url p,
      pr_request_path = sp_request_path p, pr_usage_path = sp_usage_path p\<rparr>"

definition bind_rule :: "stored_rule \<Rightarrow> nat \<Rightarrow> int \<Rightarrow> int \<Rightarrow> rule_row" where
  "bind_rule r position k profile_key =
     \<lparr>rr_key = k, rr_profile = profile_key, rr_id = sr_id r, rr_position = int position, rr_enabled = (if sr_enabled r then 1 else 0),
      rr_type = sr_type r, rr_options = sr_options r\<rparr>"

abbreviation max_key :: int where
  "max_key \<equiv> 9223372036854775807"

definition sql_insert_profile :: "(int \<Rightarrow> profile_row) \<Rightarrow> database \<Rightarrow> int + database" where
  "sql_insert_profile row d =
     (let k = db_profile_seq d + 1; rows = db_profiles d @ [row k] in
      if k > max_key then Inl 13
      else if profiles_ok rows then Inr (d\<lparr>db_profiles := rows, db_profile_seq := k\<rparr>) else Inl 19)"

definition sql_update_profile :: "profile_row \<Rightarrow> database \<Rightarrow> int + database" where
  "sql_update_profile row d =
     (let rows = map (\<lambda>r. if pr_key r = pr_key row then row else r) (db_profiles d) in
      if profiles_ok rows then Inr (d\<lparr>db_profiles := rows\<rparr>) else Inl 19)"

definition sql_insert_rule :: "json_text \<Rightarrow> (int \<Rightarrow> rule_row) \<Rightarrow> database \<Rightarrow> int + database" where
  "sql_insert_rule jt row d =
     (let k = db_rule_seq d + 1; rows = db_rules d @ [row k] in
      if k > max_key then Inl 13
      else if rules_ok jt (db_profiles d) rows then Inr (d\<lparr>db_rules := rows, db_rule_seq := k\<rparr>) else Inl 19)"

definition sql_update_rule :: "json_text \<Rightarrow> rule_row \<Rightarrow> database \<Rightarrow> int + database" where
  "sql_update_rule jt row d =
     (let rows = map (\<lambda>r. if rr_key r = rr_key row \<and> rr_profile r = rr_profile row then row else r) (db_rules d) in
      if rules_ok jt (db_profiles d) rows then Inr (d\<lparr>db_rules := rows\<rparr>) else Inl 19)"

definition sql_update_revision :: "int \<Rightarrow> database \<Rightarrow> int + database" where
  "sql_update_revision revision d =
     Inr (d\<lparr>db_meta := map_option (\<lambda>m. if mr_revision m = revision then m\<lparr>mr_revision := revision + 1\<rparr> else m) (db_meta d)\<rparr>)"

definition sql_set_migrated :: "string \<Rightarrow> database \<Rightarrow> int + database" where
  "sql_set_migrated sha d =
     Inr (d\<lparr>db_meta := map_option (\<lambda>m. if mr_migrated m = None then m\<lparr>mr_migrated := Some sha\<rparr> else m) (db_meta d)\<rparr>)"

definition sql_add_migration :: "string \<Rightarrow> string \<Rightarrow> database \<Rightarrow> int + database" where
  "sql_add_migration schema sha d =
     (if (schema, sha) \<in> set (db_migrations d) then Inl 19 else Inr (d\<lparr>db_migrations := db_migrations d @ [(schema, sha)]\<rparr>))"

section \<open>Running statements\<close>

type_synonym 'a sql = "(database, store_error, 'a) io"

definition sqlite_failure :: "int \<Rightarrow> store_failure" where
  "sqlite_failure result =
     (let c = result mod 256 in
      if c = 5 \<or> c = 6 then BusyFailure else if c = 19 then ConstraintFailure
      else if c = 11 \<or> c = 26 then CorruptFailure else IoFailure)"

definition sqlite_error :: "string \<Rightarrow> int \<Rightarrow> string \<Rightarrow> string" where
  "sqlite_error operation result text = operation @ '' failed (SQLite '' @ sql_decimal result @ ''): '' @ text"

definition sqlite_fail :: "string \<Rightarrow> int \<Rightarrow> 'a sql" where
  "sqlite_fail operation result =
     io_bind (io_get (\<lambda>m. mc_message m result)) (\<lambda>text. io_raise (sqlite_failure result, sqlite_error operation result text))"

definition require_sqlite :: "string \<Rightarrow> bool sql \<Rightarrow> unit sql" where
  "require_sqlite operation call =
     io_bind call (\<lambda>ok. if ok then io_return () else io_bind (io_get mc_errno) (sqlite_fail operation))"

definition sqlite_call :: "string \<Rightarrow> unit sql" where
  "sqlite_call operation = require_sqlite operation fs_flush"

abbreviation execute_label :: string where
  "execute_label \<equiv> ''execute SQL statement''"

text \<open>A statement that changes tables, and a query with what is made of its rows.\<close>

definition execute :: "(database \<Rightarrow> int + database) \<Rightarrow> database \<Rightarrow> database sql" where
  "execute statement d =
     io_then (sqlite_call execute_label) (case statement d of Inl c \<Rightarrow> sqlite_fail execute_label c | Inr d' \<Rightarrow> io_return d')"

definition query :: "(store_error + 'a) \<Rightarrow> 'a sql" where
  "query rows = io_then (sqlite_call execute_label) (io_lift rows)"

fun execute_all :: "(database \<Rightarrow> int + database) list \<Rightarrow> database \<Rightarrow> database sql" where
  "execute_all [] d = io_return d"
| "execute_all (f # fs) d = io_bind (execute f d) (execute_all fs)"

text \<open>The database a connection shows.\<close>

definition attached :: "location \<Rightarrow> database sql" where
  "attached p = io_bind (io_get (\<lambda>m. mc_disk m p)) (\<lambda>n. case n of Some (Store d) \<Rightarrow> io_return d | _ \<Rightarrow> sqlite_fail execute_label 26)"

text \<open>Opening: \<^verbatim>\<open>sqlite3_open_v2\<close> creates an empty file when told to, and the first change of it, the
  journal mode, makes it a database without tables.\<close>

definition open_connection :: "bool \<Rightarrow> location \<Rightarrow> unit sql" where
  "open_connection create p =
     io_then (require_sqlite ''open profile database''
         (if create then sys (\<lambda>d. is_directory d (parent_path p) \<and> d p \<noteq> Some Directory) 14 atomic
             (\<lambda>d. if d p = None then d(p := Some (Regular [])) else d)
          else fs_flush))
       (io_each sqlite_call [''enable extended SQLite errors'', ''configure SQLite busy timeout'', ''enable SQLite defensive mode''])"

definition pragmas :: "string list" where
  "pragmas = [''foreign_keys=ON'', ''synchronous=FULL'', ''wal_autocheckpoint=256'', ''journal_size_limit=16777216'', ''mmap_size=0'',
     ''trusted_schema=OFF'', ''max_page_count=65536'']"

definition set_journal_mode :: "bool \<Rightarrow> location \<Rightarrow> unit sql" where
  "set_journal_mode creating p =
     require_sqlite execute_label
       (if creating then sys (\<lambda>_. True) 0 atomic (\<lambda>d. if d p = Some (Regular []) then d(p := Some (Store empty_database)) else d)
        else fs_flush)"

definition configure_connection :: "bool \<Rightarrow> location \<Rightarrow> unit sql" where
  "configure_connection creating p =
     io_then (if creating then sqlite_call execute_label else io_return ())
     (io_then (sqlite_call execute_label)
     (io_bind (if creating then io_return 4096 else io_bind (attached p) (\<lambda>d. io_return (db_page_size d))) (\<lambda>page_size.
        if page_size \<noteq> 4096 then io_raise (UnsupportedSchemaFailure, ''profile database page size must be 4096 bytes'')
        else io_then (set_journal_mode creating p) (io_each (\<lambda>_. sqlite_call execute_label) (pragmas @ pragmas)))))"

section \<open>Reading\<close>

definition store_check :: "bool \<Rightarrow> store_failure \<Rightarrow> string \<Rightarrow> store_error + unit" where
  "store_check b f text = (if b then Inr () else Inl (f, text))"

definition foreign_keys_ok :: "database \<Rightarrow> bool" where
  "foreign_keys_ok d \<longleftrightarrow> list_all (\<lambda>r. rr_profile r \<in> set (map pr_key (db_profiles d))) (db_rules d)"

definition verify_integrity :: "database \<Rightarrow> unit sql" where
  "verify_integrity d =
     io_then (query (store_check (db_intact d) CorruptFailure ''profile database quick_check failed''))
       (query (store_check (foreign_keys_ok d) CorruptFailure ''profile database foreign_key_check failed''))"

definition schema_tables :: "string list" where
  "schema_tables = [''repository_meta'', ''schema_history'', ''migration_history'', ''profiles'', ''rules'']"

definition schema_checks :: "database \<Rightarrow> (store_error + unit) list" where
  "schema_checks d =
     [store_check (length (filter (\<lambda>n. n \<in> set schema_tables) (db_objects d)) = 5) UnsupportedSchemaFailure
        ''profile database schema tables are missing'',
      store_check (length (db_objects d) = 5) UnsupportedSchemaFailure ''profile database has unexpected schema objects'',
      store_check (db_user_version d = 1) UnsupportedSchemaFailure ''unsupported profile database user_version'',
      store_check (length (filter (\<lambda>h. h = (1, 1)) (db_history d)) = 1) UnsupportedSchemaFailure
        ''profile database schema history is invalid'']"

definition verify_schema :: "database \<Rightarrow> unit sql" where
  "verify_schema d = io_each query (schema_checks d)"

definition read_meta :: "database \<Rightarrow> store_error + meta_row" where
  "read_meta d =
     (case db_meta d of
        None \<Rightarrow> Inl (CorruptFailure, ''profile database metadata row is missing'')
      | Some m \<Rightarrow>
          if mr_schema m \<noteq> 1 then Inl (UnsupportedSchemaFailure, ''unsupported profile database schema version'')
          else if mr_revision m < 0 then Inl (CorruptFailure, ''profile database revision is negative'')
          else if \<not> valid_origin (mr_migrated m)
          then Inl (CorruptFailure, ''profile database migration hash is invalid'')
          else Inr m)"

definition profile_of_row :: "profile_row \<Rightarrow> stored_profile" where
  "profile_of_row r =
     \<lparr>sp_key = pr_key r, sp_id = pr_id r, sp_enabled = (pr_enabled r = 1), sp_protocol = pr_protocol r,
      sp_local_request_path = pr_local_request_path r, sp_local_usage_path = pr_local_usage_path r, sp_base_url = pr_base_url r,
      sp_request_path = pr_request_path r, sp_usage_path = pr_usage_path r, sp_rules = []\<rparr>"

definition rule_of_row :: "rule_row \<Rightarrow> stored_rule" where
  "rule_of_row r =
     \<lparr>sr_key = rr_key r, sr_id = rr_id r, sr_enabled = (rr_enabled r = 1), sr_type = rr_type r, sr_options = rr_options r\<rparr>"

abbreviation bool_column_error :: store_error where
  "bool_column_error \<equiv> (CorruptFailure, ''profile database boolean column is invalid'')"

fun read_profile_rows :: "profile_row list \<Rightarrow> int \<Rightarrow> int set \<Rightarrow> store_error + stored_profile list" where
  "read_profile_rows [] expected keys = Inr []"
| "read_profile_rows (r # rs) expected keys =
     (if pr_position r \<noteq> expected then Inl (CorruptFailure, ''profile positions are not contiguous'')
      else if pr_enabled r \<notin> {0, 1} then Inl bool_column_error
      else if pr_key r \<in> keys then Inl (CorruptFailure, ''profile database contains duplicate profile keys'')
      else res_map ((#) (profile_of_row r)) (read_profile_rows rs (expected + 1) (insert (pr_key r) keys)))"

text \<open>The rules joined with their profiles, in the order of both positions. The number of rules a
  profile has so far is the position expected next.\<close>

definition profile_position :: "database \<Rightarrow> int \<Rightarrow> int" where
  "profile_position d k = (case find (\<lambda>r. pr_key r = k) (db_profiles d) of None \<Rightarrow> -1 | Some r \<Rightarrow> pr_position r)"

definition joined_rules :: "database \<Rightarrow> rule_row list" where
  "joined_rules d =
     sort_key (\<lambda>r. (profile_position d (rr_profile r), rr_position r))
       (filter (\<lambda>r. rr_profile r \<in> set (map pr_key (db_profiles d))) (db_rules d))"

fun add_rule_row :: "rule_row \<Rightarrow> stored_profile list \<Rightarrow> store_error + stored_profile list" where
  "add_rule_row r [] = Inl (CorruptFailure, ''rule references a missing profile'')"
| "add_rule_row r (p # ps) =
     (if sp_key p = rr_profile r
      then if rr_position r \<noteq> int (length (sp_rules p)) then Inl (CorruptFailure, ''rule positions are not contiguous'')
           else if rr_enabled r \<notin> {0, 1} then Inl bool_column_error
           else Inr (p\<lparr>sp_rules := sp_rules p @ [rule_of_row r]\<rparr> # ps)
      else res_map ((#) p) (add_rule_row r ps))"

fun read_rule_rows :: "rule_row list \<Rightarrow> stored_profile list \<Rightarrow> store_error + stored_profile list" where
  "read_rule_rows [] ps = Inr ps"
| "read_rule_rows (r # rs) ps = res_bind (add_rule_row r ps) (read_rule_rows rs)"

definition checked_snapshot :: "json_text \<Rightarrow> meta_row \<Rightarrow> stored_profile list \<Rightarrow> store_error + store_snapshot" where
  "checked_snapshot jt m ps =
     (case validate_stored_profiles jt ps True of
        Inl e \<Rightarrow> Inl (CorruptFailure, ''profile database semantic validation failed: '' @ e)
      | Inr _ \<Rightarrow> Inr \<lparr>ps_revision = mr_revision m, ps_migrated = mr_migrated m, ps_profiles = ps\<rparr>)"

definition read_snapshot :: "json_text \<Rightarrow> database \<Rightarrow> store_snapshot sql" where
  "read_snapshot jt d =
     io_then (verify_schema d)
     (io_bind (query (read_meta d)) (\<lambda>m.
      io_bind (query (read_profile_rows (sort_key pr_position (db_profiles d)) 0 {})) (\<lambda>ps.
      io_bind (query (read_rule_rows (joined_rules d) ps)) (\<lambda>ps. io_lift (checked_snapshot jt m ps)))))"

section \<open>Operations\<close>

definition os_failure :: "string \<Rightarrow> 'a sql" where
  "os_failure text = io_bind (io_get (\<lambda>m. mc_message m (mc_errno m))) (\<lambda>t. io_raise (IoFailure, text @ t))"

definition existing_regular_file :: "location \<Rightarrow> bool sql" where
  "existing_regular_file p =
     io_bind (fs_query (\<lambda>m. mc_disk m p \<noteq> None)) (\<lambda>there.
       case there of
         None \<Rightarrow> os_failure ''failed to inspect profile database: ''
       | Some False \<Rightarrow> io_return False
       | Some True \<Rightarrow>
           io_bind (fs_query (\<lambda>m. file_bytes m p \<noteq> None)) (\<lambda>regular.
             case regular of
               None \<Rightarrow> os_failure ''failed to inspect profile database: ''
             | Some False \<Rightarrow> io_raise (IoFailure, ''profile database path must be a regular file'')
             | Some True \<Rightarrow>
                 io_bind (fs_query (\<lambda>m. file_bytes m p)) (\<lambda>bytes.
                   case bytes of
                     None \<Rightarrow> os_failure ''failed to read profile database size: ''
                   | Some b \<Rightarrow> if b = Some [] then io_raise (CorruptFailure, ''existing profile database is empty'') else io_return True)))"

text \<open>What every operation on an existing database does first.\<close>

definition open_existing :: "location \<Rightarrow> database sql" where
  "open_existing p =
     io_bind (existing_regular_file p) (\<lambda>there.
       if \<not> there then io_raise (NotFoundFailure, ''profile database does not exist'')
       else io_then (open_connection False p)
              (io_then (configure_connection False p)
                (io_bind (attached p) (\<lambda>d. io_then (verify_integrity d) (io_return d)))))"

text \<open>The body works on a copy of the tables. It ends with the tables to commit; after an exception
  the copy is dropped, whatever \<^verbatim>\<open>ROLLBACK\<close> answers.\<close>

definition commit :: "location \<Rightarrow> database \<Rightarrow> unit sql" where
  "commit p d = require_sqlite execute_label (sys (\<lambda>_. True) 0 atomic (\<lambda>disk. disk(p := Some (Store d))))"

definition transaction :: "location \<Rightarrow> (database \<Rightarrow> (database \<times> 'a) sql) \<Rightarrow> 'a sql" where
  "transaction p body =
     io_then (sqlite_call execute_label)
     (io_bind (attached p) (\<lambda>d.
        io_catch (io_bind (body d) (\<lambda>(d', x). io_then (commit p d') (io_return x)))
          (\<lambda>e. io_bind fs_flush (\<lambda>_. io_raise e))))"

definition passive_checkpoint :: "unit sql" where
  "passive_checkpoint = io_bind fs_flush (\<lambda>_. io_return ())"

definition store_load_impl :: "json_text \<Rightarrow> location \<Rightarrow> store_snapshot sql" where
  "store_load_impl jt p = io_bind (open_existing p) (read_snapshot jt)"

definition store_load :: "json_text \<Rightarrow> location \<Rightarrow> (database, 'e, store_error + store_snapshot) io" where
  "store_load jt p = io_attempt (store_load_impl jt p)"

definition create_statements :: "(database \<Rightarrow> int + database) list" where
  "create_statements =
     map (\<lambda>t d. Inr (d\<lparr>db_objects := db_objects d @ [t]\<rparr>)) schema_tables
     @ [\<lambda>d. Inr (d\<lparr>db_meta := Some \<lparr>mr_schema = 1, mr_revision = 0, mr_migrated = None\<rparr>\<rparr>),
        \<lambda>d. Inr (d\<lparr>db_history := db_history d @ [(1, 1)]\<rparr>),
        \<lambda>d. Inr (d\<lparr>db_user_version := 1\<rparr>)]"

definition create_database :: "json_text \<Rightarrow> location \<Rightarrow> store_snapshot sql" where
  "create_database jt p =
     io_then (open_connection True p)
     (io_then (configure_connection True p)
     (io_then (transaction p (\<lambda>d. io_bind (execute_all create_statements d) (\<lambda>d'. io_return (d', ()))))
     (io_bind (attached p) (\<lambda>d. io_bind (read_snapshot jt d) (\<lambda>s. io_then passive_checkpoint (io_return s))))))"

definition open_or_create :: "json_text \<Rightarrow> location \<Rightarrow> (database, 'e, store_error + store_snapshot) io" where
  "open_or_create jt p =
     io_attempt (io_bind (existing_regular_file p) (\<lambda>there. if there then store_load_impl jt p else create_database jt p))"

text \<open>\<^verbatim>\<open>save\<close>: the keys of the desired profiles must belong to what is stored.\<close>

definition stored_rule_keys :: "stored_profile list \<Rightarrow> (int \<times> int) list" where
  "stored_rule_keys ps = concat (map (\<lambda>p. map (\<lambda>r. (sr_key r, sp_key p)) (sp_rules p)) ps)"

fun check_desired_keys :: "stored_profile list \<Rightarrow> stored_profile list \<Rightarrow> store_error + unit" where
  "check_desired_keys current [] = Inr ()"
| "check_desired_keys current (p # ps) =
     (if sp_key p > 0 \<and> sp_key p \<notin> set (map sp_key current) then Inl (StaleFailure, ''profile key no longer exists'')
      else if \<not> list_all (\<lambda>r. sr_key r = 0 \<or> sp_key p \<noteq> 0 \<and> map_of (stored_rule_keys current) (sr_key r) = Some (sp_key p)) (sp_rules p)
      then Inl (StaleFailure, ''rule key no longer belongs to the profile'')
      else check_desired_keys current ps)"

definition desired_profile_keys :: "stored_profile list \<Rightarrow> int list" where
  "desired_profile_keys ps = filter (\<lambda>k. k > 0) (map sp_key ps)"

definition desired_rule_keys :: "stored_profile list \<Rightarrow> int list" where
  "desired_rule_keys ps = filter (\<lambda>k. k \<noteq> 0) (map fst (stored_rule_keys ps))"

text \<open>The source deletes in the order of hash tables; the result is the same in every order.\<close>

definition delete_statements :: "stored_profile list \<Rightarrow> stored_profile list \<Rightarrow> (database \<Rightarrow> int + database) list" where
  "delete_statements current desired =
     map sql_delete_rule (filter (\<lambda>k. k \<notin> set (desired_rule_keys desired)) (map fst (stored_rule_keys current)))
     @ map sql_delete_profile (filter (\<lambda>k. k \<notin> set (desired_profile_keys desired)) (map sp_key current))"

definition require_changed_one :: "string \<Rightarrow> nat \<Rightarrow> store_error + unit" where
  "require_changed_one operation n = store_check (n = 1) StaleFailure (operation @ '' did not match one row'')"

definition write_profile :: "stored_profile \<Rightarrow> nat \<Rightarrow> database \<Rightarrow> (stored_profile \<times> database) sql" where
  "write_profile p i d =
     (if sp_key p = 0
      then io_bind (execute (sql_insert_profile (bind_profile p i)) d) (\<lambda>d'.
             if db_profile_seq d' \<le> 0 then io_raise (IoFailure, ''inserted profile has an invalid key'')
             else io_return (p\<lparr>sp_key := db_profile_seq d'\<rparr>, d'))
      else io_bind (execute (sql_update_profile (bind_profile p i (sp_key p))) d) (\<lambda>d'.
             io_then (io_lift (require_changed_one ''update profile'' (length (filter (\<lambda>r. pr_key r = sp_key p) (db_profiles d)))))
               (io_return (p, d'))))"

fun write_profiles :: "stored_profile list \<Rightarrow> nat \<Rightarrow> database \<Rightarrow> (stored_profile list \<times> database) sql" where
  "write_profiles [] i d = io_return ([], d)"
| "write_profiles (p # ps) i d =
     io_bind (write_profile p i d) (\<lambda>(p', d'). io_bind (write_profiles ps (Suc i) d') (\<lambda>(ps', d''). io_return (p' # ps', d'')))"

definition write_rule :: "json_text \<Rightarrow> int \<Rightarrow> stored_rule \<Rightarrow> nat \<Rightarrow> database \<Rightarrow> (stored_rule \<times> database) sql" where
  "write_rule jt pk r i d =
     (if sr_key r = 0
      then io_bind (execute (sql_insert_rule jt (\<lambda>k. bind_rule r i k pk)) d) (\<lambda>d'.
             if db_rule_seq d' \<le> 0 then io_raise (IoFailure, ''inserted rule has an invalid key'')
             else io_return (r\<lparr>sr_key := db_rule_seq d'\<rparr>, d'))
      else io_bind (execute (sql_update_rule jt (bind_rule r i (sr_key r) pk)) d) (\<lambda>d'.
             io_then (io_lift (require_changed_one ''update rule''
                 (length (filter (\<lambda>x. rr_key x = sr_key r \<and> rr_profile x = pk) (db_rules d)))))
               (io_return (r, d'))))"

fun write_rules :: "json_text \<Rightarrow> int \<Rightarrow> stored_rule list \<Rightarrow> nat \<Rightarrow> database \<Rightarrow> (stored_rule list \<times> database) sql" where
  "write_rules jt pk [] i d = io_return ([], d)"
| "write_rules jt pk (r # rs) i d =
     io_bind (write_rule jt pk r i d) (\<lambda>(r', d'). io_bind (write_rules jt pk rs (Suc i) d') (\<lambda>(rs', d''). io_return (r' # rs', d'')))"

fun write_all_rules :: "json_text \<Rightarrow> stored_profile list \<Rightarrow> database \<Rightarrow> (stored_profile list \<times> database) sql" where
  "write_all_rules jt [] d = io_return ([], d)"
| "write_all_rules jt (p # ps) d =
     io_bind (write_rules jt (sp_key p) (sp_rules p) 0 d) (\<lambda>(rs, d').
       io_bind (write_all_rules jt ps d') (\<lambda>(ps', d''). io_return (p\<lparr>sp_rules := rs\<rparr> # ps', d'')))"

text \<open>The statements of a save, up to the commit.\<close>

definition write_snapshot :: "json_text \<Rightarrow> store_snapshot \<Rightarrow> store_snapshot \<Rightarrow> database \<Rightarrow> (database \<times> store_snapshot) sql" where
  "write_snapshot jt current desired d =
     io_bind (execute_all ([sql_temp_rules jt, sql_temp_profiles] @ delete_statements (ps_profiles current) (ps_profiles desired)) d) (\<lambda>d.
     io_bind (write_profiles (ps_profiles desired) 0 d) (\<lambda>(ps, d).
     io_bind (write_all_rules jt ps d) (\<lambda>(ps, d).
     io_bind (execute (sql_update_revision (ps_revision desired)) d) (\<lambda>d'.
     io_then (io_lift (require_changed_one ''update profile revision''
         (case db_meta d of Some m \<Rightarrow> (if mr_revision m = ps_revision desired then 1 else 0) | None \<Rightarrow> 0)))
     (io_bind (read_snapshot jt d') (\<lambda>verified.
        if verified \<noteq> desired\<lparr>ps_revision := ps_revision desired + 1, ps_profiles := ps\<rparr>
        then io_raise (CorruptFailure, ''profile database round-trip verification failed'')
        else io_return (d', verified)))))))"

definition save_body :: "json_text \<Rightarrow> store_snapshot \<Rightarrow> database \<Rightarrow> (database \<times> store_snapshot \<times> bool) sql" where
  "save_body jt desired d =
     io_bind (read_snapshot jt d) (\<lambda>current.
       if ps_revision current \<noteq> ps_revision desired then io_raise (StaleFailure, ''profile database revision changed'')
       else if ps_migrated current \<noteq> ps_migrated desired
       then io_raise (InvalidDataFailure, ''profile database migration origin is immutable'')
       else if current = desired then io_return (d, current, False)
       else if ps_revision desired = max_key then io_raise (ConstraintFailure, ''profile database revision is exhausted'')
       else io_then (io_lift (check_desired_keys (ps_profiles current) (ps_profiles desired)))
              (io_bind (write_snapshot jt current desired d) (\<lambda>(d', s). io_return (d', s, True))))"

definition validate_save :: "json_text \<Rightarrow> store_snapshot \<Rightarrow> store_error + unit" where
  "validate_save jt s =
     (if ps_revision s < 0 then Inl (InvalidDataFailure, ''profile store revision cannot be negative'')
      else case validate_stored_profiles jt (ps_profiles s) False of
        Inl e \<Rightarrow> Inl (InvalidDataFailure, if e = [] then ''profile store migration hash is invalid'' else e)
      | Inr _ \<Rightarrow> store_check (valid_origin (ps_migrated s)) InvalidDataFailure ''profile store migration hash is invalid'')"

definition store_save :: "json_text \<Rightarrow> location \<Rightarrow> store_snapshot \<Rightarrow> (database, 'e, store_error + store_snapshot) io" where
  "store_save jt p desired =
     io_attempt
       (io_then (io_lift (validate_save jt desired))
       (io_bind (open_existing p) (\<lambda>_.
        io_bind (transaction p (save_body jt desired)) (\<lambda>(s, changed).
          if changed then io_then passive_checkpoint (io_return s) else io_return s))))"

definition mark_body :: "json_text \<Rightarrow> string \<Rightarrow> string \<Rightarrow> database \<Rightarrow> (database \<times> store_snapshot \<times> bool) sql" where
  "mark_body jt schema sha d =
     io_bind (read_snapshot jt d) (\<lambda>current.
       case ps_migrated current of
         Some old \<Rightarrow>
           if old = sha then io_return (d, current, False)
           else io_raise (ConstraintFailure, ''profile database has different migration provenance'')
       | None \<Rightarrow>
           io_bind (execute (sql_set_migrated sha) d) (\<lambda>d1.
           io_then (io_lift (require_changed_one ''set migration provenance''
               (case db_meta d of Some m \<Rightarrow> (if mr_migrated m = None then 1 else 0) | None \<Rightarrow> 0)))
           (io_bind (execute (sql_add_migration schema sha) d1) (\<lambda>d2.
            io_bind (read_snapshot jt d2) (\<lambda>verified.
              if verified \<noteq> current\<lparr>ps_migrated := Some sha\<rparr>
              then io_raise (CorruptFailure, ''migration provenance round-trip failed'')
              else io_return (d2, verified, True))))))"

definition mark_migrated :: "json_text \<Rightarrow> location \<Rightarrow> string \<Rightarrow> string \<Rightarrow> (database, 'e, store_error + store_snapshot) io" where
  "mark_migrated jt p schema sha =
     (if schema \<noteq> ''ccs-trans.config/v2'' \<or> \<not> valid_sha256 sha
      then io_return (Inl (InvalidDataFailure, ''migration provenance requires v2 schema and lowercase SHA-256''))
      else io_attempt
        (io_bind (open_existing p) (\<lambda>_.
         io_bind (transaction p (mark_body jt schema sha)) (\<lambda>(s, changed).
           if changed then io_then passive_checkpoint (io_return s) else io_return s))))"

text \<open>A sidecar must be gone or empty after the log was truncated.\<close>

definition check_sidecar :: "location \<Rightarrow> string \<Rightarrow> unit sql" where
  "check_sidecar p ending =
     (let sidecar = with_suffix p ending in
      io_bind (fs_query (\<lambda>m. mc_disk m sidecar \<noteq> None)) (\<lambda>there.
        case there of
          None \<Rightarrow> os_failure ''failed to inspect SQLite sidecar: ''
        | Some False \<Rightarrow> io_return ()
        | Some True \<Rightarrow>
            io_bind (fs_query (\<lambda>m. file_bytes m sidecar)) (\<lambda>bytes.
              if bytes = Some (Some []) then io_return ()
              else io_raise (BusyFailure, ''SQLite sidecar remains after truncate checkpoint: '' @ path_string sidecar))))"

definition checkpoint_for_move :: "json_text \<Rightarrow> location \<Rightarrow> (database, 'e, store_error + unit) io" where
  "checkpoint_for_move jt p =
     io_attempt
       (io_bind (open_existing p) (\<lambda>d.
        io_bind (read_snapshot jt d) (\<lambda>_.
        io_then (sqlite_call ''truncate profile WAL'')
        (io_bind fs_flush (\<lambda>complete.
           if \<not> complete then io_raise (BusyFailure, ''profile WAL did not truncate completely'')
           else io_each (check_sidecar p) [''-wal'', ''-shm''])))))"

definition store_verify :: "json_text \<Rightarrow> location \<Rightarrow> (database, 'e, store_error + unit) io" where
  "store_verify jt p = io_bind (store_load jt p) (\<lambda>r. io_return (res_map (\<lambda>_. ()) r))"

end
