(* ===== verification/ProfileSave.thy ===== *)
theory ProfileSave
  imports ProfileStore "HOL-Library.Monad_Syntax" "HOL-Library.Multiset"
begin

text \<open>
  What the operations of the profile database achieve. The first part describes each run by the
  pure function it computes: \<open>stored\<close> is the snapshot the tables hold. The second part follows a
  transaction through every failure, and the third says what a save that ends well has written:
  \<open>replaced\<close> relates the tables before and after.
\<close>

section \<open>What the programs compute\<close>

definition stored :: "json_text \<Rightarrow> database \<Rightarrow> store_snapshot option" where
  "stored jt d =
     (if list_all (\<lambda>c. c = Inr ()) (schema_checks d)
      then do {
        m \<leftarrow> right_of (read_meta d);
        ps \<leftarrow> right_of (read_profile_rows (sort_key pr_position (db_profiles d)) 0 {});
        ps \<leftarrow> right_of (read_rule_rows (joined_rules d) ps);
        right_of (checked_snapshot jt m ps)
      } else None)"

lemma computes_sqlite_fail [computes_intros]: "computes (sqlite_fail op c) None m"
  by (simp add: sqlite_fail_def computes_def wp_simps)

lemma computes_sqlite_call [computes_intros]: "computes (sqlite_call op) (Some ()) m"
  unfolding computes_def sqlite_call_def require_sqlite_def wp_bind
proof (rule wp_flush, goal_cases)
  case (1 b m')
  then show ?case by (cases b) (auto simp: wp_simps sqlite_fail_def)
qed auto

lemma computes_query_rows [computes_intros]: "computes (query rows) (right_of rows) m"
proof -
  have "computes (query rows) (Option.bind (Some ()) (\<lambda>_. right_of rows)) m"
    unfolding query_def by (intro computes_then computes_intros)
  then show ?thesis by simp
qed

lemma computes_execute [computes_intros]: "computes (execute f d) (right_of (f d)) m"
proof -
  have "computes (execute f d) (Option.bind (Some ()) (\<lambda>_. right_of (f d))) m"
    unfolding execute_def by (intro computes_then) (auto simp: computes_intros split: sum.splits)
  then show ?thesis by simp
qed

fun run_statements :: "(database \<Rightarrow> int + database) list \<Rightarrow> database \<Rightarrow> database option" where
  "run_statements [] d = Some d"
| "run_statements (f # fs) d = do { d' \<leftarrow> right_of (f d); run_statements fs d' }"

lemma computes_execute_all [computes_intros]: "computes (execute_all fs d) (run_statements fs d) m"
  by (induction fs arbitrary: d m) (auto intro!: computes_bind computes_intros)

lemma computes_each:
  "(\<And>x m'. x \<in> set xs \<Longrightarrow> computes (f x) (g x) m') \<Longrightarrow>
     computes (io_each f xs) (if list_all (\<lambda>x. g x = Some ()) xs then Some () else None) m"
proof (induction xs arbitrary: m)
  case (Cons y ys m)
  have "computes (io_each f (y # ys)) (Option.bind (g y) (\<lambda>_. if list_all (\<lambda>x. g x = Some ()) ys then Some () else None)) m"
    unfolding io_each.simps by (intro computes_then) (use Cons in auto)
  then show ?case by (cases "g y") auto
qed (simp add: computes_intros)

lemma computes_read_snapshot [computes_intros]: "computes (read_snapshot jt d) (stored jt d) m"
proof -
  have "computes (read_snapshot jt d)
     (Option.bind (if list_all (\<lambda>c. right_of c = Some ()) (schema_checks d) then Some () else None) (\<lambda>_.
      Option.bind (right_of (read_meta d)) (\<lambda>m.
      Option.bind (right_of (read_profile_rows (sort_key pr_position (db_profiles d)) 0 {})) (\<lambda>ps.
      Option.bind (right_of (read_rule_rows (joined_rules d) ps)) (\<lambda>ps. right_of (checked_snapshot jt m ps)))))) m"
    unfolding read_snapshot_def verify_schema_def by (intro computes_then computes_bind computes_each computes_intros)
  then show ?thesis unfolding stored_def by (simp split: if_splits)
qed

definition sound :: "database \<Rightarrow> bool" where
  "sound d \<longleftrightarrow> db_page_size d = 4096 \<and> db_intact d \<and> foreign_keys_ok d"

text \<open>Opening: the database at \<open>p\<close>, if there is one, it is not empty and SQLite finds no fault in it.\<close>

definition opened_database :: "location \<Rightarrow> database machine \<Rightarrow> database option" where
  "opened_database p m =
     (case mc_disk m p of Some (Store d) \<Rightarrow> (if mc_image m d \<noteq> [] \<and> sound d then Some d else None) | _ \<Rightarrow> None)"

lemma computes_attached:
  "computes (attached p) (case mc_disk m p of Some (Store d) \<Rightarrow> Some d | _ \<Rightarrow> None) m"
proof -
  have "computes (attached p) (Option.bind (Some (mc_disk m p)) (\<lambda>n. case n of Some (Store d) \<Rightarrow> Some d | _ \<Rightarrow> None)) m"
    unfolding attached_def
    by (intro computes_bind computes_get) (auto intro: computes_intros split: option.splits node.splits)
  then show ?thesis by simp
qed

lemma wp_os_failure [wp_simps]: "wp (os_failure text) Q E C = (\<lambda>m. E (IoFailure, text @ mc_message m (mc_errno m)) m)"
  by (simp add: os_failure_def wp_simps)

lemma computes_existing:
  "computes (existing_regular_file p)
     (if mc_disk m p = None then Some False
      else if file_bytes m p = None \<or> file_bytes m p = Some [] then None else Some True) m"
proof -
  note fb = file_bytes_touched
  define sized :: "string option option \<Rightarrow> bool sql" where "sized = (\<lambda>bytes. case bytes of
      None \<Rightarrow> os_failure ''failed to read profile database size: ''
    | Some b \<Rightarrow> if b = Some [] then io_raise (CorruptFailure, ''existing profile database is empty'') else io_return True)"
  have size: "computes (io_bind (fs_query (\<lambda>m. file_bytes m p)) sized) (if file_bytes m p = Some [] then None else Some True) m" for m
    by (rule computes_query) (auto simp: sized_def fb wp_simps intro: computes_intros)
  show ?thesis
    unfolding existing_regular_file_def sized_def [symmetric]
  proof (rule computes_query, goal_cases)
    case (2 m1)
    note t = 2
    show ?case
    proof (cases "mc_disk m p = None")
      case False
      have "computes (io_bind (fs_query (\<lambda>m. file_bytes m p \<noteq> None)) (\<lambda>regular.
             case regular of
               None \<Rightarrow> os_failure ''failed to inspect profile database: ''
             | Some False \<Rightarrow> io_raise (IoFailure, ''profile database path must be a regular file'')
             | Some True \<Rightarrow> io_bind (fs_query (\<lambda>m. file_bytes m p)) sized))
           (if file_bytes m1 p = None then None else if file_bytes m1 p = Some [] then None else Some True) m1"
      proof (rule computes_query, goal_cases)
        case (2 m2)
        with size [of m2] show ?case by (auto simp: fb [OF 2] intro: computes_intros)
      qed (auto simp: fb wp_simps)
      with False show ?thesis by (auto simp: fb [OF t] split: if_splits)
    qed (simp add: computes_intros)
  qed (auto simp: touched_def wp_simps)
qed

lemma computes_connection:
  "computes (io_then (open_connection False p) (configure_connection False p))
     (case mc_disk m p of Some (Store d) \<Rightarrow> (if db_page_size d = 4096 then Some () else None) | _ \<Rightarrow> None) m"
proof -
  have each: "computes (io_each (\<lambda>_. sqlite_call execute_label) (pragmas @ pragmas)) (Some ()) m"
    "computes (io_each sqlite_call xs) (Some ()) m" for m xs
    using computes_each [of _ "\<lambda>_. sqlite_call execute_label" "\<lambda>_. Some ()" m] computes_each [of xs sqlite_call "\<lambda>_. Some ()" m]
    by (auto simp: list_all_iff computes_intros)
  have open_ok: "computes (open_connection False p) (Some ()) m"
  proof -
    have "computes (open_connection False p) (Option.bind (Some ()) (\<lambda>_. Some ())) m"
      unfolding open_connection_def if_False sqlite_call_def [symmetric] by (intro computes_then computes_intros each)
    then show ?thesis by simp
  qed
  have conf: "computes (configure_connection False p)
     (case mc_disk m p of Some (Store d) \<Rightarrow> (if db_page_size d = 4096 then Some () else None) | _ \<Rightarrow> None) m" for m
  proof -
    have "computes (configure_connection False p)
       (Option.bind (Some ()) (\<lambda>_. Option.bind (Some ()) (\<lambda>_. Option.bind
         (Option.bind (case mc_disk m p of Some (Store d) \<Rightarrow> Some d | _ \<Rightarrow> None) (\<lambda>d. Some (db_page_size d)))
         (\<lambda>n. if n \<noteq> 4096 then None else Option.bind (Some ()) (\<lambda>_. Some ()))))) m"
      unfolding configure_connection_def set_journal_mode_def if_False sqlite_call_def [symmetric]
      apply (intro computes_then computes_bind computes_intros each)
      using computes_attached by (metis touched_same)
    then show ?thesis by (rule computes_eq) (auto split: option.splits node.splits)
  qed
  have "computes (io_then (open_connection False p) (configure_connection False p))
     (Option.bind (Some ()) (\<lambda>_. case mc_disk m p of Some (Store d) \<Rightarrow> (if db_page_size d = 4096 then Some () else None) | _ \<Rightarrow> None)) m"
    using conf by (intro computes_then open_ok) (metis touched_same)
  then show ?thesis by simp
qed

lemma computes_integrity: "computes (verify_integrity d) (if db_intact d \<and> foreign_keys_ok d then Some () else None) m"
proof -
  have "computes (verify_integrity d)
     (Option.bind (right_of (store_check (db_intact d) CorruptFailure ''profile database quick_check failed'')) (\<lambda>_.
       right_of (store_check (foreign_keys_ok d) CorruptFailure ''profile database foreign_key_check failed''))) m"
    unfolding verify_integrity_def by (intro computes_then computes_intros)
  then show ?thesis by (simp add: store_check_def split: if_splits)
qed

lemma io_then_assoc: "io_then (io_then a b) c = io_then a (io_then b c)"
  by (rule ext) (simp add: io_then_def io_bind_def split: prod.splits outcome.splits)

lemma computes_open_existing: "computes (open_existing p) (opened_database p m) m"
proof -
  let ?at = "case mc_disk m p of Some (Store d) \<Rightarrow> Some d | _ \<Rightarrow> None"
  have "computes (open_existing p)
     (Option.bind (if mc_disk m p = None then Some False
        else if file_bytes m p = None \<or> file_bytes m p = Some [] then None else Some True) (\<lambda>there. if \<not> there then None
      else Option.bind (case mc_disk m p of Some (Store d) \<Rightarrow> (if db_page_size d = 4096 then Some () else None) | _ \<Rightarrow> None) (\<lambda>_.
        Option.bind ?at (\<lambda>d. Option.bind (if db_intact d \<and> foreign_keys_ok d then Some () else None) (\<lambda>_. Some d))))) m"
    unfolding open_existing_def io_then_assoc [symmetric]
    apply (intro computes_bind computes_existing computes_if computes_then computes_integrity computes_intros)
    subgoal for there m1 using computes_connection [of p m1] by (simp add: touched_same)
    subgoal for there m1 m2 using computes_attached [of p m2] by (simp add: touched_same)
    done
  then show ?thesis
    by (rule computes_eq) (auto simp: opened_database_def sound_def file_bytes_def split: option.splits node.splits)
qed

lemma oblivious_sql [oblivious_intros]:
  "oblivious (execute f d)" "oblivious (execute_all fs d)" "oblivious (read_snapshot jt d)" "oblivious (query rows)"
  by (blast intro: obliviousI computes_intros)+

lemma oblivious_write_profile [oblivious_intros]: "oblivious (write_profile p i d)"
  unfolding write_profile_def by (intro oblivious_intros)

lemma oblivious_write_profiles [oblivious_intros]: "oblivious (write_profiles ps i d)"
  by (induction ps arbitrary: i d) (auto intro!: oblivious_intros)

lemma oblivious_write_rule [oblivious_intros]: "oblivious (write_rule jt pk r i d)"
  unfolding write_rule_def by (intro oblivious_intros)

lemma oblivious_write_rules [oblivious_intros]: "oblivious (write_rules jt pk rs i d)"
  by (induction rs arbitrary: i d) (auto intro!: oblivious_intros)

lemma oblivious_write_all_rules [oblivious_intros]: "oblivious (write_all_rules jt ps d)"
  by (induction ps arbitrary: d) (auto intro!: oblivious_intros)

lemma oblivious_write_snapshot [oblivious_intros]: "oblivious (write_snapshot jt current desired d)"
  unfolding write_snapshot_def by (intro oblivious_intros)

lemma oblivious_save_body: "oblivious (save_body jt desired d)"
  unfolding save_body_def by (intro oblivious_intros)

lemma oblivious_mark_body: "oblivious (mark_body jt schema sha d)"
  unfolding mark_body_def by (auto intro!: oblivious_intros split: option.splits)

section \<open>Transactions\<close>

lemma wp_commit:
  assumes "\<And>m'. touched {p} m m' \<Longrightarrow> mc_disk m' p = Some (Store d) \<Longrightarrow> Q () m'"
    "\<And>e m'. touched {} m m' \<Longrightarrow> mc_faults m \<noteq> [] \<Longrightarrow> E e m'" "\<And>m'. touched {} m m' \<Longrightarrow> mc_faults m \<noteq> [] \<Longrightarrow> C m'"
  shows "wp (commit p d) Q E C m"
  unfolding commit_def require_sqlite_def wp_bind
  by (rule wp_atomic [where S = "{p}"]) (use assms in \<open>auto simp: wp_simps sqlite_fail_def\<close>)

text \<open>A transaction whose body has the value \<open>r\<close>.\<close>

lemma wp_transaction:
  assumes d: "mc_disk m p = Some (Store d)" and body: "\<And>m. computes (body d) r m"
    and fin: "\<And>d' x m'. r = Some (d', x) \<Longrightarrow> touched {p} m m' \<Longrightarrow> mc_disk m' p = Some (Store d') \<Longrightarrow> Q x m'"
    and exn: "\<And>e m'. touched {} m m' \<Longrightarrow> (mc_faults m = [] \<Longrightarrow> r = None) \<Longrightarrow> E e m'"
    and died: "\<And>m'. touched {} m m' \<Longrightarrow> mc_faults m \<noteq> [] \<Longrightarrow> C m'"
  shows "wp (transaction p body) Q E C m"
proof -
  have rollback: "wp fs_flush (\<lambda>_. wp (io_raise e) Q E C) E C m2"
    if "touched {} m m2" "mc_faults m = [] \<Longrightarrow> r = None" for e m2
  proof (rule wp_flush, goal_cases)
    case (1 b m3)
    with that(1) have "touched {} m m3" by (auto intro: touched_trans)
    then show ?case using that(2) exn by (simp add: wp_simps)
  next
    case (2 m3)
    with that(1) show ?case by (intro died) (auto intro: touched_trans dest: touched_quiet)
  qed
  show ?thesis
    unfolding transaction_def wp_then wp_bind wp_catch
  proof (rule wp_mono [OF computes_sqlite_call [unfolded computes_def]], goal_cases)
    case (1 _ m1)
    then have t1: "touched {} m m1" by simp
    have "computes (attached p) (Some d) m1" using computes_attached [of p m1] t1 d by (simp add: touched_def)
    then show ?case unfolding computes_def
    proof (rule wp_mono, goal_cases)
      case (1 d0 m2)
      then have t2: "touched {} m m2" and d0: "d0 = d" using t1 by (auto intro: touched_trans)
      show ?case unfolding d0
      proof (rule wp_mono [OF body [unfolded computes_def]], goal_cases)
        case (1 y m3)
        then obtain d' x where y: "y = (d', x)" "r = Some (d', x)" and t3: "touched {} m m3"
          using t2 by (cases y) (auto intro: touched_trans)
        show ?case unfolding y(1) prod.case wp_then
        proof (rule wp_commit, goal_cases)
          case (1 m4)
          with t3 y(2) show ?case by (auto simp: wp_simps intro!: fin intro: touched_trans)
        next
          case (2 e m4)
          with t3 y(2) show ?case by (intro rollback) (auto intro: touched_trans dest: touched_quiet)
        next
          case (3 m4)
          with t3 show ?case by (intro died) (auto intro: touched_trans dest: touched_quiet)
        qed
      next
        case (2 e m3)
        with t2 show ?case by (intro rollback) (auto intro: touched_trans dest: touched_quiet)
      next
        case (3 m3)
        with t2 show ?case by (intro died) (auto intro: touched_trans dest: touched_quiet)
      qed
    next
      case (2 e m2)
      with t1 show ?case by (intro exn) (auto intro: touched_trans dest: touched_quiet)
    next
      case (3 m2)
      with t1 show ?case by (intro died) (auto intro: touched_trans dest: touched_quiet)
    qed
  next
    case (2 e m1)
    then show ?case by (intro exn) auto
  next
    case (3 m1)
    then show ?case by (intro died) auto
  qed
qed

lemma wp_checkpoint:
  assumes "\<And>m'. touched {} m m' \<Longrightarrow> Q () m'" "\<And>m'. touched {} m m' \<Longrightarrow> mc_faults m \<noteq> [] \<Longrightarrow> C m'"
  shows "wp passive_checkpoint Q E C m"
  unfolding passive_checkpoint_def wp_bind by (rule wp_flush) (use assms in \<open>auto simp: wp_simps\<close>)

lemma wp_store_save:
  assumes d: "mc_disk m p = Some (Store d)" and r: "\<And>m. computes (save_body jt desired d) r m"
  shows "wp (store_save jt p desired)
     (\<lambda>res m'. case res of
        Inr s \<Rightarrow> \<exists>d' ch. r = Some (d', s, ch) \<and> touched {p} m m' \<and> mc_disk m' p = Some (Store d')
      | Inl e \<Rightarrow> touched {} m m' \<and> (mc_faults m = [] \<longrightarrow> validate_save jt desired \<noteq> Inr () \<or> opened_database p m = None \<or> r = None))
     (\<lambda>_ _. False)
     (\<lambda>m'. mc_faults m \<noteq> [] \<and> (touched {} m m' \<or> (\<exists>d' x. r = Some (d', x) \<and> touched {p} m m' \<and> mc_disk m' p = Some (Store d')))) m"
  (is "wp _ ?Q ?E ?C m")
proof (cases "validate_save jt desired")
  case (Inl e)
  then show ?thesis by (simp add: store_save_def wp_simps)
next
  case (Inr u)
  have "wp (open_existing p) (\<lambda>x. wp (io_bind (transaction p (save_body jt desired)) (\<lambda>(s, changed).
      if changed then io_then passive_checkpoint (io_return s) else io_return s)) (\<lambda>x. ?Q (Inr x)) (\<lambda>e. ?Q (Inl e)) ?C) (\<lambda>e. ?Q (Inl e)) ?C m"
  proof (rule wp_mono [OF computes_open_existing [unfolded computes_def]], goal_cases)
    case (1 x m1)
    then have t1: "touched {} m m1" by simp
    have d1: "mc_disk m1 p = Some (Store d)" using t1 d by (simp add: touched_def)
    show ?case unfolding wp_bind
    proof (rule wp_transaction [where body = "save_body jt desired" and r = r, OF d1 r], goal_cases)
      case (1 d' y m2)
      then have t2: "touched {p} m m2" using t1 by (auto intro: touched_trans)
      obtain s ch where y: "y = (s, ch)" by (cases y)
      show ?case
      proof (cases ch)
        case True
        have "wp passive_checkpoint (\<lambda>_ m3. ?Q (Inr s) m3) (\<lambda>e. ?Q (Inl e)) ?C m2"
        proof (rule wp_checkpoint, goal_cases)
          case (1 m3)
          then have "touched {p} m m3" "mc_disk m3 p = mc_disk m2 p" using t2 by (auto intro: touched_trans simp: touched_def)
          then show ?case using \<open>r = Some (d', y)\<close> \<open>mc_disk m2 p = Some (Store d')\<close> y by auto
        next
          case (2 m3)
          then have "touched {p} m m3" "mc_disk m3 p = mc_disk m2 p" "mc_faults m \<noteq> []"
            using t2 by (auto intro: touched_trans dest: touched_quiet simp: touched_disk)
          then show ?case using \<open>r = Some (d', y)\<close> \<open>mc_disk m2 p = Some (Store d')\<close> by auto
        qed
        with True y show ?thesis by (simp add: wp_simps)
      next
        case False
        with y 1 t2 show ?thesis by (auto simp: wp_simps)
      qed
    next
      case (2 e m2)
      with t1 show ?case by (auto intro: touched_trans dest: touched_quiet)
    next
      case (3 m2)
      with t1 show ?case by (auto intro: touched_trans dest: touched_quiet)
    qed
  qed auto
  with Inr show ?thesis by (simp add: store_save_def wp_simps)
qed

section \<open>What a save leaves\<close>

text \<open>The profiles without the keys the database gives them.\<close>

definition forget_rule_key :: "stored_rule \<Rightarrow> stored_rule" where
  "forget_rule_key r = r\<lparr>sr_key := 0\<rparr>"

definition forget_keys :: "stored_profile \<Rightarrow> stored_profile" where
  "forget_keys p = p\<lparr>sp_key := 0, sp_rules := map forget_rule_key (sp_rules p)\<rparr>"

definition keeps :: "database \<Rightarrow> database \<Rightarrow> bool" where
  "keeps d d' \<longleftrightarrow> db_page_size d' = db_page_size d \<and> db_intact d' = db_intact d \<and> (foreign_keys_ok d \<longrightarrow> foreign_keys_ok d')"

lemma keeps_refl [simp]: "keeps d d"
  by (simp add: keeps_def)

lemma keeps_trans: "keeps d d' \<Longrightarrow> keeps d' d'' \<Longrightarrow> keeps d d''"
  by (auto simp: keeps_def)

lemma update_each_rows: "update_each ok f rows rs = Inr rows' \<Longrightarrow> rows' = rows @ map f rs"
  by (induction rs arbitrary: rows) (fastforce split: if_splits)+

lemma updated_keys: "map pr_key (map (\<lambda>r. if pr_key r = pr_key row then row else r) rows) = map pr_key rows"
  by (induction rows) auto

lemma sql_update_profile_keeps: "sql_update_profile row d = Inr d' \<Longrightarrow> keeps d d'"
  unfolding sql_update_profile_def Let_def keeps_def foreign_keys_ok_def
  by (auto simp del: set_map map_map simp add: updated_keys split: if_splits)

lemma temp_keys [simp]: "pr_key (temp_profile r) = pr_key r" "rr_key (temp_rule x) = rr_key x" "rr_profile (temp_rule x) = rr_profile x"
  by (simp_all add: temp_profile_def temp_rule_def)

lemma sql_delete_profile_keeps: "sql_delete_profile k d = Inr d' \<Longrightarrow> keeps d d'"
  by (fastforce simp: keeps_def foreign_keys_ok_def sql_delete_profile_def list_all_iff)

lemma sql_keeps:
  "sql_temp_rules jt d = Inr d' \<Longrightarrow> keeps d d'"
  "sql_temp_profiles d = Inr d' \<Longrightarrow> keeps d d'"
  "sql_delete_rule k d = Inr d' \<Longrightarrow> keeps d d'"
  "sql_insert_profile row d = Inr d' \<Longrightarrow> keeps d d'"
  "sql_insert_rule jt rrow d = Inr d' \<Longrightarrow> keeps d d'"
  "sql_update_rule jt rrow' d = Inr d' \<Longrightarrow> keeps d d'"
  "sql_update_revision v d = Inr d' \<Longrightarrow> keeps d d'"
  "sql_set_migrated sha d = Inr d' \<Longrightarrow> keeps d d'"
  "sql_add_migration schema sha d = Inr d' \<Longrightarrow> keeps d d'"
  by (auto simp: keeps_def foreign_keys_ok_def sql_temp_rules_def sql_temp_profiles_def sql_delete_rule_def
      sql_insert_profile_def sql_insert_rule_def sql_update_rule_def sql_update_revision_def sql_set_migrated_def
      sql_add_migration_def Let_def list_all_iff rules_ok_def comp_def image_image
      dest!: update_each_rows split: if_splits)

lemma ends_execute: "(\<And>d'. f d = Inr d' \<Longrightarrow> P d') \<Longrightarrow> ends (execute f d) P"
  by (rule ends_computes [OF computes_execute]) auto

lemma ends_execute_all:
  "(\<And>f d d'. f \<in> set fs \<Longrightarrow> f d = Inr d' \<Longrightarrow> keeps d d') \<Longrightarrow> ends (execute_all fs d) (keeps d)"
proof (induction fs arbitrary: d)
  case (Cons f fs)
  have "ends (execute f d) (keeps d)" using Cons.prems by (auto intro: ends_execute)
  then show ?case unfolding execute_all.simps
  proof (rule ends_bind)
    fix d' assume "keeps d d'"
    moreover have "ends (execute_all fs d') (keeps d')" by (rule Cons.IH) (use Cons.prems in auto)
    ultimately show "ends (execute_all fs d') (keeps d)" by (auto simp: ends_def intro: wp_mono keeps_trans)
  qed
qed (simp add: ends_intros)

lemma ends_write_profile:
  "ends (write_profile p i d) (\<lambda>(p', d'). p'\<lparr>sp_key := 0\<rparr> = p\<lparr>sp_key := 0\<rparr> \<and> keeps d d')"
  unfolding write_profile_def
  by (auto intro!: ends_intros ends_then ends_bind [where P = "keeps d"] ends_execute dest!: sql_keeps sql_update_profile_keeps)

lemma ends_write_profiles:
  "ends (write_profiles ps i d) (\<lambda>(ps', d'). map (sp_key_update (\<lambda>_. 0)) ps' = map (sp_key_update (\<lambda>_. 0)) ps \<and> keeps d d')"
proof (induction ps arbitrary: i d)
  case (Cons p ps)
  show ?case unfolding write_profiles.simps
  proof (rule ends_bind [OF ends_write_profile], clarsimp)
    fix p' d1 assume p': "p'\<lparr>sp_key := 0\<rparr> = p\<lparr>sp_key := 0\<rparr>" "keeps d d1"
    show "ends (io_bind (write_profiles ps (Suc i) d1) (\<lambda>(ps', d''). io_return (p' # ps', d'')))
       (\<lambda>(ps', d'). map (sp_key_update (\<lambda>_. 0)) ps' = p\<lparr>sp_key := 0\<rparr> # map (sp_key_update (\<lambda>_. 0)) ps \<and> keeps d d')"
      by (rule ends_bind [OF Cons.IH]) (use p'(1) keeps_trans [OF p'(2)] in \<open>auto intro!: ends_intros\<close>)
  qed
qed (simp add: ends_intros)

lemma ends_write_rule:
  "ends (write_rule jt pk r i d) (\<lambda>(r', d'). forget_rule_key r' = forget_rule_key r \<and> keeps d d')"
  unfolding write_rule_def forget_rule_key_def
  by (auto intro!: ends_intros ends_then ends_bind [where P = "keeps d"] ends_execute dest!: sql_keeps)

lemma ends_write_rules:
  "ends (write_rules jt pk rs i d) (\<lambda>(rs', d'). map forget_rule_key rs' = map forget_rule_key rs \<and> keeps d d')"
proof (induction rs arbitrary: i d)
  case (Cons r rs)
  show ?case unfolding write_rules.simps
  proof (rule ends_bind [OF ends_write_rule], clarsimp)
    fix r' d1 assume r': "forget_rule_key r' = forget_rule_key r" "keeps d d1"
    show "ends (io_bind (write_rules jt pk rs (Suc i) d1) (\<lambda>(rs', d''). io_return (r' # rs', d'')))
       (\<lambda>(rs', d'). map forget_rule_key rs' = forget_rule_key r # map forget_rule_key rs \<and> keeps d d')"
      by (rule ends_bind [OF Cons.IH]) (use r'(1) keeps_trans [OF r'(2)] in \<open>auto intro!: ends_intros\<close>)
  qed
qed (simp add: ends_intros)

lemma ends_write_all_rules:
  "ends (write_all_rules jt ps d) (\<lambda>(ps', d'). map forget_keys ps' = map forget_keys ps \<and> keeps d d')"
proof (induction ps arbitrary: d)
  case (Cons p ps)
  show ?case unfolding write_all_rules.simps
  proof (rule ends_bind [OF ends_write_rules], clarsimp)
    fix rs d1 assume rs: "map forget_rule_key rs = map forget_rule_key (sp_rules p)" "keeps d d1"
    then have fk: "forget_keys (p\<lparr>sp_rules := rs\<rparr>) = forget_keys p" by (simp add: forget_keys_def)
    show "ends (io_bind (write_all_rules jt ps d1) (\<lambda>(ps', d''). io_return (p\<lparr>sp_rules := rs\<rparr> # ps', d'')))
       (\<lambda>(ps', d'). map forget_keys ps' = forget_keys p # map forget_keys ps \<and> keeps d d')"
      by (rule ends_bind [OF Cons.IH]) (use fk keeps_trans [OF rs(2)] in \<open>auto intro!: ends_intros\<close>)
  qed
qed (simp add: ends_intros)

lemma forget_keys_profile_key: "map (sp_key_update (\<lambda>_. 0)) ps = map (sp_key_update (\<lambda>_. 0)) qs \<Longrightarrow> map forget_keys ps = map forget_keys qs"
proof -
  have eq: "map forget_keys xs = map forget_keys (map (sp_key_update (\<lambda>_. 0)) xs)" for xs by (simp add: forget_keys_def)
  assume "map (sp_key_update (\<lambda>_. 0)) ps = map (sp_key_update (\<lambda>_. 0)) qs"
  then show ?thesis by (subst (1 2) eq) simp
qed

text \<open>The tables and the snapshot at the end of a save of \<open>desired\<close> over \<open>d\<close>.\<close>

definition saved_as :: "json_text \<Rightarrow> store_snapshot \<Rightarrow> database \<Rightarrow> database \<Rightarrow> store_snapshot \<Rightarrow> bool" where
  "saved_as jt desired d d' s \<longleftrightarrow> keeps d d' \<and> stored jt d' = Some s \<and> ps_migrated s = ps_migrated desired
     \<and> map forget_keys (ps_profiles s) = map forget_keys (ps_profiles desired)"

lemma ends_write_snapshot:
  "ends (write_snapshot jt current desired d)
     (\<lambda>(d', s). saved_as jt desired d d' s \<and> ps_revision s = ps_revision desired + 1)"
proof -
  let ?fs = "[sql_temp_rules jt, sql_temp_profiles] @ delete_statements (ps_profiles current) (ps_profiles desired)"
  have fs: "ends (execute_all ?fs d) (keeps d)"
    by (rule ends_execute_all) (auto simp: delete_statements_def intro: sql_keeps sql_delete_profile_keeps)
  show ?thesis
    unfolding write_snapshot_def
  proof (rule ends_bind [OF fs], rule ends_bind [OF ends_write_profiles], clarsimp)
    fix d1 ps d2
    assume d1: "keeps d d1" "keeps d1 d2" and ps: "map (sp_key_update (\<lambda>_. 0)) ps = map (sp_key_update (\<lambda>_. 0)) (ps_profiles desired)"
    show "ends (io_bind (write_all_rules jt ps d2) (\<lambda>(ps, d).
        io_bind (execute (sql_update_revision (ps_revision desired)) d) (\<lambda>d'.
        io_then (io_lift (require_changed_one ''update profile revision''
            (case db_meta d of None \<Rightarrow> 0 | Some m \<Rightarrow> if mr_revision m = ps_revision desired then 1 else 0)))
        (io_bind (read_snapshot jt d') (\<lambda>verified.
           if verified \<noteq> desired\<lparr>ps_revision := ps_revision desired + 1, ps_profiles := ps\<rparr>
           then io_raise (CorruptFailure, ''profile database round-trip verification failed'')
           else io_return (d', verified))))))
       (\<lambda>(d', s). saved_as jt desired d d' s \<and> ps_revision s = ps_revision desired + 1)"
    proof (rule ends_bind [OF ends_write_all_rules], clarify, rule ends_bind [OF ends_execute [where P = "keeps d"]], goal_cases)
      case (1 ps' d3 d4)
      then show ?case using d1 sql_keeps(7) by (blast intro: keeps_trans)
    next
      case (2 ps' d3 d4)
      show ?case
        by (rule ends_then, rule ends_bind [OF ends_computes [OF computes_read_snapshot, where P = "\<lambda>s. stored jt d4 = Some s"]])
          (use 2 forget_keys_profile_key [OF ps] in \<open>auto simp: saved_as_def intro!: ends_intros\<close>)
    qed
  qed
qed

lemma save_body_value:
  assumes "\<And>m. computes (save_body jt desired d) (Some (d', s, ch)) m"
  shows "\<exists>current. stored jt d = Some current \<and> ps_revision current = ps_revision desired
     \<and> ps_migrated current = ps_migrated desired \<and> saved_as jt desired d d' s
     \<and> (if ch then current \<noteq> desired \<and> ps_revision s = ps_revision desired + 1 else d' = d \<and> s = desired \<and> current = desired)"
proof -
  have "ends (save_body jt desired d) (\<lambda>(d', s, ch). \<exists>current. stored jt d = Some current \<and> ps_revision current = ps_revision desired
     \<and> ps_migrated current = ps_migrated desired \<and> saved_as jt desired d d' s
     \<and> (if ch then current \<noteq> desired \<and> ps_revision s = ps_revision desired + 1 else d' = d \<and> s = desired \<and> current = desired))"
    unfolding save_body_def
  proof (rule ends_bind [OF ends_computes [OF computes_read_snapshot, where P = "\<lambda>s. stored jt d = Some s"]],
      assumption, intro ends_if ends_then ends_raise, goal_cases)
    case (1 current)
    then show ?case by (auto simp: saved_as_def intro!: ends_intros)
  next
    case (2 current)
    then show ?case by (intro ends_bind [OF ends_write_snapshot]) (auto intro!: ends_intros)
  qed
  from ends_value [OF this assms] show ?thesis by simp
qed

text \<open>One run of a save: either nothing happened, or the database is the new one.\<close>

definition replaced :: "json_text \<Rightarrow> store_snapshot \<Rightarrow> database \<Rightarrow> database \<Rightarrow> store_snapshot \<Rightarrow> bool" where
  "replaced jt desired d d' s \<longleftrightarrow> (\<exists>current. stored jt d = Some current \<and> ps_revision current = ps_revision desired
     \<and> ps_migrated current = ps_migrated desired \<and> saved_as jt desired d d' s
     \<and> (if current = desired then d' = d \<and> s = desired else ps_revision s = ps_revision desired + 1))"

lemma wp_save_atomic:
  assumes d: "mc_disk m p = Some (Store d)"
  shows "wp (store_save jt p desired)
     (\<lambda>res m'. case res of
        Inr s \<Rightarrow> \<exists>d'. replaced jt desired d d' s \<and> touched {p} m m' \<and> mc_disk m' p = Some (Store d')
      | Inl e \<Rightarrow> touched {} m m')
     (\<lambda>_ _. False)
     (\<lambda>m'. mc_faults m \<noteq> [] \<and> (touched {} m m' \<or> (\<exists>d' s. replaced jt desired d d' s \<and> touched {p} m m' \<and> mc_disk m' p = Some (Store d')))) m"
proof -
  obtain r where r: "\<And>m. computes (save_body jt desired d) r m" using oblivious_save_body [of jt desired d] by (auto simp: oblivious_def)
  have rep: "replaced jt desired d d' s" if "r = Some (d', s, ch)" for d' s ch
    using save_body_value [of jt desired d d' s ch] r that unfolding replaced_def by (auto split: if_splits)
  show ?thesis
    by (rule wp_mono [OF wp_store_save [OF d r]]) (use rep in \<open>fastforce split: sum.splits\<close>)+
qed

lemma touched_one: "touched {p} m m' \<Longrightarrow> mc_disk m' p = v \<Longrightarrow> mc_disk m' = (mc_disk m)(p := v)"
  by (auto simp: touched_def)

text \<open>
  C10: A save of the profile database is all or nothing. Whatever calls fail, and at whatever call the
  process ends: the file on the disk holds the old tables, or it holds tables that show the desired
  profiles with the next revision. A save that reports an error has changed nothing, and one that
  reports success has written what it returns. No other file changes.
\<close>

theorem profile_save_atomic:
  assumes "mc_disk m p = Some (Store d)" "store_save jt p desired m = (outcome, m')"
  shows "case outcome of
      Done (Inr s) \<Rightarrow> \<exists>d'. replaced jt desired d d' s \<and> mc_disk m' = (mc_disk m)(p \<mapsto> Store d')
    | Done (Inl e) \<Rightarrow> mc_disk m' = mc_disk m
    | Raised e \<Rightarrow> False
    | Died \<Rightarrow> mc_faults m \<noteq> [] \<and>
        (mc_disk m' = mc_disk m \<or> (\<exists>d' s. replaced jt desired d d' s \<and> mc_disk m' = (mc_disk m)(p \<mapsto> Store d')))"
proof -
  note w = wp_run [OF wp_save_atomic [OF assms(1)] assms(2)]
  show ?thesis
  proof (cases outcome)
    case (Done r)
    then show ?thesis using w by (cases r) (auto dest: touched_same touched_one)
  qed (use w in \<open>auto dest: touched_same touched_one\<close>)
qed

text \<open>The process ends in the first call of a save.\<close>

definition mute_codec :: json_text where
  "mute_codec = \<lparr>jt_parse = (\<lambda>_. None), jt_dump = (\<lambda>_. Inl ''''), jt_is_object = (\<lambda>_. False)\<rparr>"

definition sample_machine :: "fault list \<Rightarrow> database machine" where
  "sample_machine fs = \<lparr>mc_disk = [[''db''] \<mapsto> Store empty_database], mc_faults = fs, mc_errno = 0, mc_nonces = [], mc_pid = 1,
     mc_message = (\<lambda>_. ''''), mc_removed = (\<lambda>_ _. False), mc_image = (\<lambda>_. ''SQLite'')\<rparr>"

theorem profile_save_atomic_witness:
  "fst (store_save mute_codec [''db''] \<lparr>ps_revision = 0, ps_migrated = None, ps_profiles = []\<rparr> (sample_machine [Dies 0])) = Died
   \<and> (mc_disk (sample_machine [Dies 0]) = mc_disk (sample_machine [])
      \<or> (\<exists>d' s. replaced mute_codec \<lparr>ps_revision = 0, ps_migrated = None, ps_profiles = []\<rparr> empty_database d' s
           \<and> mc_disk (sample_machine [Dies 0]) = (mc_disk (sample_machine []))([''db''] \<mapsto> Store d')))"
proof -
  let ?s = "\<lparr>ps_revision = 0, ps_migrated = None, ps_profiles = []\<rparr> :: store_snapshot"
  let ?run = "store_save mute_codec [''db''] ?s (sample_machine [Dies 0])"
  have run: "?run = (Died, (sample_machine [Dies 0])\<lparr>mc_faults := []\<rparr>)"
    by (simp add: store_save_def io_attempt_def io_then_def io_bind_def io_lift_def validate_save_def validate_stored_profiles_def
        store_check_def valid_origin_def io_return_def open_existing_def existing_regular_file_def fs_query_def sys_def
        sample_machine_def atomic_def)
  have "mc_disk (sample_machine [Dies 0]) [''db''] = Some (Store empty_database)" by (simp add: sample_machine_def)
  then show ?thesis using profile_save_atomic [OF _ run] unfolding run by (simp add: sample_machine_def)
qed

end
