(* ===== verification/Sha256.thy ===== *)
theory Sha256
  imports Prelude
begin

unbundle bit_operations_syntax

text \<open>
  The hash of \<^verbatim>\<open>src/core/sha256.cpp\<close>, which names the files of a migration and guards the
  transaction journal. The state is that of the class: eight words, a block under construction,
  its fill and the number of bytes so far. Shown here: however a text is cut into pieces, the
  result is the reference function, which pads the whole text and folds the compression
  function over its blocks; and a digest has 64 lower-case hexadecimal digits.
\<close>

section \<open>The compression function\<close>

definition round_constants :: "u32 list" where
  "round_constants =
     concat
      [[0x428a2f98, 0x71374491, 0xb5c0fbcf, 0xe9b5dba5],
       [0x3956c25b, 0x59f111f1, 0x923f82a4, 0xab1c5ed5],
       [0xd807aa98, 0x12835b01, 0x243185be, 0x550c7dc3],
       [0x72be5d74, 0x80deb1fe, 0x9bdc06a7, 0xc19bf174],
       [0xe49b69c1, 0xefbe4786, 0x0fc19dc6, 0x240ca1cc],
       [0x2de92c6f, 0x4a7484aa, 0x5cb0a9dc, 0x76f988da],
       [0x983e5152, 0xa831c66d, 0xb00327c8, 0xbf597fc7],
       [0xc6e00bf3, 0xd5a79147, 0x06ca6351, 0x14292967],
       [0x27b70a85, 0x2e1b2138, 0x4d2c6dfc, 0x53380d13],
       [0x650a7354, 0x766a0abb, 0x81c2c92e, 0x92722c85],
       [0xa2bfe8a1, 0xa81a664b, 0xc24b8b70, 0xc76c51a3],
       [0xd192e819, 0xd6990624, 0xf40e3585, 0x106aa070],
       [0x19a4c116, 0x1e376c08, 0x2748774c, 0x34b0bcb5],
       [0x391c0cb3, 0x4ed8aa4a, 0x5b9cca4f, 0x682e6ff3],
       [0x748f82ee, 0x78a5636f, 0x84c87814, 0x8cc70208],
       [0x90befffa, 0xa4506ceb, 0xbef9a3f7, 0xc67178f2]]"

definition rotate_right :: "u32 \<Rightarrow> nat \<Rightarrow> u32" where
  "rotate_right v count = drop_bit count v OR push_bit (32 - count) v"

definition block_word :: "u8 list \<Rightarrow> nat \<Rightarrow> u32" where
  "block_word block i =
     push_bit 24 (ucast (block ! (4 * i))) OR push_bit 16 (ucast (block ! (4 * i + 1)))
     OR push_bit 8 (ucast (block ! (4 * i + 2))) OR ucast (block ! (4 * i + 3))"

definition next_word :: "u32 list \<Rightarrow> u32" where
  "next_word words =
     (let n = length words;
          x = words ! (n - 15); y = words ! (n - 2);
          sigma0 = rotate_right x 7 XOR rotate_right x 18 XOR drop_bit 3 x;
          sigma1 = rotate_right y 17 XOR rotate_right y 19 XOR drop_bit 10 y
      in words ! (n - 16) + sigma0 + words ! (n - 7) + sigma1)"

fun extend_words :: "nat \<Rightarrow> u32 list \<Rightarrow> u32 list" where
  "extend_words 0 words = words"
| "extend_words (Suc n) words = extend_words n (words @ [next_word words])"

definition block_words :: "u8 list \<Rightarrow> u32 list" where
  "block_words block = extend_words 48 (map (block_word block) [0..<16])"

type_synonym sha_words = "u32 \<times> u32 \<times> u32 \<times> u32 \<times> u32 \<times> u32 \<times> u32 \<times> u32"

definition sha_round :: "sha_words \<Rightarrow> u32 \<times> u32 \<Rightarrow> sha_words" where
  "sha_round s kw =
     (let (a, b, c, d, e, f, g, h) = s; (k, w) = kw;
          sum1 = rotate_right e 6 XOR rotate_right e 11 XOR rotate_right e 25;
          choice = (e AND f) XOR (NOT e AND g);
          temporary1 = h + sum1 + choice + k + w;
          sum0 = rotate_right a 2 XOR rotate_right a 13 XOR rotate_right a 22;
          majority = (a AND b) XOR (a AND c) XOR (b AND c);
          temporary2 = sum0 + majority
      in (temporary1 + temporary2, a, b, c, d + temporary1, e, f, g))"

definition sha_transform :: "sha_words \<Rightarrow> u8 list \<Rightarrow> sha_words" where
  "sha_transform s block =
     (let (a, b, c, d, e, f, g, h) = s;
          (a', b', c', d', e', f', g', h') = foldl sha_round s (zip round_constants (block_words block))
      in (a + a', b + b', c + c', d + d', e + e', f + f', g + g', h + h'))"

section \<open>The incremental state\<close>

record sha_state =
  sh_hash :: sha_words
  sh_buffer :: "u8 list"
  sh_size :: nat
  sh_total :: u64

definition sha_initial :: sha_words where
  "sha_initial = (0x6a09e667, 0xbb67ae85, 0x3c6ef372, 0xa54ff53a, 0x510e527f, 0x9b05688c, 0x1f83d9ab, 0x5be0cd19)"

definition new_sha :: sha_state where
  "new_sha = \<lparr>sh_hash = sha_initial, sh_buffer = replicate 64 0, sh_size = 0, sh_total = 0\<rparr>"

text \<open>\<^verbatim>\<open>std::copy_n\<close> into the buffer.\<close>

definition copy_into :: "'a list \<Rightarrow> nat \<Rightarrow> 'a list \<Rightarrow> 'a list" where
  "copy_into xs i ys = take i xs @ ys @ drop (i + length ys) xs"

function hash_blocks :: "u8 list \<Rightarrow> sha_words \<Rightarrow> sha_words \<times> u8 list" where
  "hash_blocks content h =
     (if length content \<ge> 64 then hash_blocks (drop 64 content) (sha_transform h (take 64 content)) else (h, content))"
  by auto
termination by (relation "measure (\<lambda>(c, h). length c)") auto

declare hash_blocks.simps [simp del]

text \<open>\<^verbatim>\<open>update\<close>: refused when the count would overflow.\<close>

definition sha_update :: "u8 list \<Rightarrow> sha_state \<Rightarrow> bool \<times> sha_state" where
  "sha_update content s =
     (if length content > 18446744073709551615 - unat (sh_total s) then (False, s)
      else
        (let copied = (if sh_size s \<noteq> 0 then min (length content) (64 - sh_size s) else 0);
             buffer = copy_into (sh_buffer s) (sh_size s) (take copied content);
             filled = sh_size s + copied;
             (hash, size0) = (if sh_size s \<noteq> 0 \<and> filled = 64 then (sha_transform (sh_hash s) buffer, 0) else (sh_hash s, filled));
             (hash, rest) = hash_blocks (drop copied content) hash
         in (True, \<lparr>sh_hash = hash,
                    sh_buffer = (if rest \<noteq> [] then copy_into buffer 0 rest else buffer),
                    sh_size = (if rest \<noteq> [] then length rest else size0),
                    sh_total = sh_total s + of_nat (length content)\<rparr>)))"

definition length_octets :: "u64 \<Rightarrow> u8 list" where
  "length_octets bits = map (\<lambda>i. ucast (drop_bit ((7 - i) * 8) bits)) [0..<8]"

definition hex_char :: "nat \<Rightarrow> char" where
  "hex_char n = char_of (if n < 10 then 48 + n else 87 + n)"

text \<open>\<^verbatim>\<open>std::hex\<close>, \<^verbatim>\<open>setfill('0')\<close> and \<^verbatim>\<open>setw(8)\<close>.\<close>

definition hex_word :: "u32 \<Rightarrow> string" where
  "hex_word w = map (\<lambda>i. hex_char (unat (drop_bit (28 - 4 * i) w AND 15))) [0..<8]"

definition hex_digest :: "sha_words \<Rightarrow> string" where
  "hex_digest s = (let (a, b, c, d, e, f, g, h) = s in concat (map hex_word [a, b, c, d, e, f, g, h]))"

definition sha_finish :: "sha_state \<Rightarrow> string" where
  "sha_finish s =
     (let bits = sh_total s * 8;
          buffer = copy_into (sh_buffer s) (sh_size s) [0x80];
          n = sh_size s + 1;
          (hash, buffer, n) =
            (if n > 56 then (sha_transform (sh_hash s) (take n buffer @ replicate (64 - n) 0), take n buffer @ replicate (64 - n) 0, 0)
             else (sh_hash s, buffer, n));
          buffer = take n buffer @ replicate (56 - n) 0 @ drop 56 buffer;
          buffer = copy_into buffer 56 (length_octets bits)
      in hex_digest (sha_transform hash buffer))"

definition bytes_of :: "string \<Rightarrow> u8 list" where
  "bytes_of s = map (\<lambda>c. of_nat (code c)) s"

definition sha256_hex :: "string \<Rightarrow> string" where
  "sha256_hex content = sha_finish (snd (sha_update (bytes_of content) new_sha))"

text \<open>\<^verbatim>\<open>sha256_file_hex\<close>: the pieces the reads returned, and whether the end was reached.\<close>

fun sha_pieces :: "string list \<Rightarrow> sha_state \<Rightarrow> sha_state option" where
  "sha_pieces [] s = Some s"
| "sha_pieces (p # ps) s =
     (if p = [] then sha_pieces ps s
      else case sha_update (bytes_of p) s of (ok, s') \<Rightarrow> if ok then sha_pieces ps s' else None)"

definition sha256_file_hex :: "bool \<Rightarrow> string \<Rightarrow> string list \<Rightarrow> bool \<Rightarrow> string res" where
  "sha256_file_hex opened path pieces at_end =
     (if \<not> opened then Inl (''failed to open file for SHA-256: '' @ path)
      else case sha_pieces pieces new_sha of
        None \<Rightarrow> Inl (''file is too large for SHA-256 length accounting: '' @ path)
      | Some s \<Rightarrow> if at_end then Inr (sha_finish s) else Inl (''failed to read file for SHA-256: '' @ path))"

section \<open>The reference\<close>

definition sha_padding :: "nat \<Rightarrow> u8 list" where
  "sha_padding n = 0x80 # replicate ((119 - n mod 64) mod 64) 0 @ length_octets (of_nat n * 8)"

definition sha_reference :: "u8 list \<Rightarrow> string" where
  "sha_reference msg = hex_digest (fst (hash_blocks (msg @ sha_padding (length msg)) sha_initial))"

section \<open>Cutting a text into pieces\<close>

lemma hash_blocks_short: "length c < 64 \<Longrightarrow> hash_blocks c h = (h, c)"
  by (subst hash_blocks.simps) simp

lemma hash_blocks_full: "length b = 64 \<Longrightarrow> hash_blocks (b @ c) h = hash_blocks c (sha_transform h b)"
  by (subst hash_blocks.simps) simp

lemma hash_blocks_rest: "length (snd (hash_blocks c h)) = length c mod 64"
proof (induction c h rule: hash_blocks.induct)
  case (1 c h)
  then show ?case
    by (cases "64 \<le> length c") (simp_all add: hash_blocks_short hash_blocks.simps [of c h] le_mod_geq)
qed

lemma hash_blocks_append: "hash_blocks (c @ tail) h = (case hash_blocks c h of (h', rest) \<Rightarrow> hash_blocks (rest @ tail) h')"
proof (induction c h rule: hash_blocks.induct)
  case (1 c h)
  show ?case
  proof (cases "64 \<le> length c")
    case True
    then have "hash_blocks (c @ tail) h = hash_blocks (drop 64 c @ tail) (sha_transform h (take 64 c))"
      by (subst hash_blocks.simps) simp
    with 1 True show ?thesis by (simp add: hash_blocks.simps [of c h])
  qed (simp add: hash_blocks_short)
qed

text \<open>The state after the bytes \<open>msg\<close>.\<close>

definition sha_inv :: "u8 list \<Rightarrow> sha_state \<Rightarrow> bool" where
  "sha_inv msg s \<longleftrightarrow> sh_total s = of_nat (length msg) \<and> length msg < 2 ^ 64 \<and> sh_size s = length msg mod 64 \<and> length (sh_buffer s) = 64
     \<and> hash_blocks msg sha_initial = (sh_hash s, take (sh_size s) (sh_buffer s))"

lemma sha_inv_new: "sha_inv [] new_sha"
  by (simp add: sha_inv_def new_sha_def hash_blocks_short)

lemma length_copy_into [simp]: "i + length ys \<le> length xs \<Longrightarrow> length (copy_into xs i ys) = length xs"
  by (simp add: copy_into_def)

lemma take_copy_into: "i + length ys \<le> length xs \<Longrightarrow> take (i + length ys) (copy_into xs i ys) = take i xs @ ys"
  by (simp add: copy_into_def)

lemma sha_update_inv:
  assumes inv: "sha_inv msg s" and fits: "length msg + length c < 2 ^ 64"
  shows "\<exists>s'. sha_update c s = (True, s') \<and> sha_inv (msg @ c) s'"
proof -
  let ?k = "sh_size s"
  define r where "r = take ?k (sh_buffer s)"
  have k: "?k < 64" "length (sh_buffer s) = 64" "length r = ?k" using inv by (simp_all add: sha_inv_def r_def)
  have hb: "hash_blocks msg sha_initial = (sh_hash s, r)" using inv by (simp add: sha_inv_def r_def)
  then have split: "hash_blocks (msg @ c) sha_initial = hash_blocks (r @ c) (sh_hash s)"
    by (subst hash_blocks_append) simp
  have total: "unat (sh_total s) = length msg" using inv by (simp add: sha_inv_def unat_of_nat)
  then have guard: "\<not> length c > 18446744073709551615 - unat (sh_total s)" using fits by simp
  have tot: "sh_total s + of_nat (length c) = of_nat (length (msg @ c))" using inv by (simp add: sha_inv_def)
  define s' where "s' = snd (sha_update c s)"
  have "fst (sha_update c s)" using guard by (simp add: sha_update_def Let_def case_prod_beta)
  then have s': "sha_update c s = (True, s')" by (simp add: s'_def prod_eq_iff)
  have mod: "(length msg + length c) mod 64 = (?k + length c) mod 64" using inv by (simp add: sha_inv_def mod_add_left_eq)
  have main: "length (sh_buffer s') = 64 \<and> sh_size s' \<le> 64 \<and> sh_total s' = of_nat (length (msg @ c))
      \<and> hash_blocks (r @ c) (sh_hash s) = (sh_hash s', take (sh_size s') (sh_buffer s'))"
  proof (cases "?k \<noteq> 0 \<and> ?k + length c < 64")
    case True
    then have m: "min (length c) (64 - ?k) = length c" by (intro min_absorb1) linarith
    have "s' = \<lparr>sh_hash = sh_hash s, sh_buffer = copy_into (sh_buffer s) ?k c, sh_size = ?k + length c,
        sh_total = sh_total s + of_nat (length c)\<rparr>"
      using guard True by (simp add: s'_def sha_update_def m hash_blocks_short Let_def)
    with True k tot show ?thesis by (simp add: hash_blocks_short r_def take_copy_into)
  next
    case False
    define n where "n = (if ?k \<noteq> 0 then 64 - ?k else 0)"
    define b where "b = copy_into (sh_buffer s) ?k (take n c)"
    have n: "n \<le> length c" "?k \<noteq> 0 \<Longrightarrow> ?k + n = 64" using False k by (auto simp: n_def)
    define h where "h = (if ?k \<noteq> 0 then sha_transform (sh_hash s) b else sh_hash s)"
    obtain h' rest where hr: "hash_blocks (drop n c) h = (h', rest)" by fastforce
    have len: "length rest < 64" using hash_blocks_rest [of "drop n c" h] hr by simp
    have b64: "length b = 64" "?k \<noteq> 0 \<Longrightarrow> b = r @ take n c" using n k by (auto simp: b_def n_def copy_into_def r_def)
    have "hash_blocks (r @ c) (sh_hash s) = hash_blocks (drop n c) h"
    proof (cases "?k = 0")
      case True
      then show ?thesis by (simp add: n_def h_def r_def)
    next
      case False
      then have "r @ c = b @ drop n c" using b64 by simp
      with False b64 show ?thesis by (simp only: hash_blocks_full h_def) simp
    qed
    moreover have "min (length c) (64 - ?k) = n" if "?k \<noteq> 0" using that n by (auto simp: n_def)
    then have "s' = \<lparr>sh_hash = h', sh_buffer = (if rest \<noteq> [] then copy_into b 0 rest else b),
        sh_size = (if rest \<noteq> [] then length rest else 0), sh_total = sh_total s + of_nat (length c)\<rparr>"
      using guard hr n by (simp add: s'_def sha_update_def b_def h_def n_def cong: if_cong split: if_splits)
    ultimately show ?thesis using hr len b64 tot by (simp add: copy_into_def)
  qed
  then have "sh_size s' = (length msg + length c) mod 64"
  proof -
    have "length (take (sh_size s') (sh_buffer s')) = (?k + length c) mod 64"
      using main hash_blocks_rest [of "r @ c" "sh_hash s"] k by simp
    then show ?thesis using main mod by simp
  qed
  with main split s' fits show ?thesis by (auto simp: sha_inv_def)
qed

lemma copy_into_end: "length xs = i \<Longrightarrow> length zs = length ys \<Longrightarrow> copy_into (xs @ zs) i ys = xs @ ys"
  by (simp add: copy_into_def)

lemma sha_finish_reference:
  assumes inv: "sha_inv msg s"
  shows "sha_finish s = sha_reference msg"
proof -
  let ?k = "sh_size s" and ?bits = "length_octets (sh_total s * 8)"
  define r where "r = take ?k (sh_buffer s)"
  have k: "?k < 64" "length (sh_buffer s) = 64" "length r = ?k" "?k = length msg mod 64" using inv by (simp_all add: sha_inv_def r_def)
  have bits: "length ?bits = 8" by (simp add: length_octets_def)
  have pad: "sha_padding (length msg) = 0x80 # replicate ((119 - ?k) mod 64) 0 @ ?bits"
    using inv k by (simp add: sha_padding_def sha_inv_def)
  have "hash_blocks (msg @ sha_padding (length msg)) sha_initial = hash_blocks (r @ sha_padding (length msg)) (sh_hash s)"
    using inv by (subst hash_blocks_append) (simp add: sha_inv_def r_def)
  moreover have "hash_blocks (r @ sha_padding (length msg)) (sh_hash s) = (h, []) \<Longrightarrow> sha_finish s = hex_digest h" for h
  proof -
    assume h: "hash_blocks (r @ sha_padding (length msg)) (sh_hash s) = (h, [])"
    let ?b = "copy_into (sh_buffer s) ?k [0x80]"
    have b: "take (Suc ?k) ?b = r @ [0x80]" "length ?b = 64" using k by (simp_all add: copy_into_def r_def)
    show ?thesis
    proof (cases "?k \<le> 55")
      case True
      let ?last = "r @ 0x80 # replicate (55 - ?k) 0 @ ?bits"
      have "(119 - ?k) mod 64 = 55 - ?k" using True by (simp add: le_mod_geq)
      then have "hash_blocks (?last @ []) (sh_hash s) = (h, [])" using h pad by simp
      moreover have "length ?last = 64" using True k bits by simp
      ultimately have "sha_transform (sh_hash s) ?last = h" by (simp only: hash_blocks_full) (simp add: hash_blocks_short)
      moreover have "copy_into (take (Suc ?k) ?b @ replicate (56 - Suc ?k) 0 @ drop 56 ?b) 56 ?bits = ?last"
        using True k bits b copy_into_end [of "(r @ [0x80]) @ replicate (55 - ?k) 0" 56 "drop 56 ?b" ?bits] by simp
      ultimately show ?thesis using True by (simp add: sha_finish_def Let_def)
    next
      case False
      let ?one = "r @ 0x80 # replicate (63 - ?k) 0" and ?two = "replicate 56 0 @ ?bits"
      have z: "(119 - ?k) mod 64 = 63 - ?k + 56" using False k by simp
      have "r @ sha_padding (length msg) = ?one @ ?two @ []" unfolding pad z by (simp add: replicate_add)
      moreover have len: "length ?one = 64" "length ?two = 64" using False k bits by simp_all
      ultimately have "sha_transform (sha_transform (sh_hash s) ?one) ?two = h"
        using h by (simp only: hash_blocks_full) (simp add: hash_blocks_short)
      moreover have "take (Suc ?k) ?b @ replicate (64 - Suc ?k) 0 = ?one" using b by simp
      moreover have "copy_into (replicate 56 0 @ drop 56 ?one) 56 ?bits = ?two" using bits len by (simp add: copy_into_def)
      moreover have "sha_finish s = hex_digest (sha_transform (sha_transform (sh_hash s) (take (Suc ?k) ?b @ replicate (64 - Suc ?k) 0))
          (copy_into (replicate 56 0 @ drop 56 (take (Suc ?k) ?b @ replicate (64 - Suc ?k) 0)) 56 ?bits))"
        using False by (simp add: sha_finish_def Let_def del: drop_append take_append)
      ultimately show ?thesis by (simp only:)
    qed
  qed
  moreover have "length (r @ sha_padding (length msg)) mod 64 = 0"
  proof -
    have "length (r @ sha_padding (length msg)) = (if ?k \<le> 55 then 64 else 128)" using k bits by (auto simp: pad le_mod_geq)
    then show ?thesis by simp
  qed
  then have "snd (hash_blocks (r @ sha_padding (length msg)) (sh_hash s)) = []"
    using hash_blocks_rest [of "r @ sha_padding (length msg)" "sh_hash s"] by simp
  ultimately show ?thesis by (cases "hash_blocks (r @ sha_padding (length msg)) (sh_hash s)") (simp add: sha_reference_def)
qed

lemma sha_pieces_inv:
  "sha_inv msg s \<Longrightarrow> length msg + length (concat ps) < 2 ^ 64 \<Longrightarrow>
     \<exists>s'. sha_pieces ps s = Some s' \<and> sha_inv (msg @ bytes_of (concat ps)) s'"
proof (induction ps arbitrary: msg s)
  case (Cons p ps)
  show ?case
  proof (cases "p = []")
    case True
    then show ?thesis using Cons by simp
  next
    case False
    have "length msg + length (bytes_of p) < 2 ^ 64" using Cons.prems(2) by (simp add: bytes_of_def)
    from sha_update_inv [OF Cons.prems(1) this]
    obtain s1 where s1: "sha_update (bytes_of p) s = (True, s1)" "sha_inv (msg @ bytes_of p) s1" by blast
    have "length (msg @ bytes_of p) + length (concat ps) < 2 ^ 64" using Cons.prems(2) by (simp add: bytes_of_def)
    from Cons.IH [OF s1(2) this] s1(1) False show ?thesis by (simp add: bytes_of_def)
  qed
qed (simp add: bytes_of_def)

lemma hex_char_lower: "n < 16 \<Longrightarrow> is_digit (hex_char n) \<or> in_range CHR ''a'' CHR ''f'' (hex_char n)"
  by (auto simp: hex_char_def byte_simps)

lemma sha_reference_digits:
  "length (sha_reference msg) = 64 \<and> list_all (\<lambda>c. is_digit c \<or> in_range CHR ''a'' CHR ''f'' c) (sha_reference msg)"
proof -
  have low: "unat (w AND 15 :: u32) < 16" for w
  proof -
    have "w AND 15 \<le> (15 :: u32)" by (rule word_and_le1)
    then have "unat (w AND 15) \<le> unat (15 :: u32)" by (simp only: word_le_nat_alt)
    then show ?thesis by simp
  qed
  have "length (hex_word w) = 8 \<and> list_all (\<lambda>c. is_digit c \<or> in_range CHR ''a'' CHR ''f'' c) (hex_word w)" for w
    using hex_char_lower low by (auto simp: hex_word_def list_all_iff)
  then show ?thesis
    unfolding sha_reference_def hex_digest_def by (simp add: Let_def case_prod_beta)
qed

text \<open>C17: Hashing a file read in arbitrary pieces, and hashing a text at once, both compute the
  reference function on the bytes: the padded message, block by block. The digest has 64
  lower-case hexadecimal digits.\<close>

theorem sha256_reference:
  assumes "length content < 2 ^ 64" "concat pieces = content"
  shows "sha256_hex content = sha_reference (bytes_of content)
    \<and> sha256_file_hex True path pieces True = Inr (sha256_hex content)
    \<and> length (sha256_hex content) = 64
    \<and> list_all (\<lambda>c. is_digit c \<or> in_range CHR ''a'' CHR ''f'' c) (sha256_hex content)"
proof -
  have "length [] + length (bytes_of content) < 2 ^ 64" using assms(1) by (simp add: bytes_of_def)
  from sha_update_inv [OF sha_inv_new this] have one: "sha256_hex content = sha_reference (bytes_of content)"
    using sha_finish_reference by (auto simp: sha256_hex_def)
  have "length ([] :: u8 list) + length (concat pieces) < 2 ^ 64" using assms by simp
  from sha_pieces_inv [OF sha_inv_new this] obtain s where "sha_pieces pieces new_sha = Some s" "sha_inv (bytes_of content) s"
    using assms(2) by auto
  then have "sha256_file_hex True path pieces True = Inr (sha_reference (bytes_of content))"
    by (simp add: sha256_file_hex_def sha_finish_reference)
  with one sha_reference_digits show ?thesis by simp
qed

theorem sha256_reference_witness:
  "length ''abc'' < 2 ^ 64 \<and> concat [''a'', [], ''bc''] = ''abc''
   \<and> sha256_file_hex True ''f'' [''a'', [], ''bc''] True = Inr (sha256_hex ''abc'')"
  using sha256_reference [of "''abc''" "[''a'', [], ''bc'']" "''f''"] by simp

end
