(* ===== verification/ConfigSnapshot.thy ===== *)
theory ConfigSnapshot
  imports ProfileSave Sha256
begin

text \<open>
  The configuration as one value, \<^verbatim>\<open>src/config/configuration_snapshot.cpp\<close>: the settings of the file,
  the profiles of the database and the revision of both, the conversions between this snapshot
  and the document the editors and the compiler work with, and the merge of edited profiles
  into stored ones (\<^verbatim>\<open>merge_stable_keys\<close> of \<^verbatim>\<open>src/config/composite_config_repository.cpp\<close>). Shown
  here: a snapshot that was made a document and back is unchanged, keys and order included; the
  text that identifies a revision determines it; and the merge gives every edited profile and
  rule the key it had, or none.
\<close>

section \<open>Snapshots\<close>

record source_token =
  st_exists :: bool
  st_bytes :: string

record repository_revision =
  rv_source :: source_token
  rv_profiles :: int

record configuration_snapshot =
  cs_application :: application_settings
  cs_profiles :: "stored_profile list"
  cs_revision :: repository_revision
  cs_migrated :: "string option"

definition revision_source :: "repository_revision \<Rightarrow> string" where
  "revision_source r =
     ''ccs-trans.repository-revision/v1'' @ [CHR 0x00] @ [if st_exists (rv_source r) then CHR ''1'' else CHR ''0''] @ [CHR 0x00]
       @ sql_decimal (rv_profiles r) @ [CHR 0x00] @ st_bytes (rv_source r)"

definition repository_revision_token :: "repository_revision \<Rightarrow> string" where
  "repository_revision_token r = sha256_hex (revision_source r)"

section \<open>From profiles to documents\<close>

definition stored_rule_to_definition :: "json_text \<Rightarrow> stored_rule \<Rightarrow> rule_definition res" where
  "stored_rule_to_definition jt r =
     (case jt_parse jt (sr_options r) of
        Some (JObj kvs) \<Rightarrow>
          if jt_dump jt (JObj kvs) = Inr (sr_options r)
          then Inr \<lparr>rule_id = sr_id r, rule_enabled = sr_enabled r, rule_type = sr_type r, rule_options = kvs,
                    rule_storage_key = word_of_int (sr_key r)\<rparr>
          else Inl (''rule '' @ sr_id r @ '' has invalid canonical options_json'')
      | _ \<Rightarrow> Inl (''rule '' @ sr_id r @ '' has invalid canonical options_json''))"

definition snapshot_profile :: "stored_profile \<Rightarrow> nat \<Rightarrow> rule_definition list \<Rightarrow> profile_definition" where
  "snapshot_profile p position rules =
     (stored_definition p rules)\<lparr>profile_storage_key := word_of_int (sp_key p), storage_position := Some position\<rparr>"

fun convert_profiles ::
    "json_text \<Rightarrow> nat \<Rightarrow> stored_profile list \<Rightarrow> (string \<times> profile_definition) list
     \<Rightarrow> validation_failure + (string \<times> profile_definition) list" where
  "convert_profiles jt position [] converted = Inr converted"
| "convert_profiles jt position (p # ps) converted =
     (case res_traverse (stored_rule_to_definition jt) (sp_rules p) of
        Inl e \<Rightarrow> Inl \<lparr>failure_profile_id = sp_id p, failure_field = ''rules'', failure_detail = ''profile '' @ sp_id p @ '': '' @ e\<rparr>
      | Inr rules \<Rightarrow>
          if map_of converted (sp_id p) \<noteq> None
          then Inl \<lparr>failure_profile_id = sp_id p, failure_field = ''id'',
                    failure_detail = ''configuration snapshot contains duplicate profile id: '' @ sp_id p\<rparr>
          else convert_profiles jt (Suc position) ps (map_insert (sp_id p) (snapshot_profile p position rules) converted))"

definition configuration_snapshot_to_config_document :: "json_text \<Rightarrow> configuration_snapshot \<Rightarrow> validation_failure + config_document" where
  "configuration_snapshot_to_config_document jt s =
     res_bind (convert_profiles jt 0 (cs_profiles s) []) (\<lambda>converted.
       (let document = \<lparr>application = cs_application s, profiles = converted\<rparr> in
        res_bind (validate_config_document_failure document) (\<lambda>_. Inr document)))"

section \<open>From documents to profiles\<close>

definition stored_of_rule :: "json_text \<Rightarrow> rule_definition \<Rightarrow> stored_rule res" where
  "stored_of_rule jt r =
     res_map (\<lambda>text. \<lparr>sr_key = sint (rule_storage_key r), sr_id = rule_id r, sr_enabled = rule_enabled r, sr_type = rule_type r, sr_options = text\<rparr>)
       (jt_dump jt (JObj (map_of_entries (rule_options r))))"

definition stored_of_profile :: "json_text \<Rightarrow> string \<Rightarrow> profile_definition \<Rightarrow> stored_profile res" where
  "stored_of_profile jt pid d =
     res_map (\<lambda>rules.
       \<lparr>sp_key = sint (profile_storage_key d), sp_id = pid, sp_enabled = profile_enabled d, sp_protocol = protocol d,
        sp_local_request_path = local_request_path (locals d), sp_local_usage_path = local_usage_path (locals d),
        sp_base_url = base_url (upstream d), sp_request_path = upstream_request_path (upstream d),
        sp_usage_path = upstream_usage_path (upstream d), sp_rules = rules\<rparr>)
       (res_traverse (stored_of_rule jt) (profile_rules d))"

text \<open>Profiles without a position come last, at the largest \<^verbatim>\<open>size_t\<close>; the sort is stable.\<close>

definition position_rank :: "profile_definition \<Rightarrow> nat" where
  "position_rank d = (case storage_position d of None \<Rightarrow> 18446744073709551615 | Some n \<Rightarrow> n)"

definition config_document_to_stored_profiles :: "json_text \<Rightarrow> config_document \<Rightarrow> stored_profile list res" where
  "config_document_to_stored_profiles jt document =
     res_bind (validate_config_document document) (\<lambda>_.
       case res_traverse (\<lambda>(pid, d). res_map (\<lambda>p. (position_rank d, p)) (stored_of_profile jt pid d)) (profiles document) of
         Inl e \<Rightarrow> Inl (''failed to canonicalize rule options: '' @ e)
       | Inr ordered \<Rightarrow> Inr (map snd (sort_key fst ordered)))"

section \<open>Merging\<close>

text \<open>\<^verbatim>\<open>emplace\<close> keeps the first entry of a key, as \<^const>\<open>find\<close> does.\<close>

definition merge_rule :: "stored_rule list \<Rightarrow> stored_rule \<Rightarrow> stored_rule" where
  "merge_rule existing r =
     (if sr_key r > 0
      then case find (\<lambda>x. sr_key x = sr_key r) existing of
             Some x \<Rightarrow> if sr_id x \<noteq> sr_id r then r\<lparr>sr_key := 0\<rparr> else r
           | None \<Rightarrow> r\<lparr>sr_key := 0\<rparr>
      else case find (\<lambda>x. sr_id x = sr_id r) existing of
             Some x \<Rightarrow> r\<lparr>sr_key := sr_key x\<rparr>
           | None \<Rightarrow> r)"

definition merge_profile :: "stored_profile list \<Rightarrow> stored_profile \<Rightarrow> stored_profile" where
  "merge_profile current p =
     (case (if sp_key p > 0 then find (\<lambda>x. sp_key x = sp_key p) current else find (\<lambda>x. sp_id x = sp_id p) current) of
        None \<Rightarrow> p
      | Some existing \<Rightarrow> p\<lparr>sp_key := sp_key existing, sp_rules := map (merge_rule (sp_rules existing)) (sp_rules p)\<rparr>)"

definition merge_stable_keys :: "stored_profile list \<Rightarrow> stored_profile list \<Rightarrow> stored_profile list" where
  "merge_stable_keys current edited = map (merge_profile current) edited"

section \<open>Round trip\<close>

text \<open>Keys are 64-bit integers, and the parser orders the members of an object.\<close>

definition int64 :: "int \<Rightarrow> bool" where
  "int64 k \<longleftrightarrow> - (2 ^ 63) \<le> k \<and> k < 2 ^ 63"

definition keys_int64 :: "stored_profile list \<Rightarrow> bool" where
  "keys_int64 ps \<longleftrightarrow> list_all (\<lambda>p. int64 (sp_key p) \<and> list_all (\<lambda>r. int64 (sr_key r)) (sp_rules p)) ps"

definition parser_orders :: "json_text \<Rightarrow> bool" where
  "parser_orders jt \<longleftrightarrow> (\<forall>text kvs. jt_parse jt text = Some (JObj kvs) \<longrightarrow> keys_sorted kvs)"

lemma int64_word: "int64 k \<Longrightarrow> sint (word_of_int k :: i64) = k"
  by (simp add: int64_def sint_sbintrunc' signed_take_bit_int_eq_self)

lemma rule_back:
  assumes "parser_orders jt" "stored_rule_to_definition jt r = Inr d" "int64 (sr_key r)"
  shows "stored_of_rule jt d = Inr r"
  using assms
  by (auto simp: stored_rule_to_definition_def stored_of_rule_def parser_orders_def map_of_entries_sorted int64_word
      split: option.splits json.splits if_splits)

lemma rules_back:
  assumes "parser_orders jt" "res_traverse (stored_rule_to_definition jt) rs = Inr ds" "list_all (\<lambda>r. int64 (sr_key r)) rs"
  shows "res_traverse (stored_of_rule jt) ds = Inr rs"
  using assms(2,3)
proof (induction rs arbitrary: ds)
  case (Cons r rs)
  then show ?case using rule_back [OF assms(1), of r] by auto
qed simp

lemma profile_back:
  assumes "parser_orders jt" "res_traverse (stored_rule_to_definition jt) (sp_rules p) = Inr ds"
    "int64 (sp_key p)" "list_all (\<lambda>r. int64 (sr_key r)) (sp_rules p)"
  shows "stored_of_profile jt (sp_id p) (snapshot_profile p i ds) = Inr p"
  using rules_back [OF assms(1,2,4)] assms(3)
  by (simp add: stored_of_profile_def snapshot_profile_def stored_definition_def int64_word)

lemma set_map_insert_new: "map_of kvs k = None \<Longrightarrow> set (map_insert k v kvs) = insert (k, v) (set kvs)"
  by (induction k v kvs rule: map_insert.induct) (auto split: if_splits)

text \<open>The entry of a profile at a position.\<close>

definition entry_of :: "json_text \<Rightarrow> nat \<times> stored_profile \<Rightarrow> string \<times> profile_definition" where
  "entry_of jt = (\<lambda>(i, p). (sp_id p, snapshot_profile p i (projr (res_traverse (stored_rule_to_definition jt) (sp_rules p)))))"

lemma convert_profiles_entries:
  assumes "convert_profiles jt n ps c = Inr c'" "keys_sorted c"
  shows "keys_sorted c'" "set c' = set c \<union> entry_of jt ` set (enumerate n ps)"
    "\<forall>p \<in> set ps. \<exists>ds. res_traverse (stored_rule_to_definition jt) (sp_rules p) = Inr ds"
proof -
  have "keys_sorted c' \<and> set c' = set c \<union> entry_of jt ` set (enumerate n ps)
     \<and> (\<forall>p \<in> set ps. \<exists>ds. res_traverse (stored_rule_to_definition jt) (sp_rules p) = Inr ds)"
    using assms
  proof (induction ps arbitrary: n c)
    case (Cons p ps)
    then obtain ds where ds: "res_traverse (stored_rule_to_definition jt) (sp_rules p) = Inr ds" "map_of c (sp_id p) = None"
      "convert_profiles jt (Suc n) ps (map_insert (sp_id p) (snapshot_profile p n ds) c) = Inr c'"
      by (auto split: sum.splits if_splits)
    from Cons.IH [OF ds(3) keys_sorted_insert [OF Cons.prems(2)]] show ?case
      by (auto simp: set_map_insert_new [OF ds(2)] entry_of_def ds(1))
  qed simp
  then show "keys_sorted c'" "set c' = set c \<union> entry_of jt ` set (enumerate n ps)"
    "\<forall>p \<in> set ps. \<exists>ds. res_traverse (stored_rule_to_definition jt) (sp_rules p) = Inr ds" by blast+
qed

text \<open>C40: A configuration that was made a document for the editors and the compiler is given back
  exactly by the conversion to stored profiles: every field, the canonical text of the rule
  options, the database keys and the order of the profiles.\<close>

theorem snapshot_document_roundtrip:
  assumes "parser_orders jt" "keys_int64 (cs_profiles s)" "configuration_snapshot_to_config_document jt s = Inr doc"
  shows "config_document_to_stored_profiles jt doc = Inr (cs_profiles s)"
proof -
  let ?ps = "cs_profiles s"
  let ?again = "\<lambda>(pid, d). res_map (\<lambda>p. (position_rank d, p)) (stored_of_profile jt pid d)"
  obtain c where c: "convert_profiles jt 0 ?ps [] = Inr c" and doc: "doc = \<lparr>application = cs_application s, profiles = c\<rparr>"
    and v: "validate_config_document_failure doc = Inr ()"
    using assms(3) by (auto simp: configuration_snapshot_to_config_document_def Let_def)
  note entries = convert_profiles_entries [OF c]
  have c_set: "set c = entry_of jt ` set (enumerate 0 ?ps)" using entries by simp
  have recovered: "?again (entry_of jt ip) = Inr ip" if "ip \<in> set (enumerate 0 ?ps)" for ip
  proof -
    obtain i p where ip: "ip = (i, p)" by fastforce
    with that have "p \<in> set ?ps" by (metis in_set_zip enumerate_eq_zip nth_mem snd_conv)
    with entries(3) obtain ds where "res_traverse (stored_rule_to_definition jt) (sp_rules p) = Inr ds" by auto
    moreover from \<open>p \<in> set ?ps\<close> assms(2) have "int64 (sp_key p)" "list_all (\<lambda>r. int64 (sr_key r)) (sp_rules p)"
      by (auto simp: keys_int64_def list_all_iff)
    ultimately show ?thesis using profile_back [OF assms(1)] by (simp add: ip entry_of_def snapshot_profile_def position_rank_def)
  qed
  define ordered where "ordered = map (projr \<circ> ?again) c"
  have step: "?again e = Inr (projr (?again e))" if "e \<in> set c" for e
  proof -
    from that c_set obtain ip where "ip \<in> set (enumerate 0 ?ps)" "e = entry_of jt ip" by auto
    with recovered show ?thesis by simp
  qed
  have trav: "res_traverse ?again c = Inr ordered"
    unfolding res_traverse_list_all2 ordered_def list_all2_map2 comp_apply by (rule list.rel_refl_strong) (rule step)
  have set: "set ordered = set (enumerate 0 ?ps)" by (simp add: ordered_def c_set image_image recovered cong: image_cong_simp)
  have inj: "inj_on fst (set (enumerate 0 ?ps))" 
    using distinct_map [of fst "enumerate 0 ?ps"] by (simp del: distinct_map add: enumerate_eq_zip)
  have "distinct c" using keys_sorted_distinct [OF entries(1)] by (simp add: distinct_map)
  moreover have "inj_on (projr \<circ> ?again) (set c)"
  proof (rule inj_onI)
    fix x y assume "x \<in> set c" "y \<in> set c" "(projr \<circ> ?again) x = (projr \<circ> ?again) y"
    then show "x = y" unfolding c_set by (auto simp: recovered)
  qed
  ultimately have dist: "distinct ordered" by (simp add: ordered_def distinct_map)
  have "sort_key fst ordered = enumerate 0 ?ps"
    by (rule map_sorted_distinct_set_unique [of fst])
      (use inj set dist in \<open>simp_all add: distinct_map sorted_enumerate\<close>)
  then show ?thesis
    using trav v by (simp add: config_document_to_stored_profiles_def doc validate_config_document_def)
qed

section \<open>Revisions\<close>

lemma sql_decimal_no_zero: "CHR 0x00 \<notin> set (sql_decimal i)"
  using string_of_nat_digits [of "nat i"] string_of_nat_digits [of "nat (- i)"]
  by (auto simp: sql_decimal_def list_all_iff is_digit_def in_range_def)

lemma sql_decimal_inj: "sql_decimal i = sql_decimal j \<longleftrightarrow> i = j"
proof
  assume eq: "sql_decimal i = sql_decimal j"
  have digits: "hd (string_of_nat n) \<noteq> CHR ''-''" for n
    using string_of_nat_digits [of n] string_of_nat_ne [of n] by (cases "string_of_nat n") (auto simp: is_digit_def in_range_def)
  have sign: "i < 0 \<longleftrightarrow> j < 0" using eq digits [of "nat i"] digits [of "nat j"]
    by (auto simp: sql_decimal_def split: if_splits) (metis list.sel(1))+
  show "i = j" using eq sign by (auto simp: sql_decimal_def split: if_splits dest!: string_of_nat_inj)
qed simp

text \<open>The text whose hash names a revision determines the revision: the number ends at the next zero
  character, and everything after it is the file.\<close>

theorem revision_source_inj: "revision_source r = revision_source r' \<longleftrightarrow> r = r'"
proof
  assume eq: "revision_source r = revision_source r'"
  have split: "a = b \<and> x = y" if "sql_decimal a @ CHR 0x00 # x = sql_decimal b @ CHR 0x00 # y" for a b x y
  proof -
    from arg_cong [OF that, of "takeWhile (\<lambda>c. c \<noteq> CHR 0x00)"] have "sql_decimal a = sql_decimal b"
      using sql_decimal_no_zero [of a] sql_decimal_no_zero [of b] by (auto simp: takeWhile_append takeWhile_eq_all_conv split: if_splits)
    with that show ?thesis by (simp add: sql_decimal_inj)
  qed
  let ?rest = "\<lambda>r. sql_decimal (rv_profiles r) @ CHR 0x00 # st_bytes (rv_source r)"
  have "(if st_exists (rv_source r) then CHR ''1'' else CHR ''0'') = (if st_exists (rv_source r') then CHR ''1'' else CHR ''0'')"
    and "?rest r = ?rest r'" using eq by (simp_all add: revision_source_def)
  moreover from split [OF this(2)] have "rv_profiles r = rv_profiles r'" "st_bytes (rv_source r) = st_bytes (rv_source r')" by blast+
  ultimately have "st_exists (rv_source r) = st_exists (rv_source r')" "rv_profiles r = rv_profiles r'"
    "st_bytes (rv_source r) = st_bytes (rv_source r')" by (simp_all split: if_splits)
  then show "r = r'" by (intro repository_revision.equality source_token.equality) simp_all
qed simp

section \<open>Keys after a merge\<close>

text \<open>What a loaded snapshot has: positive keys, no rule key twice.\<close>

definition keyed :: "stored_profile list \<Rightarrow> bool" where
  "keyed ps \<longleftrightarrow> list_all (\<lambda>p. sp_key p > 0) ps \<and> distinct (map fst (stored_rule_keys ps))"

text \<open>What an editor may hand in: a key that is stored, or none and then no rule keys either.\<close>

definition editable :: "stored_profile list \<Rightarrow> stored_profile \<Rightarrow> bool" where
  "editable current p \<longleftrightarrow> list_all (\<lambda>r. sr_key r \<ge> 0) (sp_rules p)
     \<and> (sp_key p \<in> set (map sp_key current) \<or> sp_key p = 0 \<and> list_all (\<lambda>r. sr_key r = 0) (sp_rules p))"

lemma merge_rule_key:
  assumes "sr_key r \<ge> 0"
  shows "sr_key (merge_rule existing r) = 0 \<or> (\<exists>x \<in> set existing. sr_key x = sr_key (merge_rule existing r) \<and> sr_id x = sr_id r)"
  using assms by (auto simp: merge_rule_def find_Some_iff split: option.splits)

lemma merge_profile_keys:
  assumes "keyed current" "editable current p"
  shows "\<not> (sp_key (merge_profile current p) > 0 \<and> sp_key (merge_profile current p) \<notin> set (map sp_key current))"
    "list_all (\<lambda>r. sr_key r = 0 \<or> sp_key (merge_profile current p) \<noteq> 0
        \<and> map_of (stored_rule_keys current) (sr_key r) = Some (sp_key (merge_profile current p))) (sp_rules (merge_profile current p))"
proof -
  let ?found = "if sp_key p > 0 then find (\<lambda>x. sp_key x = sp_key p) current else find (\<lambda>x. sp_id x = sp_id p) current"
  have "\<not> (sp_key (merge_profile current p) > 0 \<and> sp_key (merge_profile current p) \<notin> set (map sp_key current))
    \<and> list_all (\<lambda>r. sr_key r = 0 \<or> sp_key (merge_profile current p) \<noteq> 0
        \<and> map_of (stored_rule_keys current) (sr_key r) = Some (sp_key (merge_profile current p))) (sp_rules (merge_profile current p))"
  proof (cases ?found)
    case None
    then have "sp_key p \<notin> set (map sp_key current) \<or> \<not> sp_key p > 0" by (auto simp: find_None_iff split: if_splits)
    moreover have "sp_key p > 0" if "sp_key p \<in> set (map sp_key current)" using that assms(1) by (auto simp: keyed_def list_all_iff)
    ultimately have "sp_key p = 0" "list_all (\<lambda>r. sr_key r = 0) (sp_rules p)" using assms(2) by (auto simp: editable_def)
    with None show ?thesis by (simp add: merge_profile_def list_all_iff)
  next
    case (Some x)
    then have x: "x \<in> set current" by (auto simp: find_Some_iff split: if_splits)
    then have pos: "sp_key x > 0" using assms(1) by (auto simp: keyed_def list_all_iff)
    have "map_of (stored_rule_keys current) (sr_key y) = Some (sp_key x)" if "y \<in> set (sp_rules x)" for y
      using that x assms(1) by (intro map_of_is_SomeI) (auto simp: keyed_def stored_rule_keys_def)
    moreover have "sr_key r \<ge> 0" if "r \<in> set (sp_rules p)" for r using that assms(2) by (auto simp: editable_def list_all_iff)
    ultimately have "sr_key (merge_rule (sp_rules x) r) = 0
        \<or> map_of (stored_rule_keys current) (sr_key (merge_rule (sp_rules x) r)) = Some (sp_key x)" if "r \<in> set (sp_rules p)" for r
      using that merge_rule_key [of r "sp_rules x"] by metis
    with Some x pos show ?thesis by (auto simp: merge_profile_def list_all_iff)
  qed
  then show "\<not> (sp_key (merge_profile current p) > 0 \<and> sp_key (merge_profile current p) \<notin> set (map sp_key current))"
    "list_all (\<lambda>r. sr_key r = 0 \<or> sp_key (merge_profile current p) \<noteq> 0
        \<and> map_of (stored_rule_keys current) (sr_key r) = Some (sp_key (merge_profile current p))) (sp_rules (merge_profile current p))"
    by blast+
qed

text \<open>The merge changes nothing but keys, and the database accepts the keys it assigns: a save of the
  merged profiles is not refused as stale.\<close>

theorem merged_keys_accepted:
  assumes "keyed current" "list_all (editable current) edited"
  shows "check_desired_keys current (merge_stable_keys current edited) = Inr ()
    \<and> map forget_keys (merge_stable_keys current edited) = map forget_keys edited"
proof -
  have "forget_rule_key (merge_rule rs r) = forget_rule_key r" for rs r
    by (auto simp: merge_rule_def forget_rule_key_def split: option.splits)
  then have "forget_keys (merge_profile current p) = forget_keys p" for p
    by (simp add: merge_profile_def forget_keys_def split: option.splits)
  moreover have "check_desired_keys current (map (merge_profile current) edited) = Inr ()"
    using assms(2)
  proof (induction edited)
    case (Cons p ps)
    then show ?case using merge_profile_keys [OF assms(1), of p] by (simp del: map_map)
  qed simp
  ultimately show ?thesis by (simp add: merge_stable_keys_def)
qed

section \<open>Examples\<close>

definition brace_codec :: json_text where
  "brace_codec = \<lparr>jt_parse = (\<lambda>t. if t = ''{}'' then Some (JObj []) else None),
     jt_dump = (\<lambda>j. case j of JObj [] \<Rightarrow> Inr ''{}'' | _ \<Rightarrow> Inl ''''), jt_is_object = (\<lambda>t. t = ''{}'')\<rparr>"

definition bare_profile :: "int \<Rightarrow> string \<Rightarrow> stored_rule list \<Rightarrow> stored_profile" where
  "bare_profile k name rules =
     \<lparr>sp_key = k, sp_id = name, sp_enabled = False, sp_protocol = Some ''chat'', sp_local_request_path = None, sp_local_usage_path = None,
      sp_base_url = None, sp_request_path = None, sp_usage_path = None, sp_rules = rules\<rparr>"

definition stored_sample :: configuration_snapshot where
  "stored_sample =
     \<lparr>cs_application = default_application_settings,
      cs_profiles = [bare_profile 7 ''second'' [\<lparr>sr_key = 3, sr_id = ''r'', sr_enabled = False, sr_type = ''set_field'', sr_options = ''{}''\<rparr>],
                     bare_profile 2 ''first'' []],
      cs_revision = \<lparr>rv_source = \<lparr>st_exists = True, st_bytes = ''{}''\<rparr>, rv_profiles = 4\<rparr>, cs_migrated = None\<rparr>"

definition stored_sample_document :: config_document where
  "stored_sample_document = projr (configuration_snapshot_to_config_document brace_codec stored_sample)"

lemma stored_sample_converts: "configuration_snapshot_to_config_document brace_codec stored_sample = Inr stored_sample_document"
proof -
  have "is_ok (configuration_snapshot_to_config_document brace_codec stored_sample)" by code_simp
  then show ?thesis unfolding stored_sample_document_def by (cases "configuration_snapshot_to_config_document brace_codec stored_sample") simp_all
qed

theorem snapshot_document_roundtrip_witness:
  "map fst (profiles stored_sample_document) = [''first'', ''second'']
   \<and> config_document_to_stored_profiles brace_codec stored_sample_document = Inr (cs_profiles stored_sample)"
proof
  show "map fst (profiles stored_sample_document) = [''first'', ''second'']" by code_simp
  have "parser_orders brace_codec" by (simp add: parser_orders_def brace_codec_def keys_sorted_def)
  moreover have "keys_int64 (cs_profiles stored_sample)"
    by (simp add: keys_int64_def stored_sample_def bare_profile_def int64_def)
  ultimately show "config_document_to_stored_profiles brace_codec stored_sample_document = Inr (cs_profiles stored_sample)"
    using stored_sample_converts by (rule snapshot_document_roundtrip)
qed

end
