(* ===== verification/ApplicationConfig.thy ===== *)
theory ApplicationConfig
  imports ConfigJson
begin

text \<open>
  The configuration file of the current format, \<^verbatim>\<open>src/config/application_config.cpp\<close>: the
  application settings without the profiles, which the database holds. It is read and written
  by way of the older format of \<^verbatim>\<open>config_document.cpp\<close>, whose text is parsed, changed and
  printed again. Shown here: the settings that were written are read back, the memory budget
  included; and the schema of what was written is recognised.
\<close>

text \<open>The JSON library: \<^verbatim>\<open>parse\<close> with the events of its callback, \<^verbatim>\<open>dump(2)\<close> and \<^verbatim>\<open>dump()\<close>.\<close>

record json_codec =
  jc_parse :: "string \<Rightarrow> (parse_event list \<times> json) res"
  jc_pretty :: "json \<Rightarrow> string res"
  jc_compact :: "json \<Rightarrow> string res"

datatype config_schema_kind = SchemaV2 | SchemaV3 | SchemaUnsupported

abbreviation application_config_schema :: string where
  "application_config_schema \<equiv> ''ccs-trans.config/v3''"

text \<open>\<^verbatim>\<open>root[key] = value\<close>, \<^verbatim>\<open>root.erase(key)\<close>, and a change of the member \<^verbatim>\<open>root.at(key)\<close>.\<close>

fun json_set :: "string \<Rightarrow> json \<Rightarrow> json \<Rightarrow> json" where
  "json_set key v (JObj kvs) = JObj (map_insert key v kvs)"
| "json_set key v j = j"

fun json_erase :: "string \<Rightarrow> json \<Rightarrow> json" where
  "json_erase key (JObj kvs) = JObj (map_erase key kvs)"
| "json_erase key j = j"

fun json_update :: "string \<Rightarrow> (json \<Rightarrow> json) \<Rightarrow> json \<Rightarrow> json" where
  "json_update key f (JObj kvs) = JObj (map (\<lambda>(k, v). (k, if k = key then f v else v)) kvs)"
| "json_update key f j = j"

definition parse_root :: "json_codec \<Rightarrow> string \<Rightarrow> json res" where
  "parse_root jc content =
     (if length content > 4194304 then Inl ''config document exceeds the 4 MiB limit''
      else case jc_parse jc content of
        Inl what \<Rightarrow> Inl (''failed to parse config document: '' @ what)
      | Inr (events, root) \<Rightarrow>
          if duplicate_key events \<noteq> [] then Inl (''config contains duplicate JSON object key: '' @ duplicate_key events)
          else if \<not> is_object root then Inl ''config root must be a JSON object''
          else Inr root)"

text \<open>The expected keys in the order of the set.\<close>

definition application_root_keys :: "string list" where
  "application_root_keys = [''listener'', ''logging'', ''runtime'', ''schema_version'', ''timeouts'']"

definition exact_root_keys :: "json \<Rightarrow> unit res" where
  "exact_root_keys root =
     (case root of
        JObj kvs \<Rightarrow>
          (case find (\<lambda>(k, _). k \<notin> set application_root_keys) kvs of
             Some (k, _) \<Rightarrow> Inl (''config contains unknown root field: '' @ k)
           | None \<Rightarrow>
               (case find (\<lambda>k. map_of kvs k = None) application_root_keys of
                  Some k \<Rightarrow> Inl (''config is missing required root field: '' @ k)
                | None \<Rightarrow> Inr ()))
      | _ \<Rightarrow> Inr ())"

definition detect_config_schema :: "json_codec \<Rightarrow> string \<Rightarrow> config_schema_kind res" where
  "detect_config_schema jc content =
     res_bind (parse_root jc content) (\<lambda>root.
       case json_find ''schema_version'' root of
         Some (JStr v) \<Rightarrow>
           Inr (if v = ''ccs-trans.config/v2'' then SchemaV2
                else if v = application_config_schema then SchemaV3 else SchemaUnsupported)
       | _ \<Rightarrow> Inl ''config schema_version must be a JSON string'')"

definition v2_root :: "json \<Rightarrow> json" where
  "v2_root root =
     json_set ''profiles'' (JObj [])
       (json_set ''schema_version'' (JStr ''ccs-trans.config/v2'')
         (json_update ''runtime'' (json_erase ''max_inflight_bytes'') root))"

definition parse_application_config_document :: "json_codec \<Rightarrow> string \<Rightarrow> application_settings res" where
  "parse_application_config_document jc content =
     res_bind (parse_root jc content) (\<lambda>root.
       if json_find ''schema_version'' root \<noteq> Some (JStr application_config_schema)
       then Inl ''unsupported config schema_version; expected ccs-trans.config/v3''
       else res_bind (exact_root_keys root) (\<lambda>_.
         case json_find ''runtime'' root of
           Some (JObj kvs) \<Rightarrow>
             (case json_find ''max_inflight_bytes'' (JObj kvs) of
                Some (JUint max_inflight) \<Rightarrow>
                  (case jc_compact jc (v2_root root) of
                     Inl what \<Rightarrow> Inl (''failed to read v3 application settings: '' @ what)
                   | Inr translated \<Rightarrow>
                       (case parse_config_document (jc_parse jc) translated of
                          Inl e \<Rightarrow> Inl (''invalid v3 application settings: '' @ e)
                        | Inr legacy \<Rightarrow>
                            let candidate = application legacy;
                                candidate = candidate\<lparr>runtime := (runtime candidate)\<lparr>max_inflight_bytes := max_inflight\<rparr>\<rparr>
                            in res_map (\<lambda>_. candidate) (validate_application_settings candidate)))
              | _ \<Rightarrow> Inl ''$.runtime.max_inflight_bytes must be a non-negative JSON integer'')
         | _ \<Rightarrow> Inl ''$.runtime must be a JSON object''))"

definition v3_root :: "u64 \<Rightarrow> json \<Rightarrow> json" where
  "v3_root max_inflight root =
     json_update ''runtime'' (json_set ''max_inflight_bytes'' (JUint max_inflight))
       (json_erase ''profiles'' (json_set ''schema_version'' (JStr application_config_schema) root))"

definition serialize_application_config_document :: "json_codec \<Rightarrow> application_settings \<Rightarrow> string res" where
  "serialize_application_config_document jc a =
     res_bind (validate_application_settings a) (\<lambda>_.
     res_bind (serialize_config_document (jc_pretty jc) \<lparr>application = a, profiles = []\<rparr>) (\<lambda>legacy.
       case jc_parse jc legacy of
         Inl what \<Rightarrow> Inl (''failed to serialize v3 application settings: '' @ what)
       | Inr (_, root) \<Rightarrow>
           (case jc_pretty jc (v3_root (max_inflight_bytes (runtime a)) root) of
              Inl what \<Rightarrow> Inl (''failed to serialize v3 application settings: '' @ what)
            | Inr s \<Rightarrow>
                let serialized = s @ [CHR 0x0A] in
                if length serialized > 4194304 then Inl ''serialized config document exceeds the 4 MiB limit''
                else Inr serialized)))"

section \<open>What was written is read back\<close>

lemma json_reparse_idem [simp]: "json_reparse (json_reparse j) = json_reparse j"
  by (induction j rule: json_reparse.induct) (auto simp: case_prod_beta)

lemma json_wf_reparse [simp]: "json_wf j \<Longrightarrow> json_wf (json_reparse j)"
  by (induction j rule: json_reparse.induct) (auto simp: list_all_iff keys_sorted_def comp_def)

lemma json_finite_reparse [simp]: "json_finite j \<Longrightarrow> json_finite (json_reparse j)"
  by (induction j rule: json_reparse.induct) (auto simp: list_all_iff)

text \<open>The two roots of the same settings, member by member.\<close>

definition runtime_members :: "runtime_settings \<Rightarrow> (string \<times> json) list" where
  "runtime_members r =
     [(''max_connections'', JUint (ucast (max_connections r))),
      (''max_request_body_size'', JUint (max_request_body_size r)),
      (''max_response_body_size'', JUint (max_response_body_size r)),
      (''metrics_interval_ms'', JUint (ucast (metrics_interval_ms r))),
      (''worker_threads'', JUint (ucast (worker_threads r)))]"

definition v2_members :: "application_settings \<Rightarrow> (string \<times> json) list" where
  "v2_members a =
     [(''listener'', json_reparse (listener_to_json (listener a))), (''logging'', json_reparse (logging_to_json (logging a))),
      (''profiles'', JObj []), (''runtime'', JObj (runtime_members (runtime a))),
      (''schema_version'', JStr ''ccs-trans.config/v2''), (''timeouts'', json_reparse (timeouts_to_json (timeouts a)))]"

definition v3_members :: "application_settings \<Rightarrow> (string \<times> json) list" where
  "v3_members a =
     [(''listener'', json_reparse (listener_to_json (listener a))), (''logging'', json_reparse (logging_to_json (logging a))),
      (''runtime'', JObj (map_insert ''max_inflight_bytes'' (JUint (max_inflight_bytes (runtime a))) (runtime_members (runtime a)))),
      (''schema_version'', JStr application_config_schema), (''timeouts'', json_reparse (timeouts_to_json (timeouts a)))]"

lemma runtime_to_json_members: "json_reparse (runtime_to_json r) = JObj (runtime_members r)"
  by (simp add: runtime_to_json_def json_object_def map_of_entries_def runtime_members_def)

lemma document_members:
  "json_reparse (document_to_json \<lparr>application = a, profiles = []\<rparr>) = JObj (v2_members a)"
proof -
  have "document_to_json \<lparr>application = a, profiles = []\<rparr> =
     JObj [(''listener'', listener_to_json (listener a)), (''logging'', logging_to_json (logging a)),
       (''profiles'', JObj []), (''runtime'', runtime_to_json (runtime a)),
       (''schema_version'', JStr ''ccs-trans.config/v2''), (''timeouts'', timeouts_to_json (timeouts a))]"
    by (simp add: document_to_json_def json_object_def map_of_entries_def schema_version_def)
  then show ?thesis by (simp add: v2_members_def runtime_to_json_members)
qed

lemma v3_root_members: "v3_root (max_inflight_bytes (runtime a)) (JObj (v2_members a)) = JObj (v3_members a)"
  by (simp add: v3_root_def v2_members_def v3_members_def map_erase_def)

lemma v2_root_members: "v2_root (JObj (v3_members a)) = JObj (v2_members a)"
  by (simp add: v2_root_def v2_members_def v3_members_def map_erase_def runtime_members_def)

lemma v3_members_wf:
  assumes "json_wf (JObj (v2_members a))" "json_finite (JObj (v2_members a))"
  shows "json_wf (JObj (v3_members a)) \<and> json_finite (JObj (v3_members a)) \<and> json_reparse (JObj (v3_members a)) = JObj (v3_members a)"
  using assms
  by (simp add: v2_members_def v3_members_def runtime_members_def keys_sorted_def del: json_reparse.simps(2))

lemma v3_find:
  "exact_root_keys (JObj (v3_members a)) = Inr ()"
  "json_find ''schema_version'' (JObj (v3_members a)) = Some (JStr application_config_schema)"
  "json_find ''runtime'' (JObj (v3_members a)) =
     Some (JObj (map_insert ''max_inflight_bytes'' (JUint (max_inflight_bytes (runtime a))) (runtime_members (runtime a))))"
  "json_find ''max_inflight_bytes'' (JObj (map_insert ''max_inflight_bytes'' (JUint n) (runtime_members r))) = Some (JUint n)"
  by (simp_all add: exact_root_keys_def v3_members_def application_root_keys_def runtime_members_def)

text \<open>
  What the components rely on of the JSON library: the text of a well-formed finite value, with
  or without white space, is parsed to that value with non-negative integers as unsigned, and no
  key is reported twice; what can be printed with white space can be printed without, and is no
  longer then.
\<close>

definition text_codec_ok :: "json_codec \<Rightarrow> bool" where
  "text_codec_ok jc \<longleftrightarrow>
     (\<forall>j t. json_wf j \<and> json_finite j \<and> jc_pretty jc j = Inr t \<longrightarrow>
        (\<exists>events. jc_parse jc (t @ [CHR 0x0A]) = Inr (events, json_reparse j) \<and> duplicate_key events = [])
        \<and> (\<exists>t' events. jc_compact jc (json_reparse j) = Inr t' \<and> length t' \<le> length t
             \<and> jc_parse jc t' = Inr (events, json_reparse j) \<and> duplicate_key events = []))"

lemma codec_okD:
  assumes "text_codec_ok jc" "json_wf j" "json_finite j" "jc_pretty jc j = Inr t"
  obtains events t' events' where "jc_parse jc (t @ [CHR 0x0A]) = Inr (events, json_reparse j)" "duplicate_key events = []"
    "jc_compact jc (json_reparse j) = Inr t'" "length t' \<le> length t"
    "jc_parse jc t' = Inr (events', json_reparse j)" "duplicate_key events' = []"
  using assms unfolding text_codec_ok_def by blast

lemma application_written:
  assumes "text_codec_ok jc" "serialize_application_config_document jc a = Inr content"
  shows "validate_application_settings a = Inr () \<and> length content \<le> 4194304
    \<and> (\<exists>t events. jc_pretty jc (JObj (v3_members a)) = Inr t \<and> content = t @ [CHR 0x0A]
         \<and> jc_parse jc content = Inr (events, JObj (v3_members a)) \<and> duplicate_key events = [])
    \<and> (\<exists>t' events. jc_compact jc (JObj (v2_members a)) = Inr t' \<and> length t' \<le> 4194304
         \<and> jc_parse jc t' = Inr (events, JObj (v2_members a)) \<and> duplicate_key events = [])"
proof -
  let ?L = "\<lparr>application = a, profiles = []\<rparr>"
  obtain legacy where a: "validate_application_settings a = Inr ()" "serialize_config_document (jc_pretty jc) ?L = Inr legacy"
    using assms(2) by (auto simp: serialize_application_config_document_def)
  then obtain t where t: "validate_config_document ?L = Inr ()" "jc_pretty jc (document_to_json ?L) = Inr t" "legacy = t @ [CHR 0x0A]"
    "length legacy \<le> 4194304"
    by (auto simp: serialize_config_document_def Let_def not_less split: sum.splits if_splits)
  have wf: "json_wf (document_to_json ?L)" "json_finite (document_to_json ?L)"
    using document_json_wf [OF t(1)] by (simp_all add: config_wf_def keys_sorted_def)
  from codec_okD [OF assms(1) wf t(2)]
  obtain ev t' ev' where p: "jc_parse jc legacy = Inr (ev, JObj (v2_members a))"
    "jc_compact jc (JObj (v2_members a)) = Inr t'" "length t' \<le> length t" "jc_parse jc t' = Inr (ev', JObj (v2_members a))"
    "duplicate_key ev' = []" unfolding document_members t(3) by metis
  have wf3: "json_wf (JObj (v3_members a)) \<and> json_finite (JObj (v3_members a)) \<and> json_reparse (JObj (v3_members a)) = JObj (v3_members a)"
    using json_wf_reparse [OF wf(1)] json_finite_reparse [OF wf(2)] unfolding document_members by (rule v3_members_wf)
  obtain u where u: "jc_pretty jc (JObj (v3_members a)) = Inr u" "content = u @ [CHR 0x0A]" "length content \<le> 4194304"
    using assms(2) a p(1)
    by (auto simp: serialize_application_config_document_def v3_root_members Let_def not_less split: sum.splits if_splits)
  from codec_okD [OF assms(1) _ _ u(1)] wf3 obtain ev3 where "jc_parse jc content = Inr (ev3, JObj (v3_members a))" "duplicate_key ev3 = []"
    unfolding u(2) by metis
  with a(1) u p(2-5) t(3,4) show ?thesis by auto
qed

text \<open>C18: The application settings that were written to the configuration file are read back from
  it unchanged, and the schema of the file is recognised as the current one.\<close>

theorem application_config_roundtrip:
  assumes "text_codec_ok jc" "serialize_application_config_document jc a = Inr content"
  shows "parse_application_config_document jc content = Inr a \<and> detect_config_schema jc content = Inr SchemaV3"
proof -
  let ?L = "\<lparr>application = a, profiles = []\<rparr>"
  note w = application_written [OF assms]
  then have root: "parse_root jc content = Inr (JObj (v3_members a))" by (auto simp: parse_root_def)
  from w have val: "validate_application_settings a = Inr ()" by blast
  have "validate_config_document ?L = Inr ()"
    using val by (auto simp: validate_config_document_def validate_config_document_failure_def validate_application_settings_def detail_of_def
        split: sum.splits prod.splits)
  then have again: "config_of_json (JObj (v2_members a)) = Inr (persisted ?L)"
    using config_of_json_back [of ?L] unfolding document_members by (simp add: config_wf_def keys_sorted_def)
  from w obtain t' ev where "jc_compact jc (JObj (v2_members a)) = Inr t'" "parse_config_document (jc_parse jc) t' = Inr (persisted ?L)"
    using again by (auto simp: parse_config_document_def)
  then show ?thesis
    using root val by (simp add: parse_application_config_document_def detect_config_schema_def v3_find v2_root_members persisted_def Let_def del: json_find.simps)
qed

text \<open>A codec that knows the texts of one configuration.\<close>

definition settings_codec :: "application_settings \<Rightarrow> json_codec" where
  "settings_codec a =
     \<lparr>jc_parse = (\<lambda>s. if s = [CHR ''a'', CHR 0x0A] \<or> s = ''c'' then Inr ([], JObj (v2_members a))
                   else if s = [CHR ''b'', CHR 0x0A] \<or> s = ''d'' then Inr ([], JObj (v3_members a)) else Inl ''error''),
      jc_pretty = (\<lambda>j. if j = document_to_json \<lparr>application = a, profiles = []\<rparr> then Inr ''a''
                    else if j = JObj (v3_members a) then Inr ''b'' else Inl ''error''),
      jc_compact = (\<lambda>j. if j = JObj (v2_members a) then Inr ''c'' else if j = JObj (v3_members a) then Inr ''d'' else Inl ''error'')\<rparr>"

lemma default_settings_valid: "validate_application_settings default_application_settings = Inr ()"
  by code_simp

lemma default_document_valid: "validate_config_document \<lparr>application = default_application_settings, profiles = []\<rparr> = Inr ()"
  using default_settings_valid
  by (auto simp: validate_config_document_def validate_config_document_failure_def validate_application_settings_def detail_of_def
      split: sum.splits prod.splits)

lemma default_v3_wf:
  "json_reparse (JObj (v3_members default_application_settings)) = JObj (v3_members default_application_settings)"
proof -
  let ?a = default_application_settings
  have wf: "json_wf (document_to_json \<lparr>application = ?a, profiles = []\<rparr>)" "json_finite (document_to_json \<lparr>application = ?a, profiles = []\<rparr>)"
    using document_json_wf [OF default_document_valid] by (simp_all add: config_wf_def keys_sorted_def)
  show ?thesis
    using v3_members_wf [of ?a] json_wf_reparse [OF wf(1)] json_finite_reparse [OF wf(2)] unfolding document_members by blast
qed

lemma settings_codec_ok: "text_codec_ok (settings_codec default_application_settings)"
proof -
  have "v2_members a \<noteq> v3_members b" for a b by (simp add: v2_members_def v3_members_def)
  then show ?thesis
    unfolding text_codec_ok_def settings_codec_def
    by (auto simp: document_members default_v3_wf duplicate_key_def simp del: json_reparse.simps(3) split: if_splits)
qed

lemma document_not_v3: "JObj (v3_members a) \<noteq> document_to_json \<lparr>application = b, profiles = []\<rparr>"
  by (simp add: document_to_json_def json_object_def map_of_entries_def v3_members_def)

lemma settings_codec_serializes:
  "serialize_application_config_document (settings_codec default_application_settings) default_application_settings = Inr [CHR ''b'', CHR 0x0A]"
  by (simp add: serialize_application_config_document_def serialize_config_document_def default_settings_valid default_document_valid
      settings_codec_def v3_root_members document_not_v3)

theorem application_config_roundtrip_witness:
  "text_codec_ok (settings_codec default_application_settings)
   \<and> parse_application_config_document (settings_codec default_application_settings) [CHR ''b'', CHR 0x0A] = Inr default_application_settings"
  using application_config_roundtrip [OF settings_codec_ok settings_codec_serializes] settings_codec_ok by blast

end
