(* ===== verification/ConfigEditing.thy ===== *)
theory ConfigEditing
  imports Compiler
begin

text \<open>
  The check every configuration passes before it is saved, \<^verbatim>\<open>validate_config_candidate\<close> of
  \<^verbatim>\<open>src/config/config_editing_service.cpp\<close>, and the editing service around it. The
  lemmas at the end say that an accepted candidate with an enabled profile compiles, and that a commit
  succeeds exactly when the active draft is accepted and the repository saves that very draft.
\<close>

section \<open>Candidates\<close>

datatype validation_error =
  CandidateNone | CandidateInvalidDocument | CandidateUnknownProtocol | CandidateInvalidProfile | CandidateInvalidRules
| CandidateInvalidLogPath | CandidateRouteCollision | CandidateCompileFailed

record candidate_failure =
  cf_code :: validation_error
  cf_profile_id :: string
  cf_field :: string
  cf_detail :: string

text \<open>The routes taken so far: method and canonical path, with the profile and the field.\<close>

type_synonym candidate_routes = "(string \<times> string) \<rightharpoonup> (string \<times> string)"

definition add_candidate_route ::
    "candidate_routes \<Rightarrow> string \<Rightarrow> string \<Rightarrow> string \<Rightarrow> string \<Rightarrow> candidate_failure + candidate_routes" where
  "add_candidate_route routes verb path pid field =
     (case canonicalize_http_path path of
        Inl e \<Rightarrow> Inl \<lparr>cf_code = CandidateInvalidProfile, cf_profile_id = pid, cf_field = field, cf_detail = e\<rparr>
      | Inr canonical \<Rightarrow>
          (case routes (verb, canonical) of
             None \<Rightarrow> Inr (routes((verb, canonical) \<mapsto> (pid, field)))
           | Some (other, _) \<Rightarrow>
               Inl \<lparr>cf_code = CandidateRouteCollision, cf_profile_id = pid, cf_field = field,
                    cf_detail = ''route collision for '' @ verb @ '' '' @ canonical @ '' between profiles '' @ other @ '' and '' @ pid\<rparr>))"

definition check_candidate_profile ::
    "protocol_registry \<Rightarrow> rule_registry \<Rightarrow> string \<Rightarrow> profile_definition \<Rightarrow> candidate_routes \<Rightarrow> candidate_failure + candidate_routes" where
  "check_candidate_profile protocols rules pid p routes =
     (if \<not> profile_enabled p \<and> \<not> list_ex rule_enabled (profile_rules p) then Inr routes
      else case protocol p of
        None \<Rightarrow> Inl \<lparr>cf_code = CandidateInvalidProfile, cf_profile_id = pid, cf_field = ''protocol'',
                     cf_detail = ''profile '' @ pid @ '' must set protocol before enabling the profile or one of its rules''\<rparr>
      | Some name \<Rightarrow>
          (case protocol_find protocols name of
             None \<Rightarrow> Inl \<lparr>cf_code = CandidateUnknownProtocol, cf_profile_id = pid, cf_field = ''protocol'',
                          cf_detail = ''profile '' @ pid @ '' uses unknown protocol: '' @ name\<rparr>
           | Some h \<Rightarrow>
               (case (if profile_enabled p then registry_validate_profile protocols (Some h) pid p else Inr ()) of
                  Inl e \<Rightarrow> Inl \<lparr>cf_code = CandidateInvalidProfile, cf_profile_id = pid, cf_field = [], cf_detail = ''profile '' @ pid @ '': '' @ e\<rparr>
                | Inr _ \<Rightarrow>
                    (case compile_pipeline rules (profile_rules p) (Some h) of
                       Inl e \<Rightarrow> Inl \<lparr>cf_code = CandidateInvalidRules, cf_profile_id = pid, cf_field = ''rules'', cf_detail = ''profile '' @ pid @ '': '' @ e\<rparr>
                     | Inr _ \<Rightarrow>
                         if \<not> profile_enabled p then Inr routes
                         else res_bind (add_candidate_route routes (request_method (descriptor h)) (the (local_request_path (locals p))) pid ''local.request-path'') (\<lambda>routes.
                           case local_usage_path (locals p) of
                             None \<Rightarrow> Inr routes
                           | Some path \<Rightarrow> add_candidate_route routes (usage_method (descriptor h)) path pid ''local.usage-path'')))))"

fun check_candidate_profiles ::
    "protocol_registry \<Rightarrow> rule_registry \<Rightarrow> (string \<times> profile_definition) list \<Rightarrow> candidate_routes \<Rightarrow> candidate_failure + candidate_routes" where
  "check_candidate_profiles protocols rules [] routes = Inr routes"
| "check_candidate_profiles protocols rules ((pid, p) # ps) routes =
     res_bind (check_candidate_profile protocols rules pid p routes) (check_candidate_profiles protocols rules ps)"

definition validate_config_candidate_failure :: "config_document \<Rightarrow> fs_path \<Rightarrow> candidate_failure + unit" where
  "validate_config_candidate_failure document root =
     (let protocols = projr builtin_protocol_registry; rules = projr builtin_rule_registry in
      case validate_config_document_failure document of
        Inl f \<Rightarrow> Inl \<lparr>cf_code = CandidateInvalidDocument, cf_profile_id = failure_profile_id f, cf_field = failure_field f, cf_detail = failure_detail f\<rparr>
      | Inr _ \<Rightarrow>
          res_bind (check_candidate_profiles protocols rules (profiles document) (\<lambda>_. None)) (\<lambda>_.
          case resolve_application_log_path (application document) root of
            Inl e \<Rightarrow> Inl \<lparr>cf_code = CandidateInvalidLogPath, cf_profile_id = [], cf_field = ''logging.path'', cf_detail = e\<rparr>
          | Inr _ \<Rightarrow>
              if list_ex (\<lambda>(_, p). profile_enabled p) (profiles document)
              then (case runtime_compile root (Some protocols) (Some rules) document None of
                      Inl e \<Rightarrow> Inl \<lparr>cf_code = CandidateCompileFailed, cf_profile_id = [], cf_field = [], cf_detail = e\<rparr>
                    | Inr _ \<Rightarrow> Inr ())
              else Inr ()))"

definition validate_config_candidate :: "config_document \<Rightarrow> fs_path \<Rightarrow> unit res" where
  "validate_config_candidate document root =
     (case validate_config_candidate_failure document root of Inl f \<Rightarrow> Inl (cf_detail f) | Inr _ \<Rightarrow> Inr ())"

section \<open>The editing service\<close>

text \<open>The service and the repository behind it: whether it is loaded, its document, and its \<^verbatim>\<open>save\<close>.\<close>

record editing_service =
  es_draft :: config_document
  es_active :: bool

record 'r document_repository =
  dr_loaded :: "'r \<Rightarrow> bool"
  dr_document :: "'r \<Rightarrow> config_document"
  dr_root :: "'r \<Rightarrow> fs_path"
  dr_save :: "config_document \<Rightarrow> 'r \<Rightarrow> unit res \<times> 'r"

definition editing_begin :: "'r document_repository \<Rightarrow> 'r \<Rightarrow> editing_service \<Rightarrow> unit res \<times> editing_service" where
  "editing_begin repo r s =
     (if es_active s then (Inl ''config editing service already has an active draft'', s)
      else if \<not> dr_loaded repo r then (Inl ''config repository is not loaded'', s)
      else (Inr (), s\<lparr>es_draft := dr_document repo r, es_active := True\<rparr>))"

definition editing_validate :: "'r document_repository \<Rightarrow> 'r \<Rightarrow> editing_service \<Rightarrow> unit res" where
  "editing_validate repo r s =
     (if \<not> es_active s then Inl ''config editing service has no active draft''
      else validate_config_candidate (es_draft s) (dr_root repo r))"

definition editing_commit :: "'r document_repository \<Rightarrow> 'r \<Rightarrow> editing_service \<Rightarrow> unit res \<times> editing_service \<times> 'r" where
  "editing_commit repo r s =
     (case editing_validate repo r s of
        Inl e \<Rightarrow> (Inl e, s, r)
      | Inr _ \<Rightarrow>
          (case dr_save repo (es_draft s) r of
             (Inl e, r') \<Rightarrow> (Inl e, s, r')
           | (Inr _, r') \<Rightarrow> (Inr (), s\<lparr>es_active := False\<rparr>, r')))"

definition editing_discard :: "editing_service \<Rightarrow> editing_service" where
  "editing_discard s = s\<lparr>es_active := False\<rparr>"

definition editing_draft :: "editing_service \<Rightarrow> config_document res" where
  "editing_draft s = (if es_active s then Inr (es_draft s) else Inl ''config editing service has no active draft'')"

lemma accepted_candidate_compiles:
  assumes "validate_config_candidate d root = Inr u" "(pid, p) \<in> set (profiles d)" "profile_enabled p"
  shows "\<exists>snap. runtime_compile root (Some (projr builtin_protocol_registry)) (Some (projr builtin_rule_registry)) d None = Inr snap"
proof -
  have "list_ex (\<lambda>(_, p). profile_enabled p) (profiles d)" using assms(2,3) by (auto simp: list_ex_iff)
  with assms(1) show ?thesis
    by (auto simp: validate_config_candidate_def validate_config_candidate_failure_def Let_def split: sum.splits if_splits)
qed

lemma editing_commit_iff:
  "editing_commit repo r s = (Inr (), s', r') \<longleftrightarrow>
     es_active s \<and> validate_config_candidate (es_draft s) (dr_root repo r) = Inr ()
     \<and> dr_save repo (es_draft s) r = (Inr (), r') \<and> s' = s\<lparr>es_active := False\<rparr>"
  by (auto simp: editing_commit_def editing_validate_def split: sum.splits prod.splits if_splits)

lemma editing_commit_failed:
  assumes "editing_commit repo r s = (Inl e, s', r')"
  shows "s' = s"
  using assms by (auto simp: editing_commit_def split: sum.splits prod.splits)

end
