(* ===== verification/Repository.thy ===== *)
theory Repository
  imports DurableFiles ConfigSnapshot ApplicationConfig ConfigEditing
begin

text \<open>
  The configuration repository, \<^verbatim>\<open>src/config/composite_config_repository.cpp\<close>: the settings are in a JSON
  file and the profiles in a database, and a change of both goes through a journal: a directory
  with the old and the new file and a manifest is made under a temporary name and renamed, the
  file is replaced, the database is saved, and the journal is removed. A process that finds a
  journal first brings the two stores to the old or the new state. Everything is a program on the
  disk of the theory \<open>Disk\<close>, where any call may fail and the process may end at any call. The
  object of the source (snapshot, document, loaded, last failure) is a record that the methods
  take and return.
\<close>

section \<open>Paths\<close>

record app_paths =
  ap_root :: location
  ap_config_file :: location
  ap_profiles_database :: location
  ap_logs_directory :: location
  ap_default_log_file :: location
  ap_host_log_file :: location
  ap_state_directory :: location
  ap_ui_preferences_file :: location
  ap_repository_lock_file :: location
  ap_transaction_directory :: location
  ap_migrations_directory :: location

definition make_app_paths :: "location \<Rightarrow> app_paths" where
  "make_app_paths root =
     \<lparr>ap_root = root, ap_config_file = root @ [''config.json''], ap_profiles_database = root @ [''profiles.db''],
      ap_logs_directory = root @ [''logs''], ap_default_log_file = root @ [''logs'', ''ccs-trans.log''],
      ap_host_log_file = root @ [''logs'', ''ccs-trans-host.log''], ap_state_directory = root @ [''state''],
      ap_ui_preferences_file = root @ [''state'', ''ui.json''], ap_repository_lock_file = root @ [''state'', ''repository.lock''],
      ap_transaction_directory = root @ [''state'', ''repository-transaction''], ap_migrations_directory = root @ [''state'', ''migrations'']\<rparr>"

type_synonym 'a rio = "(database, repo_exn, 'a) io"

definition fs_chmod :: "location \<Rightarrow> ('d, 'e, bool) io" where
  "fs_chmod p = sys (\<lambda>d. p = [] \<or> d p \<noteq> None) 2 atomic id"

definition create_app_directory :: "location \<Rightarrow> (database, string, unit) io" where
  "create_app_directory p =
     io_then (require (\<lambda>t. ''failed to create application directory '' @ path_string p @ '': '' @ t) (fs_create_directories p))
       (require (\<lambda>t. ''failed to restrict application directory '' @ path_string p @ '': '' @ t) (fs_chmod p))"

definition ensure_app_directories :: "app_paths \<Rightarrow> (database, 'e, unit res) io" where
  "ensure_app_directories paths =
     io_attempt (io_each create_app_directory [ap_root paths, ap_logs_directory paths, ap_state_directory paths])"

text \<open>The settings of the model: paths, JSON functions, and what the build defines.\<close>

record repository_env =
  re_paths :: app_paths
  re_codec :: json_codec
  re_text :: json_text
  re_type_error :: "json \<Rightarrow> string"
  re_version :: string
  re_commit :: string
  re_dirty :: bool

abbreviation config_path :: "repository_env \<Rightarrow> location" where
  "config_path env \<equiv> ap_config_file (re_paths env)"

abbreviation database_path :: "repository_env \<Rightarrow> location" where
  "database_path env \<equiv> ap_profiles_database (re_paths env)"

abbreviation journal_path :: "repository_env \<Rightarrow> location" where
  "journal_path env \<equiv> ap_transaction_directory (re_paths env)"

section \<open>Reading both stores\<close>

definition map_profile_failure :: "store_failure \<Rightarrow> repo_failure" where
  "map_profile_failure f =
     (case f of NoFailure \<Rightarrow> RepoNone | NotFoundFailure \<Rightarrow> RepoRecoveryRequired | BusyFailure \<Rightarrow> RepoBusy | StaleFailure \<Rightarrow> RepoStale
      | ConstraintFailure \<Rightarrow> RepoConstraint | InvalidDataFailure \<Rightarrow> RepoInvalidDocument | CorruptFailure \<Rightarrow> RepoCorrupt
      | UnsupportedSchemaFailure \<Rightarrow> RepoUnsupportedSchema | IoFailure \<Rightarrow> RepoIo)"

definition store_result :: "store_error + 'a \<Rightarrow> 'a rio" where
  "store_result r = (case r of Inl (f, e) \<Rightarrow> repo_fail (map_profile_failure f) e | Inr x \<Rightarrow> io_return x)"

definition read_config_source :: "repository_env \<Rightarrow> source_token rio" where
  "read_config_source env =
     io_bind (path_exists (config_path env)) (\<lambda>there.
       if \<not> there then io_return \<lparr>st_exists = False, st_bytes = []\<rparr>
       else io_bind (read_bounded_file (config_path env) 4194304 ''config file'') (\<lambda>bytes. io_return \<lparr>st_exists = True, st_bytes = bytes\<rparr>))"

text \<open>\<^verbatim>\<open>sha256_file_hex\<close> on the disk: the file is opened and read to its end.\<close>

definition file_sha256 :: "location \<Rightarrow> ('d, 'e, string res) io" where
  "file_sha256 p =
     io_bind (sys (\<lambda>d. d p \<noteq> None \<and> d p \<noteq> Some Directory) 2 atomic id) (\<lambda>opened.
       if \<not> opened then io_return (sha256_file_hex False (path_string p) [] False)
       else io_bind (fs_query (\<lambda>m. file_bytes m p)) (\<lambda>r.
         io_return (sha256_file_hex True (path_string p) (case r of Some (Some bytes) \<Rightarrow> [bytes] | _ \<Rightarrow> []) (case r of Some (Some _) \<Rightarrow> True | _ \<Rightarrow> False))))"

record database_state =
  ds_exists :: bool
  ds_snapshot :: store_snapshot
  ds_sha256 :: "string option"

definition no_database :: database_state where
  "no_database = \<lparr>ds_exists = False, ds_snapshot = \<lparr>ps_revision = 0, ps_migrated = None, ps_profiles = []\<rparr>, ds_sha256 = None\<rparr>"

definition read_database_state :: "repository_env \<Rightarrow> bool \<Rightarrow> database_state rio" where
  "read_database_state env include_hash =
     (let p = database_path env in
      io_bind (path_exists p) (\<lambda>there.
        if \<not> there
        then io_then (io_each (\<lambda>ending. io_bind (path_exists (with_suffix p ending)) (\<lambda>sidecar.
                 if sidecar then repo_fail RepoRecoveryRequired ''SQLite sidecar exists without profiles.db'' else io_return ()))
               [''-wal'', ''-shm'']) (io_return no_database)
        else io_bind (store_load (re_text env) p) (\<lambda>r. io_bind (store_result r) (\<lambda>s.
               if include_hash
               then io_bind (file_sha256 p) (\<lambda>h. case h of Inl e \<Rightarrow> repo_fail RepoIo e
                      | Inr sha \<Rightarrow> io_return \<lparr>ds_exists = True, ds_snapshot = s, ds_sha256 = Some sha\<rparr>)
               else io_return \<lparr>ds_exists = True, ds_snapshot = s, ds_sha256 = None\<rparr>))))"

section \<open>The journal\<close>

record repository_journal =
  rj_kind :: string
  rj_old_config :: source_token
  rj_new_config :: string
  rj_old_database :: bool
  rj_old_revision :: int
  rj_target_revision :: int
  rj_old_migration :: "string option"
  rj_target_migration :: "string option"
  rj_old_sha256 :: "string option"
  rj_target_sha256 :: "string option"
  rj_backup :: "string option"

abbreviation journal_schema :: string where
  "journal_schema \<equiv> ''ccs-trans.repository-transaction/v1''"

definition optional_json :: "string option \<Rightarrow> json" where
  "optional_json v = (case v of None \<Rightarrow> JNull | Some s \<Rightarrow> JStr s)"

definition journal_manifest :: "repository_journal \<Rightarrow> json" where
  "journal_manifest j = json_object
     [(''schema_version'', JStr journal_schema),
      (''kind'', JStr (rj_kind j)),
      (''old_config_exists'', JBool (st_exists (rj_old_config j))),
      (''old_config_sha256'', if st_exists (rj_old_config j) then JStr (sha256_hex (st_bytes (rj_old_config j))) else JNull),
      (''new_config_sha256'', JStr (sha256_hex (rj_new_config j))),
      (''old_database_exists'', JBool (rj_old_database j)),
      (''old_profile_revision'', JInt (word_of_int (rj_old_revision j))),
      (''target_profile_revision'', JInt (word_of_int (rj_target_revision j))),
      (''old_migration_hash'', optional_json (rj_old_migration j)),
      (''target_migration_hash'', optional_json (rj_target_migration j)),
      (''old_database_sha256'', optional_json (rj_old_sha256 j)),
      (''target_database_sha256'', optional_json (rj_target_sha256 j)),
      (''old_database_backup_directory'', optional_json (rj_backup j))]"

text \<open>\<^verbatim>\<open>value.dump(2) + "\n"\<close>; the printer throws on text that is not UTF-8.\<close>

definition manifest_text :: "repository_env \<Rightarrow> json \<Rightarrow> repo_exn + string" where
  "manifest_text env j = (case jc_pretty (re_codec env) j of Inl e \<Rightarrow> Inl (StdException e) | Inr t \<Rightarrow> Inr (t @ [CHR 0x0A]))"

definition write_journal :: "repository_env \<Rightarrow> repository_journal \<Rightarrow> unit rio" where
  "write_journal env j =
     io_bind (path_exists (journal_path env)) (\<lambda>there.
       if there then repo_fail RepoRecoveryRequired ''unfinished repository transaction requires recovery''
       else io_bind (temporary_path (journal_path env)) (\<lambda>tmp.
         io_then (require (io_error ''failed to create transaction directory: '') (fs_create_directory tmp))
         (io_cleanup
           (io_then (if st_exists (rj_old_config j) then write_durable_file (tmp @ [''old-config.bin'']) (st_bytes (rj_old_config j)) else io_return ())
           (io_then (write_durable_file (tmp @ [''new-config.json'']) (rj_new_config j))
           (io_bind (io_lift (manifest_text env (journal_manifest j))) (\<lambda>text.
            io_then (write_durable_file (tmp @ [''manifest.json'']) text)
            (io_then (sync_directory tmp) (move_directory_no_replace tmp (journal_path env)))))))
           (fs_remove_all tmp))))"

definition json_text_at :: "json \<Rightarrow> string \<Rightarrow> string option" where
  "json_text_at root key = (case json_find key root of Some (JStr s) \<Rightarrow> Some s | _ \<Rightarrow> None)"

definition json_flag_at :: "json \<Rightarrow> string \<Rightarrow> bool option" where
  "json_flag_at root key = (case json_find key root of Some (JBool b) \<Rightarrow> Some b | _ \<Rightarrow> None)"

definition json_int64_at :: "json \<Rightarrow> string \<Rightarrow> int option" where
  "json_int64_at root key = (case json_find key root of Some (JInt i) \<Rightarrow> Some (sint i) | Some (JUint u) \<Rightarrow> Some (sint u) | _ \<Rightarrow> None)"

text \<open>\<^verbatim>\<open>root.value(key, "")\<close> throws when the member is not a string.\<close>

definition json_value_text :: "repository_env \<Rightarrow> json \<Rightarrow> string \<Rightarrow> repo_exn + string" where
  "json_value_text env root key =
     (case json_find key root of None \<Rightarrow> Inr [] | Some (JStr s) \<Rightarrow> Inr s | Some v \<Rightarrow> Inl (StdException (re_type_error env v)))"

abbreviation recovery_error :: "string \<Rightarrow> repo_exn" where
  "recovery_error text \<equiv> RepositoryError RepoRecoveryRequired text"

definition read_optional_string :: "json \<Rightarrow> string \<Rightarrow> repo_exn + string option" where
  "read_optional_string root key =
     (case json_find key root of
        None \<Rightarrow> Inl (recovery_error (''journal is missing field: '' @ key))
      | Some JNull \<Rightarrow> Inr None
      | Some (JStr s) \<Rightarrow> Inr (Some s)
      | Some _ \<Rightarrow> Inl (recovery_error (''journal field has wrong type: '' @ key)))"

definition read_optional_string_if_present :: "json \<Rightarrow> string \<Rightarrow> repo_exn + string option" where
  "read_optional_string_if_present root key = (if json_find key root = None then Inr None else read_optional_string root key)"

definition valid_database_backup_directory_name :: "string \<Rightarrow> bool" where
  "valid_database_backup_directory_name name \<longleftrightarrow>
     length name = 12 + 64 \<and> take 12 name = ''replaced-db-'' \<and> list_all is_hex_lower (drop 12 name)"

definition parse_journal :: "repository_env \<Rightarrow> json \<Rightarrow> repo_exn + repository_journal" where
  "parse_journal env root =
     (let invalid = recovery_error ''repository transaction manifest is invalid'' in
      if \<not> is_object root then Inl invalid
      else res_bind (json_value_text env root ''schema_version'') (\<lambda>schema.
        case (json_text_at root ''kind'', json_flag_at root ''old_config_exists'', json_flag_at root ''old_database_exists'',
              json_int64_at root ''old_profile_revision'', json_int64_at root ''target_profile_revision'') of
          (Some k, Some old_config, Some old_database, Some old_revision, Some target_revision) \<Rightarrow>
            if schema \<noteq> journal_schema then Inl invalid
            else res_bind (read_optional_string root ''old_migration_hash'') (\<lambda>old_migration.
              res_bind (read_optional_string root ''target_migration_hash'') (\<lambda>target_migration.
              res_bind (read_optional_string_if_present root ''old_database_sha256'') (\<lambda>old_sha.
              res_bind (read_optional_string_if_present root ''target_database_sha256'') (\<lambda>target_sha.
              res_bind (read_optional_string_if_present root ''old_database_backup_directory'') (\<lambda>backup.
                if (case backup of None \<Rightarrow> False
                    | Some name \<Rightarrow> \<not> valid_database_backup_directory_name name \<or> k \<noteq> ''migration'' \<or> \<not> old_database \<or> old_sha = None)
                then Inl (recovery_error ''journal database backup reference is invalid'')
                else Inr \<lparr>rj_kind = k, rj_old_config = \<lparr>st_exists = old_config, st_bytes = []\<rparr>, rj_new_config = [], rj_old_database = old_database,
                          rj_old_revision = old_revision, rj_target_revision = target_revision, rj_old_migration = old_migration,
                          rj_target_migration = target_migration, rj_old_sha256 = old_sha, rj_target_sha256 = target_sha, rj_backup = backup\<rparr>)))))
        | _ \<Rightarrow> Inl invalid))"

definition check_journal_hashes :: "json \<Rightarrow> repository_journal \<Rightarrow> repo_exn + repository_journal" where
  "check_journal_hashes root j =
     res_bind (read_optional_string root ''old_config_sha256'') (\<lambda>old_hash.
       if st_exists (rj_old_config j) \<and> old_hash \<noteq> Some (sha256_hex (st_bytes (rj_old_config j)))
       then Inl (recovery_error ''journal old config hash mismatch'')
       else if \<not> st_exists (rj_old_config j) \<and> old_hash \<noteq> None then Inl (recovery_error ''journal has hash for absent old config'')
       else if json_text_at root ''new_config_sha256'' \<noteq> Some (sha256_hex (rj_new_config j))
       then Inl (recovery_error ''journal new config hash mismatch'')
       else Inr j)"

definition parse_manifest :: "repository_env \<Rightarrow> string \<Rightarrow> repo_exn + json" where
  "parse_manifest env bytes =
     (case jc_parse (re_codec env) bytes of
        Inl e \<Rightarrow> Inl (recovery_error (''failed to parse repository transaction manifest: '' @ e))
      | Inr (_, root) \<Rightarrow> Inr root)"

definition read_journal :: "repository_env \<Rightarrow> repository_journal rio" where
  "read_journal env =
     (let dir = journal_path env in
      io_bind (read_bounded_file (dir @ [''manifest.json'']) 1048576 ''repository transaction manifest'') (\<lambda>bytes.
      io_bind (io_lift (parse_manifest env bytes)) (\<lambda>root.
      io_bind (io_lift (parse_journal env root)) (\<lambda>j.
      io_bind (if st_exists (rj_old_config j) then read_bounded_file (dir @ [''old-config.bin'']) 4194304 ''journal old config'' else io_return []) (\<lambda>old.
      io_bind (read_bounded_file (dir @ [''new-config.json'']) 4194304 ''journal new config'') (\<lambda>new.
        io_lift (check_journal_hashes root (j\<lparr>rj_old_config := \<lparr>st_exists = st_exists (rj_old_config j), st_bytes = old\<rparr>, rj_new_config := new\<rparr>))))))))"

definition clear_journal :: "repository_env \<Rightarrow> string \<Rightarrow> unit rio" where
  "clear_journal env k =
     io_then (if k = ''migration'' then remove_database_family (with_suffix (database_path env) ''.migrating'') else io_return ())
     (io_then (require (io_error ''failed to clear transaction journal: '') (fs_remove_all (journal_path env)))
       (sync_directory (ap_state_directory (re_paths env))))"

definition database_matches :: "database_state \<Rightarrow> bool \<Rightarrow> int \<Rightarrow> string option \<Rightarrow> string option \<Rightarrow> bool" where
  "database_matches actual there revision migration sha \<longleftrightarrow>
     ds_exists actual = there
     \<and> (there \<longrightarrow> ps_revision (ds_snapshot actual) = revision \<and> ps_migrated (ds_snapshot actual) = migration
          \<and> (sha = None \<or> ds_sha256 actual = sha))"

definition recoverable_replacement_database_failure :: "repo_failure \<Rightarrow> bool" where
  "recoverable_replacement_database_failure f \<longleftrightarrow> f \<in> {RepoInvalidDocument, RepoCorrupt, RepoUnsupportedSchema, RepoRecoveryRequired}"

definition restore_config :: "repository_env \<Rightarrow> source_token \<Rightarrow> unit rio" where
  "restore_config env source =
     (if st_exists source then write_atomic_file (config_path env) (st_bytes source)
      else io_bind (path_exists (config_path env)) (\<lambda>there.
        if there then remove_file_durable (config_path env) else io_return ()))"

section \<open>Backups\<close>

definition mark_file_read_only :: "location \<Rightarrow> unit rio" where
  "mark_file_read_only p = require (io_error ''failed to mark migration backup read-only: '') (fs_chmod p)"

text \<open>Copying: the bytes that were copied so far are a plain file, all of them are the same database.\<close>

definition copy_node :: "(database \<Rightarrow> string) \<Rightarrow> nat \<Rightarrow> database node option \<Rightarrow> database node option" where
  "copy_node bytes_in n v =
     (case v of Some (Regular s) \<Rightarrow> Some (Regular (take n s)) | Some (Store d) \<Rightarrow> Some (Regular (take n (bytes_in d))) | _ \<Rightarrow> Some (Regular []))"

definition copy_durable_file :: "location \<Rightarrow> location \<Rightarrow> unit rio" where
  "copy_durable_file s t =
     io_then (require_regular_file s ''database backup source'')
     (io_then (require (io_error ''failed to open database backup source: '') fs_flush)
     (io_then (require (io_error ''failed to create database backup: '') (fs_create t))
     (io_bind (io_get mc_image) (\<lambda>bytes_in.
      io_bind (sys (\<lambda>_. True) 0 (\<lambda>n d. d(t := copy_node bytes_in n (d s))) (\<lambda>d. d(t := d s))) (\<lambda>ok.
      io_bind (if ok then fs_flush else io_return False) (\<lambda>ok.
      io_bind (io_get (\<lambda>m. mc_message m (mc_errno m))) (\<lambda>saved.
      io_bind fs_flush (\<lambda>input_closed.
      io_bind (if ok \<and> \<not> input_closed then io_get (\<lambda>m. mc_message m (mc_errno m)) else io_return saved) (\<lambda>saved.
      io_bind fs_flush (\<lambda>output_closed.
      io_bind (if ok \<and> input_closed \<and> \<not> output_closed then io_get (\<lambda>m. mc_message m (mc_errno m)) else io_return saved) (\<lambda>saved.
        if ok \<and> input_closed \<and> output_closed then io_return () else io_raise (io_error ''failed to copy database backup: '' saved))))))))))))"

text \<open>\<^verbatim>\<open>link\<close> and \<^verbatim>\<open>unlink\<close>; when one of them fails the target is removed again.\<close>

definition move_file_no_replace :: "location \<Rightarrow> location \<Rightarrow> unit rio" where
  "move_file_no_replace s t =
     io_bind (path_exists t) (\<lambda>there.
       if there then repo_fail RepoConstraint (''target file already exists: '' @ path_string t)
       else io_bind (sys (\<lambda>d. d s \<noteq> None \<and> d t = None \<and> is_directory d (parent_path t)) 2 atomic (\<lambda>d. d(t := d s))) (\<lambda>linked.
         io_bind (if linked then sys (\<lambda>_. True) 0 atomic (\<lambda>d. d(s := None)) else io_return False) (\<lambda>moved.
           if moved then sync_directory (parent_path t)
           else io_bind (io_get (\<lambda>m. mc_message m (mc_errno m))) (\<lambda>text.
             io_bind (discard_file t) (\<lambda>_. io_raise (io_error ''failed to move file without replacement: '' text))))))"

definition manifest_matches :: "repository_env \<Rightarrow> json \<Rightarrow> (string \<times> string) list \<Rightarrow> repo_exn + bool" where
  "manifest_matches env root expected =
     (if \<not> is_object root then Inr False
      else foldl (\<lambda>acc (key, value). res_bind acc (\<lambda>ok. if \<not> ok then Inr False else res_map (\<lambda>s. s = value) (json_value_text env root key)))
             (Inr True) expected)"

text \<open>The exceptions of the JSON library while a backup manifest is read are failures of the backup.\<close>

definition json_failures_as :: "repo_failure \<Rightarrow> string \<Rightarrow> repo_exn + 'a \<Rightarrow> repo_exn + 'a" where
  "json_failures_as f text r = (case r of Inl (StdException e) \<Rightarrow> Inl (RepositoryError f (text @ e)) | _ \<Rightarrow> r)"

definition parse_json_text :: "repository_env \<Rightarrow> string \<Rightarrow> repo_exn + json" where
  "parse_json_text env bytes = (case jc_parse (re_codec env) bytes of Inl e \<Rightarrow> Inl (StdException e) | Inr (_, root) \<Rightarrow> Inr root)"

abbreviation migration_schema :: string where
  "migration_schema \<equiv> ''ccs-trans.migration/v1''"

definition existing_migration_backup :: "repository_env \<Rightarrow> location \<Rightarrow> string \<Rightarrow> string \<Rightarrow> unit rio" where
  "existing_migration_backup env place source_bytes source_hash =
     io_bind (read_bounded_file (place @ [''config-v2.json'']) 4194304 ''migration backup'') (\<lambda>existing.
       if existing \<noteq> source_bytes then repo_fail RepoConstraint ''migration backup directory contains different source bytes''
       else io_bind (read_bounded_file (place @ [''manifest.json'']) 1048576 ''migration backup manifest'') (\<lambda>bytes.
         io_then (io_lift (json_failures_as RepoConstraint ''failed to validate migration backup manifest: ''
             (res_bind (parse_json_text env bytes) (\<lambda>root.
              res_bind (manifest_matches env root
                [(''schema_version'', migration_schema), (''source_schema'', ''ccs-trans.config/v2''), (''source_sha256'', source_hash)]) (\<lambda>ok.
                if ok then Inr () else Inl (RepositoryError RepoConstraint ''migration backup manifest does not match the v2 source''))))))
         (io_then (mark_file_read_only (place @ [''config-v2.json''])) (mark_file_read_only (place @ [''manifest.json''])))))"

definition write_migration_backup :: "repository_env \<Rightarrow> string \<Rightarrow> string \<Rightarrow> unit rio" where
  "write_migration_backup env source_bytes source_hash =
     (let place = ap_migrations_directory (re_paths env) @ [source_hash] in
      io_bind (path_exists place) (\<lambda>there.
        if there then existing_migration_backup env place source_bytes source_hash
        else io_bind (temporary_path place) (\<lambda>tmp.
          io_then (require (io_error ''failed to create migration backup: '') (fs_create_directories tmp))
          (io_cleanup
            (io_then (write_durable_file (tmp @ [''config-v2.json'']) source_bytes)
            (io_bind (io_lift (manifest_text env (json_object
                [(''schema_version'', JStr migration_schema), (''source_schema'', JStr ''ccs-trans.config/v2''), (''source_sha256'', JStr source_hash),
                 (''source_bytes'', JUint (of_nat (length source_bytes))), (''ccs_trans_version'', JStr (re_version env)),
                 (''source_commit'', JStr (re_commit env)), (''source_dirty'', JBool (re_dirty env))]))) (\<lambda>text.
             io_then (write_durable_file (tmp @ [''manifest.json'']) text)
             (io_then (sync_directory tmp)
             (io_then (move_directory_no_replace tmp place)
             (io_then (mark_file_read_only (place @ [''config-v2.json''])) (mark_file_read_only (place @ [''manifest.json'']))))))))
            (fs_remove_all tmp)))))"

definition require_plain_directory :: "location \<Rightarrow> string \<Rightarrow> unit rio" where
  "require_plain_directory p label =
     io_bind (fs_query (\<lambda>m. is_directory (mc_disk m) p)) (\<lambda>r.
       if r = Some True then io_return () else io_raise (io_error label '' must be a non-symlink directory''))"

definition inspect_sidecar :: "location \<Rightarrow> string \<Rightarrow> (bool \<times> nat) rio" where
  "inspect_sidecar database ending =
     (let p = with_suffix database ending in
      io_bind (path_exists p) (\<lambda>there.
        if \<not> there then io_return (False, 0)
        else io_then (require_regular_file p ''SQLite sidecar'')
          (io_bind (fs_query (\<lambda>m. file_bytes m p)) (\<lambda>r.
             case r of Some (Some bytes) \<Rightarrow> io_return (True, length bytes)
             | _ \<Rightarrow> repo_fail RepoIo ''failed to inspect SQLite sidecar size''))))"

definition inspect_database_sidecars :: "location \<Rightarrow> ((bool \<times> nat) \<times> (bool \<times> nat)) rio" where
  "inspect_database_sidecars database =
     io_bind (inspect_sidecar database ''-wal'') (\<lambda>wal. io_bind (inspect_sidecar database ''-shm'') (\<lambda>shm. io_return (wal, shm)))"

definition sidecar_json :: "(bool \<times> nat) \<times> (bool \<times> nat) \<Rightarrow> json" where
  "sidecar_json = (\<lambda>((wal, wal_bytes), (shm, shm_bytes)). json_object
     [(''wal'', json_object [(''exists'', JBool wal), (''bytes'', JUint (of_nat wal_bytes))]),
      (''shm'', json_object [(''exists'', JBool shm), (''bytes'', JUint (of_nat shm_bytes))])])"

definition optional_manifest_value_matches :: "json \<Rightarrow> string \<Rightarrow> string option \<Rightarrow> bool" where
  "optional_manifest_value_matches root key expected =
     (case json_find key root of None \<Rightarrow> False | Some v \<Rightarrow> v = optional_json expected)"

definition discard_database_family :: "location \<Rightarrow> ('d, 'e, bool) io" where
  "discard_database_family p =
     io_bind (discard_file p) (\<lambda>_. io_bind (discard_file (with_suffix p ''-wal'')) (\<lambda>_. discard_file (with_suffix p ''-shm'')))"

definition verify_database_backup_bytes :: "repository_env \<Rightarrow> location \<Rightarrow> string \<Rightarrow> store_snapshot option \<Rightarrow> repo_failure \<Rightarrow> store_snapshot rio" where
  "verify_database_backup_bytes env database expected_hash expected failure =
     io_bind (file_sha256 database) (\<lambda>h.
       case h of
         Inl e \<Rightarrow> repo_fail failure (if e = [] then ''database backup hash mismatch'' else e)
       | Inr actual \<Rightarrow>
           if actual \<noteq> expected_hash then repo_fail failure ''database backup hash mismatch''
           else io_bind (temporary_path (database_path env)) (\<lambda>tmp.
             io_cleanup
               (io_then (copy_durable_file database tmp)
               (io_bind (store_load (re_text env) tmp) (\<lambda>r.
                  case r of
                    Inl (_, e) \<Rightarrow> repo_fail failure (if e = [] then ''database backup semantic verification failed'' else e)
                  | Inr s \<Rightarrow>
                      io_then (remove_database_family tmp)
                        (if (case expected of None \<Rightarrow> False | Some x \<Rightarrow> s \<noteq> x) then repo_fail failure ''database backup semantic snapshot mismatch''
                         else io_return s))))
               (discard_database_family tmp)))"

abbreviation backup_schema :: string where
  "backup_schema \<equiv> ''ccs-trans.database-replacement-backup/v1''"

text \<open>\<^verbatim>\<open>value("profile_revision", -1)\<close> takes any number; a double is truncated.\<close>

definition truncated :: "double \<Rightarrow> int" where
  "truncated d =
     (case d of DFin negative m e \<Rightarrow> (if negative then - 1 else 1) * (if e \<ge> 0 then int m * 2 ^ nat e else int m div 2 ^ nat (- e)) | _ \<Rightarrow> 0)"

definition backup_manifest_bytes ::
    "repository_env \<Rightarrow> repo_failure \<Rightarrow> json \<Rightarrow> string \<Rightarrow> string \<Rightarrow> int \<Rightarrow> string option \<Rightarrow> repo_exn + nat" where
  "backup_manifest_bytes env failure root source_hash database_hash revision migration =
     (let mismatch = RepositoryError failure ''database backup manifest does not match the replacement source'' in
      res_bind (manifest_matches env root
          [(''schema_version'', backup_schema), (''source_config_sha256'', source_hash), (''database_sha256'', database_hash)]) (\<lambda>ok.
        case json_find ''database_bytes'' root of
          Some (JUint bytes) \<Rightarrow>
            if \<not> ok then Inl mismatch
            else (case json_find ''profile_revision'' root of
                    None \<Rightarrow> if revision = -1 \<and> optional_manifest_value_matches root ''migrated_from_sha256'' migration then Inr (unat bytes) else Inl mismatch
                  | Some v \<Rightarrow>
                      (case (case v of JInt i \<Rightarrow> Some (sint i) | JUint u \<Rightarrow> Some (sint u)
                             | JFloat d \<Rightarrow> Some (truncated d) | _ \<Rightarrow> None) of
                         None \<Rightarrow> Inl (StdException (re_type_error env v))
                       | Some i \<Rightarrow> if i = revision \<and> optional_manifest_value_matches root ''migrated_from_sha256'' migration
                                   then Inr (unat bytes) else Inl mismatch))
        | _ \<Rightarrow> Inl mismatch))"

definition validate_database_replacement_backup ::
    "repository_env \<Rightarrow> string \<Rightarrow> string \<Rightarrow> string \<Rightarrow> int \<Rightarrow> string option \<Rightarrow> store_snapshot option \<Rightarrow> repo_failure \<Rightarrow> store_snapshot rio" where
  "validate_database_replacement_backup env name source_hash database_hash revision migration expected failure =
     (let place = ap_migrations_directory (re_paths env) @ [name]; database = place @ [''profiles.db''] in
      if \<not> valid_database_backup_directory_name name then repo_fail failure ''database backup directory name is invalid''
      else
        io_then (require_plain_directory place ''database backup directory'')
        (io_then (require_regular_file database ''database backup'')
        (io_then (io_each (\<lambda>ending. io_bind (path_exists (with_suffix database ending)) (\<lambda>there.
             if there then repo_fail failure ''database backup must not contain SQLite sidecars'' else io_return ())) [''-wal'', ''-shm''])
        (io_bind (read_bounded_file (place @ [''manifest.json'']) 1048576 ''database backup manifest'') (\<lambda>bytes.
         io_bind (io_lift (json_failures_as failure ''failed to validate database backup manifest: ''
             (res_bind (parse_json_text env bytes) (\<lambda>root. backup_manifest_bytes env failure root source_hash database_hash revision migration)))) (\<lambda>database_bytes.
         io_bind (fs_query (\<lambda>m. map_option length (file_bytes m database))) (\<lambda>size.
           if size \<noteq> Some (Some database_bytes) then repo_fail failure ''database backup size mismatch''
           else io_bind (verify_database_backup_bytes env database database_hash expected failure) (\<lambda>actual.
             if ps_revision actual \<noteq> revision \<or> ps_migrated actual \<noteq> migration
             then repo_fail failure ''database backup metadata does not match its manifest''
             else io_return actual))))))))"

definition write_database_replacement_backup ::
    "repository_env \<Rightarrow> string \<Rightarrow> database_state \<Rightarrow> (bool \<times> nat) \<times> (bool \<times> nat) \<Rightarrow> (bool \<times> nat) \<times> (bool \<times> nat) \<Rightarrow> (string \<times> string) rio" where
  "write_database_replacement_backup env source_hash database before after =
     (let p = database_path env; snap = ds_snapshot database in
      io_bind (file_sha256 p) (\<lambda>h.
        case h of
          Inl e \<Rightarrow> repo_fail RepoIo e
        | Inr database_hash \<Rightarrow>
            io_bind (fs_query (\<lambda>m. map_option length (file_bytes m p))) (\<lambda>r.
              case r of
                Some (Some database_bytes) \<Rightarrow>
                  (let name = ''replaced-db-'' @ sha256_hex (source_hash @ CHR 0x00 # database_hash);
                       place = ap_migrations_directory (re_paths env) @ [name];
                       marks = io_then (mark_file_read_only (place @ [''profiles.db''])) (mark_file_read_only (place @ [''manifest.json'']));
                       check = (\<lambda>failure. validate_database_replacement_backup env name source_hash database_hash
                                  (ps_revision snap) (ps_migrated snap) (Some snap) failure)
                   in io_bind (path_exists place) (\<lambda>there.
                     if there then io_bind (check RepoConstraint) (\<lambda>_. io_then marks (io_return (name, database_hash)))
                     else io_bind (temporary_path place) (\<lambda>tmp.
                       io_then (require (io_error ''failed to create database backup: '') (fs_create_directory tmp))
                       (io_cleanup
                         (io_then (copy_durable_file p (tmp @ [''profiles.db'']))
                         (io_bind (verify_database_backup_bytes env (tmp @ [''profiles.db'']) database_hash (Some snap) RepoIo) (\<lambda>_.
                          io_bind (io_lift (manifest_text env (json_object
                              [(''schema_version'', JStr backup_schema), (''source_config_sha256'', JStr source_hash), (''database_sha256'', JStr database_hash),
                               (''database_bytes'', JUint (of_nat database_bytes)), (''profile_revision'', JInt (word_of_int (ps_revision snap))),
                               (''migrated_from_sha256'', optional_json (ps_migrated snap)), (''sidecars_before_checkpoint'', sidecar_json before),
                               (''sidecars_after_checkpoint'', sidecar_json after), (''ccs_trans_version'', JStr (re_version env)),
                               (''source_commit'', JStr (re_commit env)), (''source_dirty'', JBool (re_dirty env))]))) (\<lambda>text.
                          io_then (write_durable_file (tmp @ [''manifest.json'']) text)
                          (io_then (sync_directory tmp)
                          (io_then (move_directory_no_replace tmp place)
                          (io_bind (check RepoIo) (\<lambda>_. io_then marks (io_return (name, database_hash))))))))))
                         (fs_remove_all tmp)))))
              | _ \<Rightarrow> repo_fail RepoIo ''failed to inspect profile database size'')))"

definition remove_database_sidecars :: "location \<Rightarrow> unit rio" where
  "remove_database_sidecars p =
     io_each (\<lambda>ending. io_bind (path_exists (with_suffix p ending)) (\<lambda>there.
       if there then remove_file_durable (with_suffix p ending) else io_return ())) [''-wal'', ''-shm'']"

definition restore_database_replacement_backup :: "repository_env \<Rightarrow> repository_journal \<Rightarrow> unit rio" where
  "restore_database_replacement_backup env j =
     (case (rj_old_sha256 j, rj_backup j) of
        (Some sha, Some name) \<Rightarrow>
          if rj_kind j \<noteq> ''migration'' \<or> \<not> st_exists (rj_old_config j) \<or> \<not> rj_old_database j
          then io_raise (recovery_error ''migration journal has no usable database replacement backup'')
          else io_bind (io_catch (validate_database_replacement_backup env name (sha256_hex (st_bytes (rj_old_config j))) sha
                   (rj_old_revision j) (rj_old_migration j) None RepoRecoveryRequired)
                 (\<lambda>e. case e of
                    RepositoryError _ t \<Rightarrow> io_raise (recovery_error (''database replacement backup cannot be used for recovery: '' @ t))
                  | StdException _ \<Rightarrow> io_raise e)) (\<lambda>snap.
            io_bind (temporary_path (database_path env)) (\<lambda>tmp.
              io_cleanup
                (io_then (copy_durable_file (ap_migrations_directory (re_paths env) @ [name, ''profiles.db'']) tmp)
                (io_bind (verify_database_backup_bytes env tmp sha (Some snap) RepoRecoveryRequired) (\<lambda>_.
                 io_then (remove_database_sidecars (database_path env))
                 (io_then (replace_file tmp (database_path env)) (restore_config env (rj_old_config j))))))
                (discard_database_family tmp)))
      | _ \<Rightarrow> io_raise (recovery_error ''migration journal has no usable database replacement backup''))"

section \<open>Recovery\<close>

definition settle_journal :: "repository_env \<Rightarrow> repository_journal \<Rightarrow> source_token \<Rightarrow> database_state \<Rightarrow> unit rio" where
  "settle_journal env j config database =
     (let old_config = (config = rj_old_config j);
          new_config = (st_exists config \<and> st_bytes config = rj_new_config j);
          old_database = database_matches database (rj_old_database j) (rj_old_revision j) (rj_old_migration j) (rj_old_sha256 j);
          target_database = database_matches database True (rj_target_revision j) (rj_target_migration j) (rj_target_sha256 j)
      in if old_config \<and> old_database then clear_journal env (rj_kind j)
         else if new_config \<and> old_database then io_then (restore_config env (rj_old_config j)) (clear_journal env (rj_kind j))
         else if old_config \<and> target_database then io_then (write_atomic_file (config_path env) (rj_new_config j)) (clear_journal env (rj_kind j))
         else if new_config \<and> target_database then clear_journal env (rj_kind j)
         else if rj_backup j \<noteq> None then io_then (restore_database_replacement_backup env j) (clear_journal env (rj_kind j))
         else io_raise (recovery_error ''repository state does not match transaction old or target values''))"

definition recover_journal :: "repository_env \<Rightarrow> unit rio" where
  "recover_journal env =
     io_bind (read_journal env) (\<lambda>j.
     io_bind (read_config_source env) (\<lambda>config.
     io_bind (io_attempt (read_database_state env True)) (\<lambda>r.
       case r of
         Inr database \<Rightarrow> settle_journal env j config database
       | Inl (RepositoryError f t) \<Rightarrow>
           if rj_backup j = None \<or> \<not> recoverable_replacement_database_failure f then io_raise (RepositoryError f t)
           else io_then (restore_database_replacement_backup env j) (clear_journal env (rj_kind j))
       | Inl (StdException t) \<Rightarrow> io_raise (StdException t))))"

text \<open>The result of a method that returns \<^verbatim>\<open>false\<close>: the failure and the error text.\<close>

type_synonym repo_error = "repo_failure \<times> string"

definition exn_error :: "repo_failure \<Rightarrow> string \<Rightarrow> repo_exn \<Rightarrow> repo_error" where
  "exn_error f prefix_text e = (case e of RepositoryError g t \<Rightarrow> (g, t) | StdException t \<Rightarrow> (f, prefix_text @ t))"

definition recover_locked :: "repository_env \<Rightarrow> (repo_error + unit) rio" where
  "recover_locked env =
     io_bind (path_exists (journal_path env)) (\<lambda>there.
       if \<not> there then io_return (Inr ())
       else io_bind (io_attempt (recover_journal env)) (\<lambda>r.
         io_return (case r of Inr _ \<Rightarrow> Inr () | Inl e \<Rightarrow> Inl (exn_error RepoRecoveryRequired ''repository recovery failed: '' e))))"

section \<open>Loading\<close>

definition initialize_fresh_locked :: "repository_env \<Rightarrow> (repo_error + unit) rio" where
  "initialize_fresh_locked env =
     (case serialize_application_config_document (re_codec env) default_application_settings of
        Inl e \<Rightarrow> io_return (Inl (RepoInvalidDocument, e))
      | Inr new_config \<Rightarrow>
          (let absent = \<lparr>st_exists = False, st_bytes = []\<rparr>;
               j = \<lparr>rj_kind = ''initialize'', rj_old_config = absent, rj_new_config = new_config, rj_old_database = False, rj_old_revision = 0,
                    rj_target_revision = 0, rj_old_migration = None, rj_target_migration = None, rj_old_sha256 = None, rj_target_sha256 = None,
                    rj_backup = None\<rparr>
           in io_catch
             (io_then (write_journal env j)
             (io_then (write_atomic_file (config_path env) new_config)
             (io_bind (open_or_create (re_text env) (database_path env)) (\<lambda>r.
                case r of
                  Inl (f, e) \<Rightarrow>
                    io_then (remove_database_family (database_path env))
                    (io_then (restore_config env absent)
                    (io_then (clear_journal env []) (io_return (Inl (map_profile_failure f, e)))))
                | Inr s \<Rightarrow>
                    if ps_revision s \<noteq> 0 \<or> ps_profiles s \<noteq> [] then repo_fail RepoCorrupt ''fresh profile database is not empty''
                    else io_then (clear_journal env []) (io_return (Inr ()))))))
             (\<lambda>e. case e of RepositoryError f t \<Rightarrow> io_return (Inl (f, t)) | StdException t \<Rightarrow> io_raise e)))"

text \<open>The members of the repository object.\<close>

record repository =
  rs_snapshot :: configuration_snapshot
  rs_document :: config_document
  rs_loaded :: bool
  rs_failure :: repo_failure

definition application_root :: "repository_env \<Rightarrow> fs_path" where
  "application_root env = \<lparr>fs_rooted = True, fs_names = ap_root (re_paths env)\<rparr>"

definition adopt_snapshot :: "repository_env \<Rightarrow> configuration_snapshot \<Rightarrow> repository \<Rightarrow> string + repository" where
  "adopt_snapshot env s rs =
     (case configuration_snapshot_to_config_document (re_text env) s of
        Inl f \<Rightarrow> Inl (failure_detail f) | Inr document \<Rightarrow> Inr (rs\<lparr>rs_snapshot := s, rs_document := document, rs_loaded := True\<rparr>))"

definition migration_hint :: string where
  "migration_hint = ''ccs-trans.config/v2 requires explicit '' @ [CHR 0x27] @ ''ccs-trans storage migrate'' @ [CHR 0x27]"

definition read_ready :: "repository_env \<Rightarrow> repository \<Rightarrow> configuration_snapshot rio" where
  "read_ready env rs =
     io_bind (read_config_source env) (\<lambda>source.
       if \<not> st_exists source then repo_fail RepoRecoveryRequired ''config.json is missing while profiles.db exists''
       else case detect_config_schema (re_codec env) (st_bytes source) of
         Inl e \<Rightarrow> repo_fail RepoInvalidDocument e
       | Inr SchemaV2 \<Rightarrow> repo_fail RepoMigrationRequired migration_hint
       | Inr SchemaUnsupported \<Rightarrow> repo_fail RepoUnsupportedSchema ''unsupported config schema_version''
       | Inr SchemaV3 \<Rightarrow>
           (case parse_application_config_document (re_codec env) (st_bytes source) of
              Inl e \<Rightarrow> repo_fail RepoInvalidDocument e
            | Inr settings \<Rightarrow>
                io_bind (read_database_state env False) (\<lambda>database.
                  if \<not> ds_exists database then repo_fail RepoRecoveryRequired ''profiles.db is missing for v3 config''
                  else io_return \<lparr>cs_application = settings, cs_profiles = ps_profiles (ds_snapshot database),
                         cs_revision = \<lparr>rv_source = source, rv_profiles = ps_revision (ds_snapshot database)\<rparr>,
                         cs_migrated = ps_migrated (ds_snapshot database)\<rparr>)))"

text \<open>An exception after the snapshot was set keeps it.\<close>

definition load_ready_locked :: "repository_env \<Rightarrow> repository \<Rightarrow> (repository \<times> (repo_error + unit)) rio" where
  "load_ready_locked env rs =
     io_bind (read_ready env rs) (\<lambda>s.
       io_return (case adopt_snapshot env s rs of
         Inl e \<Rightarrow> (rs\<lparr>rs_snapshot := s\<rparr>, Inl (RepoInvalidDocument, e))
       | Inr rs' \<Rightarrow> (rs', Inr ())))"

definition failed :: "repository \<Rightarrow> repo_error \<Rightarrow> repository \<times> (string + 'a)" where
  "failed rs e = (rs\<lparr>rs_failure := fst e\<rparr>, Inl (snd e))"

text \<open>The frame of the public methods: directories, lock, recovery, then the work; every exception
  becomes a failure. \<open>work\<close> returns the object with the error or the value.\<close>

definition locked :: "repository_env \<Rightarrow> repository \<Rightarrow> string \<Rightarrow> unit rio \<Rightarrow> (repository \<times> (repo_error + 'a)) rio
    \<Rightarrow> (database, 'e, repository \<times> (string + 'a)) io" where
  "locked env rs text prepare work =
     io_bind (io_attempt
         (io_bind (ensure_app_directories (re_paths env)) (\<lambda>r.
          case r of
            Inl e \<Rightarrow> repo_fail RepoIo e
          | Inr _ \<Rightarrow>
              io_then prepare
              (io_then (acquire_lock (ap_repository_lock_file (re_paths env)))
              (io_bind (recover_locked env) (\<lambda>r.
                case r of Inl e \<Rightarrow> io_return (rs, Inl e) | Inr _ \<Rightarrow> work))))))
       (\<lambda>r. io_return (case r of
          Inl e \<Rightarrow> failed rs (exn_error RepoIo text e)
        | Inr (rs', Inl e) \<Rightarrow> failed rs' e
        | Inr (rs', Inr x) \<Rightarrow> (rs', Inr x)))"

definition repository_load :: "repository_env \<Rightarrow> repository \<Rightarrow> (database, 'e, repository \<times> (string + unit)) io" where
  "repository_load env rs =
     (let rs = rs\<lparr>rs_failure := RepoNone, rs_loaded := False\<rparr> in
      locked env rs ''failed to load composite repository: '' (io_return ())
        (io_bind (read_config_source env) (\<lambda>source.
         io_bind (path_exists (database_path env)) (\<lambda>database.
         io_bind (if \<not> st_exists source \<and> \<not> database then initialize_fresh_locked env else io_return (Inr ())) (\<lambda>r.
           case r of Inl e \<Rightarrow> io_return (rs, Inl e) | Inr _ \<Rightarrow> load_ready_locked env rs)))))"

section \<open>Saving\<close>

definition commit_journal :: "repository_env \<Rightarrow> configuration_snapshot \<Rightarrow> string \<Rightarrow> repository_journal" where
  "commit_journal env s new_config =
     \<lparr>rj_kind = ''commit'', rj_old_config = rv_source (cs_revision s), rj_new_config = new_config, rj_old_database = True,
      rj_old_revision = rv_profiles (cs_revision s), rj_target_revision = rv_profiles (cs_revision s) + 1, rj_old_migration = cs_migrated s,
      rj_target_migration = cs_migrated s, rj_old_sha256 = None, rj_target_sha256 = None, rj_backup = None\<rparr>"

text \<open>\<^verbatim>\<open>catch (...)\<close> after the journal was written: the journal that is still there is recovered from.\<close>

definition recover_after :: "repository_env \<Rightarrow> 'a rio \<Rightarrow> 'a rio" where
  "recover_after env a =
     io_catch a (\<lambda>e.
       io_bind (path_exists (journal_path env)) (\<lambda>there.
         if \<not> there then io_raise e
         else io_bind (recover_locked env) (\<lambda>r.
           case r of Inl (_, t) \<Rightarrow> io_raise (recovery_error t) | Inr _ \<Rightarrow> io_raise e)))"

definition commit_both :: "repository_env \<Rightarrow> repository_journal \<Rightarrow> store_snapshot \<Rightarrow> store_snapshot rio" where
  "commit_both env j desired =
     io_then (write_journal env j)
     (recover_after env
       (io_then (write_atomic_file (config_path env) (rj_new_config j))
       (io_bind (store_save (re_text env) (database_path env) desired) (\<lambda>r.
          case r of
            Inl (f, e) \<Rightarrow>
              io_then (restore_config env (rj_old_config j)) (io_then (clear_journal env []) (repo_fail (map_profile_failure f) e))
          | Inr saved \<Rightarrow> io_then (clear_journal env []) (io_return saved)))))"

text \<open>The stores of a loaded repository are brought to the desired state; nothing is returned when they
  are in it.\<close>

definition commit_changes :: "repository_env \<Rightarrow> configuration_snapshot \<Rightarrow> configuration_snapshot \<Rightarrow> configuration_snapshot option rio" where
  "commit_changes env current desired =
     (if cs_revision current \<noteq> cs_revision desired then repo_fail RepoStale ''composite repository revision changed''
      else if cs_migrated current \<noteq> cs_migrated desired then repo_fail RepoInvalidDocument ''migration origin is immutable''
      else case serialize_application_config_document (re_codec env) (cs_application desired) of
        Inl e \<Rightarrow> repo_fail RepoInvalidDocument e
      | Inr new_config \<Rightarrow>
          (let config_changed = (st_bytes (rv_source (cs_revision current)) \<noteq> new_config);
               profiles_changed = (cs_profiles current \<noteq> cs_profiles desired);
               desired_profiles = \<lparr>ps_revision = rv_profiles (cs_revision current), ps_migrated = cs_migrated current, ps_profiles = cs_profiles desired\<rparr>;
               result = (\<lambda>saved config. Some \<lparr>cs_application = cs_application desired, cs_profiles = ps_profiles saved,
                   cs_revision = \<lparr>rv_source = \<lparr>st_exists = True, st_bytes = config\<rparr>, rv_profiles = ps_revision saved\<rparr>, cs_migrated = ps_migrated saved\<rparr>)
           in if \<not> config_changed \<and> \<not> profiles_changed then io_return None
              else if config_changed \<and> profiles_changed
              then io_bind (commit_both env (commit_journal env current new_config) desired_profiles) (\<lambda>saved. io_return (result saved new_config))
              else if config_changed
              then io_then (write_atomic_file (config_path env) new_config)
                     (io_return (result (desired_profiles\<lparr>ps_profiles := cs_profiles current\<rparr>) new_config))
              else io_bind (store_save (re_text env) (database_path env) desired_profiles) (\<lambda>r.
                     io_bind (store_result r) (\<lambda>saved. io_return (result saved (st_bytes (rv_source (cs_revision current))))))))"

definition save_ready :: "repository_env \<Rightarrow> configuration_snapshot \<Rightarrow> repository \<Rightarrow> (repository \<times> (repo_error + configuration_snapshot)) rio" where
  "save_ready env desired rs =
     io_bind (load_ready_locked env rs) (\<lambda>(rs, r).
       case r of
         Inl e \<Rightarrow> io_return (rs, Inl e)
       | Inr _ \<Rightarrow>
           io_bind (io_attempt (commit_changes env (rs_snapshot rs) desired)) (\<lambda>r.
             io_return (case r of
               Inl e \<Rightarrow> (rs, Inl (exn_error RepoIo ''failed to save composite repository: '' e))
             | Inr None \<Rightarrow> (rs, Inr (rs_snapshot rs))
             | Inr (Some s) \<Rightarrow>
                 (case adopt_snapshot env s rs of
                    Inl e \<Rightarrow> (rs\<lparr>rs_snapshot := s\<rparr>, Inl (RepoCorrupt, e))
                  | Inr rs' \<Rightarrow> (rs', Inr s)))))"

definition save_snapshot ::
    "repository_env \<Rightarrow> configuration_snapshot \<Rightarrow> repository \<Rightarrow> (database, 'e, repository \<times> (string + configuration_snapshot)) io" where
  "save_snapshot env desired rs =
     (let rs = rs\<lparr>rs_failure := RepoNone\<rparr>;
          valid = res_bind (validate_application_settings (cs_application desired)) (\<lambda>_.
            case configuration_snapshot_to_config_document (re_text env) desired of
              Inl f \<Rightarrow> Inl (failure_detail f)
            | Inr document \<Rightarrow> validate_config_candidate document (application_root env))
      in case valid of
           Inl e \<Rightarrow> io_return (failed rs (RepoInvalidDocument, e))
         | Inr _ \<Rightarrow> locked env rs ''failed to save composite repository: '' (io_return ()) (save_ready env desired rs))"

definition repository_save :: "repository_env \<Rightarrow> config_document \<Rightarrow> repository \<Rightarrow> (database, 'e, repository \<times> (string + configuration_snapshot)) io" where
  "repository_save env document rs =
     (if \<not> rs_loaded rs then io_return (failed rs (RepoNotLoaded, ''composite repository must be loaded before saving''))
      else case config_document_to_stored_profiles (re_text env) document of
        Inl e \<Rightarrow> io_return (failed rs (RepoInvalidDocument, e))
      | Inr converted \<Rightarrow>
          save_snapshot env ((rs_snapshot rs)\<lparr>cs_application := application document,
              cs_profiles := merge_stable_keys (cs_profiles (rs_snapshot rs)) converted\<rparr>) rs)"

section \<open>Inspection and verification\<close>

datatype storage_state = StorageUninitialized | StorageMigrationRequired | StorageReady | StorageRecoveryRequired | StorageInvalid

definition storage_state_name :: "storage_state \<Rightarrow> string" where
  "storage_state_name s =
     (case s of StorageUninitialized \<Rightarrow> ''uninitialized'' | StorageMigrationRequired \<Rightarrow> ''migration_required'' | StorageReady \<Rightarrow> ''ready''
      | StorageRecoveryRequired \<Rightarrow> ''recovery_required'' | StorageInvalid \<Rightarrow> ''invalid'')"

record repository_status =
  ss_state :: storage_state
  ss_revision :: int
  ss_migrated :: "string option"
  ss_detail :: string

definition status_of :: "storage_state \<Rightarrow> string \<Rightarrow> repository_status" where
  "status_of s detail = \<lparr>ss_state = s, ss_revision = 0, ss_migrated = None, ss_detail = detail\<rparr>"

definition inspect_stores :: "repository_env \<Rightarrow> repository_status rio" where
  "inspect_stores env =
     io_bind (read_config_source env) (\<lambda>source.
     io_bind (path_exists (database_path env)) (\<lambda>database.
       if \<not> st_exists source
       then io_return (if database then status_of StorageRecoveryRequired ''config.json is missing while profiles.db exists''
                       else status_of StorageUninitialized [])
       else case detect_config_schema (re_codec env) (st_bytes source) of
         Inl e \<Rightarrow> io_return (status_of StorageInvalid e)
       | Inr SchemaV2 \<Rightarrow> io_return (status_of StorageMigrationRequired ''explicit migration is required'')
       | Inr SchemaUnsupported \<Rightarrow> io_return (status_of StorageInvalid ''unsupported config schema_version'')
       | Inr SchemaV3 \<Rightarrow>
           if \<not> database then io_return (status_of StorageRecoveryRequired ''profiles.db is missing for v3 config'')
           else io_bind (read_database_state env False) (\<lambda>state.
             io_return \<lparr>ss_state = StorageReady, ss_revision = ps_revision (ds_snapshot state), ss_migrated = ps_migrated (ds_snapshot state), ss_detail = []\<rparr>)))"

text \<open>A recovery that fails also sets the status, as far as the caller looks at it.\<close>

definition inspect_storage :: "repository_env \<Rightarrow> repository \<Rightarrow> (database, 'e, repository \<times> (string + repository_status)) io" where
  "inspect_storage env rs =
     (let rs = rs\<lparr>rs_failure := RepoNone\<rparr> in
      locked env rs ''failed to inspect storage: '' (io_return ()) (io_bind (inspect_stores env) (\<lambda>s. io_return (rs, Inr s))))"

definition verify_stores :: "repository_env \<Rightarrow> repository \<Rightarrow> (repository \<times> (repo_error + unit)) rio" where
  "verify_stores env rs =
     io_bind (read_config_source env) (\<lambda>source.
     io_bind (path_exists (database_path env)) (\<lambda>database.
       if \<not> st_exists source \<and> \<not> database then repo_fail RepoNotLoaded ''repository storage is uninitialized''
       else if \<not> st_exists source \<or> \<not> database
       then repo_fail RepoRecoveryRequired ''config.json and profiles.db must both exist for verification''
       else case detect_config_schema (re_codec env) (st_bytes source) of
         Inl e \<Rightarrow> repo_fail RepoInvalidDocument e
       | Inr SchemaV2 \<Rightarrow> repo_fail RepoMigrationRequired migration_hint
       | Inr SchemaUnsupported \<Rightarrow> repo_fail RepoUnsupportedSchema ''unsupported config schema_version''
       | Inr SchemaV3 \<Rightarrow>
           io_bind (load_ready_locked env rs) (\<lambda>(rs, r).
             case r of
               Inl e \<Rightarrow> io_return (rs, Inl e)
             | Inr _ \<Rightarrow>
                 io_bind (store_verify (re_text env) (database_path env)) (\<lambda>v.
                   io_return (rs, case v of Inl (f, e) \<Rightarrow> Inl (map_profile_failure f, e) | Inr _ \<Rightarrow> Inr ())))))"

definition verify_storage :: "repository_env \<Rightarrow> repository \<Rightarrow> (database, 'e, repository \<times> (string + unit)) io" where
  "verify_storage env rs =
     (let rs = rs\<lparr>rs_failure := RepoNone, rs_loaded := False\<rparr> in
      locked env rs ''failed to verify repository storage: '' (io_return ()) (verify_stores env rs))"

section \<open>Migration\<close>

datatype migration_outcome = Migrated | AlreadyMigrated

text \<open>The database that is to replace the old one, made under a temporary name.\<close>

definition import_profiles :: "repository_env \<Rightarrow> location \<Rightarrow> stored_profile list \<Rightarrow> string \<Rightarrow> (store_snapshot \<times> string) rio" where
  "import_profiles env tmp ps source_hash =
     (let jt = re_text env;
          drop_and_fail = (\<lambda>f e. io_then (remove_database_family tmp) (repo_fail f e)) in
      io_bind (path_exists tmp) (\<lambda>there.
        if there then repo_fail RepoRecoveryRequired ''profiles.db.migrating already exists and requires inspection''
        else io_bind (open_or_create jt tmp) (\<lambda>r. io_bind (store_result r) (\<lambda>empty.
          io_bind (store_save jt tmp (empty\<lparr>ps_profiles := ps\<rparr>)) (\<lambda>r.
            case r of
              Inl (f, e) \<Rightarrow> drop_and_fail (map_profile_failure f) e
            | Inr _ \<Rightarrow>
                io_bind (mark_migrated jt tmp ''ccs-trans.config/v2'' source_hash) (\<lambda>r.
                  case r of
                    Inl (f, e) \<Rightarrow> drop_and_fail (map_profile_failure f) e
                  | Inr imported \<Rightarrow>
                      io_bind (checkpoint_for_move jt tmp) (\<lambda>r.
                        case r of
                          Inl (f, e) \<Rightarrow> drop_and_fail (map_profile_failure f) e
                        | Inr _ \<Rightarrow>
                            io_bind (file_sha256 tmp) (\<lambda>h.
                              case h of Inl e \<Rightarrow> drop_and_fail RepoIo e | Inr sha \<Rightarrow> io_return (imported, sha)))))))))"

text \<open>The backup of a database that is to be replaced: what it held, the name and the hash.\<close>

definition backup_old_database :: "repository_env \<Rightarrow> string \<Rightarrow> (database_state \<times> string \<times> string) rio" where
  "backup_old_database env source_hash =
     (let p = database_path env in
      io_bind (inspect_database_sidecars p) (\<lambda>before.
      io_bind (read_database_state env False) (\<lambda>old.
      io_bind (checkpoint_for_move (re_text env) p) (\<lambda>r.
      io_bind (store_result r) (\<lambda>_.
      io_bind (inspect_database_sidecars p) (\<lambda>after.
      io_bind (write_database_replacement_backup env source_hash old before after) (\<lambda>(name, sha). io_return (old, name, sha))))))))"

definition publish_migration :: "repository_env \<Rightarrow> location \<Rightarrow> repository_journal \<Rightarrow> unit rio" where
  "publish_migration env tmp j =
     io_then (io_catch (write_journal env j) (\<lambda>e. io_then (remove_database_family tmp) (io_raise e)))
     (recover_after env
       (io_then (write_atomic_file (config_path env) (rj_new_config j))
       (io_then (if rj_old_database j
                 then io_then (remove_database_sidecars (database_path env)) (replace_file tmp (database_path env))
                 else move_file_no_replace tmp (database_path env))
         (clear_journal env (rj_kind j)))))"

definition migrate_document :: "repository_env \<Rightarrow> bool \<Rightarrow> source_token \<Rightarrow> (config_document \<times> location option) rio" where
  "migrate_document env replace source =
     io_bind (path_exists (database_path env)) (\<lambda>replacing.
       if replacing \<and> \<not> replace
       then repo_fail RepoConstraint ''profiles.db already exists; refusing to overwrite it during migration''
       else case res_bind (parse_config_document (jc_parse (re_codec env)) (st_bytes source)) (\<lambda>legacy.
                   res_bind (validate_config_candidate legacy (application_root env)) (\<lambda>_.
                   res_map (\<lambda>ps. (legacy, ps)) (config_document_to_stored_profiles (re_text env) legacy))) of
         Inl e \<Rightarrow> repo_fail RepoInvalidDocument e
       | Inr (legacy, ps) \<Rightarrow>
           (let source_hash = sha256_hex (st_bytes source); tmp = with_suffix (database_path env) ''.migrating'' in
            io_then (write_migration_backup env (st_bytes source) source_hash)
            (io_bind (if replacing then io_bind (backup_old_database env source_hash) (\<lambda>b. io_return (Some b)) else io_return None) (\<lambda>backup.
             io_bind (import_profiles env tmp ps source_hash) (\<lambda>(imported, target_sha).
               case serialize_application_config_document (re_codec env) (application legacy) of
                 Inl e \<Rightarrow> io_then (remove_database_family tmp) (repo_fail RepoInvalidDocument e)
               | Inr new_config \<Rightarrow>
                   io_then (publish_migration env tmp
                     \<lparr>rj_kind = ''migration'', rj_old_config = source, rj_new_config = new_config, rj_old_database = replacing,
                      rj_old_revision = (case backup of None \<Rightarrow> 0 | Some (old, _) \<Rightarrow> ps_revision (ds_snapshot old)),
                      rj_target_revision = ps_revision imported,
                      rj_old_migration = (case backup of None \<Rightarrow> None | Some (old, _) \<Rightarrow> ps_migrated (ds_snapshot old)),
                      rj_target_migration = Some source_hash,
                      rj_old_sha256 = map_option (\<lambda>(_, _, sha). sha) backup, rj_target_sha256 = Some target_sha,
                      rj_backup = map_option (\<lambda>(_, name, _). name) backup\<rparr>)
                   (io_return (legacy, map_option (\<lambda>(_, name, _). ap_migrations_directory (re_paths env) @ [name]) backup)))))))"

definition migrate_stores :: "repository_env \<Rightarrow> bool \<Rightarrow> repository \<Rightarrow> (repository \<times> (repo_error + migration_outcome \<times> location option)) rio" where
  "migrate_stores env replace rs =
     io_bind (read_config_source env) (\<lambda>source.
       if \<not> st_exists source then repo_fail RepoNotLoaded ''config.json does not exist''
       else case detect_config_schema (re_codec env) (st_bytes source) of
         Inl e \<Rightarrow> repo_fail RepoInvalidDocument e
       | Inr SchemaV3 \<Rightarrow>
           io_bind (load_ready_locked env rs) (\<lambda>(rs, r).
             io_return (rs, case r of
               Inl e \<Rightarrow> Inl e
             | Inr _ \<Rightarrow> if cs_migrated (rs_snapshot rs) = None then Inl (RepoConstraint, ''v3 repository was not created by v2 migration'')
                         else Inr (AlreadyMigrated, None)))
       | Inr SchemaUnsupported \<Rightarrow> repo_fail RepoUnsupportedSchema ''unsupported config schema_version''
       | Inr SchemaV2 \<Rightarrow>
           io_bind (migrate_document env replace source) (\<lambda>(legacy, backup).
           io_bind (load_ready_locked env rs) (\<lambda>(rs, r).
             io_return (rs, case r of
               Inl e \<Rightarrow> Inl e
             | Inr _ \<Rightarrow>
                 (case (serialize_config_document (jc_pretty (re_codec env)) legacy, serialize_config_document (jc_pretty (re_codec env)) (rs_document rs)) of
                    (Inr before, Inr after) \<Rightarrow> if before = after then Inr (Migrated, backup) else Inl (RepoCorrupt, ''v2 migration semantic round-trip failed'')
                  | _ \<Rightarrow> Inl (RepoCorrupt, ''v2 migration semantic round-trip failed''))))))"

definition migrate_v2 :: "repository_env \<Rightarrow> bool \<Rightarrow> repository \<Rightarrow> (database, 'e, repository \<times> (string + migration_outcome \<times> location option)) io" where
  "migrate_v2 env replace rs =
     (let rs = rs\<lparr>rs_failure := RepoNone, rs_loaded := False\<rparr> in
      locked env rs ''failed to migrate v2 repository: ''
        (require (io_error ''failed to create migration directory: '') (fs_create_directories (ap_migrations_directory (re_paths env))))
        (migrate_stores env replace rs))"

end
