(* ===== verification/Spec2Isabelle.thy ===== *)
theory Spec2Isabelle
  imports Url Budget ConfigJson Compiler Replication LogStore HttpServer ServerPool
    Repository
begin

text \<open>
  Verification of the core of cc-switch-trans, a local proxy that takes the HTTP requests of LLM
  clients, rewrites their JSON bodies by configurable rules and passes them on to upstream services.

  \<^bold>\<open>The program.\<close> A configuration document (\<^verbatim>\<open>src/config\<close>) names profiles: a protocol, local paths, an upstream,
  and rules. The runtime compiler turns the selected profiles into a snapshot: protocol handlers, compiled
  rule pipelines and a route table. The server (\<^verbatim>\<open>src/server/server.cpp\<close>) accepts connections, reads a request,
  looks up its route, runs the rules on the body, forwards the result through a transport and passes
  the answer back, in one piece or as a stream. All memory of requests is taken from one budget
  (\<^verbatim>\<open>src/core/inflight_memory_budget.cpp\<close>) that lives in the runtime metrics; a logger with a bounded queue
  and a writer thread records what happens. On Windows a tray process serves its state to a GUI over a
  framed channel (\<^verbatim>\<open>src/gui_ipc\<close>, \<^verbatim>\<open>src/hosts/windows/gui_bridge\<close>).

  \<^bold>\<open>Theories.\<close> Each theory opens with its own summary; definitions carry the names of the code.
  \<^item> \<open>Prelude\<close>: results (\<open>'a res\<close>, error text or value), characters, numerals, search in strings.
    \<open>Stores\<close>: the interfaces of keyed stores and registries as locales. \<open>Json\<close>: JSON values with ordered
    members, as nlohmann::json has them. \<open>FsPath\<close>: lexical operations of std::filesystem::path.
  \<^item> \<open>Url\<close> (\<^verbatim>\<open>core/url.cpp\<close>): URLs, canonical paths. A canonical path has no dot segments or doubled separators,
    and canonicalisation is idempotent; printing and parsing of URLs are inverse.
  \<^item> \<open>Metrics\<close>, \<open>Budget\<close> (\<^verbatim>\<open>core/runtime_metrics.cpp\<close>, \<^verbatim>\<open>core/inflight_memory_budget.cpp\<close>): every counter
    as a 64-bit word; leases; the compare-exchange loops of any number of threads as interleaved steps. The
    budget is never exceeded and its count is the sum of the live leases. The locale \<open>byte_budget\<close> is the
    contract the other components rely on.
  \<^item> \<open>ConfigModel\<close>, \<open>ConfigJson\<close> (\<^verbatim>\<open>config/config_document.cpp\<close>): the document, every validation with its message,
    parsing and printing. What is accepted respects every bound; a printed document parses back.
  \<^item> \<open>Protocols\<close>, \<open>Rules\<close>, \<open>Pipeline\<close>, \<open>Routing\<close>, \<open>Compiler\<close> (\<^verbatim>\<open>protocols\<close>, \<^verbatim>\<open>rules\<close>, \<^verbatim>\<open>routing\<close>,
    \<^verbatim>\<open>config/runtime_compiler.cpp\<close>): handlers, the three rule types, pipelines with the allocations of the JSON
    library as a parameter, the route table as a map from method and canonical path, and compilation.
  \<^item> \<open>ApplicationConfig\<close>, \<open>Sha256\<close> (\<^verbatim>\<open>config/application_config.cpp\<close>, \<^verbatim>\<open>core/sha256.cpp\<close>): the v3 settings file,
    which is read back as it was written, and the buffered hash, which is the block hash of FIPS 180-4 for any chunks.
  \<^item> \<open>Disk\<close>, \<open>ProfileStore\<close>, \<open>ProfileSave\<close> (\<^verbatim>\<open>storage/sqlite_profile_store.cpp\<close>): a disk on which every call may
    fail and the process may end at any call, with rules for what holds of the disk then; the profile database, its tables,
    checks and statements. A save is atomic for every schedule of faults.
  \<^item> \<open>ConfigSnapshot\<close>, \<open>ConfigEditing\<close> (\<^verbatim>\<open>config/configuration_snapshot.cpp\<close>,
    \<^verbatim>\<open>config/config_editing_service.cpp\<close>): settings and stored profiles as one value, its conversions, which are inverse,
    the keys an edited document keeps, the check of a candidate and the service that edits a draft.
  \<^item> \<open>DurableFiles\<close>, \<open>Repository\<close> (\<^verbatim>\<open>config/composite_config_repository.cpp\<close>, \<^verbatim>\<open>config/app_paths.cpp\<close>): the
    durable file operations, the journal of a change of both stores, recovery, loading, saving, inspection and migration.
  \<^item> \<open>LogRecord\<close>, \<open>Logger\<close>, \<open>LogStore\<close> (\<^verbatim>\<open>logging/logger.cpp\<close>): the line of a record and what of it
    is visible; the queue and its writer under any interleaving; the log files under any failures. The logger is
    proved against the locale \<open>line_sink\<close>, which the files are an instance of.
  \<^item> \<open>HttpMessage\<close>, \<open>HttpReceive\<close>, \<open>HttpServer\<close>, \<open>ServerPool\<close> (\<^verbatim>\<open>server/server.cpp\<close>,
    \<^verbatim>\<open>transport/header_filter.cpp\<close>): heads, headers and lengths; reading a request in any chunks; handling it, for any
    transport, sender and rules; the threads, the registry of connections and the replacement of the configuration.
  \<^item> \<open>FrameCodec\<close>, \<open>GuiTypes\<close>, \<open>Session\<close>, \<open>Replication\<close> (\<^verbatim>\<open>gui_ipc\<close>, \<^verbatim>\<open>hosts/windows/gui_bridge\<close>,
    \<^verbatim>\<open>gui/windows\<close>): frames, wire names, the session protocol, and the replication of the state
    to the client by snapshots and deltas.

  \<^bold>\<open>How components meet.\<close> \<open>Pipeline\<close>, \<open>Logger\<close>, \<open>HttpReceive\<close> and \<open>HttpServer\<close> use the leases of \<open>Budget\<close>; their
  theorems say that the budget is balanced, and \<open>HttpServer\<close> composes them over a whole connection. \<open>HttpServer\<close>
  looks routes up in \<open>Routing\<close> and applies the pipelines that \<open>Compiler\<close> made. \<open>Replication\<close> runs over \<open>Session\<close> and \<open>GuiTypes\<close>.

  \<^bold>\<open>Conventions.\<close> Exceptions and error returns are values of sums; size_t that cannot reach its limit is
  \<^typ>\<open>nat\<close>, everything whose wrap-around matters is a word. Threads are steps of an event list: code under one
  mutex is one step, and a step that is not enabled changes nothing, so that a list of events is any
  interleaving. Inputs from outside (bytes of a socket, results of system calls, readings of the
  clock, what a transport does) are lists or trees the theorems quantify over. There is no fuel: every loop
  recurses on the data it consumes or on a list of outcomes.

  \<^bold>\<open>Not modelled.\<close> The transports on WinHTTP and libcurl, sockets and the hosts are calls into systems outside the
  repository; the Windows branches of the file operations and the access rights of files are left out, and SQLite is modelled by
  its tables. Planned next: the configuration editor and the text form of rules, the control executor, cancellation, and the
  JSON codecs of the GUI channel, which are parameters of \<open>Replication\<close>.
\<close>

end
